(* ===== verification/Dmr_Prelude.thy ===== *)
theory Dmr_Prelude
  imports Main "HOL-Library.Word" "HOL-Library.Monad_Syntax"
begin

unbundle bit_operations_syntax

text \<open>
  Shared vocabulary of the dmrlib development.

  The C code is embedded as follows.  A C array is a list; a struct is a \<open>record\<close>; an
  enum is a \<open>datatype\<close>; \<open>uint8_t\<close>, \<open>uint16_t\<close> and \<open>uint32_t\<close> are words of that width.  A
  pointer parameter that the function compares with \<open>NULL\<close> is an \<open>option\<close>.

  A C function that can run into undefined behaviour (an array access out of range) or
  that need not return is a function into \<open>'a option\<close>: \<open>None\<close> is "no defined result".
  A function that reports an error code is a function into \<open>failure + 'a\<close>: \<open>Inl (Errno e)\<close>
  is \<open>return dmr_error(e)\<close> and \<open>Inl Fail\<close> is a plain \<open>return -1\<close>; both are the value -1 for
  a caller, and \<open>Inr\<close> is \<open>return 0\<close> with the values written through the pointers.
\<close>

section \<open>Machine integers and failures\<close>

type_synonym u8 = "8 word"
type_synonym u16 = "16 word"
type_synonym u32 = "32 word"
type_synonym u64 = "64 word"

text \<open>\<open>dmr_errno\<close> of \<open>include/dmr/error.h\<close>.\<close>

datatype dmr_errno =
    DMR_ENOMEM
  | DMR_EINVAL
  | DMR_EWRITE
  | DMR_EREAD
  | DMR_ARG
  | DMR_UNSUPPORTED
  | DMR_LASTERROR

datatype failure = Errno dmr_errno | Fail

named_theorems dmr_simps \<open>unfolding rules of the model's small helpers\<close>
named_theorems dmr_len \<open>lengths of the arrays the model computes\<close>
named_theorems dmr_lin \<open>linearity over exclusive or\<close>

section \<open>Array accesses\<close>

text \<open>Reading or writing element \<open>i\<close> of a C array: undefined outside the array.\<close>

definition c_read :: "'a list \<Rightarrow> nat \<Rightarrow> 'a option" where
  "c_read xs i = (if i < length xs then Some (xs ! i) else None)"

definition c_write :: "'a list \<Rightarrow> nat \<Rightarrow> 'a \<Rightarrow> 'a list option" where
  "c_write xs i x = (if i < length xs then Some (xs[i := x]) else None)"

lemma c_read_in [simp]: "i < length xs \<Longrightarrow> c_read xs i = Some (xs ! i)"
  by (simp add: c_read_def)

lemma c_read_out [simp]: "length xs \<le> i \<Longrightarrow> c_read xs i = None"
  by (simp add: c_read_def)

lemma c_write_in [simp]: "i < length xs \<Longrightarrow> c_write xs i x = Some (xs[i := x])"
  by (simp add: c_write_def)

lemma c_write_out [simp]: "length xs \<le> i \<Longrightarrow> c_write xs i x = None"
  by (simp add: c_write_def)

text \<open>\<open>memcpy (dst + off, src, length src)\<close> inside \<open>dst\<close>.\<close>

definition blit :: "'a list \<Rightarrow> nat \<Rightarrow> 'a list \<Rightarrow> 'a list" where
  "blit dst off src = take off dst @ src @ drop (off + length src) dst"

lemma length_blit [simp, dmr_len]:
  "off + length src \<le> length dst \<Longrightarrow> length (blit dst off src) = length dst"
  by (simp add: blit_def)

lemma nth_blit:
  assumes "off + length src \<le> length dst" "i < length dst"
  shows "blit dst off src ! i =
    (if off \<le> i \<and> i < off + length src then src ! (i - off) else dst ! i)"
  using assms by (auto simp: blit_def nth_append min_def)

section \<open>Loops\<close>

text \<open>A \<open>for\<close> loop whose body may be undefined.\<close>

primrec foldo :: "('a \<Rightarrow> 's \<Rightarrow> 's option) \<Rightarrow> 'a list \<Rightarrow> 's \<Rightarrow> 's option" where
  "foldo f [] s = Some s"
| "foldo f (x # xs) s = (case f x s of None \<Rightarrow> None | Some s' \<Rightarrow> foldo f xs s')"

lemma foldo_append: "foldo f (xs @ ys) s = (case foldo f xs s of None \<Rightarrow> None | Some s' \<Rightarrow> foldo f ys s')"
  by (induction xs arbitrary: s) (auto split: option.splits)

lemma foldo_Some_fold:
  assumes "\<And>x s. x \<in> set xs \<Longrightarrow> P s \<Longrightarrow> f x s = Some (g x s) \<and> P (g x s)" and "P s"
  shows "foldo f xs s = Some (fold g xs s)"
  using assms by (induction xs arbitrary: s) auto

text \<open>
  A \<open>for\<close> loop whose body may also leave the loop: \<open>(False, s)\<close> is an early \<open>return\<close> in state
  \<open>s\<close>, \<open>(True, s)\<close> goes on.
\<close>

primrec foldc :: "('a \<Rightarrow> 's \<Rightarrow> (bool \<times> 's) option) \<Rightarrow> 'a list \<Rightarrow> 's \<Rightarrow> (bool \<times> 's) option" where
  "foldc f [] s = Some (True, s)"
| "foldc f (x # xs) s =
     (case f x s of None \<Rightarrow> None | Some (c, s') \<Rightarrow> if c then foldc f xs s' else Some (False, s'))"

lemma foldc_True_iff:
  assumes "\<And>x s'. x \<in> set xs \<Longrightarrow> f x s = Some (True, s') \<Longrightarrow> s' = s"
  shows "foldc f xs s = Some (True, s') \<longleftrightarrow> s' = s \<and> (\<forall>x \<in> set xs. f x s = Some (True, s))"
  using assms by (induction xs) (auto split: option.splits if_splits)

text \<open>The invariant rule for the pure loops.\<close>

lemma fold_inv:
  assumes "P s" and "\<And>x s. x \<in> set xs \<Longrightarrow> P s \<Longrightarrow> P (f x s)"
  shows "P (fold f xs s)"
  using assms by (induction xs arbitrary: s) auto

lemma length_fold_update [simp, dmr_len]:
  "length (fold (\<lambda>i ys. ys[g i := h i ys]) xs ys) = length ys"
  by (induction xs arbitrary: ys) auto

lemma nth_fold_update_in:
  assumes "inj_on f (set is)" "\<forall>i \<in> set is. f i < length d" "i \<in> set is"
  shows "fold (\<lambda>i d. d[f i := g i]) is d ! f i = g i"
proof -
  have "\<forall>i \<in> set is. fold (\<lambda>i d. d[f i := g i]) is d ! f i = g i"
    using assms(1,2)
  proof (induction "is" rule: rev_induct)
    case (snoc j js)
    then show ?case by (auto simp: nth_list_update inj_on_def)
  qed simp
  with assms(3) show ?thesis by simp
qed

lemma nth_fold_update_out:
  "k \<notin> f ` set is \<Longrightarrow> fold (\<lambda>i d. d[f i := g i]) is d ! k = d ! k"
  by (induction "is" arbitrary: d) auto

lemma fold_update_id:
  "\<forall>i \<in> set is. d ! f i = g i \<Longrightarrow> fold (\<lambda>i d. d[f i := g i]) is d = d"
proof (induction "is")
  case (Cons a "is")
  then have "d[f a := g a] = d" by (metis list.set_intros(1) list_update_id)
  with Cons show ?case by simp
qed simp

section \<open>Exclusive or of Boolean lists and words\<close>

definition bxor :: "bool \<Rightarrow> bool \<Rightarrow> bool" where
  "bxor a b = (a \<noteq> b)"

lemma bxor_simps [simp]:
  "bxor a a = False" "bxor False a = a" "bxor a False = a"
  "bxor True a = (\<not> a)" "bxor a True = (\<not> a)" "bxor a (bxor a b) = b"
  by (auto simp: bxor_def)

lemma bxor_assoc [dmr_lin]: "bxor (bxor a b) c = bxor a (bxor b c)"
  by (auto simp: bxor_def)

lemma bxor_commute: "bxor a b = bxor b a"
  by (auto simp: bxor_def)

lemma bxor_left_commute: "bxor a (bxor b c) = bxor b (bxor a c)"
  by (auto simp: bxor_def)

lemmas bxor_ac = bxor_assoc bxor_commute bxor_left_commute

text \<open>The number of set bits, the Hamming weight of a word.\<close>

definition weight :: "'a::len word \<Rightarrow> nat" where
  "weight w = length (filter (bit w) [0..<LENGTH('a)])"

lemma weight_card: "weight w = card {i. bit w i}"
proof -
  have "weight w = card {i. i < LENGTH('a) \<and> bit w i}" for w :: "'a word"
    by (simp add: weight_def length_filter_conv_card cong: conj_cong)
  moreover have "{i. i < LENGTH('a) \<and> bit w i} = {i. bit w i}"
    using bit_imp_le_length by blast
  ultimately show ?thesis by simp
qed

lemma finite_bits [simp]: "finite {i. bit w i}" for w :: "'a::len word"
  by (rule finite_subset [of _ "{..<LENGTH('a)}"]) (auto dest: bit_imp_le_length)

lemma weight_0_iff: "weight w = 0 \<longleftrightarrow> w = 0"
  by (auto simp: weight_card intro: bit_word_eqI)

lemma weight_clear: "bit w k \<Longrightarrow> weight w = Suc (weight (w XOR 2 ^ k))"
proof -
  assume k: "bit w k"
  then have "k < LENGTH('a)" by (rule bit_imp_le_length)
  then have "{i. bit (w XOR 2 ^ k) i} = {i. bit w i} - {k}"
    using k by (auto simp: bit_simps)
  with k card_Suc_Diff1 [of "{i. bit w i}" k] show ?thesis by (simp add: weight_card)
qed

lemma weight_mono: "(\<And>i. bit v i \<Longrightarrow> bit w i) \<Longrightarrow> weight v \<le> weight w" for v w :: "'a::len word"
  by (auto simp: weight_card intro: card_mono)

lemma word_xor_cancel [simp]: "(x XOR (x XOR y)) = (y :: 'a::len word)"
  by (simp flip: xor.assoc)

lemma word_xor_eq_0_iff [simp]: "x XOR y = 0 \<longleftrightarrow> x = (y :: 'a::len word)"
proof
  assume "x XOR y = 0"
  then have "x XOR (x XOR y) = x XOR 0" by simp
  then show "x = y" by simp
qed simp

lemma bit_times_2 [simp]:
  "bit (c * 2) n \<longleftrightarrow> n < LENGTH('a) \<and> 0 < n \<and> bit c (n - 1)" for c :: "'a::len word"
  using bit_double_iff [of c n] by (auto simp: mult.commute)

lemma unat_less_take_bit: "take_bit b w = w \<Longrightarrow> unat w < 2 ^ b" for w :: "'a::len word"
  by (metis take_bit_nat_less_exp unsigned_take_bit_eq)

lemma take_bit_of_less: "unat w < 2 ^ b \<Longrightarrow> take_bit b w = w" for w :: "'a::len word"
  by (rule word_unat_eq_iff [THEN iffD2]) (simp add: unsigned_take_bit_eq take_bit_nat_eq_self)

lemma bit_less_take_bit: "take_bit b w = w \<Longrightarrow> bit w m \<Longrightarrow> m < b" for w :: "'a::len word"
  by (metis bit_take_bit_iff)

lemma take_bit_eq_bits:
  "take_bit b x = take_bit b y \<longleftrightarrow> (\<forall>m < b. bit x m = bit y m)" for x y :: "'a::len word"
proof
  show "take_bit b x = take_bit b y \<Longrightarrow> \<forall>m < b. bit x m = bit y m"
    by (metis bit_take_bit_iff)
  show "\<forall>m < b. bit x m = bit y m \<Longrightarrow> take_bit b x = take_bit b y"
    by (rule bit_word_eqI) (auto simp: bit_take_bit_iff)
qed

lemma and_pow2: "w AND 2 ^ n = (if bit w n then 2 ^ n else 0)" for w :: "'a::len word"
  by (rule bit_word_eqI) (auto simp: bit_simps)

lemma and_pow2_nonzero: "(w AND 2 ^ n \<noteq> 0) = bit w n" for w :: "'a::len word"
  by (simp add: and_exp_eq_0_iff_not_bit)


section \<open>Bytes\<close>

lemma weight_zero [simp]: "weight 0 = 0"
  by (simp add: weight_0_iff)

lemma ucast_u16_u8 [simp]: "ucast (ucast b :: u16) = b" for b :: u8
  by (rule bit_word_eqI) (simp add: bit_simps)

lemma word_xor_left_cancel [simp]: "x XOR y = x XOR z \<longleftrightarrow> y = (z :: 'a::len word)"
  by (metis word_xor_cancel)

lemma u8_bit_bound: "bit w m \<Longrightarrow> m < 8" for w :: u8
  by (drule bit_imp_le_length) simp

lemma unat_u8_less: "unat w < 256" for w :: u8
  using unat_less_take_bit [of 8 w] by (simp add: take_bit_word_eq_self)

lemma and_mask_take_bit [dmr_simps]:
  "w AND 1 = take_bit 1 w" "w AND 3 = take_bit 2 w" "w AND 0x3f = take_bit 6 w" "w AND 0x0f = take_bit 4 w" "w AND 0x7f = take_bit 7 w" "w AND 0xff = take_bit 8 w"
  "w AND 0x1ff = take_bit 9 w" for w :: "'a::len word"
  by (simp_all add: take_bit_eq_mask mask_numeral mask_Suc_0)

lemma length_3_iff: "length xs = 3 \<longleftrightarrow> (\<exists>a b c. xs = [a, b, c])"
  by (auto simp: length_Suc_conv numeral_3_eq_3)

lemma fold_nth_take:
  assumes "n \<le> length w"
  shows "fold (\<lambda>i s. f (w ! i) s) [0..<n] s = fold f (take n w) s"
proof -
  have "take n w = map ((!) w) [0..<n]" using assms by (simp add: list_eq_iff_nth_eq)
  then show ?thesis by (simp add: fold_map o_def)
qed

end
