(* ===== verification/Dmr_Bits.thy ===== *)
theory Dmr_Bits
  imports Dmr_Prelude
begin

unbundle bit_operations_syntax

text \<open>
  \<open>src/dmr/bits.c\<close>: conversion between bytes and arrays of \<open>bool\<close>, most significant bit
  first.  The two array loops count in a \<open>uint16_t\<close>, so they do not end when the bound
  exceeds 65535; they write outside the destination or read outside the source when an
  array is shorter than the bound.  Both cases are \<open>None\<close>.
\<close>

section \<open>Definitions\<close>

definition dmr_byte_to_binary :: "u8 \<Rightarrow> string" where
  "dmr_byte_to_binary byte =
     concat (map (\<lambda>s. if byte AND s = s then ''1'' else ''0'')
       [128, 64, 32, 16, 8, 4, 2, 1])"

definition dmr_bits_to_byte :: "bool list \<Rightarrow> u8" where
  "dmr_bits_to_byte bits =
     fold (\<lambda>i val. if bits ! i then val OR push_bit (7 - i) 1 else val) [0..<8] 0"

definition dmr_byte_to_bits :: "u8 \<Rightarrow> bool list" where
  "dmr_byte_to_bits byte =
     [byte AND 128 > 0, byte AND 64 > 0, byte AND 32 > 0, byte AND 16 > 0,
      byte AND 8 > 0, byte AND 4 > 0, byte AND 2 > 0, byte AND 1 > 0]"

definition dmr_bits_to_bytes :: "bool list \<Rightarrow> nat \<Rightarrow> u8 list \<Rightarrow> nat \<Rightarrow> u8 list option" where
  "dmr_bits_to_bytes bits bits_length bytes bytes_length =
     (let n = min (bits_length div 8) bytes_length
      in if n \<le> 65535 \<and> 8 * n \<le> length bits \<and> n \<le> length bytes
         then Some (fold (\<lambda>i bs. bs[i := dmr_bits_to_byte (drop (i * 8) bits)]) [0..<n] bytes)
         else None)"

definition dmr_bytes_to_bits :: "u8 list \<Rightarrow> nat \<Rightarrow> bool list \<Rightarrow> nat \<Rightarrow> bool list option" where
  "dmr_bytes_to_bits bytes bytes_length bits bits_length =
     (let n = min (bits_length div 8) bytes_length
      in if n \<le> 65535 \<and> n \<le> length bytes \<and> 8 * n \<le> length bits
         then Some (fold (\<lambda>i bs. blit bs (i * 8) (dmr_byte_to_bits (bytes ! i))) [0..<n] bits)
         else None)"

section \<open>One byte\<close>

text \<open>Bit \<open>i\<close> of the array is bit \<open>7 - i\<close> of the byte, in both directions.\<close>

lemma length_dmr_byte_to_bits [simp, dmr_len]: "length (dmr_byte_to_bits b) = 8"
  by (simp add: dmr_byte_to_bits_def)

lemma dmr_byte_to_bits_map: "dmr_byte_to_bits b = map (\<lambda>i. bit b (7 - i)) [0..<8]"
proof -
  have *: "(b AND 2 ^ n > 0) = bit b n" for n
    by (simp add: word_neq_0_conv [symmetric] and_pow2_nonzero)
  show ?thesis
    using * [of 0] * [of 1] * [of 2] * [of 3] * [of 4] * [of 5] * [of 6] * [of 7]
    by (simp add: dmr_byte_to_bits_def upt_rec)
qed

lemma nth_dmr_byte_to_bits [simp]: "i < 8 \<Longrightarrow> dmr_byte_to_bits b ! i = bit b (7 - i)"
  by (simp add: dmr_byte_to_bits_map)

lemma bit_dmr_bits_to_byte_loop:
  "k \<le> 8 \<Longrightarrow>
   bit (fold (\<lambda>i val. if bits ! i then val OR push_bit (7 - i) 1 else val) [0..<k] (0::u8)) n
     \<longleftrightarrow> n < 8 \<and> 7 - n < k \<and> bits ! (7 - n)"
proof (induction k)
  case 0
  then show ?case by simp
next
  case (Suc k)
  have "bit (push_bit (7 - k) 1 :: u8) n \<longleftrightarrow> n = 7 - k"
    using Suc.prems by (auto simp: bit_simps)
  moreover have "n < 8 \<Longrightarrow> n = 7 - k \<longleftrightarrow> 7 - n = k"
    using Suc.prems by auto
  ultimately show ?case
    using Suc by (auto simp: bit_or_iff less_Suc_eq)
qed

lemma bit_dmr_bits_to_byte: "bit (dmr_bits_to_byte bits) n \<longleftrightarrow> n < 8 \<and> bits ! (7 - n)"
  by (auto simp: dmr_bits_to_byte_def bit_dmr_bits_to_byte_loop)

lemma dmr_bits_to_byte_to_bits [simp]: "dmr_bits_to_byte (dmr_byte_to_bits b) = b"
  by (rule bit_word_eqI) (simp add: bit_dmr_bits_to_byte)

lemma dmr_byte_to_bits_to_byte [simp]:
  "length bits = 8 \<Longrightarrow> dmr_byte_to_bits (dmr_bits_to_byte bits) = bits"
  by (rule nth_equalityI) (auto simp: bit_dmr_bits_to_byte)

lemma dmr_bits_to_byte_cong:
  "(\<And>i. i < 8 \<Longrightarrow> xs ! i = ys ! i) \<Longrightarrow> dmr_bits_to_byte xs = dmr_bits_to_byte ys"
  by (rule bit_word_eqI) (simp add: bit_dmr_bits_to_byte)

section \<open>Arrays\<close>

text \<open>The whole-array reading of the two loops.\<close>

definition bytes_bits :: "u8 list \<Rightarrow> bool list" where
  "bytes_bits bs = concat (map dmr_byte_to_bits bs)"

definition bits_bytes :: "bool list \<Rightarrow> u8 list" where
  "bits_bytes xs = map (\<lambda>i. dmr_bits_to_byte (drop (i * 8) xs)) [0..<length xs div 8]"

lemma length_bytes_bits [simp, dmr_len]: "length (bytes_bits bs) = 8 * length bs"
  by (induction bs) (auto simp: bytes_bits_def)

lemma length_bits_bytes [simp, dmr_len]: "length (bits_bytes xs) = length xs div 8"
  by (simp add: bits_bytes_def)

lemma nth_bytes_bits:
  "i < 8 * length bs \<Longrightarrow> bytes_bits bs ! i = bit (bs ! (i div 8)) (7 - i mod 8)"
proof (induction bs arbitrary: i)
  case Nil
  then show ?case by simp
next
  case (Cons b bs)
  show ?case
  proof (cases "i < 8")
    case True
    then show ?thesis by (simp add: bytes_bits_def nth_append)
  next
    case False
    then have "i div 8 = Suc ((i - 8) div 8)" and "(i - 8) mod 8 = i mod 8"
      by (simp_all add: div_if [of i] mod_if [of i])
    with False Cons show ?thesis by (simp add: bytes_bits_def nth_append)
  qed
qed

lemma bytes_to_bits_loop:
  "n \<le> length bytes \<Longrightarrow> 8 * n \<le> length bits \<Longrightarrow>
   fold (\<lambda>i bs. blit bs (i * 8) (dmr_byte_to_bits (bytes ! i))) [0..<n] bits =
     bytes_bits (take n bytes) @ drop (8 * n) bits"
proof (induction n)
  case 0
  then show ?case by (simp add: bytes_bits_def)
next
  case (Suc n)
  then have "take (Suc n) bytes = take n bytes @ [bytes ! n]"
    by (simp add: take_Suc_conv_app_nth)
  with Suc show ?case
    by (simp add: blit_def bytes_bits_def min_def length_bytes_bits [unfolded bytes_bits_def] mult.commute)
qed

lemma dmr_bytes_to_bits_eq:
  assumes "length bytes = n" "length bits = 8 * n" "n \<le> 65535"
  shows "dmr_bytes_to_bits bytes n bits (8 * n) = Some (bytes_bits bytes)"
  using assms by (simp add: dmr_bytes_to_bits_def bytes_to_bits_loop)

lemma bits_to_bytes_loop:
  "n \<le> length bytes \<Longrightarrow>
   fold (\<lambda>i bs. bs[i := dmr_bits_to_byte (drop (i * 8) bits)]) [0..<n] bytes =
     map (\<lambda>i. dmr_bits_to_byte (drop (i * 8) bits)) [0..<n] @ drop n bytes"
proof (induction n)
  case 0
  then show ?case by simp
next
  case (Suc n)
  then have "drop n bytes = bytes ! n # drop (Suc n) bytes"
    by (simp add: Cons_nth_drop_Suc)
  with Suc show ?case by (simp add: list_update_append)
qed

lemma dmr_bits_to_bytes_eq:
  assumes "length bits = 8 * n" "length bytes = n" "n \<le> 65535"
  shows "dmr_bits_to_bytes bits (8 * n) bytes n = Some (bits_bytes bits)"
  using assms by (simp add: dmr_bits_to_bytes_def bits_to_bytes_loop bits_bytes_def)

lemma bits_bytes_bytes_bits [simp]: "bits_bytes (bytes_bits bs) = bs"
proof (rule nth_equalityI)
  fix i assume "i < length (bits_bytes (bytes_bits bs))"
  then have i: "i < length bs" by simp
  show "bits_bytes (bytes_bits bs) ! i = bs ! i"
  proof (rule bit_word_eqI)
    fix n assume "n < LENGTH(8)"
    then have n: "n < 8" by simp
    with i have "i * 8 + (7 - n) < 8 * length bs" by linarith
    moreover have "(i * 8 + m) div 8 = i" "(i * 8 + m) mod 8 = m" if "m < 8" for m
      using that by simp_all
    then have "(i * 8 + (7 - n)) div 8 = i" "(i * 8 + (7 - n)) mod 8 = 7 - n"
      by simp_all
    ultimately show "bit (bits_bytes (bytes_bits bs) ! i) n = bit (bs ! i) n"
      using i n by (simp add: bits_bytes_def bit_dmr_bits_to_byte nth_bytes_bits)
  qed
qed simp

lemma bytes_bits_bits_bytes [simp]:
  assumes "length xs mod 8 = 0"
  shows "bytes_bits (bits_bytes xs) = xs"
proof (rule nth_equalityI)
  show len: "length (bytes_bits (bits_bytes xs)) = length xs"
    using assms by auto
  fix i assume "i < length (bytes_bits (bits_bytes xs))"
  with len have i: "i < length xs" by simp
  with assms have "i div 8 < length xs div 8" by auto
  moreover have "i div 8 * 8 + i mod 8 = i" by simp
  moreover have "7 - i mod 8 < 8" and "7 - (7 - i mod 8) = i mod 8"
    by auto
  ultimately show "bytes_bits (bits_bytes xs) ! i = xs ! i"
    using i assms len
    by (simp add: nth_bytes_bits bits_bytes_def bit_dmr_bits_to_byte)
qed

end
