(* ===== verification/Dmr_Crc.thy ===== *)
theory Dmr_Crc
  imports Dmr_Bits
begin

unbundle bit_operations_syntax

text \<open>
  \<open>src/dmr/crc.c\<close>: the CRC-9, CRC-16 and CRC-32 shift registers.  Each definition follows
  its C loop, with the moving mask \<open>v\<close> and the register as the loop state.  The lemmas
  show that CRC-16 and CRC-32 are the bit-serial registers of their polynomials, that
  finishing is feeding one zero byte, that the registers are linear and injective, and
  that CRC-9 never looks at the data when it is called with a bit length of 8.
\<close>

section \<open>CRC-9\<close>

text \<open>\<open>v >>= 1\<close>, \<open>bitlen\<close> times, then eight rounds of the register.\<close>

definition crc9_round :: "u8 \<Rightarrow> u16 \<times> u8 \<Rightarrow> u16 \<times> u8" where
  "crc9_round byte = (\<lambda>(crc, v).
     let x = (crc AND 0x0100 = 0x0100);
         crc = push_bit 1 crc AND 0x01ff;
         crc = (if byte AND v \<noteq> 0 then crc + 1 else crc);
         crc = (if x then crc XOR 0x59 else crc)
     in (crc, drop_bit 1 v))"

definition dmr_crc9 :: "u16 \<Rightarrow> u8 \<Rightarrow> u8 \<Rightarrow> u16" where
  "dmr_crc9 crc byte bitlen =
     (let v = (drop_bit 1 ^^ unat bitlen) 0x80
      in fst ((crc9_round byte ^^ 8) (crc, v)))"

definition crc9_shift :: "u16 \<Rightarrow> u16" where
  "crc9_shift crc =
     (let x = (crc AND 0x0100 = 0x0100);
          crc = push_bit 1 crc AND 0x01ff
      in if x then crc XOR 0x59 else crc)"

definition dmr_crc9_finish :: "u16 \<Rightarrow> u8 \<Rightarrow> u16" where
  "dmr_crc9_finish crc bitlen = (crc9_shift ^^ unat bitlen) crc"

section \<open>CRC-16\<close>

definition crc16_round :: "u8 \<Rightarrow> u16 \<times> u8 \<Rightarrow> u16 \<times> u8" where
  "crc16_round byte = (\<lambda>(crc, v).
     let x = (crc AND 0x8000 \<noteq> 0);
         crc = push_bit 1 crc;
         crc = (if byte AND v > 0 then crc + 1 else crc);
         crc = (if x then crc XOR 0x1021 else crc)
     in (crc, drop_bit 1 v))"

definition dmr_crc16 :: "u16 \<Rightarrow> u8 \<Rightarrow> u16" where
  "dmr_crc16 crc byte = fst ((crc16_round byte ^^ 8) (crc, 0x80))"

definition crc16_shift :: "u16 \<Rightarrow> u16" where
  "crc16_shift crc =
     (let x = (crc AND 0x8000 \<noteq> 0); crc = push_bit 1 crc
      in if x then crc XOR 0x1021 else crc)"

definition dmr_crc16_finish :: "u16 \<Rightarrow> u16" where
  "dmr_crc16_finish crc = (crc16_shift ^^ 8) crc"

section \<open>CRC-32\<close>

definition crc32_round :: "u8 \<Rightarrow> u32 \<times> u8 \<Rightarrow> u32 \<times> u8" where
  "crc32_round byte = (\<lambda>(crc, v).
     let x = (crc AND 0x80000000 = 0x80000000);
         crc = push_bit 1 crc;
         crc = (if byte AND v \<noteq> 0 then crc + 1 else crc);
         crc = (if x then crc XOR 0x04c11db7 else crc)
     in (crc, drop_bit 1 v))"

definition dmr_crc32 :: "u32 \<Rightarrow> u8 \<Rightarrow> u32" where
  "dmr_crc32 crc byte = fst ((crc32_round byte ^^ 8) (crc, 0x80))"

definition crc32_shift :: "u32 \<Rightarrow> u32" where
  "crc32_shift crc =
     (let x = (crc AND 0x80000000 = 0x80000000); crc = push_bit 1 crc
      in if x then crc XOR 0x04c11db7 else crc)"

definition dmr_crc32_finish :: "u32 \<Rightarrow> u32" where
  "dmr_crc32_finish crc = (crc32_shift ^^ 8) crc"

section \<open>A bit-serial register\<close>

text \<open>
  The interface the CRC lemmas rest on: a register of any width that shifts one message
  bit in at the bottom and subtracts the polynomial \<open>poly\<close> (with a constant term) when
  the top bit falls out.
\<close>

locale crc_register =
  fixes poly :: "'a::len word"
  assumes poly_odd: "bit poly 0"
begin

definition feed :: "bool \<Rightarrow> 'a word \<Rightarrow> 'a word" where
  "feed b c = push_bit 1 c XOR of_bool b XOR (if bit c (LENGTH('a) - 1) then poly else 0)"

definition feeds :: "bool list \<Rightarrow> 'a word \<Rightarrow> 'a word" where
  "feeds bs c = fold feed bs c"

lemma push_bit_xor_len: "push_bit 1 (x XOR y) = push_bit 1 x XOR (push_bit 1 y :: 'a word)"
  by (simp add: push_bit_xor)

lemma feed_linear:
  "feed (bxor a b) (x XOR y) = feed a x XOR feed b y"
  by (auto simp: feed_def bxor_def push_bit_xor bit_xor_iff xor.assoc xor.commute xor.left_commute)

lemma feeds_linear:
  "length as = length bs \<Longrightarrow>
   feeds (map2 bxor as bs) (x XOR y) = feeds as x XOR feeds bs y"
  unfolding feeds_def
  by (induction as bs arbitrary: x y rule: list_induct2) (simp_all add: feed_linear)

lemma feed_zero_kernel: "feed False c = 0 \<Longrightarrow> c = 0"
proof -
  assume z: "feed False c = 0"
  have "bit (feed False c) 0 = bit c (LENGTH('a) - 1)"
    by (simp add: feed_def bit_simps poly_odd)
  with z have top: "\<not> bit c (LENGTH('a) - 1)" by simp
  with z have sh: "push_bit 1 c = 0" by (simp add: feed_def)
  show "c = 0"
  proof (rule bit_word_eqI)
    fix n assume n: "n < LENGTH('a)"
    show "bit c n = bit (0 :: 'a word) n"
    proof (cases "n = LENGTH('a) - 1")
      case True
      with top show ?thesis by simp
    next
      case False
      with n have "Suc n < LENGTH('a)" by simp
      then have "bit (push_bit 1 c) (Suc n) = bit c n" by (simp add: bit_simps)
      with sh show ?thesis by simp
    qed
  qed
qed

lemma feeds_zero_kernel: "feeds (replicate n False) c = 0 \<Longrightarrow> c = 0"
  unfolding feeds_def
  by (induction n arbitrary: c) (auto dest: feed_zero_kernel)

lemma feeds_append: "feeds (as @ bs) c = feeds bs (feeds as c)"
  by (simp add: feeds_def)

text \<open>
  A message of at most the register's width, read into an empty register, never reaches
  the top: the register holds the message itself.
\<close>

lemma feeds_short:
  "length bs \<le> LENGTH('a) \<Longrightarrow>
   bit (feeds bs 0) n \<longleftrightarrow> n < length bs \<and> bs ! (length bs - 1 - n)"
proof (induction bs arbitrary: n rule: rev_induct)
  case Nil
  then show ?case by (simp add: feeds_def)
next
  case (snoc b bs)
  then have IH: "bit (feeds bs 0) m \<longleftrightarrow> m < length bs \<and> bs ! (length bs - 1 - m)" for m
    by simp
  from snoc.prems IH [of "LENGTH('a) - 1"] have "\<not> bit (feeds bs 0) (LENGTH('a) - 1)" by simp
  then have f: "feeds (bs @ [b]) 0 = push_bit 1 (feeds bs 0) XOR of_bool b"
    by (simp add: feeds_def feed_def)
  show ?case
  proof (cases n)
    case 0
    then show ?thesis by (simp add: f bit_simps nth_append)
  next
    case (Suc m)
    have "bit (push_bit 1 (feeds bs 0)) n = (n < LENGTH('a) \<and> bit (feeds bs 0) m)"
      using Suc by (simp add: bit_simps)
    then show ?thesis
      using Suc IH [of m] snoc.prems by (auto simp: f bit_simps nth_append Suc_diff_Suc)
  qed
qed

lemma feeds_short_zero:
  assumes "length bs \<le> LENGTH('a)" "feeds bs 0 = 0"
  shows "bs = replicate (length bs) False"
proof (rule nth_equalityI)
  fix i assume i: "i < length bs"
  then have "length bs - 1 - i < length bs" "length bs - 1 - (length bs - 1 - i) = i" by auto
  then have "bit (feeds bs 0) (length bs - 1 - i) = bs ! i"
    using feeds_short [OF assms(1), of "length bs - 1 - i"] by simp
  with assms(2) i show "bs ! i = replicate (length bs) False ! i" by simp
qed simp

text \<open>
  Burst detection: two messages that differ only inside one window no wider than the
  register leave different remainders, whatever was fed before and whatever follows.
\<close>

lemma feeds_detects_burst:
  assumes "length as = length bs" "length bs \<le> LENGTH('a)"
    and eq: "feeds (pre @ as @ post) c = feeds (pre @ bs @ post) c"
  shows "as = bs"
proof -
  let ?d = "map2 bxor as bs"
  have pp: "map2 bxor xs xs = replicate (length xs) False" for xs
    by (induction xs) simp_all
  have "feeds (map2 bxor (pre @ as @ post) (pre @ bs @ post)) (c XOR c)
      = feeds (pre @ as @ post) c XOR feeds (pre @ bs @ post) c"
    by (rule feeds_linear) (simp add: assms)
  also have "\<dots> = 0" using eq by simp
  finally have "feeds (replicate (length pre) False @ ?d @ replicate (length post) False) 0 = 0"
    using assms(1) by (simp add: pp)
  moreover have "feeds (replicate k False) 0 = 0" for k
    unfolding feeds_def by (induction k) (simp_all add: feed_def)
  ultimately have "feeds ?d 0 = 0"
    by (auto simp: feeds_append dest: feeds_zero_kernel)
  with assms have d: "?d = replicate (length ?d) False"
    by (intro feeds_short_zero) simp_all
  show ?thesis
  proof (rule nth_equalityI)
    fix i assume "i < length as"
    then have "?d ! i = False" using d assms(1) by (metis length_map length_zip min.idem nth_replicate)
    with \<open>i < length as\<close> assms(1) show "as ! i = bs ! i" by (simp add: bxor_def)
  qed (rule assms(1))
qed

end

interpretation crc16: crc_register "0x1021 :: u16"
  by unfold_locales simp

interpretation crc32: crc_register "0x04c11db7 :: u32"
  by unfold_locales simp

section \<open>The C loops are these registers\<close>

text \<open>The mask after \<open>n\<close> rounds, and adding the message bit to an even register.\<close>

lemma mask_pow2: "n < 8 \<Longrightarrow> drop_bit n (0x80::u8) = 2 ^ (7 - n)"
proof -
  assume "n < 8"
  then consider "n = 0" | "n = 1" | "n = 2" | "n = 3" | "n = 4" | "n = 5" | "n = 6" | "n = 7"
    by linarith
  then show ?thesis by cases simp_all
qed

lemma mask_nonzero: "n < 8 \<Longrightarrow> (byte AND drop_bit n 0x80 \<noteq> 0) = bit byte (7 - n)"
  for byte :: u8
  by (simp add: mask_pow2 and_pow2_nonzero)

lemma shift_plus_one: "push_bit 1 c + 1 = push_bit 1 c XOR (1 :: 'a::len word)"
proof -
  have "push_bit 1 c AND (1 :: 'a word) = 0"
    by (rule bit_word_eqI) (auto simp: bit_simps)
  then show ?thesis by (simp add: disjunctive_xor_eq_or disjunctive_add_eq_or)
qed

lemma top_bit_16: "(c AND 0x8000 \<noteq> 0) = bit c 15" for c :: u16
  using and_pow2_nonzero [of c 15] by simp

lemma top_bit_32: "(c AND 0x80000000 = 0x80000000) = bit c 31" for c :: u32
  using and_pow2 [of c 31] by (simp split: if_splits)

lemma crc16_round_feed:
  assumes "n < 8"
  shows "crc16_round byte (c, drop_bit n 0x80) =
    (crc16.feed (bit byte (7 - n)) c, drop_bit (Suc n) 0x80)"
  using mask_nonzero [OF assms, of byte] shift_plus_one [of c]
  by (auto simp: crc16_round_def Let_def top_bit_16 crc16.feed_def word_neq_0_conv [symmetric]
      drop_bit_drop_bit xor.assoc)

lemma crc32_round_feed:
  assumes "n < 8"
  shows "crc32_round byte (c, drop_bit n 0x80) =
    (crc32.feed (bit byte (7 - n)) c, drop_bit (Suc n) 0x80)"
  using mask_nonzero [OF assms, of byte] shift_plus_one [of c]
  by (auto simp: crc32_round_def Let_def top_bit_32 crc32.feed_def drop_bit_drop_bit xor.assoc)

text \<open>Running a round \<open>n\<close> times feeds the first \<open>n\<close> bits of the byte.\<close>

lemma rounds_feeds:
  fixes rnd :: "'s \<times> u8 \<Rightarrow> 's \<times> u8"
  assumes "\<And>n c. n < 8 \<Longrightarrow>
      rnd (c, drop_bit n 0x80) = (feed (bit byte (7 - n)) c, drop_bit (Suc n) (0x80::u8))"
    and "n \<le> 8"
  shows "(rnd ^^ n) (c, 0x80) = (fold feed (take n (dmr_byte_to_bits byte)) c, drop_bit n (0x80::u8))"
  using assms(2)
proof (induction n)
  case 0
  then show ?case by simp
next
  case (Suc n)
  then have "take (Suc n) (dmr_byte_to_bits byte) = take n (dmr_byte_to_bits byte) @ [bit byte (7 - n)]"
    by (simp add: take_Suc_conv_app_nth)
  with Suc assms(1) [of n] show ?case by simp
qed

lemma dmr_crc16_feeds: "dmr_crc16 c byte = crc16.feeds (dmr_byte_to_bits byte) c"
  using rounds_feeds [OF crc16_round_feed, of 8 byte c]
  by (simp add: dmr_crc16_def crc16.feeds_def)

lemma dmr_crc32_feeds: "dmr_crc32 c byte = crc32.feeds (dmr_byte_to_bits byte) c"
  using rounds_feeds [OF crc32_round_feed, of 8 byte c]
  by (simp add: dmr_crc32_def crc32.feeds_def)

lemma byte_to_bits_0: "dmr_byte_to_bits 0 = replicate 8 False"
  by (simp add: dmr_byte_to_bits_def numeral_eq_Suc)

lemma funpow_fold_replicate: "(f ^^ n) c = fold (\<lambda>_. f) (replicate n x) c"
  by (induction n arbitrary: c) (simp_all add: funpow_swap1)

lemma dmr_crc16_finish_feeds: "dmr_crc16_finish c = crc16.feeds (replicate 8 False) c"
proof -
  have "crc16_shift c = crc16.feed False c" for c
    by (simp add: crc16_shift_def Let_def top_bit_16 crc16.feed_def)
  then show ?thesis
    by (simp add: dmr_crc16_finish_def crc16.feeds_def funpow_fold_replicate [of 8 _ _ False]
        numeral_eq_Suc)
qed

lemma dmr_crc32_finish_feeds: "dmr_crc32_finish c = crc32.feeds (replicate 8 False) c"
proof -
  have "crc32_shift c = crc32.feed False c" for c
    by (simp add: crc32_shift_def Let_def top_bit_32 crc32.feed_def)
  then show ?thesis
    by (simp add: dmr_crc32_finish_def crc32.feeds_def funpow_fold_replicate [of 8 _ _ False]
        numeral_eq_Suc)
qed

text \<open>A whole message.\<close>

lemma fold_dmr_crc16: "fold (\<lambda>b c. dmr_crc16 c b) bs c = crc16.feeds (bytes_bits bs) c"
  by (induction bs arbitrary: c) (simp_all add: dmr_crc16_feeds crc16.feeds_def bytes_bits_def)

lemma fold_dmr_crc32: "fold (\<lambda>b c. dmr_crc32 c b) bs c = crc32.feeds (bytes_bits bs) c"
  by (induction bs arbitrary: c) (simp_all add: dmr_crc32_feeds crc32.feeds_def bytes_bits_def)

lemma bytes_bits_append: "bytes_bits (xs @ ys) = bytes_bits xs @ bytes_bits ys"
  by (simp add: bytes_bits_def)

lemma bytes_bits_inject [simp]: "bytes_bits xs = bytes_bits ys \<longleftrightarrow> xs = ys"
  by (metis bits_bytes_bytes_bits)

text \<open>With the mask shifted out before the first round, CRC-9 never reads the byte.\<close>

lemma funpow_drop_bit: "(drop_bit 1 ^^ n) w = drop_bit n (w :: 'a::len word)"
  by (induction n) (simp_all add: drop_bit_drop_bit)

lemma crc9_round_no_mask: "crc9_round byte (c, 0) = (crc9_shift c, 0)"
  by (simp add: crc9_round_def crc9_shift_def Let_def)

lemma crc9_rounds_no_mask: "(crc9_round byte ^^ n) (c, 0) = ((crc9_shift ^^ n) c, 0)"
  by (induction n) (simp_all add: crc9_round_no_mask)

section \<open>Properties\<close>

text \<open>
  C20. CRC-16 over a byte string is the remainder register of the polynomial
  x^16 + x^12 + x^5 + 1 fed with the message bits, most significant bit first, and
  \<open>dmr_crc16_finish\<close> is one more zero byte.
\<close>

theorem dmr_crc16_register:
  "dmr_crc16_finish (fold (\<lambda>b c. dmr_crc16 c b) bs c) =
     fold (\<lambda>b r. push_bit 1 r XOR of_bool b XOR (if bit r 15 then 0x1021 else 0))
       (concat (map dmr_byte_to_bits (bs @ [0]))) c"
proof -
  have "dmr_crc16_finish (fold (\<lambda>b c. dmr_crc16 c b) bs c) = crc16.feeds (bytes_bits (bs @ [0])) c"
    by (simp add: dmr_crc16_finish_feeds fold_dmr_crc16 crc16.feeds_append [symmetric]
        bytes_bits_append, simp add: bytes_bits_def byte_to_bits_0)
  then show ?thesis
    by (simp add: crc16.feeds_def crc16.feed_def [abs_def] bytes_bits_def)
qed

text \<open>
  C21. CRC-16 detects every error burst confined to two neighbouring bytes: two messages
  that agree outside a window of at most two bytes and have the same finished CRC are
  equal.
\<close>

theorem dmr_crc16_detects_burst:
  assumes "length xs = length ys" "length ys \<le> 2"
    and "dmr_crc16_finish (fold (\<lambda>b c. dmr_crc16 c b) (pre @ xs @ post) c) =
         dmr_crc16_finish (fold (\<lambda>b c. dmr_crc16 c b) (pre @ ys @ post) c)"
  shows "xs = ys"
proof -
  have "bytes_bits xs = bytes_bits ys"
  proof (rule crc16.feeds_detects_burst
      [where pre = "bytes_bits pre" and post = "bytes_bits post @ replicate 8 False" and c = c])
    show "length (bytes_bits xs) = length (bytes_bits ys)" using assms(1) by simp
    show "length (bytes_bits ys) \<le> LENGTH(16)" using assms(2) by simp
    show "crc16.feeds (bytes_bits pre @ bytes_bits xs @ bytes_bits post @ replicate 8 False) c =
      crc16.feeds (bytes_bits pre @ bytes_bits ys @ bytes_bits post @ replicate 8 False) c"
      using assms(3)
      by (simp add: dmr_crc16_finish_feeds fold_dmr_crc16 bytes_bits_append crc16.feeds_append)
  qed
  then show ?thesis by simp
qed

theorem dmr_crc16_detects_burst_witness:
  "dmr_crc16_finish (fold (\<lambda>b c. dmr_crc16 c b) ([1] @ [2, 3] @ [4]) 0) \<noteq>
   dmr_crc16_finish (fold (\<lambda>b c. dmr_crc16 c b) ([1] @ [2, 9] @ [4]) 0)"
  using dmr_crc16_detects_burst [of "[2, 3]" "[2, 9]" "[1]" "[4]" 0] by auto

text \<open>
  CRC-9 ignores its data when it is called with a bit length of 8 or more, as
  \<open>dmr_data_block_decode\<close> calls it for every data byte: the mask is shifted out before
  the first round, and the call only clocks the register eight times.
\<close>

theorem dmr_crc9_ignores_byte:
  assumes "8 \<le> bitlen"
  shows "dmr_crc9 c byte bitlen = dmr_crc9_finish c 8"
proof -
  have "8 \<le> unat bitlen" using assms by (simp add: word_le_nat_alt)
  then have "drop_bit (unat bitlen) (0x80::u8) = 0"
    by (intro bit_word_eqI) (auto simp: bit_simps dest: bit_imp_le_length)
  then show ?thesis
    unfolding dmr_crc9_def dmr_crc9_finish_def Let_def funpow_drop_bit
    by (simp add: crc9_rounds_no_mask)
qed

theorem dmr_crc9_ignores_byte_witness:
  "(8::u8) \<le> 8 \<and> dmr_crc9 0 0xff 8 = dmr_crc9 0 0x00 8"
  using dmr_crc9_ignores_byte [of 8 0 "0xff"] dmr_crc9_ignores_byte [of 8 0 "0"] by simp

end
