(* ===== verification/Dmr_Golay.thy ===== *)
theory Dmr_Golay
  imports Dmr_Golay_Tables
begin

unbundle bit_operations_syntax

text \<open>
  \<open>src/dmr/fec/golay_20_8.c\<close>: the shortened Golay code that protects the slot type.  The
  syndrome is two nested \<open>while\<close> loops; the inner one does not end when no bit of the
  pattern is at or below the position \<open>i\<close>, so both are partial functions.  The lemmas
  show that the loops end on every 23-bit pattern with the remainder of the generator
  polynomial, that the syndrome is linear, that every word the encoder makes has syndrome
  zero, and that the decoder corrects every pattern of up to three wrong bits.
\<close>

section \<open>Definitions\<close>

abbreviation X22 :: u32 where "X22 \<equiv> 0x00400000"
abbreviation X11 :: u32 where "X11 \<equiv> 0x00000800"
abbreviation MASK12 :: u32 where "MASK12 \<equiv> 0xfffff800"
abbreviation GENPOL :: u32 where "GENPOL \<equiv> 0x00000c75"

text \<open>\<open>while ((i & pattern) == 0) i >>= 1;\<close>\<close>

partial_function (option) golay_shift :: "u32 \<Rightarrow> u32 \<Rightarrow> u32 option" where
  "golay_shift i pattern =
     (if i AND pattern = 0 then golay_shift (drop_bit 1 i) pattern else Some i)"

text \<open>\<open>while (pattern & MASK12)\<close> and its body.\<close>

partial_function (option) golay_reduce :: "u32 \<Rightarrow> u32 \<Rightarrow> u32 option" where
  "golay_reduce i pattern =
     (if pattern AND MASK12 \<noteq> 0
      then case golay_shift i pattern of
             None \<Rightarrow> None
           | Some i \<Rightarrow> golay_reduce i (pattern XOR (i div X11) * GENPOL)
      else Some pattern)"

definition dmr_golay_20_8_syndrome :: "u32 \<Rightarrow> u32 option" where
  "dmr_golay_20_8_syndrome pattern =
     (if pattern \<ge> X11 then golay_reduce X22 pattern else Some pattern)"

text \<open>\<open>code = (data[0] << 11) | (data[1] << 3) | (data[2] >> 5)\<close>\<close>

definition golay_code :: "u8 list \<Rightarrow> u32" where
  "golay_code data =
     push_bit 11 (ucast (data ! 0)) OR push_bit 3 (ucast (data ! 1)) OR drop_bit 5 (ucast (data ! 2))"

definition dmr_golay_20_8_decode :: "u8 list \<Rightarrow> u8 option" where
  "dmr_golay_20_8_decode data =
     (let code = golay_code data
      in case dmr_golay_20_8_syndrome code of
           None \<Rightarrow> None
         | Some syn \<Rightarrow>
             (case c_read golay_20_8_decoder (unat syn) of
                None \<Rightarrow> None
              | Some pattern \<Rightarrow>
                  (let code = (if pattern \<noteq> 0 then code XOR pattern else code)
                   in Some (ucast (drop_bit 11 code)))))"

definition dmr_golay_20_8_encode :: "u8 list \<Rightarrow> u8 list" where
  "dmr_golay_20_8_encode data =
     (let checksum = golay_20_8_encoder ! unat (data ! 0)
      in data[1 := ucast checksum, 2 := ucast (drop_bit 8 checksum)])"

section \<open>The syndrome loops compute a remainder\<close>

text \<open>Clearing bit \<open>k\<close> with the generator polynomial, for \<open>k = n + 10, \<dots>, 11\<close>.\<close>

definition golay_red :: "nat \<Rightarrow> u32 \<Rightarrow> u32" where
  "golay_red k p = (if bit p k then p XOR push_bit (k - 11) GENPOL else p)"

primrec golay_rem :: "nat \<Rightarrow> u32 \<Rightarrow> u32" where
  "golay_rem 0 p = p"
| "golay_rem (Suc n) p = golay_rem n (golay_red (n + 11) p)"

lemma golay_red_linear [dmr_lin]: "golay_red k (x XOR y) = golay_red k x XOR golay_red k y"
  by (auto simp: golay_red_def bit_xor_iff xor.assoc xor.commute xor.left_commute)

lemma golay_rem_linear [dmr_lin]: "golay_rem n (x XOR y) = golay_rem n x XOR golay_rem n y"
  by (induction n arbitrary: x y) (simp_all add: golay_red_linear)

text \<open>The polynomial has degree 11.\<close>

lemma GENPOL_degree: "bit GENPOL 11" "bit GENPOL m \<Longrightarrow> m \<le> 11"
proof -
  show "bit GENPOL 11" by simp
  have "take_bit 12 GENPOL = GENPOL" by simp
  then show "bit GENPOL m \<Longrightarrow> m \<le> 11" using bit_less_take_bit [of 12 GENPOL m] by simp
qed

lemma golay_red_low:
  assumes "take_bit (Suc k) p = p" "11 \<le> k" "k \<le> 22"
  shows "take_bit k (golay_red k p) = golay_red k p"
proof (rule bit_word_eqI)
  fix m assume m: "m < LENGTH(32)"
  have high: "bit p m \<Longrightarrow> m \<le> k" for m using assms(1) by (metis bit_take_bit_iff less_Suc_eq_le)
  have gk: "bit (push_bit (k - 11) GENPOL) k"
    using assms GENPOL_degree(1) by (simp add: bit_push_bit_iff)
  have gm: "\<not> bit (push_bit (k - 11) GENPOL) m" if "k < m"
  proof
    assume "bit (push_bit (k - 11) GENPOL) m"
    then have "bit GENPOL (m - (k - 11))" by (simp add: bit_push_bit_iff)
    then have "m - (k - 11) \<le> 11" by (rule GENPOL_degree(2))
    with that assms show False by simp
  qed
  have "\<not> bit (golay_red k p) m" if "k \<le> m"
  proof (cases "bit p k")
    case True
    show ?thesis
    proof (cases "m = k")
      case True
      with \<open>bit p k\<close> gk show ?thesis by (simp add: golay_red_def bit_xor_iff del: bit_push_bit_iff)
    next
      case False
      with that have "k < m" by simp
      with gm high [of m] \<open>bit p k\<close> show ?thesis by (auto simp: golay_red_def bit_xor_iff)
    qed
  next
    case False
    with that high [of m] show ?thesis by (auto simp: golay_red_def le_less)
  qed
  then show "bit (take_bit k (golay_red k p)) m = bit (golay_red k p) m"
    by (cases "m < k") (auto simp: bit_take_bit_iff not_less)
qed

lemma golay_rem_low:
  "n \<le> 12 \<Longrightarrow> take_bit (n + 11) p = p \<Longrightarrow> take_bit 11 (golay_rem n p) = golay_rem n p"
proof (induction n arbitrary: p)
  case 0
  then show ?case by simp
next
  case (Suc n)
  then have "take_bit (n + 11) (golay_red (n + 11) p) = golay_red (n + 11) p"
    by (intro golay_red_low) simp_all
  with Suc show ?case by simp
qed

text \<open>The loops, started at position \<open>n + 10\<close> on a pattern below it.\<close>

lemma MASK12_zero: "p AND MASK12 = 0 \<longleftrightarrow> take_bit 11 p = p"
proof -
  have m: "MASK12 = NOT (mask 11)" by (simp add: mask_eq_exp_minus_1)
  have "p AND MASK12 = 0 \<longleftrightarrow> (\<forall>i < 32. bit p i \<longrightarrow> i < 11)"
    unfolding m by (auto simp: bit_eq_iff bit_simps)
  also have "\<dots> \<longleftrightarrow> take_bit 11 p = p"
    by (auto simp: bit_eq_iff bit_simps)
  finally show ?thesis .
qed

lemma half_pow2: "drop_bit 1 (2 ^ Suc m) = (2 ^ m :: u32)" if "m < 31"
  using that by (intro bit_word_eqI) (auto simp: bit_simps)

lemma golay_reduce_skip:
  assumes "\<not> bit p (Suc m)" "m < 31"
  shows "golay_reduce (2 ^ Suc m) p = golay_reduce (2 ^ m) p"
proof -
  have "2 ^ Suc m AND p = 0"
    using assms(1) and_pow2 [of p "Suc m"] by (simp add: and.commute)
  then have "golay_shift (2 ^ Suc m) p = golay_shift (2 ^ m) p"
    using half_pow2 [OF assms(2)] by (subst golay_shift.simps) simp
  then show ?thesis
    by (subst (1 2) golay_reduce.simps) simp
qed

lemma golay_quotient:
  assumes "11 \<le> k" "k \<le> 22"
  shows "(2 ^ k div X11) * GENPOL = push_bit (k - 11) GENPOL"
proof -
  have "2 ^ k div X11 = drop_bit 11 (2 ^ k :: u32)" by (simp add: drop_bit_eq_div)
  also have "\<dots> = 2 ^ (k - 11)" using assms by (intro bit_word_eqI) (auto simp: bit_simps)
  finally show ?thesis by (simp add: push_bit_eq_mult mult.commute)
qed

lemma golay_reduce_rem:
  "n \<le> 12 \<Longrightarrow> take_bit (n + 11) p = p \<Longrightarrow> golay_reduce (2 ^ (n + 10)) p = Some (golay_rem n p)"
proof (induction n arbitrary: p)
  case 0
  then show ?case by (subst golay_reduce.simps) (simp add: MASK12_zero)
next
  case (Suc n)
  let ?k = "n + 11"
  have low: "take_bit ?k (golay_red ?k p) = golay_red ?k p"
    using Suc.prems by (intro golay_red_low) simp_all
  then have clear: "\<not> bit (golay_red ?k p) ?k" by (metis bit_take_bit_iff less_irrefl)
  have step: "golay_reduce (2 ^ ?k) p = golay_reduce (2 ^ ?k) (golay_red ?k p)"
  proof (cases "bit p ?k")
    case True
    then have "\<not> take_bit 11 p = p" by (metis bit_take_bit_iff add.commute not_add_less1)
    moreover have "golay_shift (2 ^ ?k) p = Some (2 ^ ?k)"
      using True and_pow2 [of p ?k] Suc.prems
      by (subst golay_shift.simps) (simp add: and.commute)
    moreover have "(2 ^ ?k div X11) * GENPOL = push_bit (?k - 11) GENPOL"
      using Suc.prems by (intro golay_quotient) simp_all
    ultimately show ?thesis
      using True by (subst golay_reduce.simps) (simp add: MASK12_zero golay_red_def)
  next
    case False
    then show ?thesis by (simp add: golay_red_def)
  qed
  also have "\<dots> = golay_reduce (2 ^ (n + 10)) (golay_red ?k p)"
    using golay_reduce_skip [of "golay_red ?k p" "n + 10"] clear Suc.prems
    by (simp add: add.commute)
  also have "\<dots> = Some (golay_rem n (golay_red ?k p))"
    using low Suc.prems by (intro Suc.IH) simp_all
  finally show ?case by (simp add: add.commute)
qed

lemma golay_syndrome_rem:
  assumes "take_bit 23 p = p"
  shows "dmr_golay_20_8_syndrome p = Some (golay_rem 12 p)"
proof (cases "p \<ge> X11")
  case True
  then show ?thesis
    using golay_reduce_rem [of 12 p] assms by (simp add: dmr_golay_20_8_syndrome_def)
next
  case False
  then have "unat p < 2 ^ 11" by (simp add: word_le_nat_alt not_le)
  then have *: "take_bit 11 p = p" by (rule take_bit_of_less)
  have "golay_rem n p = p" for n
  proof (induction n)
    case (Suc n)
    have "\<not> bit p (n + 11)" using * by (metis bit_take_bit_iff add.commute not_add_less1)
    with Suc show ?case by (simp add: golay_red_def)
  qed simp
  with False show ?thesis by (simp add: dmr_golay_20_8_syndrome_def)
qed

section \<open>The tables\<close>

lemma length_golay_row: "r \<in> set golay_20_8_decoder_rows \<Longrightarrow> length r = 64"
  by (auto simp: golay_20_8_decoder_rows_def golay_dec_0_def golay_dec_1_def golay_dec_2_def golay_dec_3_def golay_dec_4_def
      golay_dec_5_def golay_dec_6_def golay_dec_7_def golay_dec_8_def golay_dec_9_def
      golay_dec_10_def golay_dec_11_def golay_dec_12_def golay_dec_13_def golay_dec_14_def
      golay_dec_15_def golay_dec_16_def golay_dec_17_def golay_dec_18_def golay_dec_19_def
      golay_dec_20_def golay_dec_21_def golay_dec_22_def golay_dec_23_def golay_dec_24_def
      golay_dec_25_def golay_dec_26_def golay_dec_27_def golay_dec_28_def golay_dec_29_def
      golay_dec_30_def golay_dec_31_def)

lemma nth_concat_rows:
  assumes "\<forall>r \<in> set rs. length r = c" "i < length rs * c"
  shows "concat rs ! i = rs ! (i div c) ! (i mod c)"
  using assms
proof (induction rs arbitrary: i)
  case Nil
  then show ?case by simp
next
  case (Cons r rs)
  then have c: "0 < c" by (cases c) auto
  show ?case
  proof (cases "i < c")
    case True
    then show ?thesis using Cons.prems by (simp add: nth_append)
  next
    case False
    then have "i div c = Suc ((i - c) div c)" "i mod c = (i - c) mod c"
      using c by (simp_all add: le_div_geq le_mod_geq)
    then show ?thesis using False Cons by (simp add: nth_append)
  qed
qed

lemma length_concat_rows: "\<forall>r \<in> set rs. length r = c \<Longrightarrow> length (concat rs) = length rs * c"
  by (induction rs) auto

lemma length_golay_20_8_decoder [simp]: "length golay_20_8_decoder = 2048"
  using length_concat_rows [of golay_20_8_decoder_rows 64] length_golay_row
  by (simp add: golay_20_8_decoder_def, simp add: golay_20_8_decoder_rows_def)

lemma golay_20_8_decoder_nth:
  "i < 2048 \<Longrightarrow> golay_20_8_decoder ! i = golay_20_8_decoder_rows ! (i div 64) ! (i mod 64)"
  unfolding golay_20_8_decoder_def
  using nth_concat_rows [of golay_20_8_decoder_rows 64 i] length_golay_row
  by (simp add: golay_20_8_decoder_rows_def)

text \<open>Row constants are opened only under an index, so that a look-up stays small.\<close>

lemmas golay_row_nth =
  golay_dec_0_def [THEN arg_cong [where f = "(!)"], THEN fun_cong]
  golay_dec_1_def [THEN arg_cong [where f = "(!)"], THEN fun_cong]
  golay_dec_2_def [THEN arg_cong [where f = "(!)"], THEN fun_cong]
  golay_dec_3_def [THEN arg_cong [where f = "(!)"], THEN fun_cong]
  golay_dec_4_def [THEN arg_cong [where f = "(!)"], THEN fun_cong]
  golay_dec_5_def [THEN arg_cong [where f = "(!)"], THEN fun_cong]
  golay_dec_6_def [THEN arg_cong [where f = "(!)"], THEN fun_cong]
  golay_dec_7_def [THEN arg_cong [where f = "(!)"], THEN fun_cong]
  golay_dec_8_def [THEN arg_cong [where f = "(!)"], THEN fun_cong]
  golay_dec_9_def [THEN arg_cong [where f = "(!)"], THEN fun_cong]
  golay_dec_10_def [THEN arg_cong [where f = "(!)"], THEN fun_cong]
  golay_dec_11_def [THEN arg_cong [where f = "(!)"], THEN fun_cong]
  golay_dec_12_def [THEN arg_cong [where f = "(!)"], THEN fun_cong]
  golay_dec_13_def [THEN arg_cong [where f = "(!)"], THEN fun_cong]
  golay_dec_14_def [THEN arg_cong [where f = "(!)"], THEN fun_cong]
  golay_dec_15_def [THEN arg_cong [where f = "(!)"], THEN fun_cong]
  golay_dec_16_def [THEN arg_cong [where f = "(!)"], THEN fun_cong]
  golay_dec_17_def [THEN arg_cong [where f = "(!)"], THEN fun_cong]
  golay_dec_18_def [THEN arg_cong [where f = "(!)"], THEN fun_cong]
  golay_dec_19_def [THEN arg_cong [where f = "(!)"], THEN fun_cong]
  golay_dec_20_def [THEN arg_cong [where f = "(!)"], THEN fun_cong]
  golay_dec_21_def [THEN arg_cong [where f = "(!)"], THEN fun_cong]
  golay_dec_22_def [THEN arg_cong [where f = "(!)"], THEN fun_cong]
  golay_dec_23_def [THEN arg_cong [where f = "(!)"], THEN fun_cong]
  golay_dec_24_def [THEN arg_cong [where f = "(!)"], THEN fun_cong]
  golay_dec_25_def [THEN arg_cong [where f = "(!)"], THEN fun_cong]
  golay_dec_26_def [THEN arg_cong [where f = "(!)"], THEN fun_cong]
  golay_dec_27_def [THEN arg_cong [where f = "(!)"], THEN fun_cong]
  golay_dec_28_def [THEN arg_cong [where f = "(!)"], THEN fun_cong]
  golay_dec_29_def [THEN arg_cong [where f = "(!)"], THEN fun_cong]
  golay_dec_30_def [THEN arg_cong [where f = "(!)"], THEN fun_cong]
  golay_dec_31_def [THEN arg_cong [where f = "(!)"], THEN fun_cong]

lemma golay_rem_12:
  "golay_rem 12 p =
     golay_red 11 (golay_red 12 (golay_red 13 (golay_red 14 (golay_red 15 (golay_red 16
     (golay_red 17 (golay_red 18 (golay_red 19 (golay_red 20 (golay_red 21 (golay_red 22 p)))))))))))"
  by (simp add: numeral_eq_Suc)

text \<open>The remainders of the nineteen one-bit patterns.\<close>

lemma golay_rem_units:
  "golay_rem 12 1 = 0x1"
  "golay_rem 12 0x2 = 0x2"
  "golay_rem 12 0x4 = 0x4"
  "golay_rem 12 0x8 = 0x8"
  "golay_rem 12 0x10 = 0x10"
  "golay_rem 12 0x20 = 0x20"
  "golay_rem 12 0x40 = 0x40"
  "golay_rem 12 0x80 = 0x80"
  "golay_rem 12 0x100 = 0x100"
  "golay_rem 12 0x200 = 0x200"
  "golay_rem 12 0x400 = 0x400"
  "golay_rem 12 0x800 = 0x475"
  "golay_rem 12 0x1000 = 0x49f"
  "golay_rem 12 0x2000 = 0x54b"
  "golay_rem 12 0x4000 = 0x6e3"
  "golay_rem 12 0x8000 = 0x1b3"
  "golay_rem 12 0x10000 = 0x366"
  "golay_rem 12 0x20000 = 0x6cc"
  "golay_rem 12 0x40000 = 0x1ed"
  by (simp_all add: golay_red_def golay_rem_12)

text \<open>Every word the encoder writes has remainder zero: one walk through its table.\<close>

fun golay_enc_ok :: "u8 \<Rightarrow> u16 list \<Rightarrow> bool" where
  "golay_enc_ok b [] = True"
| "golay_enc_ok b (c # cs) =
     (golay_rem 12 (golay_code [b, ucast c, ucast (drop_bit 8 c)]) = 0 \<and> golay_enc_ok (b + 1) cs)"

lemma golay_enc_ok_nth:
  "golay_enc_ok b cs \<Longrightarrow> i < length cs \<Longrightarrow>
   golay_rem 12 (golay_code [b + of_nat i, ucast (cs ! i), ucast (drop_bit 8 (cs ! i))]) = 0"
proof (induction b cs arbitrary: i rule: golay_enc_ok.induct)
  case (1 b)
  then show ?case by simp
next
  case (2 b c cs)
  then show ?case by (cases i) (simp_all add: add.assoc)
qed

lemma golay_enc_ok_encoder: "golay_enc_ok 0 golay_20_8_encoder"
  by (simp add: golay_20_8_encoder_def golay_code_def golay_rem_12 golay_red_def)

lemma length_golay_20_8_encoder [simp]: "length golay_20_8_encoder = 256"
  by (simp add: golay_20_8_encoder_def)

text \<open>
  The table maps the remainder of every pattern of up to three of the nineteen bits to
  that pattern: the patterns and their remainders are enumerated together.
\<close>

fun golay_fix :: "(u32 \<times> u32) list \<Rightarrow> nat \<Rightarrow> u32 \<Rightarrow> u32 \<Rightarrow> bool" where
  "golay_fix us 0 e s = (golay_20_8_decoder ! unat s = e)"
| "golay_fix [] (Suc n) e s = (golay_20_8_decoder ! unat s = e)"
| "golay_fix ((u, c) # us) (Suc n) e s =
     (golay_fix us (Suc n) e s \<and> golay_fix us n (e XOR u) (s XOR c))"

definition golay_units :: "nat \<Rightarrow> (u32 \<times> u32) list" where
  "golay_units m = map (\<lambda>k. (2 ^ k, golay_rem 12 (2 ^ k))) (rev [0..<m])"

lemma golay_units_Suc: "golay_units (Suc m) = (2 ^ m, golay_rem 12 (2 ^ m)) # golay_units m"
  by (simp add: golay_units_def)

lemma golay_fix_sound:
  "golay_fix (golay_units m) n e (golay_rem 12 e) \<Longrightarrow> take_bit m d = d \<Longrightarrow> weight d \<le> n \<Longrightarrow>
   golay_20_8_decoder ! unat (golay_rem 12 (e XOR d)) = e XOR d"
proof (induction m arbitrary: n e d)
  case 0
  then have "d = 0" by simp
  with 0 show ?case by (cases n) (simp_all add: golay_units_def)
next
  case (Suc m)
  show ?case
  proof (cases n)
    case 0
    with Suc.prems have "d = 0" by (simp add: weight_0_iff)
    with 0 Suc.prems show ?thesis by simp
  next
    case (Suc n')
    note fx = Suc.prems(1) [unfolded golay_units_Suc Suc golay_fix.simps]
    show ?thesis
    proof (cases "bit d m")
      case True
      let ?d = "d XOR 2 ^ m"
      have "weight ?d \<le> n'" using weight_clear [OF True] Suc.prems(3) Suc by simp
      moreover have "take_bit m ?d = ?d"
        using Suc.prems(2) True bit_less_take_bit [OF Suc.prems(2)]
        by (intro bit_word_eqI) (auto simp: bit_simps less_Suc_eq dest: bit_imp_le_length)
      ultimately have "golay_20_8_decoder ! unat (golay_rem 12 ((e XOR 2 ^ m) XOR ?d)) = (e XOR 2 ^ m) XOR ?d"
        using fx by (intro Suc.IH [of n']) (simp_all add: golay_rem_linear)
      moreover have "(e XOR 2 ^ m) XOR ?d = e XOR d"
        by (simp add: xor.assoc xor.left_commute [of "2 ^ m"])
      ultimately show ?thesis by simp
    next
      case False
      then have "take_bit m d = d"
        using bit_less_take_bit [OF Suc.prems(2)]
        by (intro bit_word_eqI) (auto simp: bit_simps less_Suc_eq)
      with fx Suc.prems(3) Suc show ?thesis by (intro Suc.IH [of "Suc n'"]) simp_all
    qed
  qed
qed

lemma golay_units_19:
  "golay_units 19 = [
    (0x40000, 0x1ed),
    (0x20000, 0x6cc),
    (0x10000, 0x366),
    (0x8000, 0x1b3),
    (0x4000, 0x6e3),
    (0x2000, 0x54b),
    (0x1000, 0x49f),
    (0x800, 0x475),
    (0x400, 0x400),
    (0x200, 0x200),
    (0x100, 0x100),
    (0x80, 0x80),
    (0x40, 0x40),
    (0x20, 0x20),
    (0x10, 0x10),
    (0x8, 0x8),
    (0x4, 0x4),
    (0x2, 0x2),
    (0x1, 0x1)]"
  by (simp add: golay_units_def golay_rem_units upt_rec)

lemma golay_fix_19:
  "golay_fix (golay_units 19) (Suc (Suc (Suc 0))) 0 0"
  unfolding golay_units_19
  by (simp add: golay_20_8_decoder_nth golay_20_8_decoder_rows_def golay_row_nth)

section \<open>Decoding\<close>

lemma golay_rem_0: "golay_rem n 0 = 0"
  using golay_rem_linear [of n 0 0] by simp

lemma bit_golay_code:
  "bit (golay_code d) m \<longleftrightarrow>
     (if 11 \<le> m then bit (d ! 0) (m - 11) else if 3 \<le> m then bit (d ! 1) (m - 3) else bit (d ! 2) (m + 5))"
proof -
  have b: "bit w n \<Longrightarrow> n < 8" for w :: u8 and n by (drule bit_imp_le_length) simp
  show ?thesis
    by (auto simp: golay_code_def bit_simps not_le add.commute dest: b)
qed

lemma golay_code_xor:
  assumes "length a = 3" "length b = 3"
  shows "golay_code (map2 (XOR) a b) = golay_code a XOR golay_code b"
  using assms by (intro bit_word_eqI) (simp add: bit_golay_code bit_xor_iff)

lemma golay_code_low: "take_bit 19 (golay_code d) = golay_code d"
  by (rule bit_word_eqI) (auto simp: bit_simps bit_golay_code dest: bit_imp_le_length)

lemma golay_code_data: "ucast (drop_bit 11 (golay_code d)) = d ! 0"
  by (rule bit_word_eqI) (simp add: bit_simps bit_golay_code)

lemma golay_code_encode:
  assumes "length data = 3"
  shows "golay_rem 12 (golay_code (dmr_golay_20_8_encode data)) = 0"
    and "dmr_golay_20_8_encode data ! 0 = data ! 0" and "length (dmr_golay_20_8_encode data) = 3"
proof -
  let ?i = "unat (data ! 0)"
  have i: "?i < 256" using unsigned_less [of "data ! 0"] by simp
  have "golay_code (dmr_golay_20_8_encode data) =
      golay_code [data ! 0, ucast (golay_20_8_encoder ! ?i), ucast (drop_bit 8 (golay_20_8_encoder ! ?i))]"
    using assms by (simp add: golay_code_def dmr_golay_20_8_encode_def Let_def)
  then show "golay_rem 12 (golay_code (dmr_golay_20_8_encode data)) = 0"
    using golay_enc_ok_nth [OF golay_enc_ok_encoder, of ?i] i by simp
  show "dmr_golay_20_8_encode data ! 0 = data ! 0" "length (dmr_golay_20_8_encode data) = 3"
    using assms by (simp_all add: dmr_golay_20_8_encode_def Let_def)
qed

lemma golay_decode_of:
  assumes "golay_rem 12 c = 0" "take_bit 19 c = c" "golay_code r = c XOR e"
    and "take_bit 19 e = e" "weight e \<le> 3"
  shows "dmr_golay_20_8_decode r = Some (ucast (drop_bit 11 c))"
proof -
  have r: "take_bit 23 (golay_code r) = golay_code r"
    using golay_code_low [of r] bit_less_take_bit [of 19 "golay_code r"]
    by (intro bit_word_eqI) (force simp: bit_take_bit_iff)
  then have s: "dmr_golay_20_8_syndrome (golay_code r) = Some (golay_rem 12 e)"
    using assms by (simp add: golay_syndrome_rem golay_rem_linear)
  have "take_bit 23 e = e"
    using bit_less_take_bit [OF assms(4)] by (intro bit_word_eqI) (force simp: bit_take_bit_iff)
  then have "unat (golay_rem 12 e) < 2 ^ 11"
    by (intro unat_less_take_bit golay_rem_low) simp_all
  moreover have "golay_20_8_decoder ! unat (golay_rem 12 e) = e"
    using golay_fix_sound [of 19 3 0 e] golay_fix_19 assms
    by (simp add: numeral_3_eq_3 golay_rem_0)
  ultimately show ?thesis
    using s assms(3) by (simp add: dmr_golay_20_8_decode_def Let_def xor.assoc)
qed

section \<open>Properties\<close>

text \<open>
  The syndrome loops end on every 23-bit pattern with a value below 2048 that indexes
  the decoder's table, and the syndrome is linear: the syndrome of the exclusive or of two
  patterns is the exclusive or of their syndromes.
\<close>

theorem golay_syndrome_terminates:
  assumes "unat p < 2 ^ 23" "unat q < 2 ^ 23"
  shows "\<exists>r s. dmr_golay_20_8_syndrome p = Some r \<and> dmr_golay_20_8_syndrome q = Some s \<and>
    unat r < length golay_20_8_decoder \<and> dmr_golay_20_8_syndrome (p XOR q) = Some (r XOR s)"
proof -
  have l: "take_bit 23 p = p" "take_bit 23 q = q" using assms by (simp_all add: take_bit_of_less)
  then have x: "take_bit 23 (p XOR q) = p XOR q" by simp
  have "unat (golay_rem 12 p) < 2 ^ 11"
    using l by (intro unat_less_take_bit golay_rem_low) simp_all
  with l x show ?thesis by (simp add: golay_syndrome_rem golay_rem_linear)
qed

theorem golay_syndrome_terminates_witness:
  "\<exists>r s. dmr_golay_20_8_syndrome 0x24020 = Some r \<and> dmr_golay_20_8_syndrome 0x48040 = Some s \<and>
    unat r < length golay_20_8_decoder \<and> dmr_golay_20_8_syndrome (0x24020 XOR 0x48040) = Some (r XOR s)"
  by (rule golay_syndrome_terminates) simp_all

text \<open>
  C1. The slot-type code corrects three errors: if an encoded triple of bytes is received
  with at most three of the nineteen bits the decoder reads flipped, in any combination,
  decoding returns the byte that was encoded.
\<close>

theorem golay_corrects_three_errors:
  assumes "length data = 3" "length err = 3" "weight (golay_code err) \<le> 3"
  shows "dmr_golay_20_8_decode (map2 (XOR) (dmr_golay_20_8_encode data) err) = Some (data ! 0)"
proof -
  let ?c = "golay_code (dmr_golay_20_8_encode data)"
  have "dmr_golay_20_8_decode (map2 (XOR) (dmr_golay_20_8_encode data) err) = Some (ucast (drop_bit 11 ?c))"
    using assms golay_code_encode [OF assms(1)]
    by (intro golay_decode_of [where e = "golay_code err"]) (simp_all add: golay_code_xor golay_code_low)
  then show ?thesis using golay_code_encode(2) [OF assms(1)] by (simp add: golay_code_data)
qed

theorem golay_corrects_three_errors_witness:
  "dmr_golay_20_8_decode (map2 (XOR) (dmr_golay_20_8_encode [0x16, 0, 0]) [0x81, 0x10, 0x00]) = Some 0x16"
proof -
  have "weight (golay_code [0x81, 0x10, 0x00]) \<le> 3"
    by (simp add: golay_code_def weight_def upt_rec)
  then show ?thesis using golay_corrects_three_errors [of "[0x16, 0, 0]" "[0x81, 0x10, 0x00]"] by simp
qed

end
