(* ===== verification/Dmr_Hamming.thy ===== *)
theory Dmr_Hamming
  imports Dmr_Bits
begin

unbundle bit_operations_syntax

text \<open>
  \<open>src/dmr/fec/hamming.c\<close>: the five systematic Hamming codes, their parity computation,
  their encoders and the parity check that the \<open>decode\<close> functions are.  The check reads
  the generator table at \<open>pos - 1\<close>, where \<open>pos\<close> ranges over all syndromes: for the codes
  that are not perfect this leaves the table, which is \<open>None\<close>.
\<close>

section \<open>Definitions\<close>

record hamming_t =
  ham_n :: u8
  ham_k :: u8
  ham_d :: u8
  ham_p :: u8
  ham_g :: "u8 list"

definition hamming_7_4_3 :: hamming_t where
  "hamming_7_4_3 = \<lparr>ham_n = 7, ham_k = 4, ham_d = 3, ham_p = 0,
     ham_g = [0x05, 0x07, 0x06, 0x03, 0x04, 0x02, 0x01]\<rparr>"

definition hamming_13_9_3 :: hamming_t where
  "hamming_13_9_3 = \<lparr>ham_n = 13, ham_k = 9, ham_d = 3, ham_p = 0,
     ham_g = [0x0f, 0x0e, 0x07, 0x0a, 0x05, 0x0b, 0x0c, 0x06, 0x03,
              0x08, 0x04, 0x02, 0x01]\<rparr>"

definition hamming_15_11_3 :: hamming_t where
  "hamming_15_11_3 = \<lparr>ham_n = 15, ham_k = 11, ham_d = 3, ham_p = 0,
     ham_g = [0x09, 0x0d, 0x0f, 0x0e, 0x07, 0x0a, 0x05, 0x0b, 0x0c, 0x06, 0x03,
              0x08, 0x04, 0x02, 0x01]\<rparr>"

definition hamming_16_11_4 :: hamming_t where
  "hamming_16_11_4 = \<lparr>ham_n = 16, ham_k = 11, ham_d = 4, ham_p = 0,
     ham_g = [0x13, 0x1a, 0x1f, 0x1c, 0x0e, 0x15, 0x0b, 0x16, 0x19, 0x0d, 0x07,
              0x10, 0x08, 0x04, 0x02, 0x01]\<rparr>"

definition hamming_17_12_3 :: hamming_t where
  "hamming_17_12_3 = \<lparr>ham_n = 17, ham_k = 12, ham_d = 3, ham_p = 0,
     ham_g = [0x1b, 0x1f, 0x1d, 0x1c, 0x0e, 0x07, 0x11, 0x1a, 0x0d, 0x14, 0x0a, 0x05,
              0x10, 0x08, 0x04, 0x02, 0x01]\<rparr>"

text \<open>\<open>b = h->n - h->k\<close>, the number of parity bits.\<close>

definition ham_b :: "hamming_t \<Rightarrow> nat" where
  "ham_b h = unat (ham_n h - ham_k h)"

text \<open>The array \<open>p[0..b-1]\<close> that \<open>hamming_parity\<close> writes.\<close>

definition hamming_parity :: "hamming_t \<Rightarrow> bool list \<Rightarrow> bool list" where
  "hamming_parity h d =
     map (\<lambda>x. fold (\<lambda>y px. if ham_g h ! y AND push_bit (ham_b h - x - 1) 1 \<noteq> 0
                            then bxor px (d ! y) else px)
               [0..<unat (ham_k h)] False)
       [0..<ham_b h]"

text \<open>
  The loop from \<open>check_again\<close>: collect the positions of the parity bits that differ into
  \<open>pos\<close>, look \<open>pos\<close> up in the generator table and try again, at most \<open>h->d\<close> times.  Neither
  \<open>d\<close> nor \<open>p\<close> changes between the attempts.
\<close>

definition hamming_diff :: "hamming_t \<Rightarrow> bool list \<Rightarrow> bool list \<Rightarrow> u8 \<Rightarrow> u8" where
  "hamming_diff h d p pos =
     fold (\<lambda>i pos. if d ! (i + unat (ham_k h)) \<noteq> p ! i then pos OR push_bit i 1 else pos)
       [0..<ham_b h] pos"

function hamming_check :: "hamming_t \<Rightarrow> bool list \<Rightarrow> bool list \<Rightarrow> nat \<Rightarrow> u8 \<Rightarrow> bool option" where
  "hamming_check h d p err pos =
     (let pos = hamming_diff h d p pos
      in if pos = 0 then Some True
         else case c_read (ham_g h) (unat pos - 1) of
             None \<Rightarrow> None
           | Some pos \<Rightarrow>
               (if err + 1 < unat (ham_d h) then hamming_check h d p (err + 1) pos
                else Some False))"
  by pat_completeness auto
termination
  by (relation "measure (\<lambda>(h, d, p, err, pos). unat (ham_d h) - err)") auto

declare hamming_check.simps [simp del]

definition hamming_parity_check :: "hamming_t \<Rightarrow> bool list \<Rightarrow> bool option" where
  "hamming_parity_check h d = hamming_check h d (hamming_parity h d) 0 0"

text \<open>The \<open>HAMMING_CODE\<close> macro: \<open>decode\<close> is the check, \<open>encode\<close> writes the parity at \<open>d + k\<close>.\<close>

definition hamming_encode :: "hamming_t \<Rightarrow> bool list \<Rightarrow> bool list" where
  "hamming_encode h d = blit d (unat (ham_k h)) (hamming_parity h d)"

definition dmr_hamming_7_4_3_decode :: "bool list \<Rightarrow> bool option" where
  "dmr_hamming_7_4_3_decode d = hamming_parity_check hamming_7_4_3 d"

definition dmr_hamming_7_4_3_encode :: "bool list \<Rightarrow> bool list" where
  "dmr_hamming_7_4_3_encode d = hamming_encode hamming_7_4_3 d"

definition dmr_hamming_13_9_3_decode :: "bool list \<Rightarrow> bool option" where
  "dmr_hamming_13_9_3_decode d = hamming_parity_check hamming_13_9_3 d"

definition dmr_hamming_13_9_3_encode :: "bool list \<Rightarrow> bool list" where
  "dmr_hamming_13_9_3_encode d = hamming_encode hamming_13_9_3 d"

definition dmr_hamming_15_11_3_decode :: "bool list \<Rightarrow> bool option" where
  "dmr_hamming_15_11_3_decode d = hamming_parity_check hamming_15_11_3 d"

definition dmr_hamming_15_11_3_encode :: "bool list \<Rightarrow> bool list" where
  "dmr_hamming_15_11_3_encode d = hamming_encode hamming_15_11_3 d"

definition dmr_hamming_16_11_4_decode :: "bool list \<Rightarrow> bool option" where
  "dmr_hamming_16_11_4_decode d = hamming_parity_check hamming_16_11_4 d"

definition dmr_hamming_16_11_4_encode :: "bool list \<Rightarrow> bool list" where
  "dmr_hamming_16_11_4_encode d = hamming_encode hamming_16_11_4 d"

definition dmr_hamming_17_12_3_decode :: "bool list \<Rightarrow> bool option" where
  "dmr_hamming_17_12_3_decode d = hamming_parity_check hamming_17_12_3 d"

definition dmr_hamming_17_12_3_encode :: "bool list \<Rightarrow> bool list" where
  "dmr_hamming_17_12_3_encode d = hamming_encode hamming_17_12_3 d"

section \<open>Systematic block codes\<close>

text \<open>
  The contract a user of a systematic code relies on: the encoder keeps the first \<open>k\<close>
  symbols, its output depends on them alone, and the check accepts exactly the words the
  encoder leaves alone.
\<close>

locale systematic_code =
  fixes n k :: nat
    and encode :: "'s list \<Rightarrow> 's list"
    and check :: "'s list \<Rightarrow> bool"
  assumes length_encode: "length d = n \<Longrightarrow> length (encode d) = n"
    and data_encode: "length d = n \<Longrightarrow> take k (encode d) = take k d"
    and encode_cong: "length d = n \<Longrightarrow> length d' = n \<Longrightarrow> take k d = take k d' \<Longrightarrow> encode d = encode d'"
    and check_iff: "length w = n \<Longrightarrow> check w \<longleftrightarrow> encode w = w"
begin

lemma encode_idem: "length d = n \<Longrightarrow> encode (encode d) = encode d"
  by (rule encode_cong) (simp_all add: length_encode data_encode)

lemma check_encode: "length d = n \<Longrightarrow> check (encode d)"
  by (simp add: check_iff length_encode encode_idem)

lemma check_unique:
  assumes "length w = n" "length w' = n" "check w" "check w'" "take k w = take k w'"
  shows "w = w'"
  using assms encode_cong [of w w'] by (simp add: check_iff)

lemma check_range: "length w = n \<Longrightarrow> check w \<longleftrightarrow> (\<exists>d. length d = n \<and> w = encode d)"
  using check_encode check_iff by metis

end

section \<open>Parity-check codes\<close>

text \<open>
  The syndrome of a word under the rows of a generator table whose last rows are the unit
  vectors, and how flipping one bit changes it.
\<close>

fun syndrome :: "u8 list \<Rightarrow> bool list \<Rightarrow> u8" where
  "syndrome (r # g) (b # w) = (if b then r else 0) XOR syndrome g w"
| "syndrome _ _ = 0"

lemma syndrome_append:
  "length g = length w \<Longrightarrow> syndrome (g @ g') (w @ w') = syndrome g w XOR syndrome g' w'"
  by (induction g w rule: list_induct2) (simp_all add: xor.assoc)

lemma syndrome_flip:
  "i < length g \<Longrightarrow> length w = length g \<Longrightarrow>
   syndrome g (w[i := \<not> w ! i]) = syndrome g w XOR g ! i"
proof (induction g arbitrary: w i)
  case Nil
  then show ?case by simp
next
  case (Cons r g)
  then obtain b w' where w: "w = b # w'" by (cases w) auto
  show ?case
  proof (cases i)
    case 0
    then show ?thesis using w by (auto simp: xor.commute)
  next
    case (Suc j)
    then show ?thesis using w Cons by (simp add: xor.assoc)
  qed
qed

lemma syndrome_take:
  assumes "m < 8"
  shows "k \<le> length g \<Longrightarrow> k \<le> length d \<Longrightarrow>
    fold (\<lambda>y px. if g ! y AND push_bit m 1 \<noteq> 0 then bxor px (d ! y) else px) [0..<k] False =
      bit (syndrome (take k g) (take k d)) m"
proof (induction k)
  case 0
  then show ?case by simp
next
  case (Suc k)
  have "(g ! k AND push_bit m 1 \<noteq> 0) = bit (g ! k) m"
    using and_pow2_nonzero [of "g ! k" m] by (simp add: push_bit_eq_mult)
  with Suc show ?case
    by (auto simp: take_Suc_conv_app_nth syndrome_append bxor_def bit_xor_iff)
qed

text \<open>
  A code that detects every error of one or two bits: the rows are pairwise distinct and
  none is zero.
\<close>

locale distance3_code =
  fixes rows :: "u8 list"
  assumes rows_distinct: "distinct rows"
    and rows_nonzero: "0 \<notin> set rows"
begin

lemma single_flip_detected:
  assumes "length w = length rows" "syndrome rows w = 0" "i < length rows"
  shows "syndrome rows (w[i := \<not> w ! i]) \<noteq> 0"
proof -
  have "rows ! i \<noteq> 0" using assms(3) rows_nonzero by (metis nth_mem)
  with assms show ?thesis by (simp add: syndrome_flip)
qed

lemma double_flip_detected:
  assumes "length w = length rows" "syndrome rows w = 0" "i < length rows" "j < length rows" "i \<noteq> j"
  shows "syndrome rows ((w[i := \<not> w ! i])[j := \<not> w ! j]) \<noteq> 0"
proof -
  let ?v = "w[i := \<not> w ! i]"
  have "syndrome rows (?v[j := \<not> ?v ! j]) = syndrome rows ?v XOR rows ! j"
    using assms by (intro syndrome_flip) simp_all
  moreover have "syndrome rows ?v = syndrome rows w XOR rows ! i"
    using assms by (intro syndrome_flip) simp_all
  ultimately have "syndrome rows (?v[j := \<not> w ! j]) = rows ! i XOR rows ! j"
    using assms by simp
  moreover have "rows ! i \<noteq> rows ! j"
    using rows_distinct assms by (simp add: nth_eq_iff_index_eq)
  ultimately show ?thesis by simp
qed

end

section \<open>The generic Hamming code is systematic\<close>

text \<open>What the five tables have in common.\<close>

definition ham_wf :: "hamming_t \<Rightarrow> bool" where
  "ham_wf h \<longleftrightarrow>
     unat (ham_n h) = unat (ham_k h) + ham_b h \<and> ham_b h \<le> 8 \<and>
     length (ham_g h) = unat (ham_n h) \<and>
     drop (unat (ham_k h)) (ham_g h) = map (\<lambda>x. push_bit (ham_b h - x - 1) 1) [0..<ham_b h] \<and>
     (\<forall>r \<in> set (ham_g h). take_bit (ham_b h) r = r) \<and>
     distinct (ham_g h) \<and> 0 \<notin> set (ham_g h) \<and> 0 < ham_d h"

lemma length_hamming_parity [simp, dmr_len]: "length (hamming_parity h d) = ham_b h"
  by (simp add: hamming_parity_def)

lemma hamming_parity_cong:
  assumes "take (unat (ham_k h)) d = take (unat (ham_k h)) d'"
  shows "hamming_parity h d = hamming_parity h d'"
proof -
  have "d ! y = d' ! y" if "y < unat (ham_k h)" for y
    using that assms by (metis nth_take)
  then show ?thesis
    unfolding hamming_parity_def by (intro map_cong refl fold_cong) auto
qed

lemma syndrome_units:
  "length w = b \<Longrightarrow> b \<le> 8 \<Longrightarrow> x < b \<Longrightarrow>
   bit (syndrome (map (\<lambda>x. push_bit (b - x - 1) 1) [0..<b]) w) (b - x - 1) = w ! x"
proof (induction w arbitrary: b x)
  case Nil
  then show ?case by simp
next
  case (Cons v w)
  then obtain c where b: "b = Suc c" by (cases b) auto
  have "map (\<lambda>x. push_bit (b - x - 1) (1::u8)) [0..<b] =
      push_bit c 1 # map (\<lambda>x. push_bit (c - x - 1) 1) [0..<c]"
    unfolding b upt_conv_Cons [OF zero_less_Suc] map_Suc_upt [symmetric] by simp
  then have s: "syndrome (map (\<lambda>x. push_bit (b - x - 1) (1::u8)) [0..<b]) (v # w) =
      (if v then push_bit c 1 else 0) XOR syndrome (map (\<lambda>x. push_bit (c - x - 1) 1) [0..<c]) w"
    by simp
  have high: "\<not> bit (syndrome (map (\<lambda>x. push_bit (c - x - 1) 1) [0..<c]) u) c"
    if "length u = c" for u
  proof -
    have *: "\<forall>r \<in> set g. \<not> bit r c \<Longrightarrow> \<not> bit (syndrome g u) c" for g
      by (induction g u rule: syndrome.induct) (auto simp: bit_xor_iff)
    show ?thesis by (rule *) (auto simp: bit_simps)
  qed
  show ?case
  proof (cases x)
    case 0
    with Cons.prems high [of w] b show ?thesis
      unfolding s by (auto simp: bit_xor_iff bit_simps)
  next
    case (Suc y)
    have "bit (syndrome (map (\<lambda>x. push_bit (c - x - 1) 1) [0..<c]) w) (c - y - 1) = w ! y"
      using Cons.IH [of c y] Cons.prems b Suc by simp
    moreover have "c - y - 1 \<noteq> c" using Cons.prems b Suc by simp
    ultimately show ?thesis
      using b Suc Cons.prems unfolding s by (auto simp: bit_xor_iff bit_simps)
  qed
qed

lemma syndrome_low: "\<forall>r \<in> set g. take_bit b r = r \<Longrightarrow> take_bit b (syndrome g w) = syndrome g w"
  by (induction g w rule: syndrome.induct) (auto simp: take_bit_xor)

text \<open>The check's comparison, the encoder's fixed points and a zero syndrome are the same thing.\<close>

lemma hamming_parity_syndrome:
  assumes wf: "ham_wf h" and len: "length w = unat (ham_n h)"
  shows "drop (unat (ham_k h)) w = hamming_parity h w \<longleftrightarrow> syndrome (ham_g h) w = 0"
proof -
  let ?k = "unat (ham_k h)" and ?b = "ham_b h" and ?g = "ham_g h"
  let ?s = "syndrome (take ?k ?g) (take ?k w)"
  from wf have nk: "unat (ham_n h) = ?k + ?b" and b8: "?b \<le> 8" and lg: "length ?g = unat (ham_n h)"
    and units: "drop ?k ?g = map (\<lambda>x. push_bit (?b - x - 1) 1) [0..<?b]"
    and low: "\<forall>r \<in> set ?g. take_bit ?b r = r"
    by (auto simp: ham_wf_def)
  let ?u = "syndrome (drop ?k ?g) (drop ?k w)"
  have split: "syndrome ?g w = ?s XOR ?u"
    using syndrome_append [of "take ?k ?g" "take ?k w" "drop ?k ?g" "drop ?k w"] lg len nk
    by simp
  have p: "hamming_parity h w ! x = bit ?s (?b - x - 1)" if "x < ?b" for x
    using that syndrome_take [of "?b - x - 1" ?k ?g w] b8 lg len nk
    by (simp add: hamming_parity_def)
  have u: "drop ?k w ! x = bit ?u (?b - x - 1)" if "x < ?b" for x
    using syndrome_units [of "drop ?k w" ?b x] that b8 len nk units by simp
  have "drop ?k w = hamming_parity h w \<longleftrightarrow> (\<forall>x < ?b. drop ?k w ! x = hamming_parity h w ! x)"
    using len nk by (simp add: list_eq_iff_nth_eq)
  then have eq: "drop ?k w = hamming_parity h w \<longleftrightarrow>
      (\<forall>x < ?b. bit ?s (?b - x - 1) = bit ?u (?b - x - 1))"
    using p u by metis
  have "\<dots> \<longleftrightarrow> (\<forall>m < ?b. bit ?s m = bit ?u m)"
  proof
    assume *: "\<forall>x < ?b. bit ?s (?b - x - 1) = bit ?u (?b - x - 1)"
    show "\<forall>m < ?b. bit ?s m = bit ?u m"
    proof (intro allI impI)
      fix m assume "m < ?b"
      then have "?b - (?b - m - 1) - 1 = m" "?b - m - 1 < ?b" by auto
      with * show "bit ?s m = bit ?u m" by metis
    qed
  qed auto
  also have "\<dots> \<longleftrightarrow> take_bit ?b ?s = take_bit ?b ?u"
    by (simp add: take_bit_eq_bits)
  also have "\<dots> \<longleftrightarrow> ?s = ?u"
  proof -
    have "\<forall>r \<in> set (take ?k ?g). take_bit ?b r = r" "\<forall>r \<in> set (drop ?k ?g). take_bit ?b r = r"
      using low by (auto dest: in_set_takeD in_set_dropD)
    then show ?thesis by (simp add: syndrome_low)
  qed
  finally show ?thesis using eq split by simp
qed

lemma hamming_encode_eq:
  assumes "ham_wf h" "length d = unat (ham_n h)"
  shows "hamming_encode h d = take (unat (ham_k h)) d @ hamming_parity h d"
  using assms by (simp add: hamming_encode_def blit_def ham_wf_def)

lemma hamming_encode_fix:
  assumes "ham_wf h" "length w = unat (ham_n h)"
  shows "hamming_encode h w = w \<longleftrightarrow> syndrome (ham_g h) w = 0"
proof -
  have "hamming_encode h w = w \<longleftrightarrow> drop (unat (ham_k h)) w = hamming_parity h w"
    using assms append_take_drop_id [of "unat (ham_k h)" w]
    by (metis append_same_eq hamming_encode_eq same_append_eq)
  with hamming_parity_syndrome [OF assms] show ?thesis by simp
qed

lemma bit_hamming_diff_loop:
  "b \<le> 8 \<Longrightarrow>
   bit (fold (\<lambda>i pos. if P i then pos OR push_bit i 1 else pos) [0..<b] (pos::u8)) m \<longleftrightarrow>
     bit pos m \<or> m < b \<and> P m"
proof (induction b)
  case 0
  then show ?case by simp
next
  case (Suc b)
  have "bit (push_bit b 1 :: u8) m \<longleftrightarrow> m = b" using Suc.prems by (auto simp: bit_simps)
  with Suc show ?case by (auto simp: bit_or_iff less_Suc_eq)
qed

lemma word_eq_0_bits: "w = 0 \<longleftrightarrow> (\<forall>m. \<not> bit w m)" for w :: "'a::len word"
  by (auto intro: bit_word_eqI)

lemma hamming_diff_eq_0:
  assumes "ham_b h \<le> 8" "length d = unat (ham_k h) + ham_b h" "length p = ham_b h"
  shows "hamming_diff h d p pos = 0 \<longleftrightarrow> pos = 0 \<and> drop (unat (ham_k h)) d = p"
proof -
  have "hamming_diff h d p pos = 0 \<longleftrightarrow>
      pos = 0 \<and> (\<forall>m < ham_b h. d ! (m + unat (ham_k h)) = p ! m)"
    unfolding hamming_diff_def word_eq_0_bits bit_hamming_diff_loop [OF assms(1)] by blast
  then show ?thesis using assms(2,3) by (auto simp: list_eq_iff_nth_eq add.commute)
qed

lemma hamming_check_not_True:
  assumes "ham_b h \<le> 8" "length d = unat (ham_k h) + ham_b h" "length p = ham_b h"
    and "drop (unat (ham_k h)) d \<noteq> p"
  shows "hamming_check h d p err pos \<noteq> Some True"
  using assms
proof (induction h d p err pos rule: hamming_check.induct)
  case (1 h d p err pos)
  then show ?case
    by (subst hamming_check.simps) (auto simp: Let_def hamming_diff_eq_0 split: option.splits)
qed

text \<open>The decoder accepts exactly the code words and never repairs a word.\<close>

lemma hamming_accepts:
  assumes "ham_wf h" "length w = unat (ham_n h)"
  shows "hamming_parity_check h w = Some True \<longleftrightarrow> syndrome (ham_g h) w = 0"
proof -
  have l: "ham_b h \<le> 8" "length w = unat (ham_k h) + ham_b h"
    using assms by (auto simp: ham_wf_def)
  show ?thesis
  proof (cases "drop (unat (ham_k h)) w = hamming_parity h w")
    case True
    then have "hamming_diff h w (hamming_parity h w) 0 = 0" using l by (simp add: hamming_diff_eq_0)
    then show ?thesis
      using True hamming_parity_syndrome [OF assms]
      by (simp add: hamming_parity_check_def hamming_check.simps)
  next
    case False
    then show ?thesis
      using hamming_check_not_True [OF l(1) l(2)] hamming_parity_syndrome [OF assms]
      by (simp add: hamming_parity_check_def)
  qed
qed

section \<open>The five codes\<close>

definition hamming_codes :: "hamming_t list" where
  "hamming_codes =
     [hamming_7_4_3, hamming_13_9_3, hamming_15_11_3, hamming_16_11_4, hamming_17_12_3]"

lemmas hamming_tables =
  hamming_7_4_3_def hamming_13_9_3_def hamming_15_11_3_def hamming_16_11_4_def hamming_17_12_3_def

lemma ham_wf_7_4_3: "ham_wf hamming_7_4_3"
  by (simp add: ham_wf_def ham_b_def hamming_tables upt_rec)

lemma ham_wf_13_9_3: "ham_wf hamming_13_9_3"
  by (simp add: ham_wf_def ham_b_def hamming_tables upt_rec)

lemma ham_wf_15_11_3: "ham_wf hamming_15_11_3"
  by (simp add: ham_wf_def ham_b_def hamming_tables upt_rec)

lemma ham_wf_16_11_4: "ham_wf hamming_16_11_4"
  by (simp add: ham_wf_def ham_b_def hamming_tables upt_rec)

lemma ham_wf_17_12_3: "ham_wf hamming_17_12_3"
  by (simp add: ham_wf_def ham_b_def hamming_tables upt_rec)

lemmas ham_wf_codes = ham_wf_7_4_3 ham_wf_13_9_3 ham_wf_15_11_3 ham_wf_16_11_4 ham_wf_17_12_3

lemma ham_wf_hamming_codes: "h \<in> set hamming_codes \<Longrightarrow> ham_wf h"
  using ham_wf_codes by (auto simp: hamming_codes_def)

lemma hamming_systematic:
  assumes "ham_wf h"
  shows "systematic_code (unat (ham_n h)) (unat (ham_k h)) (hamming_encode h)
    (\<lambda>w. hamming_parity_check h w = Some True)"
proof
  fix d d' :: "bool list"
  let ?k = "unat (ham_k h)"
  have k: "?k \<le> unat (ham_n h)" using assms by (auto simp: ham_wf_def)
  assume d: "length d = unat (ham_n h)"
  show "length (hamming_encode h d) = unat (ham_n h)"
    using assms d by (simp add: hamming_encode_eq, simp add: ham_wf_def)
  show "take ?k (hamming_encode h d) = take ?k d"
    using assms d k by (simp add: hamming_encode_eq)
  show "hamming_parity_check h d = Some True \<longleftrightarrow> hamming_encode h d = d"
    using assms d by (simp add: hamming_accepts hamming_encode_fix)
  assume "length d' = unat (ham_n h)" "take ?k d = take ?k d'"
  then show "hamming_encode h d = hamming_encode h d'"
    using assms d hamming_parity_cong [of h d d'] by (simp add: hamming_encode_eq)
qed

lemma ham_dims:
  "unat (ham_n hamming_7_4_3) = 7" "unat (ham_k hamming_7_4_3) = 4"
  "unat (ham_n hamming_13_9_3) = 13" "unat (ham_k hamming_13_9_3) = 9"
  "unat (ham_n hamming_15_11_3) = 15" "unat (ham_k hamming_15_11_3) = 11"
  "unat (ham_n hamming_16_11_4) = 16" "unat (ham_k hamming_16_11_4) = 11"
  "unat (ham_n hamming_17_12_3) = 17" "unat (ham_k hamming_17_12_3) = 12"
  by (simp_all add: hamming_tables)

interpretation ham7: systematic_code 7 4 dmr_hamming_7_4_3_encode
  "\<lambda>w. dmr_hamming_7_4_3_decode w = Some True"
  using hamming_systematic [OF ham_wf_7_4_3]
  by (simp add: dmr_hamming_7_4_3_encode_def [abs_def] dmr_hamming_7_4_3_decode_def ham_dims)

interpretation ham13: systematic_code 13 9 dmr_hamming_13_9_3_encode
  "\<lambda>w. dmr_hamming_13_9_3_decode w = Some True"
  using hamming_systematic [OF ham_wf_13_9_3]
  by (simp add: dmr_hamming_13_9_3_encode_def [abs_def] dmr_hamming_13_9_3_decode_def ham_dims)

interpretation ham15: systematic_code 15 11 dmr_hamming_15_11_3_encode
  "\<lambda>w. dmr_hamming_15_11_3_decode w = Some True"
  using hamming_systematic [OF ham_wf_15_11_3]
  by (simp add: dmr_hamming_15_11_3_encode_def [abs_def] dmr_hamming_15_11_3_decode_def ham_dims)

interpretation ham16: systematic_code 16 11 dmr_hamming_16_11_4_encode
  "\<lambda>w. dmr_hamming_16_11_4_decode w = Some True"
  using hamming_systematic [OF ham_wf_16_11_4]
  by (simp add: dmr_hamming_16_11_4_encode_def [abs_def] dmr_hamming_16_11_4_decode_def ham_dims)

interpretation ham17: systematic_code 17 12 dmr_hamming_17_12_3_encode
  "\<lambda>w. dmr_hamming_17_12_3_decode w = Some True"
  using hamming_systematic [OF ham_wf_17_12_3]
  by (simp add: dmr_hamming_17_12_3_encode_def [abs_def] dmr_hamming_17_12_3_decode_def ham_dims)

lemma ham_wf_distance3: "ham_wf h \<Longrightarrow> distance3_code (ham_g h)"
  by unfold_locales (auto simp: ham_wf_def)

interpretation ham13_rows: distance3_code "ham_g hamming_13_9_3"
  by (rule ham_wf_distance3 [OF ham_wf_13_9_3])

interpretation ham15_rows: distance3_code "ham_g hamming_15_11_3"
  by (rule ham_wf_distance3 [OF ham_wf_15_11_3])

text \<open>
  A perfect code has a row for every nonzero syndrome, so its check never leaves the table.
\<close>

lemma take_bit_hamming_diff:
  assumes "ham_b h \<le> 8" "take_bit (ham_b h) pos = pos"
  shows "take_bit (ham_b h) (hamming_diff h d p pos) = hamming_diff h d p pos"
proof (rule bit_word_eqI)
  fix m
  have "bit pos m \<Longrightarrow> m < ham_b h" using assms(2) by (metis bit_take_bit_iff)
  then show "bit (take_bit (ham_b h) (hamming_diff h d p pos)) m = bit (hamming_diff h d p pos) m"
    by (auto simp: bit_take_bit_iff hamming_diff_def bit_hamming_diff_loop [OF assms(1)])
qed

lemma hamming_check_total:
  assumes "ham_b h \<le> 8" "\<forall>r \<in> set (ham_g h). take_bit (ham_b h) r = r"
    and "length (ham_g h) = 2 ^ ham_b h - 1" "take_bit (ham_b h) pos = pos"
  shows "hamming_check h d p err pos \<noteq> None"
  using assms
proof (induction h d p err pos rule: hamming_check.induct)
  case (1 h d p err pos)
  let ?pos = "hamming_diff h d p pos"
  show ?case
  proof (cases "?pos = 0")
    case True
    then show ?thesis by (subst hamming_check.simps) simp
  next
    case False
    then have "0 < unat ?pos" by (simp add: unat_gt_0)
    moreover have "unat ?pos < 2 ^ ham_b h"
      using 1 by (intro unat_less_take_bit take_bit_hamming_diff) simp_all
    ultimately have i: "unat ?pos - 1 < length (ham_g h)" using 1 by simp
    then have "take_bit (ham_b h) (ham_g h ! (unat ?pos - 1)) = ham_g h ! (unat ?pos - 1)"
      using 1 by (meson nth_mem)
    with i 1 False show ?thesis by (subst hamming_check.simps) (auto simp: Let_def)
  qed
qed

section \<open>Properties\<close>

text \<open>
  C8. Each of the five decoders accepts a word exactly when re-encoding it changes
  nothing, that is, when it is a code word, and every encoded word is accepted with its
  data bits intact.
\<close>

theorem hamming_decode_iff_codeword:
  assumes "h \<in> set hamming_codes" "length w = unat (ham_n h)"
  shows "(hamming_parity_check h w = Some True \<longleftrightarrow> hamming_encode h w = w) \<and>
    hamming_parity_check h (hamming_encode h w) = Some True \<and>
    take (unat (ham_k h)) (hamming_encode h w) = take (unat (ham_k h)) w"
proof (intro conjI)
  have wf: "ham_wf h" using assms(1) by (rule ham_wf_hamming_codes)
  note sys = hamming_systematic [OF wf]
  show "hamming_parity_check h w = Some True \<longleftrightarrow> hamming_encode h w = w"
    by (rule systematic_code.check_iff [OF sys assms(2)])
  show "hamming_parity_check h (hamming_encode h w) = Some True"
    by (rule systematic_code.check_encode [OF sys assms(2)])
  show "take (unat (ham_k h)) (hamming_encode h w) = take (unat (ham_k h)) w"
    by (rule systematic_code.data_encode [OF sys assms(2)])
qed

theorem hamming_decode_iff_codeword_witness:
  "hamming_parity_check hamming_7_4_3
     (hamming_encode hamming_7_4_3 [True, False, True, True, False, False, False]) = Some True"
  using hamming_decode_iff_codeword
    [of hamming_7_4_3 "[True, False, True, True, False, False, False]"]
  by (simp add: hamming_codes_def hamming_tables)

text \<open>
  Distance three: a code word of any of the five codes with one or two of its bits
  flipped is never accepted.
\<close>

theorem hamming_detects_two_errors:
  assumes "h \<in> set hamming_codes" "length w = unat (ham_n h)"
    and "hamming_parity_check h w = Some True" "i < length w" "j < length w"
  shows "hamming_parity_check h (w[i := \<not> w ! i]) \<noteq> Some True \<and>
    (i \<noteq> j \<longrightarrow> hamming_parity_check h ((w[i := \<not> w ! i])[j := \<not> w ! j]) \<noteq> Some True)"
proof -
  from assms(1) have wf: "ham_wf h" by (rule ham_wf_hamming_codes)
  then have lg: "length (ham_g h) = unat (ham_n h)" by (simp add: ham_wf_def)
  note d3 = ham_wf_distance3 [OF wf]
  have s: "syndrome (ham_g h) w = 0" using assms wf by (simp add: hamming_accepts)
  show ?thesis
    using distance3_code.single_flip_detected [OF d3, of w i]
      distance3_code.double_flip_detected [OF d3, of w i j] assms s lg
    by (simp add: hamming_accepts [OF wf])
qed

theorem hamming_detects_two_errors_witness:
  "hamming_parity_check hamming_7_4_3
     [False, True, False, False, False, False, False] \<noteq> Some True"
proof -
  let ?w = "[False, False, False, False, False, False, False]"
  have "hamming_parity_check hamming_7_4_3 ?w = Some True"
    using hamming_accepts [OF ham_wf_7_4_3, of ?w] by (simp add: hamming_tables)
  then show ?thesis
    using hamming_detects_two_errors [of hamming_7_4_3 ?w 1 2]
    by (simp add: hamming_codes_def hamming_tables)
qed

text \<open>
  The decoders of the two perfect codes return a verdict on every input; the check of
  the Hamming(13,9,3) code, which has two syndromes without a row, reads past its table.
\<close>

theorem hamming_decode_defined:
  "dmr_hamming_7_4_3_decode w \<noteq> None \<and> dmr_hamming_15_11_3_decode w \<noteq> None \<and>
   dmr_hamming_13_9_3_decode 
     [False, False, False, False, False, False, False, False, False, False, True, True, True] = None"
proof (intro conjI)
  have g: "\<forall>r \<in> set (ham_g hamming_7_4_3). take_bit (ham_b hamming_7_4_3) r = r"
    "\<forall>r \<in> set (ham_g hamming_15_11_3). take_bit (ham_b hamming_15_11_3) r = r"
    by (simp_all add: hamming_tables ham_b_def)
  show "dmr_hamming_7_4_3_decode w \<noteq> None"
    unfolding dmr_hamming_7_4_3_decode_def hamming_parity_check_def
    by (rule hamming_check_total) (use g in \<open>simp_all add: hamming_tables ham_b_def\<close>)
  show "dmr_hamming_15_11_3_decode w \<noteq> None"
    unfolding dmr_hamming_15_11_3_decode_def hamming_parity_check_def
    by (rule hamming_check_total) (use g in \<open>simp_all add: hamming_tables ham_b_def\<close>)
  show "dmr_hamming_13_9_3_decode 
     [False, False, False, False, False, False, False, False, False, False, True, True, True] = None"
    by (simp add: dmr_hamming_13_9_3_decode_def hamming_parity_check_def hamming_check.simps
        hamming_parity_def hamming_diff_def ham_b_def hamming_tables upt_rec)
qed

end
