(* ===== verification/Dmr_Rs.thy ===== *)
theory Dmr_Rs
  imports Dmr_Hamming
begin

unbundle bit_operations_syntax

text \<open>
  \<open>src/dmr/fec/rs_12_9.c\<close>: the shortened Reed-Solomon code (12,9) over GF(256) that
  protects the full link control.  Multiplication goes through logarithm tables; it is
  shown to be multiplication modulo \<open>x^8 + x^4 + x^3 + x^2 + 1\<close>, and the code to have
  distance four.
\<close>

section \<open>Definitions\<close>

definition POLY :: "u8 list" where
  "POLY = [64, 56, 14, 1, 0, 0, 0, 0, 0, 0, 0, 0]"

definition EXP_TABLE :: "u8 list" where
  "EXP_TABLE =
    [0x01, 0x02, 0x04, 0x08, 0x10, 0x20, 0x40, 0x80, 0x1d, 0x3a, 0x74, 0xe8, 0xcd, 0x87, 0x13, 0x26,
     0x4c, 0x98, 0x2d, 0x5a, 0xb4, 0x75, 0xea, 0xc9, 0x8f, 0x03, 0x06, 0x0c, 0x18, 0x30, 0x60, 0xc0,
     0x9d, 0x27, 0x4e, 0x9c, 0x25, 0x4a, 0x94, 0x35, 0x6a, 0xd4, 0xb5, 0x77, 0xee, 0xc1, 0x9f, 0x23,
     0x46, 0x8c, 0x05, 0x0a, 0x14, 0x28, 0x50, 0xa0, 0x5d, 0xba, 0x69, 0xd2, 0xb9, 0x6f, 0xde, 0xa1,
     0x5f, 0xbe, 0x61, 0xc2, 0x99, 0x2f, 0x5e, 0xbc, 0x65, 0xca, 0x89, 0x0f, 0x1e, 0x3c, 0x78, 0xf0,
     0xfd, 0xe7, 0xd3, 0xbb, 0x6b, 0xd6, 0xb1, 0x7f, 0xfe, 0xe1, 0xdf, 0xa3, 0x5b, 0xb6, 0x71, 0xe2,
     0xd9, 0xaf, 0x43, 0x86, 0x11, 0x22, 0x44, 0x88, 0x0d, 0x1a, 0x34, 0x68, 0xd0, 0xbd, 0x67, 0xce,
     0x81, 0x1f, 0x3e, 0x7c, 0xf8, 0xed, 0xc7, 0x93, 0x3b, 0x76, 0xec, 0xc5, 0x97, 0x33, 0x66, 0xcc,
     0x85, 0x17, 0x2e, 0x5c, 0xb8, 0x6d, 0xda, 0xa9, 0x4f, 0x9e, 0x21, 0x42, 0x84, 0x15, 0x2a, 0x54,
     0xa8, 0x4d, 0x9a, 0x29, 0x52, 0xa4, 0x55, 0xaa, 0x49, 0x92, 0x39, 0x72, 0xe4, 0xd5, 0xb7, 0x73,
     0xe6, 0xd1, 0xbf, 0x63, 0xc6, 0x91, 0x3f, 0x7e, 0xfc, 0xe5, 0xd7, 0xb3, 0x7b, 0xf6, 0xf1, 0xff,
     0xe3, 0xdb, 0xab, 0x4b, 0x96, 0x31, 0x62, 0xc4, 0x95, 0x37, 0x6e, 0xdc, 0xa5, 0x57, 0xae, 0x41,
     0x82, 0x19, 0x32, 0x64, 0xc8, 0x8d, 0x07, 0x0e, 0x1c, 0x38, 0x70, 0xe0, 0xdd, 0xa7, 0x53, 0xa6,
     0x51, 0xa2, 0x59, 0xb2, 0x79, 0xf2, 0xf9, 0xef, 0xc3, 0x9b, 0x2b, 0x56, 0xac, 0x45, 0x8a, 0x09,
     0x12, 0x24, 0x48, 0x90, 0x3d, 0x7a, 0xf4, 0xf5, 0xf7, 0xf3, 0xfb, 0xeb, 0xcb, 0x8b, 0x0b, 0x16,
     0x2c, 0x58, 0xb0, 0x7d, 0xfa, 0xe9, 0xcf, 0x83, 0x1b, 0x36, 0x6c, 0xd8, 0xad, 0x47, 0x8e, 0x01,
     0x02, 0x04, 0x08, 0x10, 0x20, 0x40, 0x80, 0x1d, 0x3a, 0x74, 0xe8, 0xcd, 0x87, 0x13, 0x26, 0x4c,
     0x98, 0x2d, 0x5a, 0xb4, 0x75, 0xea, 0xc9, 0x8f, 0x03, 0x06, 0x0c, 0x18, 0x30, 0x60, 0xc0, 0x9d,
     0x27, 0x4e, 0x9c, 0x25, 0x4a, 0x94, 0x35, 0x6a, 0xd4, 0xb5, 0x77, 0xee, 0xc1, 0x9f, 0x23, 0x46,
     0x8c, 0x05, 0x0a, 0x14, 0x28, 0x50, 0xa0, 0x5d, 0xba, 0x69, 0xd2, 0xb9, 0x6f, 0xde, 0xa1, 0x5f,
     0xbe, 0x61, 0xc2, 0x99, 0x2f, 0x5e, 0xbc, 0x65, 0xca, 0x89, 0x0f, 0x1e, 0x3c, 0x78, 0xf0, 0xfd,
     0xe7, 0xd3, 0xbb, 0x6b, 0xd6, 0xb1, 0x7f, 0xfe, 0xe1, 0xdf, 0xa3, 0x5b, 0xb6, 0x71, 0xe2, 0xd9,
     0xaf, 0x43, 0x86, 0x11, 0x22, 0x44, 0x88, 0x0d, 0x1a, 0x34, 0x68, 0xd0, 0xbd, 0x67, 0xce, 0x81,
     0x1f, 0x3e, 0x7c, 0xf8, 0xed, 0xc7, 0x93, 0x3b, 0x76, 0xec, 0xc5, 0x97, 0x33, 0x66, 0xcc, 0x85,
     0x17, 0x2e, 0x5c, 0xb8, 0x6d, 0xda, 0xa9, 0x4f, 0x9e, 0x21, 0x42, 0x84, 0x15, 0x2a, 0x54, 0xa8,
     0x4d, 0x9a, 0x29, 0x52, 0xa4, 0x55, 0xaa, 0x49, 0x92, 0x39, 0x72, 0xe4, 0xd5, 0xb7, 0x73, 0xe6,
     0xd1, 0xbf, 0x63, 0xc6, 0x91, 0x3f, 0x7e, 0xfc, 0xe5, 0xd7, 0xb3, 0x7b, 0xf6, 0xf1, 0xff, 0xe3,
     0xdb, 0xab, 0x4b, 0x96, 0x31, 0x62, 0xc4, 0x95, 0x37, 0x6e, 0xdc, 0xa5, 0x57, 0xae, 0x41, 0x82,
     0x19, 0x32, 0x64, 0xc8, 0x8d, 0x07, 0x0e, 0x1c, 0x38, 0x70, 0xe0, 0xdd, 0xa7, 0x53, 0xa6, 0x51,
     0xa2, 0x59, 0xb2, 0x79, 0xf2, 0xf9, 0xef, 0xc3, 0x9b, 0x2b, 0x56, 0xac, 0x45, 0x8a, 0x09, 0x12,
     0x24, 0x48, 0x90, 0x3d, 0x7a, 0xf4, 0xf5, 0xf7, 0xf3, 0xfb, 0xeb, 0xcb, 0x8b, 0x0b, 0x16, 0x2c,
     0x58, 0xb0, 0x7d, 0xfa, 0xe9, 0xcf, 0x83, 0x1b, 0x36, 0x6c, 0xd8, 0xad, 0x47, 0x8e, 0x01, 0x00]"

definition LOG_TABLE :: "u8 list" where
  "LOG_TABLE =
    [0x00, 0x00, 0x01, 0x19, 0x02, 0x32, 0x1a, 0xc6, 0x03, 0xdf, 0x33, 0xee, 0x1b, 0x68, 0xc7, 0x4b,
     0x04, 0x64, 0xe0, 0x0e, 0x34, 0x8d, 0xef, 0x81, 0x1c, 0xc1, 0x69, 0xf8, 0xc8, 0x08, 0x4c, 0x71,
     0x05, 0x8a, 0x65, 0x2f, 0xe1, 0x24, 0x0f, 0x21, 0x35, 0x93, 0x8e, 0xda, 0xf0, 0x12, 0x82, 0x45,
     0x1d, 0xb5, 0xc2, 0x7d, 0x6a, 0x27, 0xf9, 0xb9, 0xc9, 0x9a, 0x09, 0x78, 0x4d, 0xe4, 0x72, 0xa6,
     0x06, 0xbf, 0x8b, 0x62, 0x66, 0xdd, 0x30, 0xfd, 0xe2, 0x98, 0x25, 0xb3, 0x10, 0x91, 0x22, 0x88,
     0x36, 0xd0, 0x94, 0xce, 0x8f, 0x96, 0xdb, 0xbd, 0xf1, 0xd2, 0x13, 0x5c, 0x83, 0x38, 0x46, 0x40,
     0x1e, 0x42, 0xb6, 0xa3, 0xc3, 0x48, 0x7e, 0x6e, 0x6b, 0x3a, 0x28, 0x54, 0xfa, 0x85, 0xba, 0x3d,
     0xca, 0x5e, 0x9b, 0x9f, 0x0a, 0x15, 0x79, 0x2b, 0x4e, 0xd4, 0xe5, 0xac, 0x73, 0xf3, 0xa7, 0x57,
     0x07, 0x70, 0xc0, 0xf7, 0x8c, 0x80, 0x63, 0x0d, 0x67, 0x4a, 0xde, 0xed, 0x31, 0xc5, 0xfe, 0x18,
     0xe3, 0xa5, 0x99, 0x77, 0x26, 0xb8, 0xb4, 0x7c, 0x11, 0x44, 0x92, 0xd9, 0x23, 0x20, 0x89, 0x2e,
     0x37, 0x3f, 0xd1, 0x5b, 0x95, 0xbc, 0xcf, 0xcd, 0x90, 0x87, 0x97, 0xb2, 0xdc, 0xfc, 0xbe, 0x61,
     0xf2, 0x56, 0xd3, 0xab, 0x14, 0x2a, 0x5d, 0x9e, 0x84, 0x3c, 0x39, 0x53, 0x47, 0x6d, 0x41, 0xa2,
     0x1f, 0x2d, 0x43, 0xd8, 0xb7, 0x7b, 0xa4, 0x76, 0xc4, 0x17, 0x49, 0xec, 0x7f, 0x0c, 0x6f, 0xf6,
     0x6c, 0xa1, 0x3b, 0x52, 0x29, 0x9d, 0x55, 0xaa, 0xfb, 0x60, 0x86, 0xb1, 0xbb, 0xcc, 0x3e, 0x5a,
     0xcb, 0x59, 0x5f, 0xb0, 0x9c, 0xa9, 0xa0, 0x51, 0x0b, 0xf5, 0x16, 0xeb, 0x7a, 0x75, 0x2c, 0xd7,
     0x4f, 0xae, 0xd5, 0xe9, 0xe6, 0xe7, 0xad, 0xe8, 0x74, 0xd6, 0xf4, 0xea, 0xa8, 0x50, 0x58, 0xaf]"

definition gmult :: "u8 \<Rightarrow> u8 \<Rightarrow> u8" where
  "gmult a b =
     (if a = 0 \<or> b = 0 then 0
      else let i = LOG_TABLE ! unat a; j = LOG_TABLE ! unat b
           in EXP_TABLE ! (unat i + unat j))"

text \<open>The body of the loop of \<open>encode\<close>; \<open>encode\<close> writes \<open>parity[0..2]\<close>.\<close>

definition rs_encode_byte :: "u8 \<Rightarrow> u8 list \<Rightarrow> u8 list" where
  "rs_encode_byte byte parity =
     (let dbyte = byte XOR parity ! 2;
          parity = fold (\<lambda>j parity. parity[j := parity ! (j - 1) XOR gmult (POLY ! j) dbyte])
                     [2, 1] parity
      in parity[0 := gmult (POLY ! 0) dbyte])"

definition rs_encode :: "u8 list \<Rightarrow> u8 list" where
  "rs_encode bytes = fold (\<lambda>i parity. rs_encode_byte (bytes ! i) parity) [0..<9] [0, 0, 0]"

definition dmr_rs_12_9_4_decode :: "u8 list option \<Rightarrow> failure + unit" where
  "dmr_rs_12_9_4_decode bytes =
     (case bytes of
        None \<Rightarrow> Inl (Errno DMR_EINVAL)
      | Some bytes \<Rightarrow>
          let parity = rs_encode bytes
          in if bytes ! 9 XOR parity ! 2 \<noteq> 0 \<or> bytes ! 10 XOR parity ! 1 \<noteq> 0 \<or>
                bytes ! 11 XOR parity ! 0 \<noteq> 0
             then Inl Fail else Inr ())"

definition dmr_rs_12_9_4_encode :: "u8 list option \<Rightarrow> failure + u8 list" where
  "dmr_rs_12_9_4_encode bytes =
     (case bytes of
        None \<Rightarrow> Inl (Errno DMR_EINVAL)
      | Some bytes \<Rightarrow>
          let parity = rs_encode bytes
          in Inr (fold (\<lambda>i bytes. bytes[11 - i := parity ! i]) [0..<3] bytes))"

section \<open>The multiplicative group\<close>

text \<open>
  Multiplication by the generator, the step of the shift register; every field
  multiplication is an iterate of it.
\<close>

definition xtime :: "u8 \<Rightarrow> u8" where
  "xtime b = push_bit 1 b XOR (if bit b 7 then 0x1d else 0)"

lemma xtime_xor [dmr_lin]: "xtime (a XOR b) = xtime a XOR xtime b"
  by (rule bit_word_eqI) (auto simp: xtime_def bit_simps)

lemma xtime_pow_xor [dmr_lin]: "(xtime ^^ n) (a XOR b) = (xtime ^^ n) a XOR (xtime ^^ n) b"
  by (induction n) (simp_all add: xtime_xor)

lemma xtime_pow_0 [simp]: "(xtime ^^ n) 0 = 0"
  using xtime_pow_xor [of n 0 0] by simp

lemma xtime_eq_0: "xtime b = 0 \<longleftrightarrow> b = 0"
proof
  assume x: "xtime b = 0"
  have 0: "bit (xtime b) 0 = bit b 7" by (simp add: xtime_def bit_simps)
  have s: "bit (xtime b) (Suc m) = (bit b m \<noteq> (bit b 7 \<and> bit (0x1d::u8) (Suc m)))" if "m < 7" for m
    using that by (auto simp: xtime_def bit_simps)
  show "b = 0"
  proof (rule bit_word_eqI)
    fix m assume m: "m < LENGTH(8)"
    have "\<not> bit b 7" using 0 x by simp
    moreover have "\<not> bit b m" if "m < 7" using s [OF that] x \<open>\<not> bit b 7\<close> by simp
    ultimately show "bit b m = bit (0 :: u8) m" using m less_Suc_eq [of m 7] by auto
  qed
qed (simp add: xtime_def)

lemma xtime_pow_eq_0 [simp]: "(xtime ^^ n) b = 0 \<longleftrightarrow> b = 0"
  by (induction n) (simp_all add: xtime_eq_0)

lemma xtime_pow_inject: "(xtime ^^ n) a = (xtime ^^ n) b \<longleftrightarrow> a = b"
  using xtime_pow_eq_0 [of n "a XOR b"] by (auto simp: xtime_pow_xor word_xor_eq_0_iff)

fun exp_chain :: "u8 list \<Rightarrow> bool" where
  "exp_chain (a # b # xs) \<longleftrightarrow> b = xtime a \<and> exp_chain (b # xs)"
| "exp_chain _ \<longleftrightarrow> True"

lemma exp_chain_nth:
  "exp_chain (a # xs) \<Longrightarrow> i \<le> length xs \<Longrightarrow> (a # xs) ! i = (xtime ^^ i) a"
proof (induction xs arbitrary: a i)
  case Nil
  then show ?case by simp
next
  case (Cons b xs)
  show ?case
  proof (cases i)
    case (Suc j)
    then have "(b # xs) ! j = (xtime ^^ j) b" using Cons.IH [of b j] Cons.prems by auto
    with Suc Cons.prems show ?thesis by (auto simp: funpow_swap1)
  qed simp
qed

lemma exp_chain_table: "exp_chain (take 511 EXP_TABLE)"
  by (simp add: EXP_TABLE_def xtime_def)

lemma EXP_TABLE_nth: "i \<le> 510 \<Longrightarrow> EXP_TABLE ! i = (xtime ^^ i) 1"
proof -
  assume i: "i \<le> 510"
  obtain xs where xs: "take 511 EXP_TABLE = 1 # xs" "length xs = 510"
    by (simp add: EXP_TABLE_def)
  then have "EXP_TABLE ! i = (1 # xs) ! i" using i nth_take [of i 511 EXP_TABLE] by simp
  also have "\<dots> = (xtime ^^ i) 1" using exp_chain_table xs i by (intro exp_chain_nth) simp_all
  finally show ?thesis .
qed

text \<open>The logarithm table inverts the exponentials.\<close>

fun log_inverse :: "nat \<Rightarrow> u8 list \<Rightarrow> bool" where
  "log_inverse a [] \<longleftrightarrow> True"
| "log_inverse a (l # ls) \<longleftrightarrow> l \<noteq> 255 \<and> EXP_TABLE ! unat l = of_nat a \<and> log_inverse (Suc a) ls"

lemma log_inverse_table: "log_inverse 1 (tl LOG_TABLE)"
  by (simp add: LOG_TABLE_def EXP_TABLE_def)

lemma log_inverse_nth:
  "log_inverse a ls \<Longrightarrow> i < length ls \<Longrightarrow> ls ! i \<noteq> 255 \<and> EXP_TABLE ! unat (ls ! i) = of_nat (a + i)"
proof (induction ls arbitrary: a i)
  case Nil
  then show ?case by simp
next
  case (Cons l ls)
  show ?case
  proof (cases i)
    case 0
    with Cons.prems show ?thesis by simp
  next
    case (Suc j)
    with Cons.IH [of "Suc a" j] Cons.prems show ?thesis by simp
  qed
qed

lemma LOG_TABLE_nth:
  assumes "a \<noteq> 0"
  shows "unat (LOG_TABLE ! unat a) \<le> 254" and "(xtime ^^ unat (LOG_TABLE ! unat a)) 1 = a"
proof -
  have a: "0 < unat a" "unat a < 256" using assms unsigned_less [of a] by (simp_all add: unat_gt_0)
  have "LOG_TABLE ! unat a = tl LOG_TABLE ! (unat a - 1)"
    using a by (simp add: nth_tl LOG_TABLE_def)
  moreover have "unat a - 1 < length (tl LOG_TABLE)" using a by (simp add: LOG_TABLE_def)
  ultimately have l: "LOG_TABLE ! unat a \<noteq> 255" "EXP_TABLE ! unat (LOG_TABLE ! unat a) = a"
    using log_inverse_nth [OF log_inverse_table, of "unat a - 1"] a by simp_all
  have "unat (LOG_TABLE ! unat a) \<noteq> unat (255 :: u8)" using l(1) by (metis word_unat_eq_iff)
  moreover have "unat (LOG_TABLE ! unat a) < 256" using unsigned_less [of "LOG_TABLE ! unat a"] by simp
  ultimately show "unat (LOG_TABLE ! unat a) \<le> 254" by simp
  with l(2) show "(xtime ^^ unat (LOG_TABLE ! unat a)) 1 = a" by (simp add: EXP_TABLE_nth)
qed

text \<open>Multiplying by \<open>a\<close> is stepping the register \<open>log a\<close> times.\<close>

lemma gmult_xtime: "a \<noteq> 0 \<Longrightarrow> gmult a b = (xtime ^^ unat (LOG_TABLE ! unat a)) b"
proof (cases "b = 0")
  case True
  then show ?thesis by (simp add: gmult_def)
next
  case False
  assume a: "a \<noteq> 0"
  let ?i = "unat (LOG_TABLE ! unat a)" and ?j = "unat (LOG_TABLE ! unat b)"
  have "gmult a b = EXP_TABLE ! (?i + ?j)" using a False by (simp add: gmult_def Let_def)
  also have "\<dots> = (xtime ^^ ?i) ((xtime ^^ ?j) 1)"
    using LOG_TABLE_nth(1) [OF a] LOG_TABLE_nth(1) [OF False] by (simp add: EXP_TABLE_nth funpow_add)
  finally show ?thesis using LOG_TABLE_nth(2) [OF False] by simp
qed

lemma gmult_commute: "gmult a b = gmult b a"
  by (simp add: gmult_def Let_def add.commute)

lemma gmult_0 [simp]: "gmult 0 b = 0" "gmult a 0 = 0"
  by (simp_all add: gmult_def)

lemma gmult_xor: "gmult a (b XOR c) = gmult a b XOR gmult a c"
  by (cases "a = 0") (simp_all add: gmult_xtime xtime_pow_xor)

lemma gmult_xor_left: "gmult (a XOR b) c = gmult a c XOR gmult b c"
  by (metis gmult_commute gmult_xor)

lemma gmult_1: "gmult 1 b = b"
  using gmult_xtime [of 1 b] by (simp add: LOG_TABLE_def)

lemma xtime_pow_comm: "(xtime ^^ m) ((xtime ^^ n) b) = (xtime ^^ n) ((xtime ^^ m) b)"
  by (metis add.commute funpow_add o_apply)

lemma gmult_xtime_left: "gmult (xtime a) b = xtime (gmult a b)"
proof (cases "b = 0")
  case False
  then show ?thesis
    using xtime_pow_comm [of "unat (LOG_TABLE ! unat b)" 1 a]
    by (simp add: gmult_commute [of _ b] gmult_xtime)
qed (simp add: xtime_eq_0)

text \<open>Reference definition: shift and add, most significant bit first.\<close>

primrec gf_mul_bits :: "nat \<Rightarrow> u8 \<Rightarrow> u8 \<Rightarrow> u8" where
  "gf_mul_bits 0 a b = 0"
| "gf_mul_bits (Suc n) a b = xtime (gf_mul_bits n (drop_bit 1 a) b) XOR (if bit a 0 then b else 0)"

definition gf_mul :: "u8 \<Rightarrow> u8 \<Rightarrow> u8" where
  "gf_mul a b = gf_mul_bits 8 a b"

lemma gmult_gf_mul_bits: "n \<le> 8 \<Longrightarrow> take_bit n a = a \<Longrightarrow> gmult a b = gf_mul_bits n a b"
proof (induction n arbitrary: a)
  case 0
  then show ?case by simp
next
  case (Suc n)
  let ?h = "drop_bit 1 a"
  have nb: "\<not> bit a (Suc n)" using Suc.prems(2) by (metis bit_take_bit_iff less_irrefl)
  have n7: "\<not> bit ?h 7" using bit_imp_le_length [of a 8] by (auto simp: bit_simps)
  have h: "take_bit n ?h = ?h"
    using bit_less_take_bit [OF Suc.prems(2)] by (intro bit_word_eqI) (auto simp: bit_simps)
  have "a = xtime ?h XOR (if bit a 0 then 1 else 0)"
  proof (rule bit_word_eqI)
    fix m assume "m < LENGTH(8)"
    then show "bit a m = bit (xtime ?h XOR (if bit a 0 then 1 else 0)) m"
      using n7 by (cases m) (auto simp: xtime_def bit_simps)
  qed
  then have "gmult a b = gmult (xtime ?h XOR (if bit a 0 then 1 else 0)) b" by simp
  also have "\<dots> = xtime (gmult ?h b) XOR (if bit a 0 then b else 0)"
    by (simp add: gmult_xor_left gmult_xtime_left gmult_1)
  finally show ?case using Suc.IH [of ?h] Suc.prems(1) h by simp
qed

lemma gmult_gf_mul: "gmult a b = gf_mul a b"
  unfolding gf_mul_def by (rule gmult_gf_mul_bits) (simp_all add: take_bit_word_eq_self)


section \<open>The code words have three roots\<close>

lemma gmult_POLY:
  "gmult 64 d = (xtime ^^ 6) d"
  "gmult 56 d = (xtime ^^ 3) d XOR (xtime ^^ 4) d XOR (xtime ^^ 5) d"
  "gmult 14 d = (xtime ^^ 1) d XOR (xtime ^^ 2) d XOR (xtime ^^ 3) d"
proof -
  have p: "gmult ((xtime ^^ n) 1) d = (xtime ^^ n) d" for n
    by (induction n) (simp_all add: gmult_1 gmult_xtime_left)
  have "64 = (xtime ^^ 6) 1" "56 = (xtime ^^ 3) 1 XOR (xtime ^^ 4) 1 XOR (xtime ^^ 5) 1"
    "14 = (xtime ^^ 1) 1 XOR (xtime ^^ 2) 1 XOR (xtime ^^ 3) 1"
    by (simp_all add: xtime_def numeral_eq_Suc del: funpow_simps_right) 
  then show "gmult 64 d = (xtime ^^ 6) d"
    "gmult 56 d = (xtime ^^ 3) d XOR (xtime ^^ 4) d XOR (xtime ^^ 5) d"
    "gmult 14 d = (xtime ^^ 1) d XOR (xtime ^^ 2) d XOR (xtime ^^ 3) d"
    by (simp_all only: gmult_xor_left p)
qed

text \<open>Horner evaluation at the \<open>s\<close>-th power of the generator, of a word and of the register.\<close>

definition heval :: "nat \<Rightarrow> u8 list \<Rightarrow> u8" where
  "heval s w = fold (\<lambda>b a. (xtime ^^ s) a XOR b) w 0"

definition reval :: "nat \<Rightarrow> u8 list \<Rightarrow> u8" where
  "reval s p = (xtime ^^ (2 * s)) (p ! 2) XOR (xtime ^^ s) (p ! 1) XOR p ! 0"

lemma POLY_root:
  assumes "s \<in> {1, 2, 3}"
  shows "(xtime ^^ (2 * s)) (gmult 14 d) XOR (xtime ^^ s) (gmult 56 d) XOR gmult 64 d =
    (xtime ^^ (3 * s)) d"
  using assms by (auto simp: gmult_POLY xtime_xor eval_nat_numeral xor.assoc xor.left_commute xor.commute)

lemma length_rs_encode_byte [simp]: "length (rs_encode_byte b p) = length p"
  by (simp add: rs_encode_byte_def Let_def)

lemma rs_encode_byte_eq:
  "length p = 3 \<Longrightarrow> rs_encode_byte b p =
     [gmult 64 (b XOR p ! 2), p ! 0 XOR gmult 56 (b XOR p ! 2), p ! 1 XOR gmult 14 (b XOR p ! 2)]"
  by (auto simp: rs_encode_byte_def Let_def POLY_def length_Suc_conv numeral_3_eq_3 numeral_2_eq_2)

lemma reval_step:
  assumes "s \<in> {1, 2, 3}" "length p = 3"
  shows "reval s (rs_encode_byte b p) = (xtime ^^ s) (reval s p) XOR (xtime ^^ (3 * s)) b"
proof -
  let ?d = "b XOR p ! 2"
  have "reval s (rs_encode_byte b p) =
      (xtime ^^ (2 * s)) (p ! 1) XOR (xtime ^^ s) (p ! 0) XOR
      ((xtime ^^ (2 * s)) (gmult 14 ?d) XOR (xtime ^^ s) (gmult 56 ?d) XOR gmult 64 ?d)"
    using assms(2)
    by (simp add: reval_def rs_encode_byte_eq xtime_pow_xor xor.assoc xor.left_commute xor.commute)
  also have "\<dots> = (xtime ^^ (2 * s)) (p ! 1) XOR (xtime ^^ s) (p ! 0) XOR (xtime ^^ (3 * s)) ?d"
    using POLY_root [OF assms(1)] by simp
  also have "\<dots> = (xtime ^^ s) (reval s p) XOR (xtime ^^ (3 * s)) b"
    by (simp add: reval_def xtime_pow_xor xor.assoc xor.left_commute xor.commute mult_2 numeral_3_eq_3 funpow_add)
  finally show ?thesis .
qed

lemma rs_encode_fold: "9 \<le> length w \<Longrightarrow> rs_encode w = fold rs_encode_byte (take 9 w) [0, 0, 0]"
  unfolding rs_encode_def by (rule fold_nth_take)

lemma reval_fold:
  assumes "s \<in> {1, 2, 3}"
  shows "length p = 3 \<Longrightarrow> reval s p = (xtime ^^ (3 * s)) a \<Longrightarrow>
    length (fold rs_encode_byte ws p) = 3 \<and>
    reval s (fold rs_encode_byte ws p) =
      (xtime ^^ (3 * s)) (fold (\<lambda>b a. (xtime ^^ s) a XOR b) ws a)"
proof (induction ws arbitrary: p a)
  case Nil
  then show ?case by simp
next
  case (Cons b ws)
  have "reval s (rs_encode_byte b p) = (xtime ^^ (3 * s)) ((xtime ^^ s) a XOR b)"
    using Cons.prems by (simp add: reval_step [OF assms] xtime_pow_xor xtime_pow_comm)
  then show ?case using Cons.IH [of "rs_encode_byte b p" "(xtime ^^ s) a XOR b"] Cons.prems by simp
qed

lemma reval_rs_encode:
  assumes "s \<in> {1, 2, 3}" "9 \<le> length w"
  shows "length (rs_encode w) = 3" "reval s (rs_encode w) = (xtime ^^ (3 * s)) (heval s (take 9 w))"
  using reval_fold [OF assms(1), of "[0, 0, 0]" 0 "take 9 w"] assms(2)
  by (simp_all add: rs_encode_fold heval_def reval_def)

lemma length_rs_encode [simp, dmr_len]: "length (rs_encode w) = 3"
proof -
  have "length (fold (\<lambda>i p. rs_encode_byte (w ! i) p) is p) = length p" for "is" p
    by (induction "is" arbitrary: p) simp_all
  then show ?thesis by (simp add: rs_encode_def)
qed

lemma rs_split: "length w = 12 \<Longrightarrow> w = take 9 w @ [w ! 9, w ! 10, w ! 11]"
  by (rule nth_equalityI) (auto simp: nth_append less_Suc_eq eval_nat_numeral)

lemma rev_rs_encode: "rev (rs_encode w) = [rs_encode w ! 2, rs_encode w ! 1, rs_encode w ! 0]"
  by (rule nth_equalityI) (auto simp: rev_nth less_Suc_eq eval_nat_numeral)

lemma rs_decode_iff:
  assumes "length w = 12"
  shows "dmr_rs_12_9_4_decode (Some w) = Inr () \<longleftrightarrow> w = take 9 w @ rev (rs_encode w)"
proof -
  have "w = take 9 w @ rev (rs_encode w) \<longleftrightarrow>
      w ! 9 = rs_encode w ! 2 \<and> w ! 10 = rs_encode w ! 1 \<and> w ! 11 = rs_encode w ! 0"
    using rs_split [OF assms] same_append_eq [of "take 9 w" "[w ! 9, w ! 10, w ! 11]" "rev (rs_encode w)"]
    by (simp add: rev_rs_encode)
  then show ?thesis by (auto simp: dmr_rs_12_9_4_decode_def Let_def)
qed

text \<open>Every accepted word has the three roots.\<close>

lemma rs_accept_root:
  assumes "s \<in> {1, 2, 3}" "length w = 12" "w = take 9 w @ rev (rs_encode w)"
  shows "heval s w = 0"
proof -
  obtain p0 p1 p2 where p: "rs_encode w = [p0, p1, p2]"
    using length_rs_encode [of w] unfolding length_3_iff by blast
  have "heval s w = heval s (take 9 w @ [p2, p1, p0])" using assms(3) p by simp
  also have "\<dots> = (xtime ^^ (3 * s)) (heval s (take 9 w)) XOR reval s [p0, p1, p2]"
    by (simp add: heval_def reval_def xtime_pow_xor xor.assoc mult_2 numeral_3_eq_3 funpow_add)
  finally show ?thesis using reval_rs_encode(2) [OF assms(1), of w] assms(2) p by simp
qed



section \<open>Distance four\<close>

lemma heval_linear:
  assumes "length u = length v"
  shows "heval s (map2 (XOR) u v) = heval s u XOR heval s v"
proof -
  have "fold (\<lambda>b a. (xtime ^^ s) a XOR b) (map2 (XOR) u v) (x XOR y) =
      fold (\<lambda>b a. (xtime ^^ s) a XOR b) u x XOR fold (\<lambda>b a. (xtime ^^ s) a XOR b) v y" for x y
    using assms
  proof (induction u v arbitrary: x y rule: list_induct2)
    case (Cons b u c v)
    have "(xtime ^^ s) (x XOR y) XOR (b XOR c) = ((xtime ^^ s) x XOR b) XOR ((xtime ^^ s) y XOR c)"
      by (simp add: xtime_pow_xor xor.assoc xor.left_commute)
    with Cons.IH show ?case by simp
  qed simp
  from this [of 0 0] show ?thesis by (simp add: heval_def)
qed

lemma heval_snoc: "heval s (w @ [b]) = (xtime ^^ s) (heval s w) XOR b"
  by (simp add: heval_def)

lemma heval_zeros [simp]: "heval s (replicate n 0) = 0"
  by (induction n) (simp_all add: heval_def)

lemma heval_update:
  "i < length e \<Longrightarrow> heval s e = (xtime ^^ (s * (length e - 1 - i))) (e ! i) XOR heval s (e[i := 0])"
proof (induction e rule: rev_induct)
  case (snoc b e)
  show ?case
  proof (cases "i < length e")
    case True
    then have "(xtime ^^ s) ((xtime ^^ (s * (length e - 1 - i))) (e ! i)) =
        (xtime ^^ (s * (length e - i))) (e ! i)"
      by (simp flip: funpow_add [THEN fun_cong, unfolded o_apply] mult_Suc_right add: Suc_diff_Suc)
    with True snoc.IH show ?thesis
      by (simp add: heval_snoc nth_append list_update_append xtime_pow_xor xor.assoc)
  next
    case False
    with snoc.prems have "i = length e" by simp
    then show ?thesis by (simp add: heval_snoc nth_append xor.commute)
  qed
qed simp

text \<open>The generator has order above eleven, so its powers separate the twelve positions.\<close>

lemma xtime_pow_free:
  assumes "(xtime ^^ a) x = (xtime ^^ b) x" "a \<le> 11" "b \<le> 11" "a \<noteq> b"
  shows "x = 0"
proof -
  have less: "x = 0" if eq: "(xtime ^^ a) x = (xtime ^^ (a + d)) x" and d: "0 < d" "d \<le> 11" for a d
  proof (rule ccontr)
    assume "x \<noteq> 0"
    then obtain l where l: "x = (xtime ^^ l) 1" using LOG_TABLE_nth(2) by metis
    have "x = (xtime ^^ d) x" using eq by (simp add: funpow_add xtime_pow_inject)
    then have "(xtime ^^ d) 1 = 1" using xtime_pow_comm xtime_pow_inject unfolding l by metis
    then have "EXP_TABLE ! d = 1" using d by (simp add: EXP_TABLE_nth)
    moreover have "d \<in> set [1..<12]" using d by simp
    ultimately show False by (auto simp: upt_rec EXP_TABLE_def)
  qed
  consider "a < b" | "b < a" using assms(4) by linarith
  then show ?thesis
  proof cases
    case 1
    then show ?thesis using less [of a "b - a"] assms by simp
  next
    case 2
    then show ?thesis using less [of b "a - b"] assms by simp
  qed
qed

text \<open>The Vandermonde argument for three positions.\<close>

lemma three_powers:
  assumes e: "\<And>s. s \<in> {1, 2, 3} \<Longrightarrow>
      (xtime ^^ (s * a)) u XOR ((xtime ^^ (s * b)) v XOR (xtime ^^ (s * c)) w) = 0"
    and le: "a \<le> 11" "b \<le> 11" "c \<le> 11" and ne: "a \<noteq> b" "a \<noteq> c" "b \<noteq> c"
  shows "u = 0"
proof -
  define u1 v1 w1 where d: "u1 = (xtime ^^ a) u" "v1 = (xtime ^^ b) v" "w1 = (xtime ^^ c) w"
  let ?u2 = "(xtime ^^ a) u1 XOR (xtime ^^ c) u1" and ?v2 = "(xtime ^^ b) v1 XOR (xtime ^^ c) v1"
  have "u1 XOR (v1 XOR w1) = 0" using e [of 1] d by simp
  then have w1: "w1 = u1 XOR v1" by (metis word_xor_cancel word_xor_eq_0_iff xor.commute xor.left_commute)
  have "(xtime ^^ a) u1 XOR ((xtime ^^ b) v1 XOR (xtime ^^ c) w1) = 0"
    using e [of 2] d by (simp add: mult_2 funpow_add)
  then have "?u2 XOR ?v2 = 0" unfolding w1 xtime_pow_xor by (simp only: xor.assoc xor.left_commute xor.commute)
  then have uv: "?u2 = ?v2" by simp
  have "(xtime ^^ a) ((xtime ^^ a) u1) XOR
      ((xtime ^^ b) ((xtime ^^ b) v1) XOR (xtime ^^ c) ((xtime ^^ c) w1)) = 0"
    using e [of 3] d by (simp add: numeral_3_eq_3 funpow_add)
  then have "(xtime ^^ a) ?u2 XOR (xtime ^^ b) ?v2 XOR (xtime ^^ c) (?u2 XOR ?v2) = 0"
    unfolding w1 xtime_pow_xor xtime_pow_comm [of c a] xtime_pow_comm [of c b]
    by (simp add: xor.assoc xor.left_commute xor.commute)
  then have "(xtime ^^ a) ?u2 = (xtime ^^ b) ?u2" unfolding uv by simp
  then have "?u2 = 0" using xtime_pow_free le ne by blast
  then have "u1 = 0" using xtime_pow_free [of a u1 c] le ne by simp
  then show ?thesis using d by simp
qed

lemma three_positions:
  assumes e: "length e = 12" "\<And>s. s \<in> {1, 2, 3} \<Longrightarrow> heval s e = 0"
    and supp: "\<And>m. m < 12 \<Longrightarrow> m \<notin> {i, j, k} \<Longrightarrow> e ! m = 0"
    and lt: "i < 12" "j < 12" "k < 12" and ne: "i \<noteq> j" "i \<noteq> k" "j \<noteq> k"
  shows "e ! i = 0"
proof (rule three_powers)
  show "11 - i \<le> 11" "11 - j \<le> 11" "11 - k \<le> 11" by simp_all
  show "11 - i \<noteq> 11 - j" "11 - i \<noteq> 11 - k" "11 - j \<noteq> 11 - k" using lt ne by linarith+
  fix s :: nat assume "s \<in> {1, 2, 3}"
  have z: "e[i := 0, j := 0, k := 0] = replicate 12 0"
    using supp e(1) lt by (intro nth_equalityI) (auto simp: nth_list_update)
  have "heval s e = (xtime ^^ (s * (11 - i))) (e ! i) XOR ((xtime ^^ (s * (11 - j))) (e ! j) XOR
      ((xtime ^^ (s * (11 - k))) (e ! k) XOR heval s (e[i := 0, j := 0, k := 0])))"
    using lt ne e(1) heval_update [of i e s] heval_update [of j "e[i := 0]" s]
      heval_update [of k "e[i := 0, j := 0]" s] by simp
  then show "(xtime ^^ (s * (11 - i))) (e ! i) XOR
      ((xtime ^^ (s * (11 - j))) (e ! j) XOR (xtime ^^ (s * (11 - k))) (e ! k)) = 0"
    using e(2) [OF \<open>s \<in> {1, 2, 3}\<close>] z by simp
qed

section \<open>The code as a systematic code\<close>

lemma rs_encode_fun:
  assumes "length d = 12"
  shows "dmr_rs_12_9_4_encode (Some d) = Inr (take 9 d @ rev (rs_encode d))"
proof -
  have "d[11 := x, 10 := y, 9 := z] = take 9 d @ [z, y, x]" for x y z
    using assms by (intro nth_equalityI) (auto simp: nth_append nth_list_update less_Suc_eq eval_nat_numeral)
  then show ?thesis by (simp add: dmr_rs_12_9_4_encode_def Let_def upt_rec rev_rs_encode numeral_2_eq_2)
qed

definition rs_codeword :: "u8 list \<Rightarrow> u8 list" where
  "rs_codeword d = (case dmr_rs_12_9_4_encode (Some d) of Inr w \<Rightarrow> w | Inl _ \<Rightarrow> [])"

definition rs_ok :: "u8 list \<Rightarrow> bool" where
  "rs_ok w \<longleftrightarrow> dmr_rs_12_9_4_decode (Some w) = Inr ()"

interpretation rs: systematic_code 12 9 rs_codeword rs_ok
proof
  fix d d' :: "u8 list"
  assume d: "length d = 12"
  then show "length (rs_codeword d) = 12" "take 9 (rs_codeword d) = take 9 d"
    by (simp_all add: rs_codeword_def rs_encode_fun)
  assume "length d' = 12" "take 9 d = take 9 d'"
  then show "rs_codeword d = rs_codeword d'"
    using d by (simp add: rs_codeword_def rs_encode_fun rs_encode_fold)
next
  fix w :: "u8 list"
  assume "length w = 12"
  then show "rs_ok w \<longleftrightarrow> rs_codeword w = w"
    by (auto simp: rs_codeword_def rs_ok_def rs_encode_fun rs_decode_iff)
qed


section \<open>Properties\<close>

text \<open>
  C7. Table-driven multiplication is multiplication in GF(256): it agrees on all bytes
  with the shift-and-add product modulo \<open>x^8 + x^4 + x^3 + x^2 + 1\<close>, and no access leaves
  the exponential table.
\<close>

theorem gmult_is_field_multiplication:
  "gmult a b = gf_mul a b \<and>
   unat (LOG_TABLE ! unat a) + unat (LOG_TABLE ! unat b) < length EXP_TABLE"
proof -
  have "unat (LOG_TABLE ! unat a) < 256" "unat (LOG_TABLE ! unat b) < 256"
    using unsigned_less [of "LOG_TABLE ! unat a"] unsigned_less [of "LOG_TABLE ! unat b"] by simp_all
  then show ?thesis by (simp add: gmult_gf_mul EXP_TABLE_def)
qed

text \<open>
  Encoding twelve bytes keeps the nine data bytes, its result is accepted, and an
  accepted word is the encoding of its own data.
\<close>

theorem rs_12_9_roundtrip:
  assumes "length d = 12"
  shows "\<exists>w. dmr_rs_12_9_4_encode (Some d) = Inr w \<and> length w = 12 \<and> take 9 w = take 9 d \<and>
    dmr_rs_12_9_4_decode (Some w) = Inr () \<and>
    (dmr_rs_12_9_4_decode (Some d) = Inr () \<longleftrightarrow> w = d)"
proof -
  have "dmr_rs_12_9_4_encode (Some d) = Inr (rs_codeword d)"
    using assms by (simp add: rs_codeword_def rs_encode_fun)
  then show ?thesis
    using rs.length_encode [OF assms] rs.data_encode [OF assms] rs.check_encode [OF assms]
      rs.check_iff [OF assms] by (simp add: rs_ok_def)
qed

theorem rs_12_9_roundtrip_witness:
  "\<exists>w. dmr_rs_12_9_4_encode (Some [1, 2, 3, 4, 5, 6, 7, 8, 9, 0, 0, 0]) = Inr w \<and> length w = 12 \<and>
    take 9 w = [1, 2, 3, 4, 5, 6, 7, 8, 9] \<and> dmr_rs_12_9_4_decode (Some w) = Inr ()"
  using rs_12_9_roundtrip [of "[1, 2, 3, 4, 5, 6, 7, 8, 9, 0, 0, 0]"] by auto

text \<open>
  C2. Distance four: two accepted words that differ in at most three of the twelve bytes,
  wherever they are, are equal; so a corruption of up to three bytes is always noticed.
\<close>

theorem rs_12_9_detects_three_errors:
  assumes "length w = 12" "length w' = 12"
    and "dmr_rs_12_9_4_decode (Some w) = Inr ()" "dmr_rs_12_9_4_decode (Some w') = Inr ()"
    and "card {m. m < 12 \<and> w ! m \<noteq> w' ! m} \<le> 3"
  shows "w = w'"
proof -
  let ?e = "map2 (XOR) w w'" and ?S = "{m. m < 12 \<and> w ! m \<noteq> w' ! m}"
  have root: "heval s ?e = 0" if "s \<in> {1, 2, 3}" for s
    using that assms rs_accept_root by (simp add: heval_linear rs_decode_iff)
  have "?S \<subseteq> {..<12}" "card {..<12::nat} = 12" by auto
  then obtain T where T: "?S \<subseteq> T" "T \<subseteq> {..<12}" "card T = 3"
    using exists_subset_between [of ?S 3 "{..<12}"] assms(5) by auto
  then obtain i j k where ijk: "T = {i, j, k}" "i \<noteq> j" "j \<noteq> k" "i \<noteq> k" by (auto simp: card_3_iff)
  have lt: "i < 12" "j < 12" "k < 12" using T(2) ijk(1) by auto
  have supp: "?e ! m = 0" if "m < 12" "m \<notin> {i, j, k}" for m
    using that T(1) ijk(1) assms(1,2) by auto
  have e12: "length ?e = 12" using assms(1,2) by simp
  have z: "?e ! i = 0" "?e ! j = 0" "?e ! k = 0"
    using three_positions [OF e12 root, of i j k] three_positions [OF e12 root, of j i k]
      three_positions [OF e12 root, of k i j] supp lt ijk by (simp_all add: insert_commute)
  then have "?e ! m = 0" if "m < 12" for m using that supp by (cases "m \<in> {i, j, k}") auto
  then show ?thesis using assms(1,2) by (intro nth_equalityI) simp_all
qed

theorem rs_12_9_detects_three_errors_witness:
  "dmr_rs_12_9_4_decode (Some [7, 0, 0, 0, 9, 0, 0, 0, 0, 0, 0, 1]) \<noteq> Inr ()"
proof
  let ?w = "[7, 0, 0, 0, 9, 0, 0, 0, 0, 0, 0, 1] :: u8 list" and ?z = "replicate 12 0 :: u8 list"
  assume w: "dmr_rs_12_9_4_decode (Some ?w) = Inr ()"
  have z: "dmr_rs_12_9_4_decode (Some ?z) = Inr ()"
    by (simp add: dmr_rs_12_9_4_decode_def rs_encode_def rs_encode_byte_def upt_rec)
  have "{m. m < 12 \<and> ?w ! m \<noteq> ?z ! m} = set (filter (\<lambda>m. ?w ! m \<noteq> ?z ! m) [0..<12])" by auto
  then have "card {m. m < 12 \<and> ?w ! m \<noteq> ?z ! m} = 3" by (simp add: upt_rec)
  then have "?w = ?z" using rs_12_9_detects_three_errors [of ?w ?z] w z by simp
  then have "hd ?w = hd ?z" by (rule arg_cong)
  then show False by simp
qed

end
