(* ===== verification/Dmr_Qr.thy ===== *)
theory Dmr_Qr
  imports Dmr_Bits
begin

unbundle bit_operations_syntax

text \<open>
  \<open>src/dmr/fec/qr_16_7.c\<close>: the quadratic residue code (16,7) of the embedded signalling
  header: a table of the 128 code words, an encoder and a parity check.
\<close>

section \<open>Definitions\<close>

definition qr_16_7_encoder_map :: "u16 list" where
  "qr_16_7_encoder_map =
    [0x0000, 0x0273, 0x04e5, 0x0696, 0x09c9, 0x0bba, 0x0d2c, 0x0f5f,
     0x11e2, 0x1391, 0x1507, 0x1774, 0x182b, 0x1a58, 0x1cce, 0x1ebd,
     0x21b7, 0x23c4, 0x2552, 0x2721, 0x287e, 0x2a0d, 0x2c9b, 0x2ee8,
     0x3055, 0x3226, 0x34b0, 0x36c3, 0x399c, 0x3bef, 0x3d79, 0x3f0a,
     0x411e, 0x436d, 0x45fb, 0x4788, 0x48d7, 0x4aa4, 0x4c32, 0x4e41,
     0x50fc, 0x528f, 0x5419, 0x566a, 0x5935, 0x5b46, 0x5dd0, 0x5fa3,
     0x60a9, 0x62da, 0x644c, 0x663f, 0x6960, 0x6b13, 0x6d85, 0x6ff6,
     0x714b, 0x7338, 0x75ae, 0x77dd, 0x7882, 0x7af1, 0x7c67, 0x7e14,
     0x804f, 0x823c, 0x84aa, 0x86d9, 0x8986, 0x8bf5, 0x8d63, 0x8f10,
     0x91ad, 0x93de, 0x9548, 0x973b, 0x9864, 0x9a17, 0x9c81, 0x9ef2,
     0xa1f8, 0xa38b, 0xa51d, 0xa76e, 0xa831, 0xaa42, 0xacd4, 0xaea7,
     0xb01a, 0xb269, 0xb4ff, 0xb68c, 0xb9d3, 0xbba0, 0xbd36, 0xbf45,
     0xc151, 0xc322, 0xc5b4, 0xc7c7, 0xc898, 0xcaeb, 0xcc7d, 0xce0e,
     0xd0b3, 0xd2c0, 0xd456, 0xd625, 0xd97a, 0xdb09, 0xdd9f, 0xdfec,
     0xe0e6, 0xe295, 0xe403, 0xe670, 0xe92f, 0xeb5c, 0xedca, 0xefb9,
     0xf104, 0xf377, 0xf5e1, 0xf792, 0xf8cd, 0xfabe, 0xfc28, 0xfe5b]"

definition dmr_qr_16_7_encode :: "u8 list \<Rightarrow> u8 list" where
  "dmr_qr_16_7_encode buf =
     (let dv = drop_bit 1 (buf ! 0) AND 0x7f;
          qr = qr_16_7_encoder_map ! unat dv
      in buf[0 := ucast (drop_bit 8 qr), 1 := ucast (qr AND 0xff)])"

definition dmr_qr_16_7_decode :: "u8 list \<Rightarrow> bool" where
  "dmr_qr_16_7_decode buf =
     (let dv = drop_bit 1 (buf ! 0);
          parity = push_bit 8 (ucast (buf ! 0) AND 1) OR ucast (buf ! 1) :: u16
      in (qr_16_7_encoder_map ! unat dv) AND 0x1ff = parity)"

section \<open>The code is linear\<close>

text \<open>The two bytes as one word, and the code word of seven data bits as a sum of rows.\<close>

definition qr_word :: "u8 list \<Rightarrow> u16" where
  "qr_word buf = push_bit 8 (ucast (buf ! 0)) OR ucast (buf ! 1)"

definition qr_row :: "u8 \<Rightarrow> nat \<Rightarrow> u16 \<Rightarrow> u16" where
  "qr_row dv m r = (if bit dv m then r else 0)"

definition qr_gen :: "u8 \<Rightarrow> u16" where
  "qr_gen dv = qr_row dv 0 0x0273 XOR qr_row dv 1 0x04e5 XOR qr_row dv 2 0x09c9 XOR qr_row dv 3 0x11e2 XOR
     qr_row dv 4 0x21b7 XOR qr_row dv 5 0x411e XOR qr_row dv 6 0x804f"

fun qr_rows_ok :: "u8 \<Rightarrow> u16 list \<Rightarrow> bool" where
  "qr_rows_ok i [] \<longleftrightarrow> True"
| "qr_rows_ok i (w # ws) \<longleftrightarrow> w = qr_gen i \<and> drop_bit 9 w = ucast i \<and> (w = 0 \<or> 6 \<le> weight w) \<and> qr_rows_ok (i + 1) ws"

lemma qr_rows_ok_table: "qr_rows_ok 0 qr_16_7_encoder_map"
  by (simp add: qr_16_7_encoder_map_def qr_gen_def qr_row_def weight_def upt_rec)

lemma qr_rows_ok_nth:
  "qr_rows_ok i ws \<Longrightarrow> j < length ws \<Longrightarrow>
   ws ! j = qr_gen (i + of_nat j) \<and> drop_bit 9 (ws ! j) = ucast (i + of_nat j) \<and>
   (ws ! j = 0 \<or> 6 \<le> weight (ws ! j))"
proof (induction ws arbitrary: i j)
  case (Cons w ws)
  show ?case
  proof (cases j)
    case 0
    with Cons.prems show ?thesis by auto
  next
    case (Suc m)
    with Cons.IH [of "i + 1" m] Cons.prems show ?thesis by (auto simp: add.assoc)
  qed
qed simp

lemma qr_map_nth:
  assumes "unat dv < 128"
  shows "qr_16_7_encoder_map ! unat dv = qr_gen dv" "drop_bit 9 (qr_gen dv) = ucast dv"
    and "qr_gen dv = 0 \<or> 6 \<le> weight (qr_gen dv)"
proof -
  have "unat dv < length qr_16_7_encoder_map" using assms by (simp add: qr_16_7_encoder_map_def)
  then show "qr_16_7_encoder_map ! unat dv = qr_gen dv" "drop_bit 9 (qr_gen dv) = ucast dv"
    "qr_gen dv = 0 \<or> 6 \<le> weight (qr_gen dv)"
    using qr_rows_ok_nth [OF qr_rows_ok_table, of "unat dv"] by auto
qed

lemma qr_row_xor: "qr_row (a XOR b) m r = qr_row a m r XOR qr_row b m r"
  by (simp add: qr_row_def bit_xor_iff)

lemma qr_gen_xor [dmr_lin]: "qr_gen (a XOR b) = qr_gen a XOR qr_gen b"
  unfolding qr_gen_def qr_row_xor by (simp only: xor.assoc xor.left_commute xor.commute)

lemma take_bit_half: "take_bit 7 (drop_bit 1 b) = drop_bit 1 b" for b :: u8
  by (rule bit_word_eqI) (auto simp: bit_simps dest: u8_bit_bound)

lemma unat_half: "unat (drop_bit 1 (b :: u8)) < 128"
  using unat_less_take_bit [OF take_bit_half, of b] by simp

lemma bit_qr_word: "bit (qr_word buf) m \<longleftrightarrow> (if m < 8 then bit (buf ! 1) m else bit (buf ! 0) (m - 8))"
  using u8_bit_bound [of "buf ! 0" "m - 8"] u8_bit_bound [of "buf ! 1" m]
  by (auto simp: qr_word_def bit_simps)

lemma qr_decode_iff: "dmr_qr_16_7_decode buf \<longleftrightarrow> qr_word buf = qr_gen (drop_bit 1 (buf ! 0))"
proof -
  let ?dv = "drop_bit 1 (buf ! 0)" and ?g = "qr_gen (drop_bit 1 (buf ! 0))"
  have odd: "odd (ucast (buf ! 0) :: u16) = bit (buf ! 0) 0"
    by (simp add: bit_simps flip: bit_0)
  have par: "push_bit 8 (ucast (buf ! 0) AND 1) OR ucast (buf ! 1) = take_bit 9 (qr_word buf)"
    using odd unfolding and_mask_take_bit
    by (intro bit_word_eqI) (auto simp: bit_simps bit_qr_word dest: u8_bit_bound)
  have high: "drop_bit 9 (qr_word buf) = drop_bit 9 ?g"
    unfolding qr_map_nth(2) [OF unat_half]
    by (rule bit_word_eqI) (auto simp: bit_simps bit_qr_word dest: u8_bit_bound)
  have "?g AND 0x1ff = take_bit 9 ?g" by (simp add: and_mask_take_bit)
  then have "dmr_qr_16_7_decode buf \<longleftrightarrow> take_bit 9 ?g = take_bit 9 (qr_word buf)"
    unfolding dmr_qr_16_7_decode_def Let_def qr_map_nth(1) [OF unat_half] par by simp
  also have "\<dots> \<longleftrightarrow> qr_word buf = ?g"
    using high by (metis bits_ident)
  finally show ?thesis .
qed

lemma qr_word_xor:
  assumes "length a = 2" "length b = 2"
  shows "qr_word (map2 (XOR) a b) = qr_word a XOR qr_word b"
  using assms by (intro bit_word_eqI) (simp add: bit_qr_word bit_xor_iff)

lemma qr_word_encode:
  assumes "length buf = 2"
  shows "qr_word (dmr_qr_16_7_encode buf) = qr_gen (drop_bit 1 (buf ! 0))"
    and "drop_bit 1 (dmr_qr_16_7_encode buf ! 0) = drop_bit 1 (buf ! 0)"
proof -
  let ?dv = "drop_bit 1 (buf ! 0)"
  have m: "?dv AND 0x7f = ?dv" by (simp only: and_mask_take_bit take_bit_half)
  have e: "dmr_qr_16_7_encode buf = buf[0 := ucast (drop_bit 8 (qr_gen ?dv)), 1 := ucast (qr_gen ?dv AND 0xff)]"
    unfolding dmr_qr_16_7_encode_def Let_def m qr_map_nth(1) [OF unat_half] ..
  show "qr_word (dmr_qr_16_7_encode buf) = qr_gen ?dv"
    using assms unfolding e
    by (intro bit_word_eqI) (simp add: bit_qr_word bit_simps and_mask_take_bit not_less less_diff_conv2)
  have "drop_bit 1 (dmr_qr_16_7_encode buf ! 0) = ucast (drop_bit 9 (qr_gen ?dv))"
    using assms unfolding e by (intro bit_word_eqI) (auto simp: bit_simps dest: bit_imp_le_length)
  then show "drop_bit 1 (dmr_qr_16_7_encode buf ! 0) = ?dv"
    unfolding qr_map_nth(2) [OF unat_half] by simp
qed

section \<open>Properties\<close>

text \<open>
  The quadratic residue code detects up to five errors: an encoded pair of bytes is
  accepted with its seven data bits intact, and after flipping at least one and at most
  five of its sixteen bits it is rejected.
\<close>

theorem qr_16_7_detects_five_errors:
  assumes "length buf = 2" "length err = 2"
  shows "dmr_qr_16_7_decode (dmr_qr_16_7_encode buf) \<and>
    drop_bit 1 (dmr_qr_16_7_encode buf ! 0) = drop_bit 1 (buf ! 0) \<and>
    (0 < weight (qr_word err) \<and> weight (qr_word err) \<le> 5 \<longrightarrow>
       \<not> dmr_qr_16_7_decode (map2 (XOR) (dmr_qr_16_7_encode buf) err))"
proof (intro conjI impI)
  let ?c = "dmr_qr_16_7_encode buf"
  note q = qr_word_encode [OF assms(1)]
  have len: "length ?c = 2" using assms(1) by (simp add: dmr_qr_16_7_encode_def Let_def)
  show "dmr_qr_16_7_decode ?c" "drop_bit 1 (?c ! 0) = drop_bit 1 (buf ! 0)"
    using q by (simp_all add: qr_decode_iff)
  assume w: "0 < weight (qr_word err) \<and> weight (qr_word err) \<le> 5"
  show "\<not> dmr_qr_16_7_decode (map2 (XOR) ?c err)"
  proof
    assume "dmr_qr_16_7_decode (map2 (XOR) ?c err)"
    moreover have "drop_bit 1 (map2 (XOR) ?c err ! 0) = drop_bit 1 (buf ! 0) XOR drop_bit 1 (err ! 0)"
      using len assms(2) q(2) by simp
    ultimately have "qr_word err = qr_gen (drop_bit 1 (err ! 0))"
      using q assms(2) len by (simp add: qr_decode_iff qr_word_xor qr_gen_xor) 
    with qr_map_nth(3) [OF unat_half, of "err ! 0"] w show False by (auto simp: weight_0_iff)
  qed
qed

theorem qr_16_7_detects_five_errors_witness:
  "\<not> dmr_qr_16_7_decode (map2 (XOR) (dmr_qr_16_7_encode [0x5a, 0]) [0x81, 0x07])"
proof -
  have "weight (qr_word [0x81, 0x07]) = 5" by (simp add: qr_word_def weight_def upt_rec)
  then show ?thesis using qr_16_7_detects_five_errors [of "[0x5a, 0]" "[0x81, 0x07]"] by simp
qed

end
