(* ===== verification/Dmr_Bptc.thy ===== *)
theory Dmr_Bptc
  imports Dmr_Hamming
begin

text \<open>
  \<open>src/dmr/fec/bptc_196_96.c\<close>: the block product turbo code of the general data burst.  A
  13 by 15 matrix of bits, interleaved over the 196 information bits of a packet; nine
  rows are Hamming(15,11,3) code words, the columns Hamming(13,9,3) code words.

  The encoder fills the packet from a local array whose middle 68 bits it never assigns;
  their values are the parameter \<open>uninit\<close> of the model.
\<close>

section \<open>Definitions\<close>

abbreviation DMR_PACKET_LEN :: nat where "DMR_PACKET_LEN \<equiv> 33"
abbreviation DMR_PACKET_BITS :: nat where "DMR_PACKET_BITS \<equiv> 264"

record dmr_bptc_196_96 =
  bptc_raw :: "bool list"
  bptc_deinterleaved_bits :: "bool list"

definition bptc_deinterleave :: "bool list \<Rightarrow> bool list \<Rightarrow> bool list" where
  "bptc_deinterleave raw d = fold (\<lambda>i d. d[i - 1 := raw ! ((i * 181) mod 196)]) [1..<197] d"

definition bptc_interleave :: "bool list \<Rightarrow> bool list \<Rightarrow> bool list" where
  "bptc_interleave d raw = fold (\<lambda>i raw. raw[(i * 181) mod 196 := d ! (i - 1)]) [1..<197] raw"

text \<open>One turn of the loop over the columns: it reads column 1 whatever \<open>col\<close> is.\<close>

definition bptc_check_col :: "nat \<Rightarrow> bool list \<Rightarrow> (bool \<times> bool list) option" where
  "bptc_check_col col d =
     (let data = map (\<lambda>row. d ! (row * 15 + 1)) [0..<13]
      in case dmr_hamming_13_9_3_decode data of
           None \<Rightarrow> None
         | Some False \<Rightarrow> Some (False, d)
         | Some True \<Rightarrow> Some (True, fold (\<lambda>row d. d[row * 15 + 1 := data ! row]) [0..<13] d))"

definition bptc_check_row :: "nat \<Rightarrow> bool list \<Rightarrow> (bool \<times> bool list) option" where
  "bptc_check_row row d =
     (let data = map (\<lambda>col. d ! (row * 15 + col)) [0..<15]
      in case dmr_hamming_15_11_3_decode data of
           None \<Rightarrow> None
         | Some False \<Rightarrow> Some (False, d)
         | Some True \<Rightarrow> Some (True, fold (\<lambda>col d. d[row * 15 + col := data ! col]) [0..<11] d))"

text \<open>The 96 data bits: row 0 from column 3, then rows 1 to 8, each up to column 10.\<close>

definition bptc_data_bits :: "bool list \<Rightarrow> bool list" where
  "bptc_data_bits d =
     map (\<lambda>col. d ! (0 * 15 + col)) [3..<11] @
     concat (map (\<lambda>row. map (\<lambda>col. d ! (row * 15 + col)) [0..<11]) [1..<9])"

definition dmr_bptc_196_96_decode ::
  "u8 list option \<Rightarrow> dmr_bptc_196_96 option \<Rightarrow> u8 list option \<Rightarrow>
   ((failure + u8 list) \<times> dmr_bptc_196_96 option) option" where
  "dmr_bptc_196_96_decode packet bptc data =
     (case (bptc, packet, data) of
        (Some bptc, Some packet, Some data) \<Rightarrow>
          (case dmr_bytes_to_bits packet DMR_PACKET_LEN (replicate DMR_PACKET_BITS False) DMR_PACKET_BITS of
             None \<Rightarrow> None
           | Some bits \<Rightarrow>
               let raw = blit (blit (bptc_raw bptc) 0 (take 98 bits)) 98 (take 98 (drop 166 bits));
                   d = bptc_deinterleave raw (bptc_deinterleaved_bits bptc);
                   st = (\<lambda>d. Some (bptc\<lparr>bptc_raw := raw, bptc_deinterleaved_bits := d\<rparr>))
               in case foldc bptc_check_col [0..<15] d of
                    None \<Rightarrow> None
                  | Some (False, d) \<Rightarrow> Some (Inl Fail, st d)
                  | Some (True, d) \<Rightarrow>
                      (case foldc bptc_check_row [0..<9] d of
                         None \<Rightarrow> None
                       | Some (False, d) \<Rightarrow> Some (Inl Fail, st d)
                       | Some (True, d) \<Rightarrow>
                           (case dmr_bits_to_bytes (bptc_data_bits d) 96 data 12 of
                              None \<Rightarrow> None
                            | Some data \<Rightarrow> Some (Inr data, st d))))
      | _ \<Rightarrow> Some (Inl (Errno DMR_EINVAL), bptc))"

text \<open>
  One row of the encoder: place the data bits from index \<open>i\<close> on, append the Hamming parity.
\<close>

definition bptc_encode_row :: "bool list \<Rightarrow> nat \<Rightarrow> bool list \<times> bool list \<times> nat \<Rightarrow> bool list \<times> bool list \<times> nat" where
  "bptc_encode_row data_bits row = (\<lambda>(d, hc, i).
     let hc = replicate 15 False;
         (d, hc, i) =
           fold (\<lambda>col (d, hc, i). (d[row * 15 + col := data_bits ! i], hc[col := data_bits ! i], i + 1))
             (if row = 0 then [3..<11] else [0..<11]) (d, hc, i);
         hc = dmr_hamming_15_11_3_encode hc;
         d = fold (\<lambda>col d. d[row * 15 + col := hc ! col]) [11..<15] d
     in (d, hc, i))"

definition bptc_encode_col :: "nat \<Rightarrow> bool list \<times> bool list \<Rightarrow> bool list \<times> bool list" where
  "bptc_encode_col col = (\<lambda>(d, hc).
     let hc = fold (\<lambda>row hc. hc[row := d ! (row * 15 + col)]) [0..<9] hc;
         hc = dmr_hamming_13_9_3_encode hc
     in (d[col + 135 := hc ! 9, col + 135 + 15 := hc ! 10, col + 135 + 30 := hc ! 11,
           col + 135 + 45 := hc ! 12], hc))"

definition bptc_encode_matrix :: "bool list \<Rightarrow> bool list" where
  "bptc_encode_matrix data_bits =
     (let (d, hc, i) = fold (bptc_encode_row data_bits) [0..<9]
                         (replicate 196 False, replicate 15 False, 0);
          (d, hc) = fold bptc_encode_col [0..<15] (d, hc)
      in d)"

definition dmr_bptc_196_96_encode ::
  "bool list \<Rightarrow> u8 list option \<Rightarrow> dmr_bptc_196_96 option \<Rightarrow> u8 list option \<Rightarrow>
   ((failure + u8 list) \<times> dmr_bptc_196_96 option) option" where
  "dmr_bptc_196_96_encode uninit packet bptc data =
     (case (bptc, packet, data) of
        (Some bptc, Some packet, Some data) \<Rightarrow>
          (case dmr_bytes_to_bits data 12 (replicate 96 False) 96 of
             None \<Rightarrow> None
           | Some data_bits \<Rightarrow>
               let d = bptc_encode_matrix data_bits;
                   raw = bptc_interleave d (bptc_raw bptc);
                   bits = blit (blit uninit 0 (take 98 raw)) 166 (take 98 (drop 98 raw))
               in case dmr_bits_to_bytes bits DMR_PACKET_BITS packet DMR_PACKET_LEN of
                    None \<Rightarrow> None
                  | Some packet \<Rightarrow>
                      Some (Inr packet, Some (bptc\<lparr>bptc_raw := raw, bptc_deinterleaved_bits := d\<rparr>)))
      | _ \<Rightarrow> Some (Inl (Errno DMR_EINVAL), bptc))"

section \<open>Interleaving\<close>

definition bptc_wf :: "dmr_bptc_196_96 \<Rightarrow> bool" where
  "bptc_wf b \<longleftrightarrow> length (bptc_raw b) = 196 \<and> length (bptc_deinterleaved_bits b) = 196"

lemma interleave_inj:
  assumes "i < 196" "j < 196" "((i + 1) * 181) mod 196 = ((j + 1) * 181) mod (196::nat)"
  shows "i = j"
proof -
  have inv: "(181 * 13) mod 196 = (1::nat)" by simp
  have "((i + 1) * 181 * 13) mod 196 = ((j + 1) * 181 * 13) mod 196"
    using assms(3) by (metis mod_mult_left_eq)
  then have "(i + 1) mod 196 = (j + 1) mod 196"
    using inv by (metis mod_mult_right_eq mult.assoc mult.right_neutral)
  then show ?thesis using assms(1,2) by (auto simp: mod_Suc split: if_splits)
qed

lemma inj_interleave: "inj_on (\<lambda>i. (i * 181) mod 196) (set [1..<197])"
proof (rule inj_onI)
  fix i j :: nat
  assume "i \<in> set [1..<197]" "j \<in> set [1..<197]" "(i * 181) mod 196 = (j * 181) mod 196"
  then have "i - 1 = j - 1" "0 < i" "0 < j" using interleave_inj [of "i - 1" "j - 1"] by auto
  then show "i = j" by simp
qed

lemma length_bptc_deinterleave [simp, dmr_len]: "length (bptc_deinterleave raw d) = length d"
  by (simp add: bptc_deinterleave_def)

lemma length_bptc_interleave [simp, dmr_len]: "length (bptc_interleave d raw) = length raw"
  by (simp add: bptc_interleave_def)

lemma nth_bptc_deinterleave:
  assumes "length d = 196" "i < 196"
  shows "bptc_deinterleave raw d ! i = raw ! (((i + 1) * 181) mod 196)"
proof -
  have "inj_on (\<lambda>i. i - 1) (set [1..<197])" by (rule inj_onI) auto
  moreover have "\<forall>i \<in> set [1..<197]. i - 1 < length d" using assms(1) by auto
  ultimately show ?thesis
    using nth_fold_update_in [of "\<lambda>i. i - 1" "[1..<197]" d "i + 1" "\<lambda>i. raw ! ((i * 181) mod 196)"] assms(2)
    by (simp add: bptc_deinterleave_def)
qed

lemma nth_bptc_interleave:
  assumes "length raw = 196" "i < 196"
  shows "bptc_interleave d raw ! (((i + 1) * 181) mod 196) = d ! i"
  unfolding bptc_interleave_def
  using nth_fold_update_in [OF inj_interleave, of raw "i + 1" "\<lambda>i. d ! (i - 1)"] assms
  by auto

lemma bptc_deinterleave_interleave:
  assumes "length d = 196" "length d' = 196" "length raw = 196"
  shows "bptc_deinterleave (bptc_interleave d raw) d' = d"
  using assms
  by (intro nth_equalityI) (simp_all add: nth_bptc_deinterleave nth_bptc_interleave [simplified])

section \<open>The decoder reads rows and one column\<close>

definition bptc_row :: "bool list \<Rightarrow> nat \<Rightarrow> bool list" where
  "bptc_row d r = map (\<lambda>c. d ! (r * 15 + c)) [0..<15]"

definition bptc_col :: "bool list \<Rightarrow> nat \<Rightarrow> bool list" where
  "bptc_col d c = map (\<lambda>r. d ! (r * 15 + c)) [0..<13]"

definition bptc_info :: "u8 list \<Rightarrow> bool list" where
  "bptc_info packet = take 98 (bytes_bits packet) @ take 98 (drop 166 (bytes_bits packet))"

lemma bptc_check_col_eq:
  "bptc_check_col col d =
     map_option (\<lambda>ok. (ok, d)) (dmr_hamming_13_9_3_decode (bptc_col d 1))"
  by (auto simp: bptc_check_col_def bptc_col_def Let_def fold_update_id split: option.splits bool.splits)

lemma bptc_check_row_eq:
  "bptc_check_row row d =
     map_option (\<lambda>ok. (ok, d)) (dmr_hamming_15_11_3_decode (bptc_row d row))"
  by (auto simp: bptc_check_row_def bptc_row_def Let_def fold_update_id split: option.splits bool.splits)

lemma blit_raw:
  assumes "length raw = 196" "length xs = 98" "length ys = 98"
  shows "blit (blit raw 0 xs) 98 ys = xs @ ys"
  using assms by (simp add: blit_def)

lemma length_bptc_data_bits [simp, dmr_len]: "length (bptc_data_bits d) = 96"
  by (simp add: bptc_data_bits_def length_concat upt_rec)


text \<open>The packet's matrix, and when the decoder returns data.\<close>

definition bptc_matrix :: "u8 list \<Rightarrow> bool list" where
  "bptc_matrix packet = map (\<lambda>i. bptc_info packet ! (((i + 1) * 181) mod 196)) [0..<196]"

definition bptc_accepts :: "bool list \<Rightarrow> bool" where
  "bptc_accepts d \<longleftrightarrow> dmr_hamming_13_9_3_decode (bptc_col d 1) = Some True \<and>
     (\<forall>r < 9. dmr_hamming_15_11_3_decode (bptc_row d r) = Some True)"

lemma bptc_deinterleave_matrix:
  "length d = 196 \<Longrightarrow> bptc_deinterleave (bptc_info packet) d = bptc_matrix packet"
  by (rule nth_equalityI) (simp_all add: bptc_matrix_def nth_bptc_deinterleave)

lemma foldc_checks:
  "(foldc bptc_check_col [0..<15] d = Some (True, d') \<longleftrightarrow>
      d' = d \<and> dmr_hamming_13_9_3_decode (bptc_col d 1) = Some True)"
  "(foldc bptc_check_row [0..<9] d = Some (True, d') \<longleftrightarrow>
      d' = d \<and> (\<forall>r < 9. dmr_hamming_15_11_3_decode (bptc_row d r) = Some True))"
proof -
  have ex15: "\<exists>c. c < (15::nat)" by (rule exI [of _ 0]) simp
  have "foldc bptc_check_col [0..<15] d = Some (True, d') \<longleftrightarrow>
      d' = d \<and> (\<forall>c \<in> set [0..<15]. bptc_check_col c d = Some (True, d))"
    by (rule foldc_True_iff) (auto simp: bptc_check_col_eq)
  then show "(foldc bptc_check_col [0..<15] d = Some (True, d') \<longleftrightarrow>
      d' = d \<and> dmr_hamming_13_9_3_decode (bptc_col d 1) = Some True)"
    using ex15 by (auto simp: bptc_check_col_eq)
  have "foldc bptc_check_row [0..<9] d = Some (True, d') \<longleftrightarrow>
      d' = d \<and> (\<forall>r \<in> set [0..<9]. bptc_check_row r d = Some (True, d))"
    by (rule foldc_True_iff) (auto simp: bptc_check_row_eq)
  then show "(foldc bptc_check_row [0..<9] d = Some (True, d') \<longleftrightarrow>
      d' = d \<and> (\<forall>r < 9. dmr_hamming_15_11_3_decode (bptc_row d r) = Some True))"
    by (auto simp: bptc_check_row_eq)
qed

lemma bptc_decode_iff:
  assumes "length packet = 33" "bptc_wf b" "length data = 12"
  shows "dmr_bptc_196_96_decode (Some packet) (Some b) (Some data) = Some (Inr out, b') \<longleftrightarrow>
    bptc_accepts (bptc_matrix packet) \<and> out = bits_bytes (bptc_data_bits (bptc_matrix packet)) \<and>
    b' = Some (b\<lparr>bptc_raw := bptc_info packet, bptc_deinterleaved_bits := bptc_matrix packet\<rparr>)"
proof -
  have bits: "dmr_bytes_to_bits packet 33 (replicate 264 False) 264 = Some (bytes_bits packet)"
    using dmr_bytes_to_bits_eq [of packet 33 "replicate 264 False"] assms(1) by simp
  have raw: "blit (blit (bptc_raw b) 0 (take 98 (bytes_bits packet))) 98 (take 98 (drop 166 (bytes_bits packet)))
      = bptc_info packet"
    unfolding bptc_info_def using assms(1,2) by (intro blit_raw) (simp_all add: bptc_wf_def)
  have mat: "bptc_deinterleave (bptc_info packet) (bptc_deinterleaved_bits b) = bptc_matrix packet"
    using assms(2) by (intro bptc_deinterleave_matrix) (simp add: bptc_wf_def)
  have byt: "dmr_bits_to_bytes (bptc_data_bits d) 96 data 12 = Some (bits_bytes (bptc_data_bits d))" for d
    using dmr_bits_to_bytes_eq [of "bptc_data_bits d" 12 data] assms(3) by simp
  have r: "foldc bptc_check_row [0..<9] d = Some (True, d') \<Longrightarrow> d' = d" for d d'
    using foldc_checks(2) by blast
  have c: "foldc bptc_check_col [0..<15] d = Some (True, d') \<Longrightarrow> d' = d" for d d'
    using foldc_checks(1) by blast
  show ?thesis
    unfolding dmr_bptc_196_96_decode_def bptc_accepts_def
    using foldc_checks [of "bptc_matrix packet" "bptc_matrix packet"]
    by (auto simp: bits raw mat byt Let_def split: option.splits bool.splits dest: r c)
qed


section \<open>The encoder's matrix\<close>

lemma bptc_place_row:
  "fold (\<lambda>col (d, hc, i). (d[row * 15 + col := v ! i], hc[col := v ! i], i + 1)) [s..<s + n] (d, hc, i) =
     (fold (\<lambda>col d. d[row * 15 + col := v ! (i + (col - s))]) [s..<s + n] d,
      fold (\<lambda>col hc. hc[col := v ! (i + (col - s))]) [s..<s + n] hc, i + n)"
  by (induction n) simp_all

text \<open>Row \<open>r\<close> before and after its parity is appended.\<close>

definition bptc_plain_row :: "bool list \<Rightarrow> nat \<Rightarrow> bool list" where
  "bptc_plain_row v r = map (\<lambda>c. c < 11 \<and> 3 \<le> 11 * r + c \<and> v ! (11 * r + c - 3)) [0..<15]"

definition bptc_code_row :: "bool list \<Rightarrow> nat \<Rightarrow> bool list" where
  "bptc_code_row v r = dmr_hamming_15_11_3_encode (bptc_plain_row v r)"

lemma length_plain_row [simp]: "length (bptc_plain_row v r) = 15"
  by (simp add: bptc_plain_row_def)

lemma length_code_row [simp]: "length (bptc_code_row v r) = 15"
  by (simp add: bptc_code_row_def ham15.length_encode)

lemma nth_code_row: "c < 11 \<Longrightarrow> bptc_code_row v r ! c = bptc_plain_row v r ! c"
  using ham15.data_encode [of "bptc_plain_row v r"] unfolding bptc_code_row_def
  by (metis length_plain_row nth_take)

lemma nth_plain_row: "c < 15 \<Longrightarrow> bptc_plain_row v r ! c = (c < 11 \<and> 3 \<le> 11 * r + c \<and> v ! (11 * r + c - 3))"
  by (simp add: bptc_plain_row_def)

lemma div_mod_15: "k div 15 = r \<longleftrightarrow> (\<exists>c < 15. k = r * 15 + c)" for k r :: nat
  by (auto intro: exI [of _ "k mod 15"])

lemma bptc_encode_row_step:
  assumes "length d = 196" "row < 9" "\<And>c. c < 11 \<Longrightarrow> \<not> d ! (row * 15 + c)"
  shows "\<exists>d' hc'. bptc_encode_row v row (d, hc, 11 * row - 3) = (d', hc', 11 * Suc row - 3) \<and>
    length d' = 196 \<and> length hc' = 15 \<and>
    (\<forall>k < 196. d' ! k = (if k div 15 = row then bptc_code_row v row ! (k mod 15) else d ! k))"
proof -
  define s :: nat where "s = (if row = 0 then 3 else 0)"
  let ?v = "\<lambda>col. v ! (11 * row - 3 + (col - s))"
  let ?d1 = "fold (\<lambda>col d. d[row * 15 + col := ?v col]) [s..<s + (11 - s)] d"
  let ?h1 = "fold (\<lambda>col hc. hc[col := ?v col]) [s..<s + (11 - s)] (replicate 15 False)"
  have cols: "(if row = 0 then [3..<11] else [0..<11]) = [s..<s + (11 - s)]" by (simp add: s_def)
  have idx: "11 * row - 3 + (c - s) = 11 * row + c - 3" if "s \<le> c" for c using that by (auto simp: s_def)
  have s3: "3 \<le> 11 * row + c \<longleftrightarrow> s \<le> c" for c by (auto simp: s_def)
  have s11: "s + (11 - s) = 11" by (simp add: s_def)
  have "?h1 ! c = bptc_plain_row v row ! c" if "c < 15" for c
  proof (cases "c \<in> set [s..<s + (11 - s)]")
    case True
    then have "?h1 ! c = ?v c" by (intro nth_fold_update_in [where f = "\<lambda>c. c"]) (auto simp: s_def)
    moreover have "?v c = v ! (11 * row + c - 3)" using True by (subst idx) auto
    ultimately show ?thesis using True that by (auto simp: nth_plain_row s3 s11)
  next
    case False
    then have "?h1 ! c = False" using that by (subst nth_fold_update_out [where f = "\<lambda>c. c"]) auto
    then show ?thesis using False that by (auto simp: nth_plain_row s3 s11)
  qed
  then have h1: "?h1 = bptc_plain_row v row" by (intro nth_equalityI) simp_all
  let ?d2 = "fold (\<lambda>col d. d[row * 15 + col := bptc_code_row v row ! col]) [11..<15] ?d1"
  have eq: "bptc_encode_row v row (d, hc, 11 * row - 3) = (?d2, bptc_code_row v row, 11 * Suc row - 3)"
    unfolding bptc_encode_row_def cols bptc_place_row
    by (simp add: h1 bptc_code_row_def [symmetric] Let_def) (auto simp: s_def)
  have "?d2 ! k = (if k div 15 = row then bptc_code_row v row ! (k mod 15) else d ! k)" if "k < 196" for k
  proof (cases "k div 15 = row")
    case True
    then obtain c where c: "c < 15" "k = row * 15 + c" by (auto simp: div_mod_15)
    show ?thesis
    proof (cases "c < 11")
      case False
      then have "?d2 ! (row * 15 + c) = bptc_code_row v row ! c"
        using c assms(1,2) by (intro nth_fold_update_in [where f = "\<lambda>c. row * 15 + c"]) (auto simp: inj_on_def)
      then show ?thesis using c True by simp
    next
      case c11: True
      then have out: "?d2 ! k = ?d1 ! k" using c by (intro nth_fold_update_out) auto
      show ?thesis
      proof (cases "s \<le> c")
        case True
        then have "?d1 ! (row * 15 + c) = ?v c"
          using c c11 assms(1,2) by (intro nth_fold_update_in [where f = "\<lambda>c. row * 15 + c"]) (auto simp: inj_on_def s_def)
        moreover have "?v c = v ! (11 * row + c - 3)" using True by (subst idx) auto
        ultimately show ?thesis using c c11 True out by (simp add: nth_code_row nth_plain_row s3)
      next
        case False
        then have "?d1 ! k = d ! k" using c by (intro nth_fold_update_out) auto
        then show ?thesis using c c11 False out assms(3) by (simp add: nth_code_row nth_plain_row s3)
      qed
    qed
  next
    case False
    then have "\<forall>c \<in> {..<15}. k \<noteq> row * 15 + c" by (auto simp: div_mod_15)
    then have nk: "k \<notin> (\<lambda>c. row * 15 + c) ` A" if "A \<subseteq> {..<15}" for A using that by blast
    have "k \<notin> (\<lambda>c. row * 15 + c) ` set [11..<15]" by (rule nk) auto
    moreover have "k \<notin> (\<lambda>c. row * 15 + c) ` set [s..<s + (11 - s)]" by (rule nk) (auto simp: s11)
    ultimately show ?thesis using False by (simp add: nth_fold_update_out)
  qed
  with eq assms(1) show ?thesis by simp
qed


lemma bptc_encode_rows:
  "n \<le> 9 \<Longrightarrow> \<exists>d hc. fold (bptc_encode_row v) [0..<n] (replicate 196 False, replicate 15 False, 0) =
     (d, hc, 11 * n - 3) \<and> length d = 196 \<and> length hc = 15 \<and>
     (\<forall>k < 196. d ! k = (k < 15 * n \<and> bptc_code_row v (k div 15) ! (k mod 15)))"
proof (induction n)
  case (Suc n)
  then obtain d hc where IH:
    "fold (bptc_encode_row v) [0..<n] (replicate 196 False, replicate 15 False, 0) = (d, hc, 11 * n - 3)"
    "length d = 196" "\<forall>k < 196. d ! k = (k < 15 * n \<and> bptc_code_row v (k div 15) ! (k mod 15))" by auto
  have "\<not> d ! (n * 15 + c)" if "c < 11" for c using IH(3) that Suc.prems by simp
  from bptc_encode_row_step [OF IH(2) _ this, of v hc] Suc.prems obtain d' hc' where
    s: "bptc_encode_row v n (d, hc, 11 * n - 3) = (d', hc', 11 * Suc n - 3)" "length d' = 196" "length hc' = 15"
    "\<forall>k < 196. d' ! k = (if k div 15 = n then bptc_code_row v n ! (k mod 15) else d ! k)" by auto
  have "d' ! k = (k < 15 * Suc n \<and> bptc_code_row v (k div 15) ! (k mod 15))" if "k < 196" for k
    using s(4) IH(3) that by (cases "k div 15 = n") auto
  with s IH(1) show ?case by simp
qed simp

text \<open>The columns: the parity of rows 0 to 8 goes to rows 9 to 12.\<close>

lemma ham_b_13: "ham_b hamming_13_9_3 = 4"
  by (simp add: ham_b_def hamming_tables)

lemma length_hamming_encode13 [simp]:
  "13 \<le> length hc \<Longrightarrow> length (dmr_hamming_13_9_3_encode hc) = length hc"
  by (simp add: dmr_hamming_13_9_3_encode_def hamming_encode_def ham_dims ham_b_13)

lemma nth_hamming_encode13:
  assumes "13 \<le> length hc" "j < 4" "take 9 hc = take 9 d"
  shows "dmr_hamming_13_9_3_encode hc ! (9 + j) = hamming_parity hamming_13_9_3 d ! j"
  using assms hamming_parity_cong [of hamming_13_9_3 hc d]
  by (simp add: dmr_hamming_13_9_3_encode_def hamming_encode_def ham_dims ham_b_13 nth_blit)

lemma bptc_encode_col_step:
  assumes "length d = 196" "length hc = 15" "col < 15"
  shows "\<exists>d' hc'. bptc_encode_col col (d, hc) = (d', hc') \<and> length d' = 196 \<and> length hc' = 15 \<and>
    (\<forall>k < 196. d' ! k = (if 135 \<le> k \<and> k < 195 \<and> k mod 15 = col
       then hamming_parity hamming_13_9_3 (bptc_col d col) ! (k div 15 - 9) else d ! k))"
proof -
  let ?h = "fold (\<lambda>row hc. hc[row := d ! (row * 15 + col)]) [0..<9] hc"
  have "?h ! r = bptc_col d col ! r" if "r < 9" for r
    using nth_fold_update_in [of "\<lambda>r. r" "[0..<9]" hc r "\<lambda>r. d ! (r * 15 + col)"] that assms(2)
    by (auto simp: bptc_col_def)
  then have t: "take 9 ?h = take 9 (bptc_col d col)"
    using assms(2) by (intro nth_equalityI) (simp_all add: bptc_col_def)
  let ?p = "hamming_parity hamming_13_9_3 (bptc_col d col)"
  have p: "dmr_hamming_13_9_3_encode ?h ! (9 + j) = ?p ! j" if "j < 4" for j
    using that t assms(2) by (intro nth_hamming_encode13) simp_all
  have p': "dmr_hamming_13_9_3_encode ?h ! 9 = ?p ! 0" "dmr_hamming_13_9_3_encode ?h ! 10 = ?p ! 1"
    "dmr_hamming_13_9_3_encode ?h ! 11 = ?p ! 2" "dmr_hamming_13_9_3_encode ?h ! 12 = ?p ! 3"
    using p [of 0] p [of 1] p [of 2] p [of 3] by simp_all
  let ?d' = "d[col + 135 := ?p ! 0, 150 + col := ?p ! 1, 165 + col := ?p ! 2, 180 + col := ?p ! 3]"
  have "bptc_encode_col col (d, hc) = (?d', dmr_hamming_13_9_3_encode ?h)"
    unfolding bptc_encode_col_def by (simp add: Let_def p')
  moreover have "?d' ! k = (if 135 \<le> k \<and> k < 195 \<and> k mod 15 = col then ?p ! (k div 15 - 9) else d ! k)"
    if "k < 196" for k
  proof (cases "135 \<le> k \<and> k < 195 \<and> k mod 15 = col")
    case True
    then have "k div 15 \<in> {9, 10, 11, 12}" by auto
    moreover have "k = k div 15 * 15 + col" using True div_mult_mod_eq [of k 15] by simp
    ultimately show ?thesis using True assms(1) by (auto simp: nth_list_update)
  next
    case False
    have m: "(j * 15 + col) mod 15 = col" for j using assms(3) by simp
    from False have "k \<noteq> col + 135" "k \<noteq> 150 + col" "k \<noteq> 165 + col" "k \<noteq> 180 + col"
      using assms(3) m [of 9] m [of 10] m [of 11] m [of 12] by (auto simp: add.commute)
    then show ?thesis using False by auto
  qed
  ultimately show ?thesis using assms(1,2) by simp
qed


lemma hamming_parity_col:
  assumes "\<And>k. k < 135 \<Longrightarrow> d' ! k = d ! k" "col < 15"
  shows "hamming_parity hamming_13_9_3 (bptc_col d' col) = hamming_parity hamming_13_9_3 (bptc_col d col)"
  using assms by (intro hamming_parity_cong) (auto simp: ham_dims bptc_col_def take_map)

lemma bptc_encode_cols:
  assumes "length d = 196" "length hc = 15"
  shows "n \<le> 15 \<Longrightarrow> \<exists>d' hc'. fold bptc_encode_col [0..<n] (d, hc) = (d', hc') \<and> length d' = 196 \<and>
    length hc' = 15 \<and> (\<forall>k < 196. d' ! k = (if 135 \<le> k \<and> k < 195 \<and> k mod 15 < n
       then hamming_parity hamming_13_9_3 (bptc_col d (k mod 15)) ! (k div 15 - 9) else d ! k))"
proof (induction n)
  case 0
  show ?case using assms by simp
next
  case (Suc n)
  then obtain d1 h1 where IH: "fold bptc_encode_col [0..<n] (d, hc) = (d1, h1)" "length d1 = 196" "length h1 = 15"
    "\<forall>k < 196. d1 ! k = (if 135 \<le> k \<and> k < 195 \<and> k mod 15 < n
       then hamming_parity hamming_13_9_3 (bptc_col d (k mod 15)) ! (k div 15 - 9) else d ! k)" by auto
  from bptc_encode_col_step [OF IH(2,3), of n] Suc.prems obtain d2 h2 where
    s: "bptc_encode_col n (d1, h1) = (d2, h2)" "length d2 = 196" "length h2 = 15"
    "\<forall>k < 196. d2 ! k = (if 135 \<le> k \<and> k < 195 \<and> k mod 15 = n
       then hamming_parity hamming_13_9_3 (bptc_col d1 n) ! (k div 15 - 9) else d1 ! k)" by auto
  have "hamming_parity hamming_13_9_3 (bptc_col d1 n) = hamming_parity hamming_13_9_3 (bptc_col d n)"
    using IH(4) Suc.prems by (intro hamming_parity_col) auto
  with IH s show ?case by (auto simp: less_Suc_eq)
qed

lemma bptc_encode_matrix_nth:
  "length (bptc_encode_matrix v) = 196 \<and>
   (\<forall>k < 135. bptc_encode_matrix v ! k = bptc_code_row v (k div 15) ! (k mod 15)) \<and>
   (\<forall>k. 135 \<le> k \<and> k < 195 \<longrightarrow> bptc_encode_matrix v ! k =
      hamming_parity hamming_13_9_3 (bptc_col (bptc_encode_matrix v) (k mod 15)) ! (k div 15 - 9))"
proof -
  obtain d hc where r: "fold (bptc_encode_row v) [0..<9] (replicate 196 False, replicate 15 False, 0) = (d, hc, 96)"
    "length d = 196" "length hc = 15"
    "\<forall>k < 196. d ! k = (k < 135 \<and> bptc_code_row v (k div 15) ! (k mod 15))"
    using bptc_encode_rows [of 9 v] by auto
  from bptc_encode_cols [OF r(2,3), of 15] obtain d' hc' where
    c: "fold bptc_encode_col [0..<15] (d, hc) = (d', hc')" "length d' = 196"
    "\<forall>k < 196. d' ! k = (if 135 \<le> k \<and> k < 195
       then hamming_parity hamming_13_9_3 (bptc_col d (k mod 15)) ! (k div 15 - 9) else d ! k)" by auto
  have "bptc_encode_matrix v = d'" using r(1) c(1) by (simp add: bptc_encode_matrix_def)
  moreover have "hamming_parity hamming_13_9_3 (bptc_col d' (k mod 15)) =
      hamming_parity hamming_13_9_3 (bptc_col d (k mod 15))" for k
    using c(3) by (intro hamming_parity_col) auto
  ultimately show ?thesis using r c by auto
qed

lemma bptc_encode_row_word: "r < 9 \<Longrightarrow> bptc_row (bptc_encode_matrix v) r = bptc_code_row v r"
  using bptc_encode_matrix_nth [of v]
  by (intro nth_equalityI) (auto simp: bptc_row_def)

lemma bptc_encode_col_word:
  assumes "c < 15"
  shows "bptc_col (bptc_encode_matrix v) c = dmr_hamming_13_9_3_encode (bptc_col (bptc_encode_matrix v) c)"
proof -
  let ?D = "bptc_encode_matrix v"
  have "bptc_col ?D c ! r = (take 9 (bptc_col ?D c) @ hamming_parity hamming_13_9_3 (bptc_col ?D c)) ! r"
    if "r < 13" for r
    using that assms bptc_encode_matrix_nth [of v]
    by (cases "r < 9") (auto simp: bptc_col_def nth_append ham_b_13)
  then have "bptc_col ?D c = take 9 (bptc_col ?D c) @ hamming_parity hamming_13_9_3 (bptc_col ?D c)"
    by (intro nth_equalityI) (simp_all add: bptc_col_def ham_b_13)
  then show ?thesis
    by (simp add: dmr_hamming_13_9_3_encode_def hamming_encode_eq [OF ham_wf_13_9_3] ham_dims bptc_col_def)
qed

lemma bptc_encode_accepts: "bptc_accepts (bptc_encode_matrix v)"
proof -
  have "dmr_hamming_13_9_3_decode (bptc_col (bptc_encode_matrix v) 1) = Some True"
    using ham13.check_iff [of "bptc_col (bptc_encode_matrix v) 1"] bptc_encode_col_word [of 1 v]
    by (simp add: bptc_col_def)
  moreover have "dmr_hamming_15_11_3_decode (bptc_code_row v r) = Some True" for r
    unfolding bptc_code_row_def by (rule ham15.check_encode) simp
  ultimately show ?thesis by (simp add: bptc_accepts_def bptc_encode_row_word)
qed

lemma bptc_data_bits_nth:
  "bptc_data_bits d = map (\<lambda>k. d ! ((k + 3) div 11 * 15 + (k + 3) mod 11)) [0..<96]"
  by (simp add: bptc_data_bits_def upt_rec)

lemma bptc_data_index: "k < 96 \<Longrightarrow> (k + 3) div 11 * 15 + (k + 3) mod 11 < (135::nat)"
proof -
  assume "k < 96"
  then have "(k + 3) div 11 < 9" "(k + 3) mod 11 < 11" by auto
  then show ?thesis by linarith
qed

lemma bptc_data_bits_encode:
  assumes "length v = 96"
  shows "bptc_data_bits (bptc_encode_matrix v) = v"
proof (rule nth_equalityI)
  fix k assume "k < length (bptc_data_bits (bptc_encode_matrix v))"
  then have k: "k < 96" by simp
  let ?r = "(k + 3) div 11" and ?c = "(k + 3) mod 11"
  have rc: "?r < 9" "?c < 11" "11 * ?r + ?c = k + 3" using k by auto
  then have "bptc_encode_matrix v ! (?r * 15 + ?c) = bptc_code_row v ?r ! ?c"
    using bptc_encode_matrix_nth [of v] by auto
  then show "bptc_data_bits (bptc_encode_matrix v) ! k = v ! k"
    using k rc by (simp add: bptc_data_bits_nth nth_code_row nth_plain_row)
qed (simp add: assms)


section \<open>Packet positions\<close>

text \<open>The bit of the packet that carries bit \<open>k\<close> of the matrix.\<close>

definition bptc_pos :: "nat \<Rightarrow> nat" where
  "bptc_pos k = (let n = ((k + 1) * 181) mod 196 in if n < 98 then n else n + 68)"

lemma bptc_pos_less: "bptc_pos k < 264"
  using mod_less_divisor [of 196 "(k + 1) * 181"] by (auto simp: bptc_pos_def Let_def simp del: mod_less_divisor)

lemma bptc_pos_inj: "j < 196 \<Longrightarrow> k < 196 \<Longrightarrow> bptc_pos j = bptc_pos k \<longleftrightarrow> j = k"
  using interleave_inj [of j k] by (auto simp: bptc_pos_def Let_def split: if_splits)

lemma nth_bptc_matrix:
  assumes "length p = 33" "k < 196"
  shows "bptc_matrix p ! k = bytes_bits p ! bptc_pos k"
proof -
  let ?n = "((k + 1) * 181) mod 196"
  have "?n < 196" by simp
  then have "bptc_info p ! ?n = bytes_bits p ! (if ?n < 98 then ?n else ?n + 68)"
    using assms(1) by (simp add: bptc_info_def nth_append add.commute)
  then show ?thesis using assms(2) by (simp add: bptc_matrix_def bptc_pos_def Let_def)
qed

lemma length_bptc_matrix [simp, dmr_len]: "length (bptc_matrix p) = 196"
  by (simp add: bptc_matrix_def)

lemma bptc_matrix_flip:
  assumes "length p = 33" "length q = 33" "k < 196"
    and "bytes_bits q = (bytes_bits p)[bptc_pos k := v]"
  shows "bptc_matrix q = (bptc_matrix p)[k := v]"
  using assms bptc_pos_less [of k]
  by (intro nth_equalityI) (auto simp: nth_bptc_matrix nth_list_update bptc_pos_inj)

lemma bptc_encode_eq:
  assumes "length data = 12" "length packet = 33" "bptc_wf b" "length uninit = 264"
  shows "\<exists>p st. dmr_bptc_196_96_encode uninit (Some packet) (Some b) (Some data) = Some (Inr p, st) \<and>
    length p = 33 \<and> bptc_matrix p = bptc_encode_matrix (bytes_bits data)"
proof -
  let ?D = "bptc_encode_matrix (bytes_bits data)"
  let ?raw = "bptc_interleave ?D (bptc_raw b)"
  let ?bits = "blit (blit uninit 0 (take 98 ?raw)) 166 (take 98 (drop 98 ?raw))"
  have raw: "length ?raw = 196" using assms(3) by (simp add: bptc_wf_def)
  have bits: "length ?bits = 264" using raw assms(4) by simp
  have db: "dmr_bytes_to_bits data 12 (replicate 96 False) 96 = Some (bytes_bits data)"
    using dmr_bytes_to_bits_eq [of data 12 "replicate 96 False"] assms(1) by simp
  have pb: "dmr_bits_to_bytes ?bits 264 packet 33 = Some (bits_bytes ?bits)"
    using dmr_bits_to_bytes_eq [of ?bits 33 packet] assms(2) bits by simp
  let ?p = "bits_bytes ?bits"
  have p33: "length ?p = 33" using bits by simp
  have "bytes_bits ?p = ?bits" using bits by (intro bytes_bits_bits_bytes) simp
  then have "bptc_info ?p = ?raw"
    using raw assms(4) by (simp add: bptc_info_def blit_def append_eq_conv_conj flip: take_add)
  moreover have "length ?D = 196" using bptc_encode_matrix_nth by blast
  ultimately have "bptc_matrix ?p = ?D"
    using bptc_deinterleave_matrix [of ?D ?p] bptc_deinterleave_interleave [of ?D ?D "bptc_raw b"] assms(3)
    by (simp add: bptc_wf_def)
  with p33 show ?thesis
    unfolding dmr_bptc_196_96_encode_def by (simp add: db pb Let_def)
qed

lemma bytes_bits_zero: "bytes_bits (replicate n 0) = replicate (8 * n) False"
  by (rule nth_equalityI) (simp_all add: nth_bytes_bits)

lemma syndrome_zero [simp]: "syndrome g (replicate n False) = 0"
proof (induction g arbitrary: n)
  case (Cons r g)
  then show ?case by (cases n) simp_all
qed simp

lemma bptc_zero_accepted:
  assumes "bptc_wf b" "length out = 12"
  shows "\<exists>st. dmr_bptc_196_96_decode (Some (replicate 33 0)) (Some b) (Some out) =
    Some (Inr (replicate 12 0), st)"
proof -
  have m: "bptc_matrix (replicate 33 0) = replicate 196 False"
    by (rule nth_equalityI) (simp_all add: nth_bptc_matrix bytes_bits_zero bptc_pos_less)
  have "bptc_col (replicate 196 False) 1 = replicate 13 False"
    by (rule nth_equalityI) (simp_all add: bptc_col_def)
  moreover have "bptc_row (replicate 196 False) r = replicate 15 False" if "r < 9" for r
    using that by (intro nth_equalityI) (simp_all add: bptc_row_def)
  ultimately have "bptc_accepts (replicate 196 False)"
    using hamming_accepts [OF ham_wf_13_9_3, of "replicate 13 False"]
      hamming_accepts [OF ham_wf_15_11_3, of "replicate 15 False"]
    by (simp add: bptc_accepts_def dmr_hamming_13_9_3_decode_def dmr_hamming_15_11_3_decode_def ham_dims)
  moreover have "bptc_data_bits (replicate 196 False) = bytes_bits (replicate 12 0)"
  proof (rule nth_equalityI)
    fix k assume "k < length (bptc_data_bits (replicate 196 False))"
    then have k: "k < 96" by simp
    with bptc_data_index [OF k] show "bptc_data_bits (replicate 196 False) ! k = bytes_bits (replicate 12 0) ! k"
      by (simp add: bptc_data_bits_nth bytes_bits_zero)
  qed simp
  ultimately show ?thesis using bptc_decode_iff [OF _ assms, of "replicate 33 0"] m by auto
qed

section \<open>Properties\<close>

text \<open>
  C3. Decoding an encoded burst returns its twelve bytes, whatever the 264-bit array of
  the encoder, the destination and the two code states held before.
\<close>

theorem bptc_196_96_roundtrip:
  assumes "length data = 12" "length packet = 33" "length uninit = 264" "bptc_wf b"
    and "bptc_wf b'" "length out = 12"
  shows "\<exists>p st st'. dmr_bptc_196_96_encode uninit (Some packet) (Some b) (Some data) = Some (Inr p, st) \<and>
    length p = 33 \<and>
    dmr_bptc_196_96_decode (Some p) (Some b') (Some out) = Some (Inr data, st')"
proof -
  obtain p st where p: "dmr_bptc_196_96_encode uninit (Some packet) (Some b) (Some data) = Some (Inr p, st)"
    "length p = 33" "bptc_matrix p = bptc_encode_matrix (bytes_bits data)"
    using bptc_encode_eq assms by metis
  have "bits_bytes (bptc_data_bits (bptc_matrix p)) = data"
    using p(3) assms(1) by (simp add: bptc_data_bits_encode)
  then show ?thesis
    using p bptc_decode_iff [OF p(2) assms(5,6)] bptc_encode_accepts by metis
qed

theorem bptc_196_96_roundtrip_witness:
  "\<exists>p st st'. dmr_bptc_196_96_encode (replicate 264 True) (Some (replicate 33 0))
      (Some \<lparr>bptc_raw = replicate 196 False, bptc_deinterleaved_bits = replicate 196 True\<rparr>)
      (Some [1, 2, 3, 4, 5, 6, 7, 8, 9, 10, 11, 12]) = Some (Inr p, st) \<and> length p = 33 \<and>
    dmr_bptc_196_96_decode (Some p)
      (Some \<lparr>bptc_raw = replicate 196 True, bptc_deinterleaved_bits = replicate 196 False\<rparr>)
      (Some (replicate 12 0)) = Some (Inr [1, 2, 3, 4, 5, 6, 7, 8, 9, 10, 11, 12], st')"
  by (rule bptc_196_96_roundtrip) (simp_all add: bptc_wf_def)


text \<open>
  Errors in a row are noticed: flipping one bit, or two different bits, of one of the
  nine data rows of an accepted burst gives a burst that is not accepted.
\<close>

theorem bptc_196_96_detects_row_errors:
  assumes "length p = 33" "length q = 33" "bptc_wf b" "length out = 12"
    and "dmr_bptc_196_96_decode (Some p) (Some b) (Some out) = Some (Inr data, st)"
    and "r < 9" "i < 15" "j < 15"
    and "bytes_bits q = (bytes_bits p)[bptc_pos (r * 15 + i) := \<not> bytes_bits p ! bptc_pos (r * 15 + i),
           bptc_pos (r * 15 + j) := \<not> bytes_bits p ! bptc_pos (r * 15 + j)]"
  shows "dmr_bptc_196_96_decode (Some q) (Some b) (Some out) \<noteq> Some (Inr data', st')"
proof -
  let ?D = "bptc_matrix p" and ?i = "r * 15 + i" and ?j = "r * 15 + j"
  let ?w = "bptc_row ?D r"
  have ij: "?i < 196" "?j < 196" using assms by auto
  have "bptc_matrix q = ?D[?i := \<not> ?D ! ?i, ?j := \<not> ?D ! ?j]"
    using assms(1,2,9) ij bptc_pos_less
    by (intro nth_equalityI) (auto simp: nth_bptc_matrix nth_list_update bptc_pos_inj)
  then have q: "bptc_row (bptc_matrix q) r = ?w[i := \<not> ?w ! i, j := \<not> ?w ! j]"
    using assms(6,7,8) by (intro nth_equalityI) (auto simp: bptc_row_def nth_list_update)
  have lw: "length ?w = length (ham_g hamming_15_11_3)" by (simp add: bptc_row_def hamming_tables)
  have ok: "dmr_hamming_15_11_3_decode w = Some True \<longleftrightarrow> syndrome (ham_g hamming_15_11_3) w = 0"
    if "length w = 15" for w
    using that hamming_accepts [OF ham_wf_15_11_3, of w] by (simp add: dmr_hamming_15_11_3_decode_def ham_dims)
  have "bptc_accepts ?D" using assms(1,3,4,5) bptc_decode_iff by blast
  then have "syndrome (ham_g hamming_15_11_3) ?w = 0"
    using assms(6) ok [of ?w] by (auto simp: bptc_accepts_def bptc_row_def)
  then have "syndrome (ham_g hamming_15_11_3) (?w[i := \<not> ?w ! i, j := \<not> ?w ! j]) \<noteq> 0"
    using ham15_rows.single_flip_detected [OF lw, of i] ham15_rows.double_flip_detected [OF lw, of i j]
      assms(7,8) lw by (cases "i = j") (auto simp: bptc_row_def)
  then have "\<not> bptc_accepts (bptc_matrix q)"
    using q ok [of "bptc_row (bptc_matrix q) r"] assms(6) by (auto simp: bptc_accepts_def bptc_row_def)
  then show ?thesis using assms(2,3,4) bptc_decode_iff by blast
qed

theorem bptc_196_96_detects_row_errors_witness:
  "dmr_bptc_196_96_decode (Some (bits_bytes ((replicate 264 False)[bptc_pos 17 := True, bptc_pos 20 := True])))
     (Some \<lparr>bptc_raw = replicate 196 True, bptc_deinterleaved_bits = replicate 196 False\<rparr>)
     (Some (replicate 12 7)) \<noteq> Some (Inr (replicate 12 0), None)"
proof -
  let ?b = "\<lparr>bptc_raw = replicate 196 True, bptc_deinterleaved_bits = replicate 196 False\<rparr>"
  let ?q = "bits_bytes ((replicate 264 False)[bptc_pos 17 := True, bptc_pos 20 := True])"
  have wf: "bptc_wf ?b" by (simp add: bptc_wf_def)
  then obtain st where st: "dmr_bptc_196_96_decode (Some (replicate 33 0)) (Some ?b) (Some (replicate 12 7)) =
      Some (Inr (replicate 12 0), st)"
    using bptc_zero_accepted [of ?b "replicate 12 7"] by auto
  have "bytes_bits ?q = (bytes_bits (replicate 33 0))[bptc_pos (1 * 15 + 2) := True, bptc_pos (1 * 15 + 5) := True]"
    by (simp add: bytes_bits_zero)
  then show ?thesis
    using bptc_196_96_detects_row_errors [OF _ _ wf _ st, of ?q 1 2 5] bptc_pos_less
    by (simp add: bytes_bits_zero)
qed

text \<open>
  The check is one-dimensional: of the column parities only column 1 is looked at, so a
  burst accepted by the decoder is still accepted, with the same data, after one bit of the
  parity rows 9 to 12 outside column 1 is replaced by any value.
\<close>

theorem bptc_196_96_ignores_column_parity:
  assumes "length p = 33" "length q = 33" "bptc_wf b" "length out = 12"
    and "dmr_bptc_196_96_decode (Some p) (Some b) (Some out) = Some (Inr data, st)"
    and "9 \<le> r" "r < 13" "c < 15" "c \<noteq> 1"
    and "bytes_bits q = (bytes_bits p)[bptc_pos (r * 15 + c) := v]"
  shows "\<exists>st'. dmr_bptc_196_96_decode (Some q) (Some b) (Some out) = Some (Inr data, st')"
proof -
  let ?k = "r * 15 + c"
  have k: "135 \<le> ?k" "?k < 196" "?k mod 15 \<noteq> 1" using assms(6-9) by auto
  have m: "bptc_matrix q = (bptc_matrix p)[?k := v]" using assms(1,2,10) k(2) by (intro bptc_matrix_flip)
  have "x * 15 + 1 \<noteq> ?k" for x
  proof
    assume "x * 15 + 1 = ?k"
    then have "1 mod 15 = ?k mod 15" using mod_mult_self3 [of x 15 1] by metis
    then show False using k(3) by simp
  qed
  then have "bptc_col (bptc_matrix q) 1 = bptc_col (bptc_matrix p) 1"
    unfolding m bptc_col_def by (intro map_cong refl nth_list_update_neq) metis
  moreover have "bptc_row (bptc_matrix q) n = bptc_row (bptc_matrix p) n" if "n < 9" for n
    using k that unfolding m by (auto simp: bptc_row_def)
  moreover have "bptc_data_bits (bptc_matrix q) = bptc_data_bits (bptc_matrix p)"
    using k(1) bptc_data_index unfolding m bptc_data_bits_nth
    by (intro map_cong refl nth_list_update_neq) force
  moreover have "bptc_accepts (bptc_matrix p)" "data = bits_bytes (bptc_data_bits (bptc_matrix p))"
    using assms(1,3,4,5) bptc_decode_iff by blast+
  ultimately show ?thesis
    using bptc_decode_iff [OF assms(2-4)] by (auto simp: bptc_accepts_def)
qed

theorem bptc_196_96_ignores_column_parity_witness:
  "\<exists>st'. dmr_bptc_196_96_decode (Some (bits_bytes ((replicate 264 False)[bptc_pos 137 := True])))
     (Some \<lparr>bptc_raw = replicate 196 True, bptc_deinterleaved_bits = replicate 196 False\<rparr>)
     (Some (replicate 12 7)) = Some (Inr (replicate 12 0), st')"
proof -
  let ?b = "\<lparr>bptc_raw = replicate 196 True, bptc_deinterleaved_bits = replicate 196 False\<rparr>"
  let ?q = "bits_bytes ((replicate 264 False)[bptc_pos 137 := True])"
  have wf: "bptc_wf ?b" by (simp add: bptc_wf_def)
  then obtain st where st: "dmr_bptc_196_96_decode (Some (replicate 33 0)) (Some ?b) (Some (replicate 12 7)) =
      Some (Inr (replicate 12 0), st)"
    using bptc_zero_accepted [of ?b "replicate 12 7"] by auto
  have "bytes_bits ?q = (bytes_bits (replicate 33 0))[bptc_pos 137 := True]"
    by (simp add: bytes_bits_zero)
  then show ?thesis
    using bptc_196_96_ignores_column_parity [OF _ _ wf _ st, of ?q 9 2 True] by simp
qed

end
