(* ===== verification/Dmr_Vbptc.thy ===== *)
theory Dmr_Vbptc
  imports Dmr_Hamming
begin

unbundle bit_operations_syntax

text \<open>
  \<open>src/dmr/fec/vbptc_16_11.c\<close>: the variable length BPTC of the embedded signalling: a matrix
  of \<open>rows\<close> rows of sixteen bits, filled column by column from the fragments of a superframe,
  whose rows but the last are Hamming(16,11,4) words and whose last row is a parity row.

  The static helpers are called with addresses only, so their \<open>NULL\<close> guards never fire and
  their arguments are plain lists.  \<open>dmr_vbptc_16_11_free\<close> only releases memory.
\<close>

section \<open>Definitions\<close>

record dmr_vbptc_16_11 =
  vb_matrix :: "bool list option"
  vb_row :: u8
  vb_col :: u8
  vb_rows :: u8

definition hamming_16_11_generator_matrix :: "bool list list" where
  "hamming_16_11_generator_matrix =
    [[True, False, False, True, True],
     [True, True, False, True, False],
     [True, True, True, True, True],
     [True, True, True, False, False],
     [False, True, True, True, False],
     [True, False, True, False, True],
     [False, True, False, True, True],
     [True, False, True, True, False],
     [True, True, False, False, True],
     [False, True, True, False, True],
     [False, False, True, True, True],
     [True, False, False, False, False],
     [False, True, False, False, False],
     [False, False, True, False, False],
     [False, False, False, True, False],
     [False, False, False, False, True]]"

definition dmr_vbptc_16_11_parity_bits :: "bool list \<Rightarrow> bool list" where
  "dmr_vbptc_16_11_parity_bits bits =
    (let x = (\<lambda>is. foldl (\<lambda>b i. bxor b (bits ! i)) False is)
     in [x [0, 1, 2, 3, 5, 7, 8], x [1, 2, 3, 4, 6, 8, 9], x [2, 3, 4, 5, 7, 9, 10],
         x [0, 1, 2, 4, 6, 7, 10], x [0, 2, 5, 6, 8, 9, 10]])"

text \<open>\<open>None\<close> is the position -1.\<close>

definition dmr_vbptc_16_11_error_position :: "bool list \<Rightarrow> nat option" where
  "dmr_vbptc_16_11_error_position error_vector =
     List.find (\<lambda>row. hamming_16_11_generator_matrix ! row = error_vector) [0..<16]"

text \<open>The verdict and the error vector, which is left holding the parity of the row.\<close>

definition dmr_vbptc_16_11_check_row :: "bool list \<Rightarrow> bool \<times> bool list" where
  "dmr_vbptc_16_11_check_row bits =
     (let error_vector = dmr_vbptc_16_11_parity_bits bits
      in (list_all (\<lambda>offset. \<not> bxor (error_vector ! offset) (bits ! (11 + offset))) [0..<5], error_vector))"

definition vbptc_repair_row :: "nat \<Rightarrow> bool list \<times> bool \<Rightarrow> bool list \<times> bool" where
  "vbptc_repair_row row = (\<lambda>(m, res).
     let (ok, error_vector) = dmr_vbptc_16_11_check_row (drop (row * 16) m)
     in if ok then (m, res)
        else case dmr_vbptc_16_11_error_position error_vector of
               None \<Rightarrow> (m, False)
             | Some error \<Rightarrow>
                 let m = m[row * 16 + error := \<not> m ! (row * 16 + error)]
                 in (m, if fst (dmr_vbptc_16_11_check_row (drop (row * 16) m)) then res else False))"

definition vbptc_col_parity :: "bool list \<Rightarrow> nat \<Rightarrow> nat \<Rightarrow> bool" where
  "vbptc_col_parity m n col = fold (\<lambda>row parity. bxor parity (m ! (row * 16 + col))) [0..<n] False"

definition dmr_vbptc_16_11_check_and_repair ::
  "dmr_vbptc_16_11 option \<Rightarrow> bool \<times> dmr_vbptc_16_11 option" where
  "dmr_vbptc_16_11_check_and_repair vbptc =
     (case vbptc of
        None \<Rightarrow> (False, None)
      | Some v \<Rightarrow>
          (case vb_matrix v of
             None \<Rightarrow> (False, Some v)
           | Some m \<Rightarrow>
               if vb_rows v < 2 then (False, Some v)
               else let n = unat (vb_rows v) - 1;
                        (m, res) = fold vbptc_repair_row [0..<n] (m, True);
                        v = v\<lparr>vb_matrix := Some m\<rparr>
                    in if list_all (\<lambda>col. vbptc_col_parity m n col = m ! (n * 16 + col)) [0..<16]
                       then (res, Some v) else (False, Some v)))"

text \<open>
  \<open>mem_ctx\<close> and \<open>mem_matrix\<close> say whether the two allocations succeed; the matrix starts with
  whatever the allocator returns.
\<close>

definition dmr_vbptc_16_11_new :: "bool \<Rightarrow> bool \<Rightarrow> bool list \<Rightarrow> u8 \<Rightarrow> failure + dmr_vbptc_16_11" where
  "dmr_vbptc_16_11_new mem_ctx mem_matrix uninit rows =
     (if \<not> mem_ctx then Inl Fail
      else if \<not> mem_matrix then Inl (Errno DMR_ENOMEM)
      else Inr \<lparr>vb_matrix = Some (take (unat rows * 16) uninit), vb_row = 0, vb_col = 0, vb_rows = rows\<rparr>)"

definition dmr_vbptc_16_11_wipe :: "dmr_vbptc_16_11 \<Rightarrow> dmr_vbptc_16_11" where
  "dmr_vbptc_16_11_wipe v =
     v\<lparr>vb_row := 0, vb_col := 0,
       vb_matrix := map_option (\<lambda>m. blit m 0 (replicate (unat (vb_rows v) * 16) False)) (vb_matrix v)\<rparr>"

definition dmr_vbptc_16_11_matrix_free :: "dmr_vbptc_16_11 \<Rightarrow> u64" where
  "dmr_vbptc_16_11_matrix_free v =
     of_int (uint (vb_rows v) * 16 - (uint (vb_col v) * uint (vb_rows v) + uint (vb_row v)))"

definition vbptc_add_bit :: "bool list \<Rightarrow> nat \<Rightarrow> dmr_vbptc_16_11 \<Rightarrow> dmr_vbptc_16_11 option" where
  "vbptc_add_bit bits i v =
     do { m \<leftarrow> vb_matrix v;
          b \<leftarrow> c_read bits i;
          m \<leftarrow> c_write m (unat (vb_col v) + unat (vb_row v) * 16) b;
          let v = v\<lparr>vb_matrix := Some m, vb_row := vb_row v + 1\<rparr>
          in Some (if vb_row v = vb_rows v then v\<lparr>vb_col := vb_col v + 1, vb_row := 0\<rparr> else v) }"

definition dmr_vbptc_16_11_add ::
  "dmr_vbptc_16_11 option \<Rightarrow> bool list option \<Rightarrow> u16 \<Rightarrow> (failure + dmr_vbptc_16_11) option" where
  "dmr_vbptc_16_11_add vbptc bits len =
     (case (vbptc, bits) of
        (Some v, Some bits) \<Rightarrow>
          if vb_matrix v = None then Some (Inl (Errno DMR_EINVAL))
          else let space = dmr_vbptc_16_11_matrix_free v
               in if space = 0 then Some (Inl Fail)
                  else let bitlen = of_nat (min (unat len) (unat space)) :: u8
                       in map_option Inr (foldo (vbptc_add_bit bits) [0..<unat bitlen] v)
      | _ \<Rightarrow> Some (Inl (Errno DMR_EINVAL)))"

text \<open>
  The two loops of \<open>get_fragment\<close>; after the inner \<open>break\<close> every further turn would break at
  once, so it is a turn that does nothing.
\<close>

definition vbptc_get_bit ::
  "bool list \<Rightarrow> nat \<Rightarrow> nat \<times> nat \<Rightarrow> bool list \<times> nat \<times> nat \<Rightarrow> (bool list \<times> nat \<times> nat) option" where
  "vbptc_get_bit m bitlen = (\<lambda>(col, row) (bits, pos, offset).
     if pos \<ge> bitlen then Some (bits, pos, offset)
     else if offset = 0 then
       do { b \<leftarrow> c_read m (row * 16 + col);
            bits \<leftarrow> c_write bits pos b;
            Some (bits, pos + 1, offset) }
     else Some (bits, pos, offset - 1))"

definition dmr_vbptc_16_11_get_fragment ::
  "dmr_vbptc_16_11 option \<Rightarrow> bool list option \<Rightarrow> u16 \<Rightarrow> u16 \<Rightarrow> (failure + bool list) option" where
  "dmr_vbptc_16_11_get_fragment vbptc bits offset len =
     (case (vbptc, bits) of
        (Some v, Some bits) \<Rightarrow>
          (case vb_matrix v of
             None \<Rightarrow> Some (Inl (Errno DMR_EINVAL))
           | Some m \<Rightarrow>
               let bitlen = min (unat (vb_rows v) * 16) (unat len)
               in map_option (\<lambda>(bits, _). Inr bits)
                    (foldo (vbptc_get_bit m bitlen)
                       (List.product [0..<16] [0..<unat (vb_rows v)]) (bits, 0, unat offset)))
      | _ \<Rightarrow> Some (Inl (Errno DMR_EINVAL)))"

definition vbptc_decode_bit ::
  "bool list \<Rightarrow> nat \<Rightarrow> nat \<times> nat \<Rightarrow> bool list \<Rightarrow> bool list option" where
  "vbptc_decode_bit m len = (\<lambda>(row, col) bits.
     if row * 11 + col \<ge> len then Some bits
     else do { b \<leftarrow> c_read m (row * 16 + col); c_write bits (row * 11 + col) b })"

definition dmr_vbptc_16_11_decode ::
  "dmr_vbptc_16_11 option \<Rightarrow> bool list option \<Rightarrow> u16 \<Rightarrow> (failure + bool list) option" where
  "dmr_vbptc_16_11_decode vbptc bits len =
     (case (vbptc, bits) of
        (Some v, Some bits) \<Rightarrow>
          if vb_rows v = 0 then Some (Inl (Errno DMR_EINVAL))
          else do { m \<leftarrow> (if vb_rows v = 1 then Some [] else vb_matrix v);
                    bits \<leftarrow> foldo (vbptc_decode_bit m (unat len))
                      (List.product [0..<unat (vb_rows v) - 1] [0..<11]) bits;
                    Some (Inr bits) }
      | _ \<Rightarrow> Some (Inl (Errno DMR_EINVAL)))"

definition vbptc_encode_bit :: "bool list \<Rightarrow> nat \<Rightarrow> dmr_vbptc_16_11 \<Rightarrow> dmr_vbptc_16_11 option" where
  "vbptc_encode_bit bits i v =
     do { m \<leftarrow> vb_matrix v;
          b \<leftarrow> c_read bits i;
          m \<leftarrow> c_write m (unat (vb_col v) + unat (vb_row v) * 16) b;
          let v = v\<lparr>vb_matrix := Some m, vb_col := vb_col v + 1\<rparr>
          in Some (if vb_col v = 11 then v\<lparr>vb_row := vb_row v + 1, vb_col := 0\<rparr> else v) }"

definition vbptc_encode_row :: "nat \<Rightarrow> bool list \<Rightarrow> bool list" where
  "vbptc_encode_row row m = blit m (row * 16 + 11) (dmr_vbptc_16_11_parity_bits (drop (row * 16) m))"

text \<open>\<open>parity = parity + matrix[...] % 2\<close> in a \<open>bool\<close>: a sum that stays \<open>true\<close> once it is.\<close>

definition vbptc_encode_col :: "nat \<Rightarrow> nat \<Rightarrow> bool list \<Rightarrow> bool list" where
  "vbptc_encode_col n col m =
     m[n * 16 + col := fold (\<lambda>row parity. parity \<or> m ! (row * 16 + col)) [0..<n] False]"

text \<open>
  The loop counter of the first loop is a \<open>uint8_t\<close>: above 255 bits the loop cannot end inside
  the matrix.
\<close>

definition dmr_vbptc_16_11_encode ::
  "dmr_vbptc_16_11 option \<Rightarrow> bool list option \<Rightarrow> u16 \<Rightarrow> (failure + dmr_vbptc_16_11) option" where
  "dmr_vbptc_16_11_encode vbptc bits len =
     (case (vbptc, bits) of
        (Some v, Some bits) \<Rightarrow>
          if len = 0 then Some (Inl (Errno DMR_EINVAL))
          else let v = dmr_vbptc_16_11_wipe v;
                   bitlen = min (unat len) (unat (dmr_vbptc_16_11_matrix_free v));
                   n = unat (vb_rows v) - 1
               in if bitlen > 255 \<or> vb_rows v = 0 then None
                  else do { v \<leftarrow> foldo (vbptc_encode_bit bits) [0..<bitlen] v;
                            m \<leftarrow> vb_matrix v;
                            let m = fold (vbptc_encode_col n) [0..<16] (fold vbptc_encode_row [0..<n] m)
                            in Some (Inr (v\<lparr>vb_matrix := Some m\<rparr>)) }
      | _ \<Rightarrow> Some (Inl (Errno DMR_EINVAL)))"

section \<open>The matrix as an append buffer\<close>

text \<open>
  The contract between the producer and the consumer of fragments: a buffer of fixed
  capacity to which bits are appended and from which any stretch can be read back.
\<close>

locale append_buffer =
  fixes inv :: "'b \<Rightarrow> bool"
    and contents :: "'b \<Rightarrow> bool list"
    and used :: "'b \<Rightarrow> nat"
    and append :: "'b \<Rightarrow> bool list \<Rightarrow> 'b option"
    and fetch :: "'b \<Rightarrow> nat \<Rightarrow> nat \<Rightarrow> bool list option"
  assumes used_le: "inv b \<Longrightarrow> used b \<le> length (contents b)"
    and append_ok: "inv b \<Longrightarrow> used b + length xs \<le> length (contents b) \<Longrightarrow> 0 < length xs \<Longrightarrow>
      \<exists>b'. append b xs = Some b' \<and> inv b' \<and> contents b' = blit (contents b) (used b) xs \<and>
        used b' = used b + length xs"
    and fetch_ok: "inv b \<Longrightarrow> off + n \<le> length (contents b) \<Longrightarrow>
      fetch b off n = Some (take n (drop off (contents b)))"
begin

text \<open>What is appended is what is read back, and older bits stay.\<close>

lemma fetch_append:
  assumes "inv b" "used b + length xs \<le> length (contents b)" "0 < length xs"
  shows "\<exists>b'. append b xs = Some b' \<and> inv b' \<and> fetch b' (used b) (length xs) = Some xs \<and>
    fetch b' 0 (used b) = fetch b 0 (used b)"
proof -
  from append_ok [OF assms] obtain b' where b': "append b xs = Some b'" "inv b'"
    "contents b' = blit (contents b) (used b) xs" by auto
  have l: "length (contents b') = length (contents b)" using b' assms by simp
  show ?thesis using b' l assms fetch_ok [of b' "used b" "length xs"] fetch_ok [of b' 0 "used b"]
      fetch_ok [of b 0 "used b"] by (simp add: blit_def)
qed

text \<open>Appending a list of fragments one after the other leaves their concatenation.\<close>

lemma fetch_appends:
  assumes "inv b" "used b + length (concat xss) \<le> length (contents b)" "\<forall>xs \<in> set xss. xs \<noteq> []"
  shows "\<exists>b'. foldo (\<lambda>xs b. append b xs) xss b = Some b' \<and> inv b' \<and>
    contents b' = blit (contents b) (used b) (concat xss) \<and> used b' = used b + length (concat xss)"
  using assms
proof (induction xss arbitrary: b)
  case Nil
  then show ?case by (simp add: blit_def)
next
  case (Cons xs xss)
  then obtain b1 where b1: "append b xs = Some b1" "inv b1" "contents b1 = blit (contents b) (used b) xs"
    "used b1 = used b + length xs" using append_ok [of b xs] by auto
  have "used b1 + length (concat xss) \<le> length (contents b1)" using b1 Cons.prems by simp
  from Cons.IH [OF b1(2) this] Cons.prems b1 show ?case by (auto simp: blit_def ac_simps)
qed

end

definition vb_stream :: "dmr_vbptc_16_11 \<Rightarrow> bool list" where
  "vb_stream v = (let n = unat (vb_rows v) in
     case vb_matrix v of None \<Rightarrow> [] | Some m \<Rightarrow> map (\<lambda>k. m ! (k mod n * 16 + k div n)) [0..<16 * n])"

definition vb_used :: "dmr_vbptc_16_11 \<Rightarrow> nat" where
  "vb_used v = unat (vb_col v) * unat (vb_rows v) + unat (vb_row v)"

definition vb_wf :: "dmr_vbptc_16_11 \<Rightarrow> bool" where
  "vb_wf v \<longleftrightarrow> (\<exists>m. vb_matrix v = Some m \<and> length m = 16 * unat (vb_rows v)) \<and>
     0 < vb_rows v \<and> vb_rows v < 16 \<and> vb_row v < vb_rows v \<and> vb_used v \<le> 16 * unat (vb_rows v)"

lemma row16_inj: "b < 16 \<Longrightarrow> d < 16 \<Longrightarrow> a * 16 + b = c * 16 + d \<longleftrightarrow> a = c \<and> b = (d::nat)"
proof
  assume *: "b < 16" "d < 16" "a * 16 + b = c * 16 + d"
  have "(a * 16 + b) div 16 = a" "(a * 16 + b) mod 16 = b" "(c * 16 + d) div 16 = c" "(c * 16 + d) mod 16 = d"
    using *(1,2) by simp_all
  then show "a = c \<and> b = d" using *(3) by metis
qed simp

lemma index11_inj:
  assumes "i div 11 * 16 + i mod 11 = j div 11 * 16 + j mod (11::nat)"
  shows "i = j"
proof -
  have "i mod 11 < 16" "j mod 11 < 16"
    using mod_less_divisor [of 11 i] mod_less_divisor [of 11 j] by linarith+
  with assms have "i div 11 = j div 11" "i mod 11 = j mod 11" by (simp_all add: row16_inj)
  then show ?thesis by (metis div_mod_decomp)
qed

lemma vb_index_inj:
  assumes "0 < n" "j < 16 * n" "k < 16 * n" "j mod n * 16 + j div n = k mod n * 16 + (k div n :: nat)"
  shows "j = k"
proof -
  have d: "j div n < 16" "k div n < 16" using assms(1-3) by (simp_all add: div_less_iff_less_mult)
  then show ?thesis using assms(4) row16_inj [OF d] by (metis div_mod_decomp)
qed

lemma vb_index_less: "0 < n \<Longrightarrow> k < 16 * n \<Longrightarrow> k mod n * 16 + k div n < 16 * (n::nat)"
proof -
  assume n: "0 < n" and k: "k < 16 * n"
  have "k div n < 16" "k mod n < n" using n k by (simp_all add: div_less_iff_less_mult)
  then show ?thesis by linarith
qed

lemma vb_used_divmod:
  assumes "vb_wf v"
  shows "vb_used v mod unat (vb_rows v) = unat (vb_row v)" "vb_used v div unat (vb_rows v) = unat (vb_col v)"
proof -
  have "unat (vb_row v) < unat (vb_rows v)" using assms by (simp add: vb_wf_def word_less_nat_alt)
  then show "vb_used v mod unat (vb_rows v) = unat (vb_row v)" "vb_used v div unat (vb_rows v) = unat (vb_col v)"
    by (simp_all add: vb_used_def)
qed

lemma unat_inc: "unat w + 1 < 2 ^ LENGTH('a) \<Longrightarrow> unat (w + 1) = unat w + 1" for w :: "'a::len word"
  by (simp add: unat_word_ariths)

lemma vbptc_add_bit_ok:
  assumes "vb_wf v" "vb_used v < 16 * unat (vb_rows v)" "i < length bits"
  shows "\<exists>v'. vbptc_add_bit bits i v = Some v' \<and> vb_wf v' \<and> vb_rows v' = vb_rows v \<and>
    vb_used v' = vb_used v + 1 \<and> vb_stream v' = (vb_stream v)[vb_used v := bits ! i]"
proof -
  let ?n = "unat (vb_rows v)"
  obtain m where m: "vb_matrix v = Some m" "length m = 16 * ?n" using assms(1) by (auto simp: vb_wf_def)
  have n: "0 < ?n" "?n < 16" "unat (vb_row v) < ?n"
    using assms(1) by (simp_all add: vb_wf_def word_less_nat_alt)
  have k: "unat (vb_col v) + unat (vb_row v) * 16 = vb_used v mod ?n * 16 + vb_used v div ?n"
    using vb_used_divmod [OF assms(1)] by simp
  then have kl: "unat (vb_col v) + unat (vb_row v) * 16 < length m"
    using vb_index_less [OF n(1) assms(2)] m(2) by simp
  let ?m = "m[unat (vb_col v) + unat (vb_row v) * 16 := bits ! i]"
  let ?v = "v\<lparr>vb_matrix := Some ?m, vb_row := vb_row v + 1\<rparr>"
  let ?v' = "if vb_row ?v = vb_rows ?v then ?v\<lparr>vb_col := vb_col v + 1, vb_row := 0\<rparr> else ?v"
  have eq: "vbptc_add_bit bits i v = Some ?v'"
    using m kl assms(3) by (simp add: vbptc_add_bit_def Let_def)
  have c: "unat (vb_col v) < 16" using vb_used_divmod(2) [OF assms(1)] assms(2) n(1)
    by (metis div_less_iff_less_mult)
  have r1: "unat (vb_row v + 1) = unat (vb_row v) + 1" "unat (vb_col v + 1) = unat (vb_col v) + 1"
    using n c by (simp_all add: unat_inc)
  have rows: "vb_rows ?v' = vb_rows v" by simp
  have used: "vb_used ?v' = vb_used v + 1"
  proof (cases "vb_row v + 1 = vb_rows v")
    case True
    then have "unat (vb_row v) + 1 = ?n" using r1 by metis
    then show ?thesis using True r1 by (simp add: vb_used_def)
  next
    case False
    then show ?thesis using r1 by (simp add: vb_used_def)
  qed
  have "vb_row ?v' < vb_rows ?v'"
  proof (cases "vb_row v + 1 = vb_rows v")
    case True
    then show ?thesis using n by (simp add: word_less_nat_alt)
  next
    case False
    then have "unat (vb_row v) + 1 \<noteq> ?n" using r1 by (metis word_unat_eq_iff)
    then show ?thesis using False n r1 by (simp add: word_less_nat_alt)
  qed
  then have wf: "vb_wf ?v'"
    using assms(1,2) m used rows by (auto simp: vb_wf_def simp del: less_eq_Suc_le)
  have "vb_stream ?v' = (vb_stream v)[vb_used v := bits ! i]"
  proof (rule nth_equalityI)
    fix j assume "j < length (vb_stream ?v')"
    then have j: "j < 16 * ?n" by (simp add: vb_stream_def Let_def split: if_splits)
    then show "vb_stream ?v' ! j = (vb_stream v)[vb_used v := bits ! i] ! j"
      using m kl k vb_index_inj [OF n(1) j assms(2)] assms(2)
      by (auto simp: vb_stream_def Let_def nth_list_update)
  qed (simp add: vb_stream_def Let_def m)
  with eq wf rows used show ?thesis by blast
qed

lemma length_vb_stream: "vb_wf v \<Longrightarrow> length (vb_stream v) = 16 * unat (vb_rows v)"
  by (auto simp: vb_wf_def vb_stream_def Let_def)

lemma vbptc_add_bits:
  assumes "vb_wf v" "n \<le> length bits" "vb_used v + n \<le> 16 * unat (vb_rows v)"
  shows "\<exists>v'. foldo (vbptc_add_bit bits) [0..<n] v = Some v' \<and> vb_wf v' \<and> vb_rows v' = vb_rows v \<and>
    vb_used v' = vb_used v + n \<and> vb_stream v' = blit (vb_stream v) (vb_used v) (take n bits)"
  using assms(2,3)
proof (induction n)
  case 0
  then show ?case using assms(1) by (simp add: blit_def)
next
  case (Suc n)
  then obtain v1 where v1: "foldo (vbptc_add_bit bits) [0..<n] v = Some v1" "vb_wf v1" "vb_rows v1 = vb_rows v"
    "vb_used v1 = vb_used v + n" "vb_stream v1 = blit (vb_stream v) (vb_used v) (take n bits)" by auto
  have "vb_used v1 < 16 * unat (vb_rows v1)" "n < length bits" using v1 Suc.prems by auto
  from vbptc_add_bit_ok [OF v1(2) this] obtain v2 where v2: "vbptc_add_bit bits n v1 = Some v2" "vb_wf v2"
    "vb_rows v2 = vb_rows v1" "vb_used v2 = vb_used v1 + 1"
    "vb_stream v2 = (vb_stream v1)[vb_used v1 := bits ! n]" by auto
  have "vb_stream v2 = blit (vb_stream v) (vb_used v) (take (Suc n) bits)"
    using v1 v2 Suc.prems length_vb_stream [OF assms(1)]
    by (intro nth_equalityI) (auto simp: nth_blit nth_list_update take_Suc_conv_app_nth nth_append)
  with v1 v2 show ?case by (simp add: foldo_append)
qed


lemma product_divmod:
  "List.product [0..<m] [0..<n] = map (\<lambda>k. (k div n, k mod n)) [0..<m * n]"
proof (rule nth_equalityI)
  fix i assume "i < length (List.product [0..<m] [0..<n])"
  then have i: "i < m * n" by simp
  then have "0 < n" by (cases n) auto
  then have "i div n < m" "i mod n < n" using i by (simp_all add: div_less_iff_less_mult)
  with i show "List.product [0..<m] [0..<n] ! i = map (\<lambda>k. (k div n, k mod n)) [0..<m * n] ! i"
    by (simp add: product_nth)
qed simp

lemma vbptc_get_bits:
  assumes "length m = 16 * r" "0 < r" "bitlen \<le> length bits"
    and st: "st = map (\<lambda>k. m ! (k mod r * 16 + k div r)) [0..<16 * r]"
  shows "n \<le> 16 * r \<Longrightarrow> \<exists>off'. foldo (vbptc_get_bit m bitlen) (map (\<lambda>k. (k div r, k mod r)) [0..<n]) (bits, 0, off) =
    Some (blit bits 0 (take (min bitlen (n - off)) (drop off st)), min bitlen (n - off), off') \<and>
    (0 < bitlen \<longrightarrow> off' = off - n)"
proof (induction n)
  case 0
  then show ?case by (simp add: blit_def)
next
  case (Suc n)
  then obtain off' where IH: "foldo (vbptc_get_bit m bitlen) (map (\<lambda>k. (k div r, k mod r)) [0..<n]) (bits, 0, off) =
    Some (blit bits 0 (take (min bitlen (n - off)) (drop off st)), min bitlen (n - off), off')"
    "0 < bitlen \<longrightarrow> off' = off - n" by auto
  let ?p = "min bitlen (n - off)"
  let ?b = "blit bits 0 (take ?p (drop off st))"
  have lst: "length st = 16 * r" by (simp add: st)
  have lp: "length (take ?p (drop off st)) = ?p" using lst Suc.prems by (simp add: min_def)
  then have lb: "length ?b = length bits" using assms(3) by simp
  show ?case
  proof (cases "?p \<ge> bitlen")
    case True
    then have "min bitlen (Suc n - off) = bitlen" "?p = bitlen" by (auto simp: min_def split: if_splits)
    with True IH show ?thesis by (auto simp: foldo_append vbptc_get_bit_def)
  next
    case False
    show ?thesis
    proof (cases "off \<le> n")
      case True
      then have o: "off' = 0" "?p = n - off" "min bitlen (Suc n - off) = Suc (n - off)" using IH(2) False by auto
      have rd: "c_read m (n mod r * 16 + n div r) = Some (st ! n)"
        using vb_index_less [of r n] assms(1,2) Suc.prems by (simp add: st)
      have wr: "c_write ?b ?p (st ! n) = Some (blit bits 0 (take (Suc (n - off)) (drop off st)))"
      proof -
        have tk: "take (Suc (n - off)) (drop off st) = take (n - off) (drop off st) @ [st ! n]"
          using True lst Suc.prems by (simp add: take_Suc_conv_app_nth)
        have "?b[?p := st ! n] = blit bits 0 (take (n - off) (drop off st) @ [st ! n])"
          using False assms(3) lp o(2)
          by (intro nth_equalityI) (auto simp: nth_blit nth_list_update nth_append less_Suc_eq)
        then show ?thesis using False assms(3) lb by (simp add: tk)
      qed
      have "vbptc_get_bit m bitlen (n div r, n mod r) (?b, ?p, 0) =
          Some (blit bits 0 (take (Suc (n - off)) (drop off st)), ?p + 1, 0)"
        using False rd wr by (simp add: vbptc_get_bit_def)
      then show ?thesis using IH o True by (simp add: foldo_append)
    next
      case False
      then have "off' = off - n" "?p = 0" "min bitlen (Suc n - off) = 0" "off' \<noteq> 0"
        using IH(2) \<open>\<not> bitlen \<le> ?p\<close> by auto
      then show ?thesis using IH \<open>\<not> bitlen \<le> ?p\<close> by (auto simp: foldo_append vbptc_get_bit_def)
    qed
  qed
qed

lemma vbptc_get_fragment_eq:
  assumes "vb_wf v" "unat off + unat len \<le> 16 * unat (vb_rows v)" "unat len \<le> length bits"
  shows "dmr_vbptc_16_11_get_fragment (Some v) (Some bits) off len =
    Some (Inr (blit bits 0 (take (unat len) (drop (unat off) (vb_stream v)))))"
proof -
  let ?r = "unat (vb_rows v)"
  obtain m where m: "vb_matrix v = Some m" "length m = 16 * ?r" using assms(1) by (auto simp: vb_wf_def)
  have r: "0 < ?r" using assms(1) by (simp add: vb_wf_def word_less_nat_alt)
  have b: "min (?r * 16) (unat len) = unat len" using assms(2) by simp
  have st: "vb_stream v = map (\<lambda>k. m ! (k mod ?r * 16 + k div ?r)) [0..<16 * ?r]"
    by (simp add: vb_stream_def m Let_def)
  have "min (unat len) (16 * ?r - unat off) = unat len" using assms(2) by simp
  with vbptc_get_bits [OF m(2) r assms(3) st, of "16 * ?r" "unat off"]
  show ?thesis
    by (auto simp: dmr_vbptc_16_11_get_fragment_def m b product_divmod)
qed

lemma matrix_free_eq:
  assumes "vb_wf v"
  shows "unat (dmr_vbptc_16_11_matrix_free v) = 16 * unat (vb_rows v) - vb_used v"
proof -
  have le: "vb_used v \<le> 16 * unat (vb_rows v)" and "unat (vb_rows v) < 256"
    using assms unat_u8_less by (auto simp: vb_wf_def)
  have "uint (vb_rows v) * 16 - (uint (vb_col v) * uint (vb_rows v) + uint (vb_row v)) =
      int (16 * unat (vb_rows v) - vb_used v)"
    using le by (simp add: vb_used_def of_nat_diff algebra_simps)
  then have "dmr_vbptc_16_11_matrix_free v = of_nat (16 * unat (vb_rows v) - vb_used v)"
    unfolding dmr_vbptc_16_11_matrix_free_def by (metis of_int_of_nat_eq)
  moreover have "16 * unat (vb_rows v) - vb_used v < 2 ^ 64" using \<open>unat (vb_rows v) < 256\<close> by simp
  ultimately show ?thesis by (simp add: unat_of_nat take_bit_nat_eq_self)
qed

lemma vbptc_add_eq:
  assumes "vb_wf v" "unat len \<le> length bits" "0 < unat len" "vb_used v + unat len \<le> 16 * unat (vb_rows v)"
  shows "\<exists>v'. dmr_vbptc_16_11_add (Some v) (Some bits) len = Some (Inr v') \<and> vb_wf v' \<and>
    vb_rows v' = vb_rows v \<and> vb_used v' = vb_used v + unat len \<and>
    vb_stream v' = blit (vb_stream v) (vb_used v) (take (unat len) bits)"
proof -
  have sp: "unat (dmr_vbptc_16_11_matrix_free v) = 16 * unat (vb_rows v) - vb_used v"
    using assms(1) by (rule matrix_free_eq)
  then have nz: "dmr_vbptc_16_11_matrix_free v \<noteq> 0" using assms(3,4) by auto
  have mn: "min (unat len) (unat (dmr_vbptc_16_11_matrix_free v)) = unat len" using sp assms(4) by simp
  have "unat (vb_rows v) < 16" using assms(1) by (simp add: vb_wf_def word_less_nat_alt)
  then have "unat len < 256" using assms(4) by linarith
  moreover have "n < 256 \<Longrightarrow> unat (of_nat n :: u8) = n" for n
    by (simp add: unat_of_nat take_bit_nat_eq_self)
  ultimately have "unat (of_nat (unat len) :: u8) = unat len" by metis
  then show ?thesis
    using vbptc_add_bits [OF assms(1,2,4)] assms(1) nz
    by (auto simp: dmr_vbptc_16_11_add_def Let_def mn vb_wf_def)
qed


definition vb_append :: "dmr_vbptc_16_11 \<Rightarrow> bool list \<Rightarrow> dmr_vbptc_16_11 option" where
  "vb_append v xs = (case dmr_vbptc_16_11_add (Some v) (Some xs) (of_nat (length xs)) of
     Some (Inr v') \<Rightarrow> Some v' | _ \<Rightarrow> None)"

definition vb_fetch :: "dmr_vbptc_16_11 \<Rightarrow> nat \<Rightarrow> nat \<Rightarrow> bool list option" where
  "vb_fetch v off n =
     (case dmr_vbptc_16_11_get_fragment (Some v) (Some (replicate n False)) (of_nat off) (of_nat n) of
        Some (Inr bits) \<Rightarrow> Some bits | _ \<Rightarrow> None)"

lemma unat_of_nat_u16: "n < 65536 \<Longrightarrow> unat (of_nat n :: u16) = n"
  by (simp add: unat_of_nat take_bit_nat_eq_self)

lemma vb_stream_bound: "vb_wf v \<Longrightarrow> length (vb_stream v) < 65536"
  using unat_u8_less [of "vb_rows v"] by (simp add: length_vb_stream)

interpretation vb: append_buffer vb_wf vb_stream vb_used vb_append vb_fetch
proof
  fix b :: dmr_vbptc_16_11 and xs :: "bool list" and off n :: nat
  assume wf: "vb_wf b"
  note len = length_vb_stream [OF wf] and bound = vb_stream_bound [OF wf]
  show "vb_used b \<le> length (vb_stream b)" using wf len by (auto simp: vb_wf_def)
  {
    assume *: "vb_used b + length xs \<le> length (vb_stream b)" "0 < length xs"
    then have u: "unat (of_nat (length xs) :: u16) = length xs" using bound by (intro unat_of_nat_u16) simp
    show "\<exists>b'. vb_append b xs = Some b' \<and> vb_wf b' \<and> vb_stream b' = blit (vb_stream b) (vb_used b) xs \<and>
      vb_used b' = vb_used b + length xs"
      using vbptc_add_eq [OF wf, of "of_nat (length xs)" xs] * u len by (auto simp: vb_append_def)
  }
  assume *: "off + n \<le> length (vb_stream b)"
  then have u: "unat (of_nat off :: u16) = off" "unat (of_nat n :: u16) = n"
    using bound by (simp_all add: unat_of_nat_u16)
  show "vb_fetch b off n = Some (take n (drop off (vb_stream b)))"
    using vbptc_get_fragment_eq [OF wf, of "of_nat off" "of_nat n" "replicate n False"] * u len
    by (simp add: vb_fetch_def blit_def)
qed

section \<open>Rows and columns\<close>

lemma length_parity_bits [simp, dmr_len]: "length (dmr_vbptc_16_11_parity_bits bits) = 5"
  by (simp add: dmr_vbptc_16_11_parity_bits_def Let_def)

lemma ham_b_16: "ham_b hamming_16_11_4 = 5"
  by (simp add: ham_b_def hamming_tables)

lemma fold_if_filter: "fold (\<lambda>y a. if P y then f y a else a) ys a = fold f (filter P ys) a"
  by (induction ys arbitrary: a) simp_all

lemma parity_bits_hamming: "dmr_vbptc_16_11_parity_bits bits = hamming_parity hamming_16_11_4 bits"
  unfolding dmr_vbptc_16_11_parity_bits_def hamming_parity_def fold_if_filter ham_b_16 ham_dims
  by (simp add: upt_rec Let_def hamming_16_11_4_def, simp add: eval_nat_numeral)

definition vb_row_bits :: "bool list \<Rightarrow> nat \<Rightarrow> bool list" where
  "vb_row_bits m row = take 16 (drop (row * 16) m)"

lemma check_row_iff:
  assumes "16 \<le> length bits"
  shows "fst (dmr_vbptc_16_11_check_row bits) \<longleftrightarrow> dmr_hamming_16_11_4_decode (take 16 bits) = Some True"
proof -
  have p: "hamming_parity hamming_16_11_4 bits = hamming_parity hamming_16_11_4 (take 16 bits)"
    by (rule hamming_parity_cong) (simp add: ham_dims)
  have "fst (dmr_vbptc_16_11_check_row bits) \<longleftrightarrow>
      (\<forall>i < 5. hamming_parity hamming_16_11_4 (take 16 bits) ! i = bits ! (11 + i))"
    by (auto simp: dmr_vbptc_16_11_check_row_def Let_def parity_bits_hamming p list_all_iff bxor_def)
  also have "\<dots> \<longleftrightarrow> drop 11 (take 16 bits) = hamming_parity hamming_16_11_4 (take 16 bits)"
    using assms by (auto simp: list_eq_iff_nth_eq ham_b_16)
  also have "\<dots> \<longleftrightarrow> dmr_hamming_16_11_4_decode (take 16 bits) = Some True"
    using hamming_parity_syndrome [OF ham_wf_16_11_4, of "take 16 bits"]
      hamming_accepts [OF ham_wf_16_11_4, of "take 16 bits"] assms
    by (simp add: ham_dims dmr_hamming_16_11_4_decode_def)
  finally show ?thesis .
qed

lemma error_position_less: "dmr_vbptc_16_11_error_position ev = Some e \<Longrightarrow> e < 16"
  by (auto simp: dmr_vbptc_16_11_error_position_def find_Some_iff)

lemma vbptc_repair_row_ok:
  assumes "length m = 16 * r" "row < r" "vbptc_repair_row row (m, res) = (m', res')"
  shows "length m' = length m" "res' \<Longrightarrow> res \<and> dmr_hamming_16_11_4_decode (vb_row_bits m' row) = Some True"
    and "j \<noteq> row \<Longrightarrow> vb_row_bits m' j = vb_row_bits m j"
proof -
  have len: "16 \<le> length m - row * 16" using assms(1,2) by simp
  have upd: "vb_row_bits (m[row * 16 + e := v]) j = vb_row_bits m j" if "e < 16" "j \<noteq> row" for e v
  proof -
    have "row * 16 + e \<noteq> j * 16 + i" if "i < 16" for i using that \<open>e < 16\<close> \<open>j \<noteq> row\<close> row16_inj by metis
    then show ?thesis by (intro nth_equalityI) (auto simp: vb_row_bits_def)
  qed
  show "length m' = length m" "res' \<Longrightarrow> res \<and> dmr_hamming_16_11_4_decode (vb_row_bits m' row) = Some True"
    "j \<noteq> row \<Longrightarrow> vb_row_bits m' j = vb_row_bits m j"
    using assms(3) check_row_iff len error_position_less upd
    by (auto simp: vbptc_repair_row_def vb_row_bits_def Let_def case_prod_unfold split: if_splits option.splits)
qed


lemma vbptc_repair_rows:
  assumes "length m = 16 * r"
  shows "n \<le> r \<Longrightarrow> fold vbptc_repair_row [0..<n] (m, True) = (m', res) \<Longrightarrow>
    length m' = length m \<and> (res \<longrightarrow> (\<forall>row < n. dmr_hamming_16_11_4_decode (vb_row_bits m' row) = Some True))"
proof (induction n arbitrary: m' res)
  case (Suc n)
  obtain m1 res1 where f: "fold vbptc_repair_row [0..<n] (m, True) = (m1, res1)" by fastforce
  then have s: "vbptc_repair_row n (m1, res1) = (m', res)" using Suc.prems by simp
  from Suc.IH [OF _ f] Suc.prems have IH: "length m1 = length m"
    "res1 \<longrightarrow> (\<forall>row < n. dmr_hamming_16_11_4_decode (vb_row_bits m1 row) = Some True)" by auto
  note ok = vbptc_repair_row_ok [OF _ _ s, of r]
  have "n < r" "length m1 = 16 * r" using Suc.prems IH(1) assms by auto
  with ok IH show ?case by (auto simp: less_Suc_eq)
qed (simp add: assms)

lemma vbptc_repair_rows_id:
  assumes "length m = 16 * r" "n \<le> r"
    and "\<forall>row < n. dmr_hamming_16_11_4_decode (vb_row_bits m row) = Some True"
  shows "fold vbptc_repair_row [0..<n] (m, True) = (m, True)"
  using assms(2,3)
proof (induction n)
  case (Suc n)
  have "fst (dmr_vbptc_16_11_check_row (drop (n * 16) m))"
    using Suc.prems assms(1) by (subst check_row_iff) (auto simp: vb_row_bits_def)
  then have "vbptc_repair_row n (m, True) = (m, True)"
    by (simp add: vbptc_repair_row_def Let_def case_prod_unfold)
  with Suc show ?case by simp
qed simp

section \<open>The encoder\<close>

lemma length_fold_encode [simp]:
  "length (fold (\<lambda>i m. m[i div 11 * 16 + i mod 11 := bits ! i]) is m) = length m"
  by (rule length_fold_update)

lemma vbptc_encode_bits:
  assumes "length m = 16 * unat (vb_rows v)" "vb_rows v < 16" "k \<le> length bits"
    and v: "v = v0\<lparr>vb_matrix := Some m, vb_row := 0, vb_col := 0\<rparr>"
  shows "k \<le> 11 * unat (vb_rows v) \<Longrightarrow> foldo (vbptc_encode_bit bits) [0..<k] v =
    Some (v\<lparr>vb_matrix := Some (fold (\<lambda>i m. m[i div 11 * 16 + i mod 11 := bits ! i]) [0..<k] m),
            vb_row := of_nat (k div 11), vb_col := of_nat (k mod 11)\<rparr>)"
  using assms(3)
proof (induction k)
  case 0
  then show ?case by (simp add: v)
next
  case (Suc k)
  let ?m = "fold (\<lambda>i m. m[i div 11 * 16 + i mod 11 := bits ! i]) [0..<k] m"
  have r: "unat (vb_rows v) < 16" using assms(2) by (simp add: word_less_nat_alt)
  have kd: "k div 11 < unat (vb_rows v)" using Suc.prems by (simp add: div_less_iff_less_mult)
  then have u: "unat (of_nat (k div 11) :: u8) = k div 11" "unat (of_nat (k mod 11) :: u8) = k mod 11"
    using r by (simp_all add: unat_of_nat take_bit_nat_eq_self)
  have "k mod 11 < 11" by simp
  then have ix: "k div 11 * 16 + k mod 11 < length m" using kd assms(1) by linarith
  have c11: "(of_nat (k mod 11) + 1 :: u8) = 11 \<longleftrightarrow> k mod 11 = 10"
  proof -
    have "(of_nat (k mod 11) + 1 :: u8) = 11 \<longleftrightarrow> unat (of_nat (k mod 11) + 1 :: u8) = 11"
      by (simp add: word_unat_eq_iff)
    then show ?thesis using u(2) by (simp add: unat_inc)
  qed
  have nx: "Suc k div 11 = (if k mod 11 = 10 then Suc (k div 11) else k div 11)"
    "Suc k mod 11 = (if k mod 11 = 10 then 0 else Suc (k mod 11))"
    by (simp_all add: div_Suc mod_Suc)
  show ?case
    using Suc ix u c11 nx by (simp add: foldo_append vbptc_encode_bit_def add.commute)
qed


lemma vbptc_encode_rows:
  assumes "length m = 16 * r"
  shows "n \<le> r \<Longrightarrow> length (fold vbptc_encode_row [0..<n] m) = length m \<and>
    (\<forall>row < r. vb_row_bits (fold vbptc_encode_row [0..<n] m) row =
       (if row < n then dmr_hamming_16_11_4_encode (vb_row_bits m row) else vb_row_bits m row))"
proof (induction n)
  case (Suc n)
  let ?m = "fold vbptc_encode_row [0..<n] m"
  from Suc have len: "length ?m = 16 * r" and IH: "\<forall>row < r. vb_row_bits ?m row =
     (if row < n then dmr_hamming_16_11_4_encode (vb_row_bits m row) else vb_row_bits m row)" and n: "n < r"
    using assms by auto
  let ?p = "dmr_vbptc_16_11_parity_bits (drop (n * 16) ?m)"
  have fits: "n * 16 + 11 + length ?p \<le> length ?m" using n len by simp
  have other: "vb_row_bits (vbptc_encode_row n ?m) row = vb_row_bits ?m row" if "row < r" "row \<noteq> n" for row
  proof (rule nth_equalityI)
    fix i assume "i < length (vb_row_bits (vbptc_encode_row n ?m) row)"
    then have i: "i < 16" by (simp add: vb_row_bits_def)
    have "\<not> (n * 16 + 11 \<le> row * 16 + i \<and> row * 16 + i < n * 16 + 11 + 5)" using that(2) i by linarith
    then have "vbptc_encode_row n ?m ! (row * 16 + i) = ?m ! (row * 16 + i)"
      unfolding vbptc_encode_row_def [of n ?m] using i that fits len by (subst nth_blit) auto
    then show "vb_row_bits (vbptc_encode_row n ?m) row ! i = vb_row_bits ?m row ! i"
      using i that fits len by (simp add: vb_row_bits_def vbptc_encode_row_def)
  qed (use fits in \<open>simp add: vb_row_bits_def vbptc_encode_row_def\<close>)
  have p: "?p = hamming_parity hamming_16_11_4 (vb_row_bits m n)"
  proof -
    have "take 11 (vb_row_bits ?m n) = take 11 (vb_row_bits m n)" using IH n by simp
    then show ?thesis
      unfolding parity_bits_hamming by (intro hamming_parity_cong) (simp add: ham_dims vb_row_bits_def)
  qed
  have "vb_row_bits (vbptc_encode_row n ?m) n = take 11 (vb_row_bits ?m n) @ ?p"
    using fits len n by (simp add: vb_row_bits_def vbptc_encode_row_def blit_def drop_take min_def)
  also have "vb_row_bits ?m n = vb_row_bits m n" using IH n by simp
  finally have "vb_row_bits (vbptc_encode_row n ?m) n = take 11 (vb_row_bits m n) @ ?p" .
  then have self: "vb_row_bits (vbptc_encode_row n ?m) n = dmr_hamming_16_11_4_encode (vb_row_bits m n)"
    using p n assms by (simp add: dmr_hamming_16_11_4_encode_def hamming_encode_eq [OF ham_wf_16_11_4] ham_dims vb_row_bits_def)
  have "length (vbptc_encode_row n ?m) = length m" using fits len assms by (simp add: vbptc_encode_row_def)
  with self other IH show ?case by (simp add: less_Suc_eq)
qed (simp add: assms)


lemma length_vbptc_encode_col [simp]: "length (vbptc_encode_col n col m) = length m"
  by (simp add: vbptc_encode_col_def)

lemma vbptc_encode_cols:
  assumes "length m = 16 * Suc n"
  shows "c \<le> 16 \<Longrightarrow> length (fold (vbptc_encode_col n) [0..<c] m) = length m \<and>
    (\<forall>k < 16 * n. fold (vbptc_encode_col n) [0..<c] m ! k = m ! k) \<and>
    (\<forall>col < c. fold (vbptc_encode_col n) [0..<c] m ! (n * 16 + col) = (\<exists>row < n. m ! (row * 16 + col)))"
proof (induction c)
  case (Suc c)
  let ?m = "fold (vbptc_encode_col n) [0..<c] m"
  have or: "fold (\<lambda>row parity. parity \<or> f row) [0..<n] False = (\<exists>row < n. f row)" for f n
    by (induction n) (auto simp: less_Suc_eq)
  have "(\<exists>row < n. ?m ! (row * 16 + c)) = (\<exists>row < n. m ! (row * 16 + c))"
    using Suc by (intro ex_cong1) (auto simp: less_Suc_eq_le)
  with Suc assms show ?case by (auto simp: vbptc_encode_col_def or less_Suc_eq nth_list_update)
qed simp


lemma ham16_nth: "length d = 16 \<Longrightarrow> c < 11 \<Longrightarrow> dmr_hamming_16_11_4_encode d ! c = d ! c"
  using arg_cong [OF ham16.data_encode [of d], of "\<lambda>w. w ! c"] by simp

lemma vb_row_nth: "length m = 16 * r \<Longrightarrow> row < r \<Longrightarrow> c < 16 \<Longrightarrow> vb_row_bits m row ! c = m ! (row * 16 + c)"
  by (simp add: vb_row_bits_def)

lemma index11_less: "i < 11 * (n::nat) \<Longrightarrow> i div 11 < n \<and> i div 11 * 16 + i mod 11 < 16 * n"
proof -
  assume "i < 11 * n"
  then have d: "i div 11 < n" by (simp add: div_less_iff_less_mult)
  moreover have "a < n \<Longrightarrow> b < 11 \<Longrightarrow> a * 16 + b < 16 * n" for a b :: nat by linarith
  ultimately show ?thesis by simp
qed

text \<open>What the encoder leaves in the matrix.\<close>

lemma vbptc_encode_eq:
  assumes "vb_wf v" "0 < len" "unat len \<le> length bits" "unat len \<le> 11 * (unat (vb_rows v) - 1)"
  shows "\<exists>v' m n. dmr_vbptc_16_11_encode (Some v) (Some bits) len = Some (Inr v') \<and>
    vb_matrix v' = Some m \<and> vb_rows v' = vb_rows v \<and> unat (vb_rows v) = Suc n \<and> length m = 16 * Suc n \<and>
    (\<forall>k < unat len. m ! (k div 11 * 16 + k mod 11) = bits ! k) \<and>
    (\<forall>row < n. dmr_hamming_16_11_4_decode (vb_row_bits m row) = Some True) \<and>
    (\<forall>col < 16. m ! (n * 16 + col) = (\<exists>row < n. m ! (row * 16 + col)))"
proof -
  define r where "r = unat (vb_rows v)"
  obtain n where n: "r = Suc n" and r16: "r < 16"
    using assms(1) by (cases r) (auto simp: r_def vb_wf_def word_less_nat_alt)
  obtain m0 where m0: "vb_matrix v = Some m0" "length m0 = 16 * r" using assms(1) by (auto simp: vb_wf_def r_def)
  let ?w = "dmr_vbptc_16_11_wipe v"
  have w: "?w = v\<lparr>vb_matrix := Some (replicate (16 * r) False), vb_row := 0, vb_col := 0\<rparr>"
    using m0 by (simp add: dmr_vbptc_16_11_wipe_def blit_def r_def mult.commute)
  have wf: "vb_wf ?w" using assms(1) m0 by (simp add: w vb_wf_def vb_used_def r_def word_less_nat_alt)
  have "unat (dmr_vbptc_16_11_matrix_free ?w) = 16 * r"
    using matrix_free_eq [OF wf] by (simp add: w vb_used_def r_def)
  then have bl: "min (unat len) (unat (dmr_vbptc_16_11_matrix_free ?w)) = unat len"
    using assms(4) n r_def by simp
  have len255: "unat len \<le> 255" using assms(4) r16 n r_def by simp
  let ?m1 = "fold (\<lambda>i m. m[i div 11 * 16 + i mod 11 := bits ! i]) [0..<unat len] (replicate (16 * r) False)"
  have "foldo (vbptc_encode_bit bits) [0..<unat len] ?w =
      Some (?w\<lparr>vb_matrix := Some ?m1, vb_row := of_nat (unat len div 11), vb_col := of_nat (unat len mod 11)\<rparr>)"
    using assms r16 n r_def
    by (intro vbptc_encode_bits [OF _ _ _ w]) (simp_all add: w word_less_nat_alt)
  then have enc: "dmr_vbptc_16_11_encode (Some v) (Some bits) len =
      Some (Inr (?w\<lparr>vb_matrix := Some (fold (vbptc_encode_col n) [0..<16] (fold vbptc_encode_row [0..<n] ?m1)),
        vb_row := of_nat (unat len div 11), vb_col := of_nat (unat len mod 11)\<rparr>))"
    using assms(2) bl len255 n r_def
    by (auto simp: dmr_vbptc_16_11_encode_def Let_def w)
  let ?m2 = "fold vbptc_encode_row [0..<n] ?m1"
  let ?m3 = "fold (vbptc_encode_col n) [0..<16] ?m2"
  have l1: "length ?m1 = 16 * r" by simp
  note rows = vbptc_encode_rows [OF l1, of n]
  have l2: "length ?m2 = 16 * Suc n" using rows n by simp
  note cols = vbptc_encode_cols [OF l2, of 16]
  have row3: "vb_row_bits ?m3 row = dmr_hamming_16_11_4_encode (vb_row_bits ?m1 row)" if "row < n" for row
  proof -
    have "vb_row_bits ?m3 row = vb_row_bits ?m2 row"
      using cols l2 that by (intro nth_equalityI) (auto simp: vb_row_bits_def)
    then show ?thesis using rows n that by simp
  qed
  have lr: "length (vb_row_bits ?m1 row) = 16" if "row < n" for row using l1 that n by (simp add: vb_row_bits_def)
  have data: "?m3 ! (k div 11 * 16 + k mod 11) = bits ! k" if k: "k < unat len" for k
  proof -
    have kn: "k div 11 < n" using k assms(4) n r_def by (simp add: div_less_iff_less_mult)
    have k11: "k mod 11 < 11" by simp
    have inj: "inj_on (\<lambda>i. i div 11 * 16 + i mod 11) (set [0..<unat len])"
      by (rule inj_onI) (rule index11_inj)
    have b1: "?m1 ! (k div 11 * 16 + k mod 11) = bits ! k"
    proof (rule nth_fold_update_in [OF inj])
      show "\<forall>i \<in> set [0..<unat len]. i div 11 * 16 + i mod 11 < length (replicate (16 * r) False)"
      proof
        fix i assume "i \<in> set [0..<unat len]"
        then show "i div 11 * 16 + i mod 11 < length (replicate (16 * r) False)"
          using index11_less [of i n] assms(4) n r_def by simp
      qed
    qed (use k in simp)
    have b2: "vb_row_bits ?m3 (k div 11) ! (k mod 11) = vb_row_bits ?m1 (k div 11) ! (k mod 11)"
      using row3 [OF kn] ham16_nth [OF lr [OF kn] k11] by simp
    have b3: "vb_row_bits x (k div 11) ! (k mod 11) = x ! (k div 11 * 16 + k mod 11)" if "length x = 16 * r" for x
      by (rule vb_row_nth [OF that]) (use kn k11 n in simp_all)
    have l3: "length ?m3 = 16 * r" using cols l2 n by simp
    show ?thesis unfolding b3 [OF l3, symmetric] b2 b3 [OF l1] b1 ..
  qed
  have "dmr_hamming_16_11_4_decode (vb_row_bits ?m3 row) = Some True" if "row < n" for row
    using row3 [OF that] ham16.check_encode [OF lr [OF that]] by simp
  moreover have "?m3 ! (n * 16 + col) = (\<exists>row < n. ?m3 ! (row * 16 + col))" if "col < 16" for col
    using cols that by auto
  moreover have "length ?m3 = 16 * Suc n" using cols l2 by simp
  ultimately show ?thesis using enc data n
    by (intro exI [of _ "?w\<lparr>vb_matrix := Some ?m3, vb_row := of_nat (unat len div 11),
        vb_col := of_nat (unat len mod 11)\<rparr>"] exI [of _ ?m3] exI [of _ n]) (simp add: w r_def)
qed


lemma vbptc_decode_bits:
  assumes "length m = 16 * Suc n" "len \<le> 11 * n" "len \<le> length out"
  shows "k \<le> n * 11 \<Longrightarrow> foldo (vbptc_decode_bit m len) (map (\<lambda>k. (k div 11, k mod 11)) [0..<k]) out =
    Some (blit out 0 (map (\<lambda>k. m ! (k div 11 * 16 + k mod 11)) [0..<min k len]))"
proof (induction k)
  case 0
  then show ?case by (simp add: blit_def)
next
  case (Suc k)
  let ?b = "blit out 0 (map (\<lambda>k. m ! (k div 11 * 16 + k mod 11)) [0..<min k len])"
  have k: "k div 11 * 11 + k mod 11 = k" by simp
  show ?case
  proof (cases "k < len")
    case True
    have "k div 11 * 16 + k mod 11 < length m" using index11_less [of k n] Suc.prems assms(1) by simp
    moreover have "?b[k := x] = blit out 0 (map (\<lambda>k. m ! (k div 11 * 16 + k mod 11)) [0..<k] @ [x])" for x
      using True assms(3) by (intro nth_equalityI) (auto simp: nth_blit nth_list_update nth_append)
    moreover have "k < length ?b" using True assms(3) by simp
    ultimately have "vbptc_decode_bit m len (k div 11, k mod 11) ?b =
        Some (blit out 0 (map (\<lambda>k. m ! (k div 11 * 16 + k mod 11)) [0..<Suc k]))"
      using True by (simp add: vbptc_decode_bit_def k)
    with True Suc show ?thesis by (simp add: foldo_append)
  next
    case False
    then show ?thesis using Suc by (simp add: foldo_append vbptc_decode_bit_def k min_def)
  qed
qed

lemma vbptc_decode_eq:
  assumes "vb_matrix v = Some m" "unat (vb_rows v) = Suc n" "length m = 16 * Suc n"
    and "unat len \<le> 11 * n" "unat len \<le> length out"
  shows "dmr_vbptc_16_11_decode (Some v) (Some out) len =
    Some (Inr (blit out 0 (map (\<lambda>k. m ! (k div 11 * 16 + k mod 11)) [0..<unat len])))"
proof -
  have "vb_rows v \<noteq> 0" using assms(2) by auto
  moreover have "foldo (vbptc_decode_bit x (unat len)) (List.product [0..<n] [0..<11]) out =
      Some (blit out 0 (map (\<lambda>k. m ! (k div 11 * 16 + k mod 11)) [0..<unat len]))"
    if "x = m \<or> n = 0" for x
    using vbptc_decode_bits [OF assms(3-5), of "n * 11"] assms(4) that
    by (auto simp: product_divmod min_def mult.commute split: if_splits)
  moreover have "vb_rows v = 1 \<Longrightarrow> n = 0" using assms(2) by simp
  ultimately show ?thesis
    using assms(1,2) by (auto simp: dmr_vbptc_16_11_decode_def simp del: product.simps upt_0)
qed

section \<open>Properties\<close>

text \<open>
  C4. Fragments survive the matrix: after the matrix is wiped, adding any sequence of
  nonempty fragments that fits and fetching a stretch returns that stretch of their
  concatenation.
\<close>

theorem vbptc_fragments_roundtrip:
  assumes "vb_wf v" "\<forall>xs \<in> set fragments. xs \<noteq> []"
    and "length (concat fragments) \<le> 16 * unat (vb_rows v)" "off + n \<le> length (concat fragments)"
  shows "\<exists>v'. foldo (\<lambda>xs v. vb_append v xs) fragments (dmr_vbptc_16_11_wipe v) = Some v' \<and>
    vb_wf v' \<and> vb_fetch v' off n = Some (take n (drop off (concat fragments)))"
proof -
  let ?w = "dmr_vbptc_16_11_wipe v"
  have w: "vb_wf ?w" "vb_used ?w = 0" "vb_rows ?w = vb_rows v"
    using assms(1) by (auto simp: vb_wf_def vb_used_def dmr_vbptc_16_11_wipe_def word_less_nat_alt)
  have len: "length (vb_stream ?w) = 16 * unat (vb_rows v)" using w by (simp add: length_vb_stream)
  from vb.fetch_appends [OF w(1), of fragments] assms w len obtain v' where
    v': "foldo (\<lambda>xs v. vb_append v xs) fragments ?w = Some v'" "vb_wf v'"
    "vb_stream v' = blit (vb_stream ?w) 0 (concat fragments)" by auto
  have "length (vb_stream v') = length (vb_stream ?w)" using v'(3) assms(3) len by simp
  then have "vb_fetch v' off n = Some (take n (drop off (vb_stream v')))"
    using vb.fetch_ok [OF v'(2), of off n] assms(3,4) len by simp
  with v' assms(4) show ?thesis by (simp add: blit_def)
qed

theorem vbptc_fragments_roundtrip_witness:
  "\<exists>v'. foldo (\<lambda>xs v. vb_append v xs) [[True, False], [True, True, False]]
      (dmr_vbptc_16_11_wipe \<lparr>vb_matrix = Some (replicate 32 True), vb_row = 1, vb_col = 3, vb_rows = 2\<rparr>) = Some v' \<and>
    vb_wf v' \<and> vb_fetch v' 1 3 = Some [False, True, True]"
  using vbptc_fragments_roundtrip
    [of "\<lparr>vb_matrix = Some (replicate 32 True), vb_row = 1, vb_col = 3, vb_rows = 2\<rparr>"
       "[[True, False], [True, True, False]]" 1 3]
  by (simp add: vb_wf_def vb_used_def)

text \<open>
  C5. Data round trip: encoding up to eleven bits per data row and decoding them returns
  the bits, and every data row of the encoded matrix is a Hamming(16,11,4) code word.
\<close>

theorem vbptc_encode_decode:
  assumes "vb_wf v" "0 < len" "unat len \<le> length bits" "unat len \<le> 11 * (unat (vb_rows v) - 1)"
    and "length out = unat len"
  shows "\<exists>v' m. dmr_vbptc_16_11_encode (Some v) (Some bits) len = Some (Inr v') \<and> vb_matrix v' = Some m \<and>
    (\<forall>row < unat (vb_rows v) - 1. dmr_hamming_16_11_4_decode (vb_row_bits m row) = Some True) \<and>
    dmr_vbptc_16_11_decode (Some v') (Some out) len = Some (Inr (take (unat len) bits))"
proof -
  from vbptc_encode_eq [OF assms(1-4)] obtain v' m n where
    e: "dmr_vbptc_16_11_encode (Some v) (Some bits) len = Some (Inr v')" "vb_matrix v' = Some m"
    "vb_rows v' = vb_rows v" "unat (vb_rows v) = Suc n" "length m = 16 * Suc n"
    "\<forall>k < unat len. m ! (k div 11 * 16 + k mod 11) = bits ! k"
    "\<forall>row < n. dmr_hamming_16_11_4_decode (vb_row_bits m row) = Some True" by metis
  have "map (\<lambda>k. m ! (k div 11 * 16 + k mod 11)) [0..<unat len] = take (unat len) bits"
    using e(6) assms(3) by (intro nth_equalityI) simp_all
  then have "dmr_vbptc_16_11_decode (Some v') (Some out) len = Some (Inr (take (unat len) bits))"
    using vbptc_decode_eq [of v' m n len out] e assms(3-5) by (simp add: blit_def)
  with e show ?thesis by auto
qed

theorem vbptc_encode_decode_witness:
  "\<exists>v' m. dmr_vbptc_16_11_encode
      (Some \<lparr>vb_matrix = Some (replicate 48 True), vb_row = 0, vb_col = 0, vb_rows = 3\<rparr>)
      (Some [True, False, True]) 3 = Some (Inr v') \<and> vb_matrix v' = Some m \<and>
    dmr_vbptc_16_11_decode (Some v') (Some (replicate 3 False)) 3 = Some (Inr [True, False, True])"
  using vbptc_encode_decode
    [of "\<lparr>vb_matrix = Some (replicate 48 True), vb_row = 0, vb_col = 0, vb_rows = 3\<rparr>" 3
       "[True, False, True]" "replicate 3 False"]
  by (auto simp: vb_wf_def vb_used_def)




text \<open>
  The encoder's parity row is not the parity the check computes: with three rows, data
  whose first bit is set in both data rows is encoded into a matrix that check-and-repair
  rejects, although no bit of it was changed.
\<close>

theorem vbptc_encode_fails_check:
  assumes "vb_wf v" "vb_rows v = 3" "11 < unat len" "unat len \<le> 22" "unat len \<le> length bits"
    and "bits ! 0" "bits ! 11"
  shows "\<exists>v'. dmr_vbptc_16_11_encode (Some v) (Some bits) len = Some (Inr v') \<and>
    \<not> fst (dmr_vbptc_16_11_check_and_repair (Some v'))"
proof -
  have "0 < len" using assms(3) by (simp add: word_less_nat_alt)
  then obtain v' m n where
    e: "dmr_vbptc_16_11_encode (Some v) (Some bits) len = Some (Inr v')" "vb_matrix v' = Some m"
    "vb_rows v' = vb_rows v" "unat (vb_rows v) = Suc n" "length m = 16 * Suc n"
    "\<forall>k < unat len. m ! (k div 11 * 16 + k mod 11) = bits ! k"
    "\<forall>row < n. dmr_hamming_16_11_4_decode (vb_row_bits m row) = Some True"
    "\<forall>col < 16. m ! (n * 16 + col) = (\<exists>row < n. m ! (row * 16 + col))"
    using vbptc_encode_eq [OF assms(1), of len bits] assms by auto
  have n: "n = 2" using e(4) assms(2) by simp
  have b: "m ! 0" "m ! 16" using e(6) [rule_format, of 0] e(6) [rule_format, of 11] assms by auto
  then have p: "m ! 32" using e(8) [rule_format, of 0] n by (auto intro: exI [of _ 0])
  have "fold vbptc_repair_row [0..<n] (m, True) = (m, True)"
    by (rule vbptc_repair_rows_id [OF e(5)]) (use e(7) in auto)
  moreover have "\<not> vbptc_col_parity m 2 0" using b by (simp add: vbptc_col_parity_def upt_rec)
  ultimately have "\<not> fst (dmr_vbptc_16_11_check_and_repair (Some v'))"
    using e(2,3) assms(2) n p
    by (auto simp: dmr_vbptc_16_11_check_and_repair_def Let_def list_all_iff intro!: exI [of _ 0])
  with e(1) show ?thesis by blast
qed

theorem vbptc_encode_fails_check_witness:
  "\<exists>v'. dmr_vbptc_16_11_encode
      (Some \<lparr>vb_matrix = Some (replicate 48 False), vb_row = 0, vb_col = 0, vb_rows = 3\<rparr>)
      (Some (replicate 22 True)) 22 = Some (Inr v') \<and>
    \<not> fst (dmr_vbptc_16_11_check_and_repair (Some v'))"
  by (rule vbptc_encode_fails_check) (simp_all add: vb_wf_def vb_used_def)
end
