(* ===== verification/Dmr_Sync.thy ===== *)
theory Dmr_Sync
  imports Dmr_Bits
begin

unbundle bit_operations_syntax

text \<open>
  \<open>src/dmr/payload/sync.c\<close>: the nine synchronisation patterns in the middle of a burst, their
  recognition with up to three bit errors and their insertion.
\<close>

section \<open>Definitions\<close>

datatype dmr_sync_pattern =
    DMR_SYNC_PATTERN_BS_SOURCED_VOICE
  | DMR_SYNC_PATTERN_BS_SOURCED_DATA
  | DMR_SYNC_PATTERN_MS_SOURCED_VOICE
  | DMR_SYNC_PATTERN_MS_SOURCED_DATA
  | DMR_SYNC_PATTERN_MS_SOURCED_RC
  | DMR_SYNC_PATTERN_DIRECT_VOICE_TS1
  | DMR_SYNC_PATTERN_DIRECT_DATA_TS1
  | DMR_SYNC_PATTERN_DIRECT_VOICE_TS2
  | DMR_SYNC_PATTERN_DIRECT_DATA_TS2
  | DMR_SYNC_PATTERN_UNKNOWN

definition dmr_sync_pattern_bs_sourced_voice :: "u8 list" where
  "dmr_sync_pattern_bs_sourced_voice = [0x07, 0x55, 0xfd, 0x7d, 0xf7, 0x5f, 0x70]"

definition dmr_sync_pattern_bs_sourced_data :: "u8 list" where
  "dmr_sync_pattern_bs_sourced_data = [0x0d, 0xff, 0x57, 0xd7, 0x5d, 0xf5, 0xd0]"

definition dmr_sync_pattern_ms_sourced_voice :: "u8 list" where
  "dmr_sync_pattern_ms_sourced_voice = [0x07, 0xf7, 0xd5, 0xdd, 0x57, 0xdf, 0xd0]"

definition dmr_sync_pattern_ms_sourced_data :: "u8 list" where
  "dmr_sync_pattern_ms_sourced_data = [0x0d, 0x5d, 0x7f, 0x77, 0xfd, 0x75, 0x70]"

definition dmr_sync_pattern_ms_sourced_rc :: "u8 list" where
  "dmr_sync_pattern_ms_sourced_rc = [0x07, 0x7d, 0x55, 0xf7, 0xdf, 0xd7, 0x70]"

definition dmr_sync_pattern_direct_voice_ts1 :: "u8 list" where
  "dmr_sync_pattern_direct_voice_ts1 = [0x05, 0xd5, 0x77, 0xf7, 0x75, 0x7f, 0xf0]"

definition dmr_sync_pattern_direct_data_ts1 :: "u8 list" where
  "dmr_sync_pattern_direct_data_ts1 = [0x0f, 0x7f, 0xdd, 0x5d, 0xdf, 0xd5, 0x50]"

definition dmr_sync_pattern_direct_voice_ts2 :: "u8 list" where
  "dmr_sync_pattern_direct_voice_ts2 = [0x07, 0xdf, 0xfd, 0x5f, 0x55, 0xd5, 0xf0]"

definition dmr_sync_pattern_direct_data_ts2 :: "u8 list" where
  "dmr_sync_pattern_direct_data_ts2 = [0x0d, 0x75, 0x57, 0xf5, 0xff, 0x7f, 0x50]"

definition dmr_sync_pattern_mask :: "u8 list" where
  "dmr_sync_pattern_mask = [0x0f, 0xff, 0xff, 0xff, 0xff, 0xff, 0xf0]"

definition dmr_sync_delta_max :: u8 where
  "dmr_sync_delta_max = 4"

definition dmr_sync_bits :: "u8 list" where
  "dmr_sync_bits =
    [0, 1, 1, 2, 1, 2, 2, 3, 1, 2, 2, 3, 2, 3, 3, 4,
     1, 2, 2, 3, 2, 3, 3, 4, 2, 3, 3, 4, 3, 4, 4, 5,
     1, 2, 2, 3, 2, 3, 3, 4, 2, 3, 3, 4, 3, 4, 4, 5,
     2, 3, 3, 4, 3, 4, 4, 5, 3, 4, 4, 5, 4, 5, 5, 6,
     1, 2, 2, 3, 2, 3, 3, 4, 2, 3, 3, 4, 3, 4, 4, 5,
     2, 3, 3, 4, 3, 4, 4, 5, 3, 4, 4, 5, 4, 5, 5, 6,
     2, 3, 3, 4, 3, 4, 4, 5, 3, 4, 4, 5, 4, 5, 5, 6,
     3, 4, 4, 5, 4, 5, 5, 6, 4, 5, 5, 6, 5, 6, 6, 7,
     1, 2, 2, 3, 2, 3, 3, 4, 2, 3, 3, 4, 3, 4, 4, 5,
     2, 3, 3, 4, 3, 4, 4, 5, 3, 4, 4, 5, 4, 5, 5, 6,
     2, 3, 3, 4, 3, 4, 4, 5, 3, 4, 4, 5, 4, 5, 5, 6,
     3, 4, 4, 5, 4, 5, 5, 6, 4, 5, 5, 6, 5, 6, 6, 7,
     2, 3, 3, 4, 3, 4, 4, 5, 3, 4, 4, 5, 4, 5, 5, 6,
     3, 4, 4, 5, 4, 5, 5, 6, 4, 5, 5, 6, 5, 6, 6, 7,
     3, 4, 4, 5, 4, 5, 5, 6, 4, 5, 5, 6, 5, 6, 6, 7,
     4, 5, 5, 6, 5, 6, 6, 7, 5, 6, 6, 7, 6, 7, 7, 8]"

definition dmr_bit_diff :: "u8 list \<Rightarrow> u8 list \<Rightarrow> u8" where
  "dmr_bit_diff a b =
     fold (\<lambda>i delta. let j = dmr_sync_pattern_mask ! i AND (a ! i XOR b ! i)
                     in delta + dmr_sync_bits ! unat j) [0..<7] 0"

definition dmr_sync_pattern_decode :: "u8 list \<Rightarrow> dmr_sync_pattern" where
  "dmr_sync_pattern_decode packet =
    (let buf = drop 13 packet in
     if dmr_bit_diff buf dmr_sync_pattern_bs_sourced_voice < dmr_sync_delta_max then DMR_SYNC_PATTERN_BS_SOURCED_VOICE
     else if dmr_bit_diff buf dmr_sync_pattern_bs_sourced_data < dmr_sync_delta_max then DMR_SYNC_PATTERN_BS_SOURCED_DATA
     else if dmr_bit_diff buf dmr_sync_pattern_ms_sourced_voice < dmr_sync_delta_max then DMR_SYNC_PATTERN_MS_SOURCED_VOICE
     else if dmr_bit_diff buf dmr_sync_pattern_ms_sourced_data < dmr_sync_delta_max then DMR_SYNC_PATTERN_MS_SOURCED_DATA
     else if dmr_bit_diff buf dmr_sync_pattern_ms_sourced_rc < dmr_sync_delta_max then DMR_SYNC_PATTERN_MS_SOURCED_RC
     else if dmr_bit_diff buf dmr_sync_pattern_direct_voice_ts1 < dmr_sync_delta_max then DMR_SYNC_PATTERN_DIRECT_VOICE_TS1
     else if dmr_bit_diff buf dmr_sync_pattern_direct_data_ts1 < dmr_sync_delta_max then DMR_SYNC_PATTERN_DIRECT_DATA_TS1
     else if dmr_bit_diff buf dmr_sync_pattern_direct_voice_ts2 < dmr_sync_delta_max then DMR_SYNC_PATTERN_DIRECT_VOICE_TS2
     else if dmr_bit_diff buf dmr_sync_pattern_direct_data_ts2 < dmr_sync_delta_max then DMR_SYNC_PATTERN_DIRECT_DATA_TS2
     else DMR_SYNC_PATTERN_UNKNOWN)"

fun dmr_sync_pattern_name :: "dmr_sync_pattern \<Rightarrow> string" where
  "dmr_sync_pattern_name DMR_SYNC_PATTERN_BS_SOURCED_VOICE = ''bs sourced voice''"
| "dmr_sync_pattern_name DMR_SYNC_PATTERN_BS_SOURCED_DATA = ''bs sourced data''"
| "dmr_sync_pattern_name DMR_SYNC_PATTERN_MS_SOURCED_VOICE = ''ms sourced voice''"
| "dmr_sync_pattern_name DMR_SYNC_PATTERN_MS_SOURCED_DATA = ''ms sourced data''"
| "dmr_sync_pattern_name DMR_SYNC_PATTERN_MS_SOURCED_RC = ''ms sourced rc''"
| "dmr_sync_pattern_name DMR_SYNC_PATTERN_DIRECT_VOICE_TS1 = ''direct voice ts1''"
| "dmr_sync_pattern_name DMR_SYNC_PATTERN_DIRECT_DATA_TS1 = ''direct data ts1''"
| "dmr_sync_pattern_name DMR_SYNC_PATTERN_DIRECT_VOICE_TS2 = ''direct voice ts2''"
| "dmr_sync_pattern_name DMR_SYNC_PATTERN_DIRECT_DATA_TS2 = ''direct data ts2''"
| "dmr_sync_pattern_name DMR_SYNC_PATTERN_UNKNOWN = ''unknown''"

text \<open>The switch of \<open>dmr_sync_pattern_encode\<close>; \<open>None\<close> is its default case.\<close>

fun sync_pattern_bytes :: "dmr_sync_pattern \<Rightarrow> u8 list option" where
  "sync_pattern_bytes DMR_SYNC_PATTERN_BS_SOURCED_VOICE = Some dmr_sync_pattern_bs_sourced_voice"
| "sync_pattern_bytes DMR_SYNC_PATTERN_BS_SOURCED_DATA = Some dmr_sync_pattern_bs_sourced_data"
| "sync_pattern_bytes DMR_SYNC_PATTERN_MS_SOURCED_VOICE = Some dmr_sync_pattern_ms_sourced_voice"
| "sync_pattern_bytes DMR_SYNC_PATTERN_MS_SOURCED_DATA = Some dmr_sync_pattern_ms_sourced_data"
| "sync_pattern_bytes DMR_SYNC_PATTERN_MS_SOURCED_RC = Some dmr_sync_pattern_ms_sourced_rc"
| "sync_pattern_bytes DMR_SYNC_PATTERN_DIRECT_VOICE_TS1 = Some dmr_sync_pattern_direct_voice_ts1"
| "sync_pattern_bytes DMR_SYNC_PATTERN_DIRECT_DATA_TS1 = Some dmr_sync_pattern_direct_data_ts1"
| "sync_pattern_bytes DMR_SYNC_PATTERN_DIRECT_VOICE_TS2 = Some dmr_sync_pattern_direct_voice_ts2"
| "sync_pattern_bytes DMR_SYNC_PATTERN_DIRECT_DATA_TS2 = Some dmr_sync_pattern_direct_data_ts2"
| "sync_pattern_bytes DMR_SYNC_PATTERN_UNKNOWN = None"

definition dmr_sync_pattern_encode :: "u8 list option \<Rightarrow> dmr_sync_pattern \<Rightarrow> failure + u8 list" where
  "dmr_sync_pattern_encode packet pattern =
     (case packet of
        None \<Rightarrow> Inl Fail
      | Some packet \<Rightarrow>
          (case sync_pattern_bytes pattern of
             None \<Rightarrow> Inl Fail
           | Some sync_pattern \<Rightarrow>
               Inr (fold (\<lambda>i packet. packet[i + 13 :=
                      (packet ! (i + 13) AND NOT (dmr_sync_pattern_mask ! i)) OR sync_pattern ! i])
                    [0..<7] packet)))"

section \<open>Masked distance\<close>

lemmas sync_patterns =
  dmr_sync_pattern_bs_sourced_voice_def dmr_sync_pattern_bs_sourced_data_def dmr_sync_pattern_ms_sourced_voice_def dmr_sync_pattern_ms_sourced_data_def dmr_sync_pattern_ms_sourced_rc_def
  dmr_sync_pattern_direct_voice_ts1_def dmr_sync_pattern_direct_data_ts1_def dmr_sync_pattern_direct_voice_ts2_def dmr_sync_pattern_direct_data_ts2_def

fun sync_bits_ok :: "u8 \<Rightarrow> u8 list \<Rightarrow> bool" where
  "sync_bits_ok i [] \<longleftrightarrow> True"
| "sync_bits_ok i (b # bs) \<longleftrightarrow> unat b = weight i \<and> sync_bits_ok (i + 1) bs"

lemma sync_bits_ok_table: "sync_bits_ok 0 dmr_sync_bits"
  by (simp add: dmr_sync_bits_def weight_def upt_rec)

lemma sync_bits_ok_nth: "sync_bits_ok i bs \<Longrightarrow> j < length bs \<Longrightarrow> unat (bs ! j) = weight (i + of_nat j)"
proof (induction bs arbitrary: i j)
  case (Cons b bs)
  show ?case
  proof (cases j)
    case (Suc m)
    with Cons.IH [of "i + 1" m] Cons.prems show ?thesis by (simp add: add.assoc)
  qed (use Cons.prems in simp)
qed simp

lemma dmr_sync_bits_weight: "unat (dmr_sync_bits ! unat w) = weight w" for w :: u8
  using sync_bits_ok_nth [OF sync_bits_ok_table, of "unat w"] unat_u8_less [of w]
  by (simp add: dmr_sync_bits_def)

lemma weight_u8: "weight w \<le> 8" for w :: u8
  by (simp add: weight_def order_trans [OF length_filter_le])

definition sync_dist :: "u8 list \<Rightarrow> u8 list \<Rightarrow> nat" where
  "sync_dist a b = (\<Sum>i < 7. weight (dmr_sync_pattern_mask ! i AND (a ! i XOR b ! i)))"

lemma dmr_bit_diff_dist: "unat (dmr_bit_diff a b) = sync_dist a b"
proof -
  let ?w = "\<lambda>i. dmr_sync_pattern_mask ! i AND (a ! i XOR b ! i)"
  have bound: "(\<Sum>i < n. weight (?w i)) \<le> 8 * n" for n
    using sum_bounded_above [of "{..<n}" "\<lambda>i. weight (?w i)" 8] weight_u8 by (simp add: mult.commute)
  have "n \<le> 7 \<Longrightarrow> unat (fold (\<lambda>i delta. delta + dmr_sync_bits ! unat (?w i)) [0..<n] 0) = (\<Sum>i < n. weight (?w i))" for n
  proof (induction n)
    case (Suc n)
    have "8 * Suc n < 256" using Suc.prems by simp
    with bound [of "Suc n"] have "(\<Sum>i < Suc n. weight (?w i)) < 256" by (rule le_less_trans)
    with Suc show ?case by (simp add: unat_word_ariths dmr_sync_bits_weight)
  qed simp
  from this [of 7] show ?thesis by (simp add: dmr_bit_diff_def sync_dist_def Let_def)
qed

lemma weight_xor_le: "weight (x XOR y) \<le> weight x + weight y" for x y :: "'a::len word"
proof -
  have "{i. bit (x XOR y) i} \<subseteq> {i. bit x i} \<union> {i. bit y i}" by (auto simp: bit_xor_iff)
  then have "weight (x XOR y) \<le> card ({i. bit x i} \<union> {i. bit y i})"
    unfolding weight_card by (intro card_mono) simp_all
  also have "\<dots> \<le> weight x + weight y" unfolding weight_card by (rule card_Un_le)
  finally show ?thesis .
qed

lemma sync_dist_triangle: "sync_dist a c \<le> sync_dist a b + sync_dist b c"
proof -
  have "weight (m AND (x XOR z)) \<le> weight (m AND (x XOR y)) + weight (m AND (y XOR z))" for m x y z :: u8
  proof -
    have "m AND (x XOR z) = (m AND (x XOR y)) XOR (m AND (y XOR z))"
      by (rule bit_word_eqI) (auto simp: bit_simps)
    then show ?thesis using weight_xor_le by metis
  qed
  then show ?thesis unfolding sync_dist_def by (simp add: sum_mono flip: sum.distrib)
qed

lemma sync_dist_commute: "sync_dist a b = sync_dist b a"
  unfolding sync_dist_def by (simp add: xor.commute)

text \<open>Any two of the nine patterns are at least ten masked bits apart.\<close>

fun sync_sum :: "u8 list \<Rightarrow> u8 list \<Rightarrow> u8 list \<Rightarrow> nat" where
  "sync_sum (m # ms) (x # xs) (y # ys) = weight (m AND (x XOR y)) + sync_sum ms xs ys"
| "sync_sum _ _ _ = 0"

fun sync_apart :: "u8 list \<Rightarrow> u8 list list \<Rightarrow> bool" where
  "sync_apart p [] \<longleftrightarrow> True"
| "sync_apart p (q # qs) \<longleftrightarrow> 10 \<le> sync_sum dmr_sync_pattern_mask p q \<and> sync_apart p qs"

fun sync_all_apart :: "u8 list list \<Rightarrow> bool" where
  "sync_all_apart [] \<longleftrightarrow> True"
| "sync_all_apart (p # ps) \<longleftrightarrow> sync_apart p ps \<and> sync_all_apart ps"

definition sync_all :: "u8 list list" where
  "sync_all = [dmr_sync_pattern_bs_sourced_voice, dmr_sync_pattern_bs_sourced_data,
     dmr_sync_pattern_ms_sourced_voice, dmr_sync_pattern_ms_sourced_data, dmr_sync_pattern_ms_sourced_rc,
     dmr_sync_pattern_direct_voice_ts1, dmr_sync_pattern_direct_data_ts1,
     dmr_sync_pattern_direct_voice_ts2, dmr_sync_pattern_direct_data_ts2]"

lemma sync_all_apart_sync_all: "sync_all_apart sync_all"
  by (simp add: sync_all_def dmr_sync_pattern_mask_def sync_patterns weight_def upt_rec)

lemma sync_sum_eq:
  "length ms = length xs \<Longrightarrow> length xs = length ys \<Longrightarrow>
   sync_sum ms xs ys = (\<Sum>i < length ms. weight (ms ! i AND (xs ! i XOR ys ! i)))"
  by (induction ms xs ys rule: list_induct3) (simp_all add: sum.lessThan_Suc_shift del: sum.lessThan_Suc)

lemma length_sync_all: "q \<in> set sync_all \<Longrightarrow> length q = 7"
  by (auto simp: sync_all_def sync_patterns)

lemma length_sync_mask [simp]: "length dmr_sync_pattern_mask = 7"
  by (simp add: dmr_sync_pattern_mask_def)

lemma sync_dist_sum: "length p = 7 \<Longrightarrow> length q = 7 \<Longrightarrow> sync_dist p q = sync_sum dmr_sync_pattern_mask p q"
  by (simp add: sync_dist_def sync_sum_eq)

lemma sync_apart_in: "sync_apart p qs \<Longrightarrow> q \<in> set qs \<Longrightarrow> 10 \<le> sync_sum dmr_sync_pattern_mask p q"
  by (induction qs) auto

lemma sync_all_apart_nth:
  "sync_all_apart ps \<Longrightarrow> i < j \<Longrightarrow> j < length ps \<Longrightarrow> 10 \<le> sync_sum dmr_sync_pattern_mask (ps ! i) (ps ! j)"
proof (induction ps arbitrary: i j)
  case (Cons p ps)
  obtain j' where j: "j = Suc j'" using Cons.prems by (cases j) auto
  show ?case
  proof (cases i)
    case 0
    with Cons.prems j show ?thesis by (auto intro: sync_apart_in)
  next
    case (Suc i')
    with Cons j show ?thesis by simp
  qed
qed simp

text \<open>The enumeration's value, the index of the pattern's bytes.\<close>

fun sync_index :: "dmr_sync_pattern \<Rightarrow> nat" where
  "sync_index DMR_SYNC_PATTERN_BS_SOURCED_VOICE = 0"
| "sync_index DMR_SYNC_PATTERN_BS_SOURCED_DATA = 1"
| "sync_index DMR_SYNC_PATTERN_MS_SOURCED_VOICE = 2"
| "sync_index DMR_SYNC_PATTERN_MS_SOURCED_DATA = 3"
| "sync_index DMR_SYNC_PATTERN_MS_SOURCED_RC = 4"
| "sync_index DMR_SYNC_PATTERN_DIRECT_VOICE_TS1 = 5"
| "sync_index DMR_SYNC_PATTERN_DIRECT_DATA_TS1 = 6"
| "sync_index DMR_SYNC_PATTERN_DIRECT_VOICE_TS2 = 7"
| "sync_index DMR_SYNC_PATTERN_DIRECT_DATA_TS2 = 8"
| "sync_index DMR_SYNC_PATTERN_UNKNOWN = 9"

lemma sync_index_inj: "sync_index P = sync_index Q \<Longrightarrow> P = Q"
  by (cases P; cases Q) simp_all

lemma sync_pattern_bytes_index:
  "sync_pattern_bytes P = Some p \<Longrightarrow> sync_index P < 9 \<and> p = sync_all ! sync_index P"
  by (cases P) (simp_all add: sync_all_def)

lemma length_sync_list: "length sync_all = 9"
  by (simp add: sync_all_def)

lemma sync_pattern_bytes_ex: "P \<noteq> DMR_SYNC_PATTERN_UNKNOWN \<Longrightarrow> \<exists>p. sync_pattern_bytes P = Some p"
  by (cases P) simp_all

lemma length_sync_pattern_bytes: "sync_pattern_bytes P = Some p \<Longrightarrow> length p = 7"
  by (cases P) (auto simp: sync_patterns)

lemma sync_patterns_apart:
  assumes "sync_pattern_bytes P = Some p" "sync_pattern_bytes Q = Some q" "P \<noteq> Q"
  shows "10 \<le> sync_dist p q"
proof -
  have apart: "10 \<le> sync_dist p q"
    if "sync_pattern_bytes P = Some p" "sync_pattern_bytes Q = Some q" "sync_index P < sync_index Q" for P Q p q
  proof -
    note length_sync_list
    with that show ?thesis
      using sync_all_apart_nth [OF sync_all_apart_sync_all, of "sync_index P" "sync_index Q"]
        sync_pattern_bytes_index [OF that(1)] sync_pattern_bytes_index [OF that(2)]
        length_sync_pattern_bytes [OF that(1)] length_sync_pattern_bytes [OF that(2)]
      by (simp add: sync_dist_sum)
  qed
  have "sync_index P \<noteq> sync_index Q" using assms(3) sync_index_inj by blast
  then show ?thesis
    using apart [OF assms(1,2)] apart [OF assms(2,1)] sync_dist_commute [of p q] by linarith
qed

lemma sync_near_unique:
  assumes "sync_pattern_bytes P = Some p" "sync_pattern_bytes Q = Some q"
    and "sync_dist b p < 4" "sync_dist b q < 4"
  shows "P = Q"
  using sync_patterns_apart [OF assms(1,2)] sync_dist_triangle [of p q b] sync_dist_commute [of p b] assms(3,4)
  by (cases "P = Q") linarith+

lemma bit_diff_less: "dmr_bit_diff a b < dmr_sync_delta_max \<longleftrightarrow> sync_dist a b < 4"
  by (simp add: word_less_nat_alt dmr_bit_diff_dist dmr_sync_delta_max_def)

lemma sync_decode_iff:
  assumes "sync_pattern_bytes P = Some p"
  shows "dmr_sync_pattern_decode packet = P \<longleftrightarrow> sync_dist (drop 13 packet) p < 4"
proof -
  have near: "dmr_sync_pattern_decode packet = Q \<Longrightarrow> sync_pattern_bytes Q = Some q \<Longrightarrow>
      sync_dist (drop 13 packet) q < 4" for Q q
    by (auto simp: dmr_sync_pattern_decode_def Let_def bit_diff_less split: if_splits)
  have some: "dmr_sync_pattern_decode packet \<noteq> DMR_SYNC_PATTERN_UNKNOWN" if "sync_dist (drop 13 packet) p < 4"
    using that assms by (cases P) (auto simp: dmr_sync_pattern_decode_def Let_def bit_diff_less)
  show ?thesis
    using near assms some sync_pattern_bytes_ex sync_near_unique by metis
qed

section \<open>Insertion\<close>

lemma sync_encode_nth:
  assumes "length packet = 33" "sync_pattern_bytes P = Some p"
  shows "\<exists>q. dmr_sync_pattern_encode (Some packet) P = Inr q \<and> length q = 33 \<and>
    (\<forall>i < 7. q ! (i + 13) = (packet ! (i + 13) AND NOT (dmr_sync_pattern_mask ! i)) OR p ! i) \<and>
    (\<forall>i < 33. i < 13 \<or> 20 \<le> i \<longrightarrow> q ! i = packet ! i)"
proof -
  let ?f = "\<lambda>i packet. packet[i + 13 := (packet ! (i + 13) AND NOT (dmr_sync_pattern_mask ! i)) OR p ! i]"
  have "n \<le> 7 \<Longrightarrow> length (fold ?f [0..<n] packet) = 33 \<and>
    (\<forall>i < 33. fold ?f [0..<n] packet ! i = (if 13 \<le> i \<and> i < 13 + n
       then (packet ! i AND NOT (dmr_sync_pattern_mask ! (i - 13))) OR p ! (i - 13) else packet ! i))" for n
  proof (induction n)
    case (Suc n)
    then show ?case by (auto simp: nth_list_update)
  qed (auto simp: assms)
  from this [of 7] assms(2) show ?thesis by (auto simp: dmr_sync_pattern_encode_def)
qed

text \<open>Every pattern lies inside the mask.\<close>

lemma sync_pattern_masked:
  assumes "sync_pattern_bytes P = Some p" "i < 7"
  shows "p ! i AND dmr_sync_pattern_mask ! i = p ! i"
proof -
  have "\<forall>q \<in> set sync_all. list_all2 (\<lambda>m b. b AND m = b) dmr_sync_pattern_mask q"
    by (simp add: sync_all_def sync_patterns dmr_sync_pattern_mask_def)
  moreover have "p \<in> set sync_all" using sync_pattern_bytes_index [OF assms(1)] length_sync_list by (metis nth_mem)
  ultimately show ?thesis using assms(2) by (auto simp: list_all2_conv_all_nth dmr_sync_pattern_mask_def)
qed

lemma sync_encode_recognised:
  assumes "length packet = 33" "P \<noteq> DMR_SYNC_PATTERN_UNKNOWN" "length err = 33"
    and "sync_dist (drop 13 err) (replicate 7 0) \<le> 3"
  shows "\<exists>q. dmr_sync_pattern_encode (Some packet) P = Inr q \<and> length q = 33 \<and>
    dmr_sync_pattern_decode (map2 (XOR) q err) = P \<and>
    (\<forall>i < 33. i < 13 \<or> 20 \<le> i \<longrightarrow> q ! i = packet ! i) \<and>
    (\<forall>i < 7. q ! (i + 13) AND NOT (dmr_sync_pattern_mask ! i) = packet ! (i + 13) AND NOT (dmr_sync_pattern_mask ! i))"
proof -
  obtain p where p: "sync_pattern_bytes P = Some p" using sync_pattern_bytes_ex [OF assms(2)] by auto
  from sync_encode_nth [OF assms(1) p] obtain q where q: "dmr_sync_pattern_encode (Some packet) P = Inr q"
    "length q = 33" "\<forall>i < 7. q ! (i + 13) = (packet ! (i + 13) AND NOT (dmr_sync_pattern_mask ! i)) OR p ! i"
    "\<forall>i < 33. i < 13 \<or> 20 \<le> i \<longrightarrow> q ! i = packet ! i" by auto
  have m: "m AND (((x AND NOT m) OR y) XOR z XOR y) = m AND (z XOR 0)" if "y AND m = y" for m x y z :: u8
  proof -
    have "bit y n \<Longrightarrow> bit m n" for n using that by (metis bit_and_iff)
    then show ?thesis by (intro bit_word_eqI) (auto simp: bit_simps)
  qed
  have "sync_dist (drop 13 (map2 (XOR) q err)) p = sync_dist (drop 13 err) (replicate 7 0)"
    unfolding sync_dist_def
  proof (rule sum.cong)
    fix i assume "i \<in> {..<7::nat}"
    then have i: "i < 7" by simp
    show "weight (dmr_sync_pattern_mask ! i AND (drop 13 (map2 (XOR) q err) ! i XOR p ! i)) =
        weight (dmr_sync_pattern_mask ! i AND (drop 13 err ! i XOR replicate 7 0 ! i))"
      using i q(2,3) assms(3) m [OF sync_pattern_masked [OF p i]] by (simp add: add.commute xor.assoc)
  qed simp
  then have "dmr_sync_pattern_decode (map2 (XOR) q err) = P"
    using sync_decode_iff [OF p] assms(4) by simp
  moreover have "q ! (i + 13) AND NOT (dmr_sync_pattern_mask ! i) = packet ! (i + 13) AND NOT (dmr_sync_pattern_mask ! i)"
    if "i < 7" for i
  proof -
    have "((x AND NOT m) OR y) AND NOT m = x AND NOT m" if "y AND m = y" for m x y :: u8
      using that by (intro bit_word_eqI) (metis bit_and_iff bit_or_iff bit_not_iff)
    from this [OF sync_pattern_masked [OF p that]] show ?thesis using q(3) that by simp
  qed
  ultimately show ?thesis using q by blast
qed

section \<open>Properties\<close>

text \<open>
  C24. Recognition is unambiguous: the decoder reports a pattern exactly when the masked
  48-bit field is within three bits of it, whatever the order in which the patterns are
  tried, and any two patterns are at least ten bits apart.
\<close>

theorem sync_decode_unambiguous:
  assumes "sync_pattern_bytes P = Some p"
  shows "(dmr_sync_pattern_decode packet = P \<longleftrightarrow> dmr_bit_diff (drop 13 packet) p < dmr_sync_delta_max) \<and>
    (\<forall>Q q. sync_pattern_bytes Q = Some q \<longrightarrow> P \<noteq> Q \<longrightarrow> 10 \<le> dmr_bit_diff p q)"
  using sync_decode_iff [OF assms, of packet] sync_patterns_apart [OF assms]
  by (simp add: bit_diff_less word_le_nat_alt dmr_bit_diff_dist)

theorem sync_decode_unambiguous_witness:
  "dmr_sync_pattern_decode (replicate 13 0 @ dmr_sync_pattern_ms_sourced_rc @ replicate 13 0) =
     DMR_SYNC_PATTERN_MS_SOURCED_RC"
  using sync_decode_unambiguous [of DMR_SYNC_PATTERN_MS_SOURCED_RC dmr_sync_pattern_ms_sourced_rc
      "replicate 13 0 @ dmr_sync_pattern_ms_sourced_rc @ replicate 13 0"]
  by (simp add: dmr_bit_diff_def dmr_sync_pattern_ms_sourced_rc_def dmr_sync_bits_def
      dmr_sync_pattern_mask_def dmr_sync_delta_max_def upt_rec)

text \<open>
  Insertion and recognition: inserting a pattern leaves all other bits of the packet
  alone, and the result is recognised as that pattern even after up to three errors in the
  48 synchronisation bits.
\<close>

theorem sync_encode_decode:
  assumes "length packet = 33" "P \<noteq> DMR_SYNC_PATTERN_UNKNOWN" "length err = 33"
    and "sync_dist (drop 13 err) (replicate 7 0) \<le> 3"
  shows "\<exists>q. dmr_sync_pattern_encode (Some packet) P = Inr q \<and> length q = 33 \<and>
    dmr_sync_pattern_decode (map2 (XOR) q err) = P \<and>
    (\<forall>i < 33. i < 13 \<or> 20 \<le> i \<longrightarrow> q ! i = packet ! i) \<and>
    (\<forall>i < 7. q ! (i + 13) AND NOT (dmr_sync_pattern_mask ! i) = packet ! (i + 13) AND NOT (dmr_sync_pattern_mask ! i))"
  using sync_encode_recognised [OF assms] .

theorem sync_encode_decode_witness:
  "\<exists>q. dmr_sync_pattern_encode (Some (replicate 33 0xff)) DMR_SYNC_PATTERN_DIRECT_DATA_TS1 = Inr q \<and>
    dmr_sync_pattern_decode (map2 (XOR) q ((replicate 33 0)[14 := 0x83])) = DMR_SYNC_PATTERN_DIRECT_DATA_TS1"
proof -
  have "sync_dist (drop 13 ((replicate 33 0)[14 := 0x83])) (replicate 7 0) = 3"
    by (simp add: sync_dist_def eval_nat_numeral, simp add: dmr_sync_pattern_mask_def weight_def upt_rec)
  then show ?thesis
    using sync_encode_decode [of "replicate 33 0xff" DMR_SYNC_PATTERN_DIRECT_DATA_TS1 "(replicate 33 0)[14 := 0x83]"]
    by auto
qed

end
