(* ===== verification/Dmr_Common.thy ===== *)
theory Dmr_Common
  imports Dmr_Prelude
begin

unbundle bit_operations_syntax

text \<open>
  The functions of the \<open>common\<close> submodule (libcommon) that dmrlib calls are not part of the
  repository: they are fields of a record that the model's definitions take as an argument,
  and what the callers rely on is the predicate \<open>common_ok\<close>.

  A pointer argument is the list of bytes from that pointer on, so a write through
  \<open>buf + off\<close> is a write into \<open>drop off buf\<close>.
\<close>

section \<open>The interface\<close>

record common_ops =
  byte_copy :: "u8 list \<Rightarrow> u8 list \<Rightarrow> nat \<Rightarrow> u8 list"
  byte_zero :: "u8 list \<Rightarrow> nat \<Rightarrow> u8 list"
  byte_cmp :: "u8 list \<Rightarrow> u8 list \<Rightarrow> nat \<Rightarrow> int"
  byte_equal :: "u8 list \<Rightarrow> u8 list \<Rightarrow> nat \<Rightarrow> bool"
  bhex :: "u8 list"
  uint24 :: "u8 list \<Rightarrow> u32"
  uint32 :: "u8 list \<Rightarrow> u32"
  sha256 :: "u8 list \<Rightarrow> u8 list"

definition common_ok :: "common_ops \<Rightarrow> bool" where
  "common_ok c \<longleftrightarrow>
     (\<forall>dst src n. n \<le> length dst \<longrightarrow> n \<le> length src \<longrightarrow> byte_copy c dst src n = take n src @ drop n dst) \<and>
     (\<forall>dst n. n \<le> length dst \<longrightarrow> byte_zero c dst n = replicate n 0 @ drop n dst) \<and>
     (\<forall>a b n. n \<le> length a \<longrightarrow> n \<le> length b \<longrightarrow> (byte_cmp c a b n = 0 \<longleftrightarrow> take n a = take n b)) \<and>
     (\<forall>a b n. n \<le> length a \<longrightarrow> n \<le> length b \<longrightarrow> (byte_equal c a b n \<longleftrightarrow> take n a = take n b)) \<and>
     length (bhex c) = 16 \<and>
     (\<forall>m. length (sha256 c m) = 32)"

text \<open>The byte order in which the integer readers agree with the writers of \<open>raw.c\<close>.\<close>

definition common_le :: "common_ops \<Rightarrow> bool" where
  "common_le c \<longleftrightarrow>
     (\<forall>b. 3 \<le> length b \<longrightarrow> uint24 c b = ucast (b ! 0) OR push_bit 8 (ucast (b ! 1)) OR push_bit 16 (ucast (b ! 2))) \<and>
     (\<forall>b. 4 \<le> length b \<longrightarrow> uint32 c b = ucast (b ! 0) OR push_bit 8 (ucast (b ! 1)) OR
        push_bit 16 (ucast (b ! 2)) OR push_bit 24 (ucast (b ! 3)))"

lemma common_okD:
  assumes "common_ok c"
  shows "n \<le> length dst \<Longrightarrow> n \<le> length src \<Longrightarrow> byte_copy c dst src n = take n src @ drop n dst"
    and "n \<le> length dst \<Longrightarrow> byte_zero c dst n = replicate n 0 @ drop n dst"
    and "n \<le> length a \<Longrightarrow> n \<le> length b \<Longrightarrow> byte_cmp c a b n = 0 \<longleftrightarrow> take n a = take n b"
    and "n \<le> length a \<Longrightarrow> n \<le> length b \<Longrightarrow> byte_equal c a b n \<longleftrightarrow> take n a = take n b"
    and "length (bhex c) = 16"
    and "length (sha256 c m) = 32"
  using assms unfolding common_ok_def by blast+

section \<open>An instance\<close>

text \<open>Concrete functions with this behaviour; the digest is a constant of the right length.\<close>

definition std_common :: common_ops where
  "std_common = \<lparr>
     byte_copy = (\<lambda>dst src n. take n src @ drop n dst),
     byte_zero = (\<lambda>dst n. replicate n 0 @ drop n dst),
     byte_cmp = (\<lambda>a b n. if take n a = take n b then 0 else 1),
     byte_equal = (\<lambda>a b n. take n a = take n b),
     bhex = [0x30, 0x31, 0x32, 0x33, 0x34, 0x35, 0x36, 0x37, 0x38, 0x39, 0x61, 0x62, 0x63, 0x64, 0x65, 0x66],
     uint24 = (\<lambda>b. ucast (b ! 0) OR push_bit 8 (ucast (b ! 1)) OR push_bit 16 (ucast (b ! 2))),
     uint32 = (\<lambda>b. ucast (b ! 0) OR push_bit 8 (ucast (b ! 1)) OR push_bit 16 (ucast (b ! 2)) OR
        push_bit 24 (ucast (b ! 3))),
     sha256 = (\<lambda>m. replicate 32 0)\<rparr>"

lemma common_ok_std: "common_ok std_common"
  by (simp add: common_ok_def std_common_def)

lemma common_le_std: "common_le std_common"
  by (simp add: common_le_def std_common_def)

end
