(* ===== verification/Dmr_Packet.thy ===== *)
theory Dmr_Packet
  imports Dmr_Golay Dmr_Sync Dmr_Bptc Dmr_Common
begin

unbundle bit_operations_syntax

text \<open>
  \<open>src/dmr/packet.c\<close> and \<open>include/dmr/packet.h\<close>: the parsed packet, the slot type field, the
  classification of a packet by its synchronisation pattern, and the names of the
  enumerations.  The C enumerations are integers that also take values without a name (a
  decoded slot type), so they are words with named constants.  The two dump functions only
  print.
\<close>

section \<open>Definitions\<close>

type_synonym dmr_ts = u32
type_synonym dmr_flco = u32
type_synonym dmr_fid = u32
type_synonym dmr_data_type = u32
type_synonym dmr_id = u32
type_synonym dmr_color_code = u8

abbreviation (input) DMR_TS1 :: dmr_ts where "DMR_TS1 \<equiv> 0"
abbreviation (input) DMR_TS2 :: dmr_ts where "DMR_TS2 \<equiv> 1"
abbreviation (input) DMR_TS_INVALID :: dmr_ts where "DMR_TS_INVALID \<equiv> 2"

abbreviation (input) DMR_FLCO_GROUP :: dmr_flco where "DMR_FLCO_GROUP \<equiv> 0"
abbreviation (input) DMR_FLCO_PRIVATE :: dmr_flco where "DMR_FLCO_PRIVATE \<equiv> 1"
abbreviation (input) DMR_FLCO_INVALID :: dmr_flco where "DMR_FLCO_INVALID \<equiv> 2"

abbreviation (input) DMR_DATA_TYPE_VOICE_PI :: dmr_data_type where "DMR_DATA_TYPE_VOICE_PI \<equiv> 0"
abbreviation (input) DMR_DATA_TYPE_VOICE_LC :: dmr_data_type where "DMR_DATA_TYPE_VOICE_LC \<equiv> 1"
abbreviation (input) DMR_DATA_TYPE_TERMINATOR_WITH_LC :: dmr_data_type where "DMR_DATA_TYPE_TERMINATOR_WITH_LC \<equiv> 2"
abbreviation (input) DMR_DATA_TYPE_CSBK :: dmr_data_type where "DMR_DATA_TYPE_CSBK \<equiv> 3"
abbreviation (input) DMR_DATA_TYPE_MBC_HEADER :: dmr_data_type where "DMR_DATA_TYPE_MBC_HEADER \<equiv> 4"
abbreviation (input) DMR_DATA_TYPE_MBC_CONTINUATION :: dmr_data_type where "DMR_DATA_TYPE_MBC_CONTINUATION \<equiv> 5"
abbreviation (input) DMR_DATA_TYPE_DATA_HEADER :: dmr_data_type where "DMR_DATA_TYPE_DATA_HEADER \<equiv> 6"
abbreviation (input) DMR_DATA_TYPE_RATE12_DATA :: dmr_data_type where "DMR_DATA_TYPE_RATE12_DATA \<equiv> 7"
abbreviation (input) DMR_DATA_TYPE_RATE34_DATA :: dmr_data_type where "DMR_DATA_TYPE_RATE34_DATA \<equiv> 8"
abbreviation (input) DMR_DATA_TYPE_IDLE :: dmr_data_type where "DMR_DATA_TYPE_IDLE \<equiv> 9"
abbreviation (input) DMR_DATA_TYPE_INVALID :: dmr_data_type where "DMR_DATA_TYPE_INVALID \<equiv> 10"
abbreviation (input) DMR_DATA_TYPE_SYNC_VOICE :: dmr_data_type where "DMR_DATA_TYPE_SYNC_VOICE \<equiv> 0x20"
abbreviation (input) DMR_DATA_TYPE_VOICE_SYNC :: dmr_data_type where "DMR_DATA_TYPE_VOICE_SYNC \<equiv> 0xf0"
abbreviation (input) DMR_DATA_TYPE_VOICE :: dmr_data_type where "DMR_DATA_TYPE_VOICE \<equiv> 0xf1"

record dmr_parsed_packet =
  pp_packet :: "u8 list"
  pp_ts :: dmr_ts
  pp_flco :: dmr_flco
  pp_src_id :: dmr_id
  pp_dst_id :: dmr_id
  pp_repeater_id :: dmr_id
  pp_data_type :: dmr_data_type
  pp_color_code :: dmr_color_code
  pp_sequence :: u8
  pp_stream_id :: u32
  pp_voice_frame :: u8
  pp_parsed :: bool

text \<open>\<open>talloc_zero\<close> of a parsed packet.\<close>

definition zero_parsed_packet :: dmr_parsed_packet where
  "zero_parsed_packet = \<lparr>pp_packet = replicate DMR_PACKET_LEN 0, pp_ts = 0, pp_flco = 0, pp_src_id = 0,
     pp_dst_id = 0, pp_repeater_id = 0, pp_data_type = 0, pp_color_code = 0, pp_sequence = 0,
     pp_stream_id = 0, pp_voice_frame = 0, pp_parsed = False\<rparr>"

definition flco_name :: "string list" where
  "flco_name = [''group'', ''unit to unit'', ''invalid'']"

definition fid_name :: "(dmr_fid \<times> string) list" where
  "fid_name =
    [(0x00, ''ETSI''),
     (0x01, ''RESERVED''),
     (0x02, ''RESERVED''),
     (0x03, ''RESERVED''),
     (0x04, ''Flyde Micro Ltd.''),
     (0x05, ''PROD-EL SPA''),
     (0x06, ''Trident Datacom DBA Trident Micro Systems''),
     (0x07, ''RADIODATA GmbH''),
     (0x08, ''HYT science tech''),
     (0x09, ''ASELSAN Elektronik Sanayi ve Ticaret A.S.''),
     (0x0a, ''Kirisun Communications Co. Ltd''),
     (0x0b, ''DMR Association Ltd.''),
     (0x10, ''Motorola Ltd.''),
     (0x13, ''EMC S.p.A. (Electronic Marketing Company)''),
     (0x1c, ''EMC S.p.A. (Electronic Marketing Company)''),
     (0x20, ''JVCKENWOOD Corporation''),
     (0x33, ''Radio Activity Srl''),
     (0x3c, ''Radio Activity Srl''),
     (0x58, ''Tait Electronics Ltd''),
     (0x68, ''HYT science tech''),
     (0x77, ''Vertex Standard'')]"

definition ts_name :: "string list" where
  "ts_name = [''TS1'', ''TS2'', ''invalid'']"

definition dmr_fid_name :: "dmr_fid \<Rightarrow> string option" where
  "dmr_fid_name fid = map_of fid_name fid"

definition dmr_flco_name :: "dmr_flco \<Rightarrow> string" where
  "dmr_flco_name flco = flco_name ! unat (min flco DMR_FLCO_INVALID)"

definition dmr_ts_name :: "dmr_ts \<Rightarrow> string" where
  "dmr_ts_name ts = ts_name ! unat (min ts DMR_TS_INVALID)"

definition dmr_data_type_name :: "dmr_data_type \<Rightarrow> string" where
  "dmr_data_type_name data_type =
    (if data_type = DMR_DATA_TYPE_VOICE_PI then ''privacy indicator''
     else if data_type = DMR_DATA_TYPE_VOICE_LC then ''voice lc''
     else if data_type = DMR_DATA_TYPE_TERMINATOR_WITH_LC then ''terminator with lc''
     else if data_type = DMR_DATA_TYPE_CSBK then ''csbk''
     else if data_type = DMR_DATA_TYPE_MBC_HEADER then ''multi block control''
     else if data_type = DMR_DATA_TYPE_MBC_CONTINUATION then ''multi block control continuation''
     else if data_type = DMR_DATA_TYPE_DATA_HEADER then ''data''
     else if data_type = DMR_DATA_TYPE_RATE12_DATA then ''rate 1/2 data''
     else if data_type = DMR_DATA_TYPE_RATE34_DATA then ''rate 3/4 data''
     else if data_type = DMR_DATA_TYPE_IDLE then ''idle''
     else if data_type = DMR_DATA_TYPE_VOICE then ''voice''
     else if data_type = DMR_DATA_TYPE_VOICE_SYNC then ''voice sync''
     else ''invalid'')"

definition dmr_data_type_name_short :: "dmr_data_type \<Rightarrow> string" where
  "dmr_data_type_name_short data_type =
    (if data_type = DMR_DATA_TYPE_VOICE_PI then ''voice pi''
     else if data_type = DMR_DATA_TYPE_VOICE_LC then ''voice lc''
     else if data_type = DMR_DATA_TYPE_TERMINATOR_WITH_LC then ''term lc''
     else if data_type = DMR_DATA_TYPE_CSBK then ''csbk''
     else if data_type = DMR_DATA_TYPE_MBC_HEADER then ''mbc''
     else if data_type = DMR_DATA_TYPE_MBC_CONTINUATION then ''mbcc''
     else if data_type = DMR_DATA_TYPE_DATA_HEADER then ''data''
     else if data_type = DMR_DATA_TYPE_RATE12_DATA then ''r 1/2''
     else if data_type = DMR_DATA_TYPE_RATE34_DATA then ''r 3/4''
     else if data_type = DMR_DATA_TYPE_IDLE then ''idle''
     else if data_type = DMR_DATA_TYPE_VOICE then ''voice''
     else if data_type = DMR_DATA_TYPE_VOICE_SYNC then ''vc sync''
     else ''invalid'')"

definition dmr_payload_bits :: "u8 list option \<Rightarrow> bool list option \<Rightarrow> (failure + bool list) option" where
  "dmr_payload_bits packet bits =
     (case (packet, bits) of
        (Some packet, Some bits) \<Rightarrow>
          do { data \<leftarrow> dmr_bytes_to_bits packet DMR_PACKET_LEN (replicate DMR_PACKET_BITS False) DMR_PACKET_BITS;
               Some (Inr (blit (blit bits 0 (take 98 data)) 98 (take 98 (drop 166 data)))) }
      | _ \<Rightarrow> Some (Inl (Errno DMR_EINVAL)))"

text \<open>The three bytes \<open>dmr_slot_type_decode\<close> collects from the packet.\<close>

definition slot_type_bytes :: "u8 list \<Rightarrow> u8 list" where
  "slot_type_bytes packet =
     [(push_bit 2 (packet ! 12) AND 0xfc) OR (drop_bit 6 (packet ! 13) AND 0x03),
      (push_bit 2 (packet ! 13) AND 0xc0) OR (push_bit 2 (packet ! 19) AND 0xf0) OR
        (drop_bit 6 (packet ! 20) AND 0x03),
      push_bit 2 (packet ! 20) AND 0xf0]"

text \<open>The values written through the two result pointers, each of which may also be \<open>NULL\<close>.\<close>

definition dmr_slot_type_decode ::
  "u8 list option \<Rightarrow> (failure + dmr_color_code \<times> dmr_data_type) option" where
  "dmr_slot_type_decode packet =
     (case packet of
        None \<Rightarrow> Some (Inl (Errno DMR_EINVAL))
      | Some packet \<Rightarrow>
          do { code \<leftarrow> dmr_golay_20_8_decode (slot_type_bytes packet);
               Some (Inr (drop_bit 4 (code AND 0xf0), ucast (code AND 0x0f))) })"

definition dmr_slot_type_encode ::
  "u8 list option \<Rightarrow> dmr_color_code \<Rightarrow> dmr_data_type \<Rightarrow> failure + u8 list" where
  "dmr_slot_type_encode packet color_code data_type =
     (case packet of
        None \<Rightarrow> Inl (Errno DMR_EINVAL)
      | Some packet \<Rightarrow>
          if data_type \<ge> DMR_DATA_TYPE_INVALID then Inl (Errno DMR_EINVAL)
          else if color_code < 1 \<or> color_code > 15 then Inl (Errno DMR_EINVAL)
          else let bytes = [push_bit 4 color_code OR ucast (data_type AND 0x0f), 0, 0];
                   bytes = dmr_golay_20_8_encode bytes
               in Inr (packet
                 [12 := (packet ! 12 AND 0xc0) OR (drop_bit 2 (bytes ! 0) AND 0x3f),
                  13 := (packet ! 13 AND 0x0f) OR (push_bit 6 (bytes ! 0) AND 0xc0) OR
                        (drop_bit 2 (bytes ! 1) AND 0x30),
                  19 := (packet ! 19 AND 0xf0) OR (drop_bit 2 (bytes ! 1) AND 0x0f),
                  20 := (packet ! 20 AND 0x03) OR (push_bit 6 (bytes ! 1) AND 0xc0) OR
                        (drop_bit 2 (bytes ! 2) AND 0x3c)]))"

text \<open>The \<open>switch\<close> of \<open>dmr_packet_decode\<close>; \<open>None\<close> is the default case.\<close>

fun packet_sync_fields :: "dmr_sync_pattern \<Rightarrow> (dmr_parsed_packet \<Rightarrow> dmr_parsed_packet) option" where
  "packet_sync_fields DMR_SYNC_PATTERN_BS_SOURCED_DATA = Some (\<lambda>p. p\<lparr>pp_data_type := DMR_DATA_TYPE_DATA_HEADER\<rparr>)"
| "packet_sync_fields DMR_SYNC_PATTERN_MS_SOURCED_DATA = Some (\<lambda>p. p\<lparr>pp_data_type := DMR_DATA_TYPE_DATA_HEADER\<rparr>)"
| "packet_sync_fields DMR_SYNC_PATTERN_BS_SOURCED_VOICE =
     Some (\<lambda>p. p\<lparr>pp_data_type := DMR_DATA_TYPE_VOICE_SYNC, pp_voice_frame := 0\<rparr>)"
| "packet_sync_fields DMR_SYNC_PATTERN_MS_SOURCED_VOICE =
     Some (\<lambda>p. p\<lparr>pp_data_type := DMR_DATA_TYPE_VOICE_SYNC, pp_voice_frame := 0\<rparr>)"
| "packet_sync_fields DMR_SYNC_PATTERN_DIRECT_DATA_TS1 =
     Some (\<lambda>p. p\<lparr>pp_data_type := DMR_DATA_TYPE_DATA_HEADER, pp_ts := DMR_TS1\<rparr>)"
| "packet_sync_fields DMR_SYNC_PATTERN_DIRECT_DATA_TS2 =
     Some (\<lambda>p. p\<lparr>pp_data_type := DMR_DATA_TYPE_DATA_HEADER, pp_ts := DMR_TS2\<rparr>)"
| "packet_sync_fields DMR_SYNC_PATTERN_DIRECT_VOICE_TS1 =
     Some (\<lambda>p. p\<lparr>pp_data_type := DMR_DATA_TYPE_VOICE_SYNC, pp_ts := DMR_TS1\<rparr>)"
| "packet_sync_fields DMR_SYNC_PATTERN_DIRECT_VOICE_TS2 =
     Some (\<lambda>p. p\<lparr>pp_data_type := DMR_DATA_TYPE_VOICE_SYNC, pp_ts := DMR_TS2\<rparr>)"
| "packet_sync_fields DMR_SYNC_PATTERN_MS_SOURCED_RC = None"
| "packet_sync_fields DMR_SYNC_PATTERN_UNKNOWN = None"

text \<open>\<open>mem\<close> says whether the allocation succeeds.\<close>

definition dmr_packet_decode ::
  "common_ops \<Rightarrow> bool \<Rightarrow> u8 list \<Rightarrow> (failure + dmr_parsed_packet) option" where
  "dmr_packet_decode c mem packet =
     (if \<not> mem then Some (Inl (Errno DMR_ENOMEM))
      else let parsed = zero_parsed_packet;
               parsed = parsed\<lparr>pp_packet := byte_copy c (pp_packet parsed) packet DMR_PACKET_LEN\<rparr>
           in case packet_sync_fields (dmr_sync_pattern_decode packet) of
                Some f \<Rightarrow> Some (Inr ((f parsed)\<lparr>pp_parsed := True\<rparr>))
              | None \<Rightarrow>
                  let parsed = parsed\<lparr>pp_data_type := DMR_DATA_TYPE_INVALID\<rparr>
                  in do { r \<leftarrow> dmr_slot_type_decode (Some packet);
                          let parsed = (case r of
                                Inl _ \<Rightarrow> parsed
                              | Inr (color_code, data_type) \<Rightarrow>
                                  parsed\<lparr>pp_color_code := color_code, pp_data_type := data_type\<rparr>)
                          in Some (Inr (parsed\<lparr>pp_parsed := True\<rparr>)) })"

section \<open>Slot type\<close>

text \<open>The received field differs from the encoded one at most where the decoder's mask is wrong.\<close>

lemma slot_type_error:
  assumes "length packet = 33" "length b = 3"
    and "p = packet
      [12 := (packet ! 12 AND 0xc0) OR (drop_bit 2 (b ! 0) AND 0x3f),
       13 := (packet ! 13 AND 0x0f) OR (push_bit 6 (b ! 0) AND 0xc0) OR (drop_bit 2 (b ! 1) AND 0x30),
       19 := (packet ! 19 AND 0xf0) OR (drop_bit 2 (b ! 1) AND 0x0f),
       20 := (packet ! 20 AND 0x03) OR (push_bit 6 (b ! 1) AND 0xc0) OR (drop_bit 2 (b ! 2) AND 0x3c)]"
    and "bit (golay_code (slot_type_bytes p)) m \<noteq> bit (golay_code b) m"
  shows "m = 5 \<or> m = 6 \<or> m = 9 \<and> bit (packet ! 19) 4 \<or> m = 10 \<and> bit (packet ! 19) 5"
proof -
  have m: "m < 19" using assms(4) bit_less_take_bit [OF golay_code_low] by blast
  consider "m < 3" | "3 \<le> m \<and> m < 7" | "7 \<le> m \<and> m < 11" | "11 \<le> m \<and> m < 15" | "15 \<le> m" by linarith
  then show ?thesis
  proof cases
    case 1
    then have "m = 0 \<or> m = 1 \<or> m = 2" by auto
    then show ?thesis
      using assms(4) by (elim disjE) (simp_all add: assms(1-3) bit_golay_code slot_type_bytes_def bit_simps)
  next
    case 2
    then have "m = 3 \<or> m = 4 \<or> m = 5 \<or> m = 6" by auto
    then show ?thesis
      using assms(4) by (elim disjE) (simp_all add: assms(1-3) bit_golay_code slot_type_bytes_def bit_simps)
  next
    case 3
    then have "m = 7 \<or> m = 8 \<or> m = 9 \<or> m = 10" by auto
    then show ?thesis
      using assms(4) by (elim disjE) (auto simp: assms(1-3) bit_golay_code slot_type_bytes_def bit_simps)
  next
    case 4
    then have "m = 11 \<or> m = 12 \<or> m = 13 \<or> m = 14" by auto
    then show ?thesis
      using assms(4) by (elim disjE) (simp_all add: assms(1-3) bit_golay_code slot_type_bytes_def bit_simps)
  next
    case 5
    then have "m = 15 \<or> m = 16 \<or> m = 17 \<or> m = 18" using m by auto
    then show ?thesis
      using assms(4) by (elim disjE) (simp_all add: assms(1-3) bit_golay_code slot_type_bytes_def bit_simps)
  qed
qed

lemma slot_type_code:
  assumes "length packet = 33" "1 \<le> color_code" "color_code \<le> 15" "data_type < 10"
    and "\<not> (bit (packet ! 19) 4 \<and> bit (packet ! 19) 5)"
  shows "\<exists>p. dmr_slot_type_encode (Some packet) color_code data_type = Inr p \<and> length p = 33 \<and>
    dmr_golay_20_8_decode (slot_type_bytes p) = Some (push_bit 4 color_code OR ucast data_type)"
proof -
  let ?d = "[push_bit 4 color_code OR ucast (data_type AND 0x0f), 0, 0]"
  let ?b = "dmr_golay_20_8_encode ?d"
  have b: "golay_rem 12 (golay_code ?b) = 0" "?b ! 0 = ?d ! 0" "length ?b = 3"
    by (rule golay_code_encode; simp)+
  define p where "p = packet
      [12 := (packet ! 12 AND 0xc0) OR (drop_bit 2 (?b ! 0) AND 0x3f),
       13 := (packet ! 13 AND 0x0f) OR (push_bit 6 (?b ! 0) AND 0xc0) OR (drop_bit 2 (?b ! 1) AND 0x30),
       19 := (packet ! 19 AND 0xf0) OR (drop_bit 2 (?b ! 1) AND 0x0f),
       20 := (packet ! 20 AND 0x03) OR (push_bit 6 (?b ! 1) AND 0xc0) OR (drop_bit 2 (?b ! 2) AND 0x3c)]"
  have enc: "dmr_slot_type_encode (Some packet) color_code data_type = Inr p"
    using assms(2-4) unfolding p_def by (simp add: dmr_slot_type_encode_def not_less Let_def flip: not_le)
  let ?e = "golay_code ?b XOR golay_code (slot_type_bytes p)"
  have "{m. bit ?e m} \<subseteq> {5, 6, if bit (packet ! 19) 4 then 9 else 10}"
    using slot_type_error [OF assms(1) b(3) p_def] assms(5) by (auto simp: bit_xor_iff)
  then have "weight ?e \<le> card {5, 6, if bit (packet ! 19) 4 then 9 else 10 :: nat}"
    unfolding weight_card by (intro card_mono) simp_all
  then have "weight ?e \<le> 3" by (simp split: if_splits)
  then have "dmr_golay_20_8_decode (slot_type_bytes p) = Some (ucast (drop_bit 11 (golay_code ?b)))"
    by (intro golay_decode_of [where e = ?e]) (simp_all add: b golay_code_low)
  moreover have "data_type AND 0x0f = data_type"
    using assms(4) take_bit_of_less [of data_type 4] by (simp add: and_mask_take_bit word_less_nat_alt)
  ultimately show ?thesis using enc b(2) assms(1) by (simp add: golay_code_data p_def)
qed

lemma drop_bit_high_nibble: "drop_bit 4 (w AND 0xf0) = drop_bit 4 w" for w :: u8
proof -
  have "drop_bit 4 (w AND 0xf0) = take_bit 4 (drop_bit 4 w)" by (simp add: drop_bit_and and_mask_take_bit)
  also have "\<dots> = drop_bit 4 w" by (rule bit_word_eqI) (auto simp: bit_simps dest: u8_bit_bound)
  finally show ?thesis .
qed

section \<open>Properties\<close>

text \<open>
  Slot type round trip: for the valid color codes and data types, and unless bits 4 and 5
  of byte 19 of the packet are both set, the slot type that was inserted is read back.
\<close>

theorem slot_type_roundtrip:
  assumes "length packet = 33" "1 \<le> color_code" "color_code \<le> 15" "data_type < 10"
    and "\<not> (bit (packet ! 19) 4 \<and> bit (packet ! 19) 5)"
  shows "\<exists>p. dmr_slot_type_encode (Some packet) color_code data_type = Inr p \<and> length p = 33 \<and>
    dmr_slot_type_decode (Some p) = Some (Inr (color_code, data_type))"
proof -
  let ?c = "push_bit 4 color_code OR ucast data_type :: u8"
  have cc: "bit color_code m \<Longrightarrow> m < 4" for m
    using bit_less_take_bit [OF take_bit_of_less, of color_code 4 m] assms(3) by (simp add: word_le_nat_alt)
  have dt: "bit data_type m \<Longrightarrow> m < 4" for m
    using bit_less_take_bit [OF take_bit_of_less, of data_type 4 m] assms(4) by (simp add: word_less_nat_alt)
  have "drop_bit 4 (?c AND 0xf0) = color_code"
    using cc dt unfolding drop_bit_high_nibble by (intro bit_word_eqI) (auto simp: bit_simps)
  moreover have "ucast (?c AND 0x0f) = data_type"
    using dt less_trans [OF dt, of _ 8] by (intro bit_word_eqI) (auto simp: bit_simps and_mask_take_bit)
  ultimately show ?thesis
    using slot_type_code [OF assms] by (auto simp: dmr_slot_type_decode_def)
qed


theorem slot_type_roundtrip_witness:
  "\<exists>p. dmr_slot_type_encode (Some (replicate 33 0xdf)) 7 6 = Inr p \<and> length p = 33 \<and>
    dmr_slot_type_decode (Some p) = Some (Inr (7, 6))"
  by (rule slot_type_roundtrip) simp_all

text \<open>
  The condition is needed: the decoder reads two bits of the synchronisation field
  instead of two bits of its own, so in a burst with the MS data pattern, color code 1 and
  data type 6 are read back as another data type.
\<close>

theorem slot_type_misread:
  "\<exists>p q dt. dmr_sync_pattern_encode (Some (replicate 33 0)) DMR_SYNC_PATTERN_MS_SOURCED_DATA = Inr q \<and>
    dmr_slot_type_encode (Some q) 1 6 = Inr p \<and>
    dmr_slot_type_decode (Some p) = Some (Inr (1, dt)) \<and> dt \<noteq> 6"
proof -
  let ?z = "[0, 0, 0, 0, 0, 0, 0, 0, 0, 0, 0, 0] :: u8 list"
  let ?q = "?z @ [0, 13, 93, 127, 119, 253, 117, 112, 0] @ ?z"
  let ?p = "?z @ [5, 141, 93, 127, 119, 253, 117, 115, 56] @ ?z"
  have z: "replicate 33 0 = ?z @ [0, 0, 0, 0, 0, 0, 0, 0, 0] @ ?z" by (simp add: numeral_eq_Suc)
  have q: "dmr_sync_pattern_encode (Some (replicate 33 0)) DMR_SYNC_PATTERN_MS_SOURCED_DATA = Inr ?q"
    unfolding z by (simp add: dmr_sync_pattern_encode_def dmr_sync_pattern_ms_sourced_data_def
        dmr_sync_pattern_mask_def upt_rec)
  have enc: "dmr_golay_20_8_encode [22, 0, 0] = [22, 12, 224]"
    by (simp add: dmr_golay_20_8_encode_def golay_20_8_encoder_def)
  have p: "dmr_slot_type_encode (Some ?q) 1 6 = Inr ?p"
    by (simp add: dmr_slot_type_encode_def Let_def enc)
  have c: "golay_code (slot_type_bytes ?p) = 0xb607" by (simp add: golay_code_def slot_type_bytes_def)
  have "take_bit 23 (0xb607 :: u32) = 0xb607" "golay_rem 12 0xb607 = 1632"
    by (simp_all add: golay_rem_12 golay_red_def)
  then have "dmr_golay_20_8_syndrome 0xb607 = Some 1632" by (simp add: golay_syndrome_rem)
  moreover have "golay_20_8_decoder ! 1632 = 0x4083"
    by (simp add: golay_20_8_decoder_nth golay_20_8_decoder_rows_def golay_row_nth)
  ultimately have "dmr_golay_20_8_decode (slot_type_bytes ?p) = Some 0x1e"
    unfolding dmr_golay_20_8_decode_def c by simp
  then have "dmr_slot_type_decode (Some ?p) = Some (Inr (1, 14))"
    by (simp add: dmr_slot_type_decode_def)
  then show ?thesis using p q by (intro exI [of _ ?p] exI [of _ ?q] exI [of _ 14]) simp
qed



end
