(* ===== verification/Dmr_Lc.thy ===== *)
theory Dmr_Lc
  imports Dmr_Packet Dmr_Rs
begin

unbundle bit_operations_syntax

text \<open>
  \<open>src/dmr/payload/lc.c\<close>: the full link control message of a call.  Nine bytes of addresses
  and options, three Reed-Solomon bytes, a mask that depends on the data type, and the
  BPTC(196,96) around them.
\<close>

section \<open>Definitions\<close>

type_synonym dmr_flco_pdu = u32

abbreviation (input) DMR_FLCO_PDU_GROUP :: dmr_flco_pdu where "DMR_FLCO_PDU_GROUP \<equiv> 0x00"
abbreviation (input) DMR_FLCO_PDU_PRIVATE :: dmr_flco_pdu where "DMR_FLCO_PDU_PRIVATE \<equiv> 0x03"

record dmr_lc =
  lc_flco :: dmr_flco
  lc_dst_id :: dmr_id
  lc_src_id :: dmr_id

record dmr_full_lc =
  flc_flco_pdu :: dmr_flco_pdu
  flc_r :: bool
  flc_pf :: bool
  flc_fid :: dmr_fid
  flc_service_options :: u8
  flc_dst_id :: dmr_id
  flc_src_id :: dmr_id
  flc_crc :: "u8 list"

definition dmr_crc_mask_lc :: "u8 list" where
  "dmr_crc_mask_lc = [0x69, 0x96, 0x99, 0xa5, 0xaa, 0x00, 0xcc, 0xf0, 0xff, 0x00]"

text \<open>The three mask statements, the same in the decoder and the encoder.\<close>

definition lc_apply_mask :: "dmr_data_type \<Rightarrow> u8 list \<Rightarrow> u8 list" where
  "lc_apply_mask data_type bytes =
     (let m = dmr_crc_mask_lc ! unat data_type
      in bytes[9 := bytes ! 9 XOR m, 10 := bytes ! 10 XOR m, 11 := bytes ! 11 XOR m])"

text \<open>\<open>(b0 << 16) | (b1 << 8) | b2\<close>\<close>

definition lc_id :: "u8 \<Rightarrow> u8 \<Rightarrow> u8 \<Rightarrow> dmr_id" where
  "lc_id b0 b1 b2 = push_bit 16 (ucast b0) OR push_bit 8 (ucast b1) OR ucast b2"

text \<open>\<open>mem\<close> says whether the allocation of the BPTC state succeeds.\<close>

definition dmr_full_lc_decode ::
  "bool \<Rightarrow> u8 list option \<Rightarrow> dmr_full_lc option \<Rightarrow> dmr_data_type \<Rightarrow> (failure + dmr_full_lc) option" where
  "dmr_full_lc_decode mem packet lc data_type =
     (case (packet, lc) of
        (Some packet, Some lc) \<Rightarrow>
          if data_type \<ge> DMR_DATA_TYPE_INVALID then Some (Inl (Errno DMR_EINVAL))
          else if \<not> mem then Some (Inl (Errno DMR_ENOMEM))
          else
            let bptc = \<lparr>bptc_raw = replicate 196 False, bptc_deinterleaved_bits = replicate 196 False\<rparr>
            in do { (r, bptc) \<leftarrow> dmr_bptc_196_96_decode (Some packet) (Some bptc) (Some (replicate 12 0));
                    case r of
                      Inl e \<Rightarrow> Some (Inl (Errno DMR_LASTERROR))
                    | Inr bytes \<Rightarrow>
                        let bytes = lc_apply_mask data_type bytes
                        in case dmr_rs_12_9_4_decode (Some bytes) of
                             Inl e \<Rightarrow> Some (Inl Fail)
                           | Inr _ \<Rightarrow> Some (Inr (lc\<lparr>
                               flc_flco_pdu := ucast (bytes ! 0 AND 0x3f),
                               flc_pf := False,
                               flc_fid := ucast (bytes ! 1),
                               flc_dst_id := lc_id (bytes ! 3) (bytes ! 4) (bytes ! 5),
                               flc_src_id := lc_id (bytes ! 6) (bytes ! 7) (bytes ! 8),
                               flc_crc := take 3 (drop 9 bytes)\<rparr>)) }
      | _ \<Rightarrow> Some (Inl (Errno DMR_EINVAL)))"

definition dmr_full_lc_encode_bytes :: "dmr_full_lc option \<Rightarrow> u8 list option \<Rightarrow> failure + u8 list" where
  "dmr_full_lc_encode_bytes lc bytes =
     (case (lc, bytes) of
        (Some lc, Some bytes) \<Rightarrow>
          let bytes =
               [ucast (flc_flco_pdu lc) OR (if flc_flco_pdu lc = DMR_FLCO_PDU_PRIVATE then 0x80 else 0x00),
                ucast (flc_fid lc), 0,
                ucast (drop_bit 16 (flc_dst_id lc)), ucast (drop_bit 8 (flc_dst_id lc)), ucast (flc_dst_id lc),
                ucast (drop_bit 16 (flc_src_id lc)), ucast (drop_bit 8 (flc_src_id lc)), ucast (flc_src_id lc),
                0, 0, 0]
          in (case dmr_rs_12_9_4_encode (Some bytes) of Inl e \<Rightarrow> Inr bytes | Inr bytes \<Rightarrow> Inr bytes)
      | _ \<Rightarrow> Inl (Errno DMR_EINVAL))"

text \<open>The BPTC state and the bit array of its encoder are uninitialised locals.\<close>

definition dmr_full_lc_encode ::
  "dmr_bptc_196_96 \<Rightarrow> bool list \<Rightarrow> u8 list option \<Rightarrow> dmr_full_lc option \<Rightarrow> dmr_data_type \<Rightarrow>
   (failure + u8 list) option" where
  "dmr_full_lc_encode bptc uninit packet lc data_type =
     (case (packet, lc) of
        (Some packet, Some lc) \<Rightarrow>
          if data_type \<noteq> DMR_DATA_TYPE_VOICE_LC \<and> data_type \<noteq> DMR_DATA_TYPE_TERMINATOR_WITH_LC
          then Some (Inl Fail)
          else
            (case dmr_full_lc_encode_bytes (Some lc) (Some (replicate 12 0)) of
               Inl e \<Rightarrow> Some (Inl (Errno DMR_LASTERROR))
             | Inr bytes \<Rightarrow>
                 let bytes = lc_apply_mask data_type bytes
                 in do { (r, bptc) \<leftarrow> dmr_bptc_196_96_encode uninit (Some packet) (Some bptc) (Some bytes);
                         case r of
                           Inl e \<Rightarrow> Some (Inl (Errno DMR_LASTERROR))
                         | Inr packet \<Rightarrow> Some (Inr packet) })
      | _ \<Rightarrow> Some (Inl (Errno DMR_EINVAL)))"

definition dmr_flco_pdu_name :: "dmr_flco_pdu \<Rightarrow> string" where
  "dmr_flco_pdu_name flco_pdu =
     (if flco_pdu = DMR_FLCO_PDU_GROUP then ''group''
      else if flco_pdu = DMR_FLCO_PDU_PRIVATE then ''unit to unit''
      else ''invalid'')"

section \<open>Fields\<close>

text \<open>A message whose fields fit: 6 bits of opcode, 8 of feature set, 24 of each address.\<close>

definition full_lc_wf :: "dmr_full_lc \<Rightarrow> bool" where
  "full_lc_wf lc \<longleftrightarrow> unat (flc_flco_pdu lc) < 2 ^ 6 \<and> unat (flc_fid lc) < 2 ^ 8 \<and>
     unat (flc_dst_id lc) < 2 ^ 24 \<and> unat (flc_src_id lc) < 2 ^ 24"

lemma lc_id_split:
  assumes "unat x < 2 ^ 24"
  shows "lc_id (ucast (drop_bit 16 x)) (ucast (drop_bit 8 x)) (ucast x) = x"
proof (rule bit_word_eqI)
  fix m
  assume "m < LENGTH(32)"
  have "bit x m \<Longrightarrow> m < 24" using bit_less_take_bit [OF take_bit_of_less [OF assms]] .
  then show "bit (lc_id (ucast (drop_bit 16 x)) (ucast (drop_bit 8 x)) (ucast x)) m = bit x m"
    by (cases "m < 8"; cases "m < 16") (auto simp: lc_id_def bit_simps)
qed

lemma ucast_byte: "unat x < 2 ^ 8 \<Longrightarrow> ucast (ucast x :: u8) = (x :: u32)"
  using bit_less_take_bit [OF take_bit_of_less, of x 8]
  by (intro bit_word_eqI) (auto simp: bit_simps)

lemma opcode_bits:
  assumes "unat x < 2 ^ 6"
  shows "ucast ((ucast x OR (if b then 0x80 else 0)) AND 0x3f :: u8) = (x :: u32)"
proof -
  have "(ucast x OR (if b then 0x80 else 0)) AND 0x3f = (take_bit 6 (ucast x) :: u8)"
    unfolding and_mask_take_bit take_bit_or by simp
  moreover have "bit x m \<Longrightarrow> m < 6 \<and> m < 8" for m
    using bit_less_take_bit [OF take_bit_of_less [OF assms], of m] by auto
  ultimately show ?thesis by (intro bit_word_eqI) (auto simp: bit_simps)
qed

lemma length_lc_apply_mask [simp, dmr_len]: "length (lc_apply_mask dt bytes) = length bytes"
  by (simp add: lc_apply_mask_def Let_def)

lemma take_lc_apply_mask: "length bytes = 12 \<Longrightarrow> take 9 (lc_apply_mask dt bytes) = take 9 bytes"
  by (simp add: lc_apply_mask_def Let_def)

lemma lc_apply_mask_twice: "length bytes = 12 \<Longrightarrow> lc_apply_mask dt (lc_apply_mask dt bytes) = bytes"
  by (rule nth_equalityI) (auto simp: lc_apply_mask_def Let_def nth_list_update xor.assoc)

lemma full_lc_encode_bytes_eq:
  "\<exists>w. dmr_full_lc_encode_bytes (Some lc) (Some bytes) = Inr w \<and> length w = 12 \<and>
    dmr_rs_12_9_4_decode (Some w) = Inr () \<and>
    take 9 w = [ucast (flc_flco_pdu lc) OR (if flc_flco_pdu lc = DMR_FLCO_PDU_PRIVATE then 0x80 else 0x00),
      ucast (flc_fid lc), 0,
      ucast (drop_bit 16 (flc_dst_id lc)), ucast (drop_bit 8 (flc_dst_id lc)), ucast (flc_dst_id lc),
      ucast (drop_bit 16 (flc_src_id lc)), ucast (drop_bit 8 (flc_src_id lc)), ucast (flc_src_id lc)]"
proof -
  let ?d = "[ucast (flc_flco_pdu lc) OR (if flc_flco_pdu lc = DMR_FLCO_PDU_PRIVATE then 0x80 else 0x00),
      ucast (flc_fid lc), 0,
      ucast (drop_bit 16 (flc_dst_id lc)), ucast (drop_bit 8 (flc_dst_id lc)), ucast (flc_dst_id lc),
      ucast (drop_bit 16 (flc_src_id lc)), ucast (drop_bit 8 (flc_src_id lc)), ucast (flc_src_id lc),
      0, 0, 0] :: u8 list"
  have d: "length ?d = 12" by simp
  have "dmr_rs_12_9_4_encode (Some ?d) = Inr (rs_codeword ?d)"
    unfolding rs_codeword_def rs_encode_fun [OF d] by simp
  then show ?thesis
    using rs.length_encode [OF d] rs.data_encode [OF d] rs.check_encode [OF d]
    by (simp add: dmr_full_lc_encode_bytes_def rs_ok_def)
qed


lemma full_lc_encode_eq:
  assumes "length packet = 33" "length uninit = 264" "bptc_wf bptc"
    and "data_type = DMR_DATA_TYPE_VOICE_LC \<or> data_type = DMR_DATA_TYPE_TERMINATOR_WITH_LC"
    and "dmr_full_lc_encode_bytes (Some lc) (Some (replicate 12 0)) = Inr w" "length w = 12"
  shows "\<exists>p. dmr_full_lc_encode bptc uninit (Some packet) (Some lc) data_type = Some (Inr p) \<and>
    length p = 33 \<and> bptc_matrix p = bptc_encode_matrix (bytes_bits (lc_apply_mask data_type w))"
proof -
  have "length (lc_apply_mask data_type w) = 12" using assms(6) by simp
  from bptc_encode_eq [OF this assms(1,3,2)] show ?thesis
    using assms(4,5) by (auto simp: dmr_full_lc_encode_def Let_def)
qed

lemma bptc_decode_encoded:
  assumes "length p = 33" "bptc_matrix p = bptc_encode_matrix (bytes_bits d)" "length d = 12"
    and "bptc_wf b" "length out = 12"
  shows "\<exists>st. dmr_bptc_196_96_decode (Some p) (Some b) (Some out) = Some (Inr d, st)"
  using bptc_decode_iff [OF assms(1,4,5)] assms(2,3) bptc_encode_accepts
  by (simp add: bptc_data_bits_encode)

section \<open>Properties\<close>

text \<open>
  C22. Full link control round trip, through Reed-Solomon, mask and BPTC: a message whose
  fields fit their widths is read back with the opcode, feature set and both addresses it
  was built with, whatever the uninitialised storage held.
\<close>

theorem full_lc_roundtrip:
  assumes "length packet = 33" "length uninit = 264" "bptc_wf bptc" "full_lc_wf lc"
    and "data_type = DMR_DATA_TYPE_VOICE_LC \<or> data_type = DMR_DATA_TYPE_TERMINATOR_WITH_LC"
  shows "\<exists>p r. dmr_full_lc_encode bptc uninit (Some packet) (Some lc) data_type = Some (Inr p) \<and>
    length p = 33 \<and> dmr_full_lc_decode True (Some p) (Some lc0) data_type = Some (Inr r) \<and>
    flc_flco_pdu r = flc_flco_pdu lc \<and> flc_fid r = flc_fid lc \<and>
    flc_dst_id r = flc_dst_id lc \<and> flc_src_id r = flc_src_id lc"
proof -
  obtain w where w: "dmr_full_lc_encode_bytes (Some lc) (Some (replicate 12 0)) = Inr w" "length w = 12"
    "dmr_rs_12_9_4_decode (Some w) = Inr ()"
    and d: "take 9 w = [ucast (flc_flco_pdu lc) OR (if flc_flco_pdu lc = DMR_FLCO_PDU_PRIVATE then 0x80 else 0x00),
      ucast (flc_fid lc), 0,
      ucast (drop_bit 16 (flc_dst_id lc)), ucast (drop_bit 8 (flc_dst_id lc)), ucast (flc_dst_id lc),
      ucast (drop_bit 16 (flc_src_id lc)), ucast (drop_bit 8 (flc_src_id lc)), ucast (flc_src_id lc)]"
    (is "_ = ?d") using full_lc_encode_bytes_eq by blast
  from full_lc_encode_eq [OF assms(1-3,5) w(1,2)] obtain p where
    p: "dmr_full_lc_encode bptc uninit (Some packet) (Some lc) data_type = Some (Inr p)" "length p = 33"
    "bptc_matrix p = bptc_encode_matrix (bytes_bits (lc_apply_mask data_type w))" by auto
  let ?b = "\<lparr>bptc_raw = replicate 196 False, bptc_deinterleaved_bits = replicate 196 False\<rparr>"
  have lw: "length (lc_apply_mask data_type w) = 12" using w(2) by simp
  have wf: "bptc_wf ?b" by (simp add: bptc_wf_def)
  obtain st where st: "dmr_bptc_196_96_decode (Some p) (Some ?b) (Some (replicate 12 0)) =
      Some (Inr (lc_apply_mask data_type w), st)"
    using bptc_decode_encoded [OF p(2,3) lw wf, of "replicate 12 0"] by auto
  have n: "w ! i = ?d ! i" if "i < 9" for i using d that by (metis nth_take)
  have "\<not> 10 \<le> data_type" using assms(5) by (auto simp: word_le_nat_alt)
  then show ?thesis
    using p(1,2) st w n [of 0] n [of 1] n [of 3] n [of 4] n [of 5] n [of 6] n [of 7] n [of 8] assms(4)
    by (simp add: dmr_full_lc_decode_def Let_def lc_apply_mask_twice full_lc_wf_def lc_id_split ucast_byte
        opcode_bits)
qed

theorem full_lc_roundtrip_witness:
  "\<exists>p r. dmr_full_lc_encode \<lparr>bptc_raw = replicate 196 True, bptc_deinterleaved_bits = replicate 196 False\<rparr>
      (replicate 264 True) (Some (replicate 33 0xaa))
      (Some \<lparr>flc_flco_pdu = 3, flc_r = False, flc_pf = False, flc_fid = 0x10, flc_service_options = 0,
        flc_dst_id = 2042214, flc_src_id = 204, flc_crc = [0, 0, 0]\<rparr>) 1 = Some (Inr p) \<and>
    dmr_full_lc_decode True (Some p)
      (Some \<lparr>flc_flco_pdu = 0, flc_r = False, flc_pf = False, flc_fid = 0, flc_service_options = 0,
        flc_dst_id = 0, flc_src_id = 0, flc_crc = [0, 0, 0]\<rparr>) 1 = Some (Inr r) \<and>
    flc_flco_pdu r = 3 \<and> flc_fid r = 0x10 \<and> flc_dst_id r = 2042214 \<and> flc_src_id r = 204"
  using full_lc_roundtrip [of "replicate 33 0xaa" "replicate 264 True"
      "\<lparr>bptc_raw = replicate 196 True, bptc_deinterleaved_bits = replicate 196 False\<rparr>"
      "\<lparr>flc_flco_pdu = 3, flc_r = False, flc_pf = False, flc_fid = 0x10, flc_service_options = 0,
        flc_dst_id = 2042214, flc_src_id = 204, flc_crc = [0, 0, 0]\<rparr>" 1
      "\<lparr>flc_flco_pdu = 0, flc_r = False, flc_pf = False, flc_fid = 0, flc_service_options = 0,
        flc_dst_id = 0, flc_src_id = 0, flc_crc = [0, 0, 0]\<rparr>"]
  by (auto simp: bptc_wf_def full_lc_wf_def)

text \<open>
  The mask separates the data types: a link control message encoded for one data type is
  rejected when it is decoded as any other data type whose mask differs.
\<close>

theorem full_lc_wrong_type_rejected:
  assumes "length packet = 33" "length uninit = 264" "bptc_wf bptc"
    and "data_type = DMR_DATA_TYPE_VOICE_LC \<or> data_type = DMR_DATA_TYPE_TERMINATOR_WITH_LC"
    and "other < 10" "dmr_crc_mask_lc ! unat other \<noteq> dmr_crc_mask_lc ! unat data_type"
  shows "\<exists>p. dmr_full_lc_encode bptc uninit (Some packet) (Some lc) data_type = Some (Inr p) \<and>
    dmr_full_lc_decode True (Some p) (Some lc0) other = Some (Inl Fail)"
proof -
  obtain w where w: "dmr_full_lc_encode_bytes (Some lc) (Some (replicate 12 0)) = Inr w" "length w = 12"
    "dmr_rs_12_9_4_decode (Some w) = Inr ()" using full_lc_encode_bytes_eq by blast
  from full_lc_encode_eq [OF assms(1-3,4) w(1,2)] obtain p where
    p: "dmr_full_lc_encode bptc uninit (Some packet) (Some lc) data_type = Some (Inr p)" "length p = 33"
    "bptc_matrix p = bptc_encode_matrix (bytes_bits (lc_apply_mask data_type w))" by auto
  let ?b = "\<lparr>bptc_raw = replicate 196 False, bptc_deinterleaved_bits = replicate 196 False\<rparr>"
  have lw: "length (lc_apply_mask data_type w) = 12" using w(2) by simp
  have wf: "bptc_wf ?b" by (simp add: bptc_wf_def)
  obtain st where st: "dmr_bptc_196_96_decode (Some p) (Some ?b) (Some (replicate 12 0)) =
      Some (Inr (lc_apply_mask data_type w), st)"
    using bptc_decode_encoded [OF p(2,3) lw wf, of "replicate 12 0"] by auto
  let ?v = "lc_apply_mask other (lc_apply_mask data_type w)"
  have "dmr_rs_12_9_4_decode (Some ?v) \<noteq> Inr ()"
  proof
    assume "dmr_rs_12_9_4_decode (Some ?v) = Inr ()"
    moreover have "take 9 ?v = take 9 w" using w(2) by (simp add: take_lc_apply_mask)
    ultimately have "?v = w" using rs.check_unique [of ?v w] w by (simp add: rs_ok_def)
    moreover have "?v ! 9 = w ! 9 XOR dmr_crc_mask_lc ! unat data_type XOR dmr_crc_mask_lc ! unat other"
      using w(2) by (simp add: lc_apply_mask_def Let_def xor.assoc)
    ultimately have "w ! 9 XOR (dmr_crc_mask_lc ! unat data_type XOR dmr_crc_mask_lc ! unat other) = w ! 9 XOR 0"
      by simp
    then show False using assms(6) by (simp only: word_xor_left_cancel word_xor_eq_0_iff)
  qed
  moreover have "dmr_rs_12_9_4_decode (Some ?v) = Inr () \<or> dmr_rs_12_9_4_decode (Some ?v) = Inl Fail"
    by (simp add: dmr_rs_12_9_4_decode_def Let_def)
  moreover have "\<not> 10 \<le> other" using assms(5) by simp
  ultimately show ?thesis
    using p(1) st by (auto simp: dmr_full_lc_decode_def Let_def)
qed

theorem full_lc_wrong_type_rejected_witness:
  "\<exists>p. dmr_full_lc_encode \<lparr>bptc_raw = replicate 196 True, bptc_deinterleaved_bits = replicate 196 False\<rparr>
      (replicate 264 True) (Some (replicate 33 0xaa))
      (Some \<lparr>flc_flco_pdu = 3, flc_r = False, flc_pf = False, flc_fid = 0x10, flc_service_options = 0,
        flc_dst_id = 2042214, flc_src_id = 204, flc_crc = [0, 0, 0]\<rparr>) 1 = Some (Inr p) \<and>
    dmr_full_lc_decode True (Some p)
      (Some \<lparr>flc_flco_pdu = 0, flc_r = False, flc_pf = False, flc_fid = 0, flc_service_options = 0,
        flc_dst_id = 0, flc_src_id = 0, flc_crc = [0, 0, 0]\<rparr>) 2 = Some (Inl Fail)"
  by (rule full_lc_wrong_type_rejected) (simp_all add: bptc_wf_def dmr_crc_mask_lc_def)

end
