(* ===== verification/Dmr_Emb.thy ===== *)
theory Dmr_Emb
  imports Dmr_Qr Dmr_Vbptc Dmr_Lc
begin

unbundle bit_operations_syntax

text \<open>
  \<open>src/dmr/payload/emb.c\<close>: embedded signalling.  A voice burst without synchronisation carries
  in the middle 48 bits a two-byte header (color code, privacy flag, fragment position, QR(16,7)
  parity) around 32 bits of a link control message that was spread over the matrix of
  \<open>Dmr_Vbptc\<close>.
\<close>

section \<open>Definitions\<close>

type_synonym dmr_emb_lcss = u32

abbreviation (input) DMR_EMB_LCSS_SINGLE_FRAGMENT :: dmr_emb_lcss where "DMR_EMB_LCSS_SINGLE_FRAGMENT \<equiv> 0x00"
abbreviation (input) DMR_EMB_LCSS_FIRST_FRAGMENT :: dmr_emb_lcss where "DMR_EMB_LCSS_FIRST_FRAGMENT \<equiv> 0x01"
abbreviation (input) DMR_EMB_LCSS_LAST_FRAGMENT :: dmr_emb_lcss where "DMR_EMB_LCSS_LAST_FRAGMENT \<equiv> 0x02"
abbreviation (input) DMR_EMB_LCSS_CONTINUATION :: dmr_emb_lcss where "DMR_EMB_LCSS_CONTINUATION \<equiv> 0x03"

record dmr_emb =
  emb_color_code :: dmr_color_code
  emb_pi :: bool
  emb_lcss :: dmr_emb_lcss
  emb_crc :: u16

record dmr_emb_signalling_lc_bits =
  slc_bits :: "bool list"
  slc_checksum :: "bool list"

text \<open>The packets have 33 bytes.\<close>

definition dmr_emb_decode :: "u8 list option \<Rightarrow> dmr_emb option \<Rightarrow> failure + dmr_emb" where
  "dmr_emb_decode packet emb =
     (case (packet, emb) of
        (Some packet, Some emb) \<Rightarrow>
          let emb_bytes =
               [(push_bit 4 (packet ! 13) AND 0xf0) OR (drop_bit 4 (packet ! 14) AND 0x0f),
                (push_bit 4 (packet ! 18) AND 0xf0) OR (drop_bit 4 (packet ! 19) AND 0x0f)]
          in if \<not> dmr_qr_16_7_decode emb_bytes then Inl Fail
             else Inr (emb\<lparr>emb_color_code := drop_bit 4 (emb_bytes ! 0) AND 0x0f,
                           emb_pi := (emb_bytes ! 0 AND 0x08 = 0x08),
                           emb_lcss := ucast (drop_bit 5 (emb_bytes ! 0) AND 0x07)\<rparr>)
      | _ \<Rightarrow> Inl (Errno DMR_EINVAL))"

definition dmr_emb_bytes_decode :: "u8 list option \<Rightarrow> u8 list option \<Rightarrow> failure + u8 list" where
  "dmr_emb_bytes_decode packet bytes =
     (case (packet, bytes) of
        (Some packet, Some bytes) \<Rightarrow>
          Inr (bytes[0 := (push_bit 4 (packet ! 14) AND 0xf0) OR (drop_bit 4 (packet ! 15) AND 0x0f),
                     1 := (push_bit 4 (packet ! 15) AND 0xf0) OR (drop_bit 4 (packet ! 16) AND 0x0f)])
      | _ \<Rightarrow> Inl (Errno DMR_EINVAL))"

definition dmr_emb_null :: "u8 list \<Rightarrow> bool" where
  "dmr_emb_null bytes = list_all (\<lambda>i. bytes ! i = 0x00) [0..<4]"

text \<open>The two header bytes before \<open>dmr_qr_16_7_encode\<close>.\<close>

definition emb_header_bytes :: "dmr_emb \<Rightarrow> u8 list" where
  "emb_header_bytes emb =
     [(emb_color_code emb AND 0x0f) OR push_bit 4 (if emb_pi emb then 0x01 else 0x00) OR
        push_bit 5 (ucast (emb_lcss emb AND 0x03)), 0]"

definition dmr_emb_encode :: "u8 list option \<Rightarrow> dmr_emb option \<Rightarrow> failure + u8 list" where
  "dmr_emb_encode packet emb =
     (case (packet, emb) of
        (Some packet, Some emb) \<Rightarrow>
          let emb_bytes = dmr_qr_16_7_encode (emb_header_bytes emb)
          in Inr (packet[13 := (packet ! 13 AND 0xf0) OR drop_bit 4 (emb_bytes ! 0),
                         14 := (packet ! 14 AND 0x0f) OR push_bit 4 (emb_bytes ! 0),
                         18 := (packet ! 18 AND 0xf0) OR drop_bit 4 (emb_bytes ! 1),
                         19 := (packet ! 19 AND 0x0f) OR push_bit 4 (emb_bytes ! 1)])
      | _ \<Rightarrow> Inl (Errno DMR_EINVAL))"

text \<open>
  The interleaver fills the 77 bytes of a struct through a \<open>bool *\<close>; \<open>mem\<close> says whether the
  allocation succeeds, \<open>None\<close> is \<open>NULL\<close>.
\<close>

definition slc_interleave_bit :: "dmr_emb_signalling_lc_bits \<Rightarrow> nat \<Rightarrow> bool list \<times> nat \<Rightarrow> bool list \<times> nat" where
  "slc_interleave_bit emb_bits i = (\<lambda>(bits, j).
     if i = 32 then (bits @ [slc_checksum emb_bits ! 0], j)
     else if i = 43 then (bits @ [slc_checksum emb_bits ! 1], j)
     else if i = 54 then (bits @ [slc_checksum emb_bits ! 2], j)
     else if i = 65 then (bits @ [slc_checksum emb_bits ! 3], j)
     else if i = 76 then (bits @ [slc_checksum emb_bits ! 4], j)
     else (bits @ [slc_bits emb_bits ! j], j + 1))"

definition dmr_emb_signalling_lc_interlave ::
  "bool \<Rightarrow> dmr_emb_signalling_lc_bits option \<Rightarrow> dmr_emb_signalling_lc_bits option" where
  "dmr_emb_signalling_lc_interlave mem emb_bits =
     (case emb_bits of
        None \<Rightarrow> None
      | Some emb_bits \<Rightarrow>
          if \<not> mem then None
          else let bits = fst (fold (slc_interleave_bit emb_bits) [0..<77] ([], 0))
               in Some \<lparr>slc_bits = take 72 bits, slc_checksum = drop 72 bits\<rparr>)"

text \<open>\<open>sizeof(bytes)\<close> of the pointer parameter, on a 64-bit machine.\<close>

abbreviation (input) sizeof_pointer :: nat where
  "sizeof_pointer \<equiv> 8"

definition slc_checksum_of :: "u8 list \<Rightarrow> u16" where
  "slc_checksum_of bytes = fold (\<lambda>i checksum. checksum + ucast (bytes ! i)) [0..<9] 0 mod 31"

definition dmr_emb_encode_signalling_lc_bytes ::
  "u8 list option \<Rightarrow> dmr_emb_signalling_lc_bits option \<Rightarrow> (failure + dmr_emb_signalling_lc_bits) option" where
  "dmr_emb_encode_signalling_lc_bytes bytes emb_bits =
     (case (bytes, emb_bits) of
        (Some bytes, Some emb_bits) \<Rightarrow>
          let checksum = slc_checksum_of bytes;
              sum = map (\<lambda>i. drop_bit (4 - i) checksum > 0) [0..<5]
          in do { bits \<leftarrow> dmr_bytes_to_bits bytes sizeof_pointer (slc_bits emb_bits) (sizeof_pointer * 8);
                  Some (Inr \<lparr>slc_bits = bits, slc_checksum = sum\<rparr>) }
      | _ \<Rightarrow> Some (Inl (Errno DMR_EINVAL)))"

definition dmr_emb_encode_signalling_lc_from_full_lc ::
  "dmr_full_lc option \<Rightarrow> dmr_emb_signalling_lc_bits option \<Rightarrow> dmr_data_type \<Rightarrow>
   (failure + dmr_emb_signalling_lc_bits) option" where
  "dmr_emb_encode_signalling_lc_from_full_lc lc emb_bits data_type =
     (if emb_bits = None \<or> lc = None \<or> data_type \<ge> DMR_DATA_TYPE_INVALID then Some (Inl (Errno DMR_EINVAL))
      else case dmr_full_lc_encode_bytes lc (Some (replicate 12 0)) of
             Inl e \<Rightarrow> Some (Inl (Errno DMR_LASTERROR))
           | Inr bytes \<Rightarrow> dmr_emb_encode_signalling_lc_bytes (Some bytes) emb_bits)"

definition dmr_emb_encode_signalling_lc ::
  "u8 list option \<Rightarrow> dmr_emb_signalling_lc_bits option \<Rightarrow> dmr_lc option \<Rightarrow>
   (failure + dmr_emb_signalling_lc_bits) option" where
  "dmr_emb_encode_signalling_lc packet emb_bits lc =
     (case (emb_bits, packet, lc) of
        (Some emb_bits, Some packet, Some lc) \<Rightarrow>
          dmr_emb_encode_signalling_lc_bytes
            (Some [if lc_flco lc = DMR_FLCO_PRIVATE then 3 else 0, 0, 0,
               ucast (drop_bit 16 (lc_dst_id lc)), ucast (drop_bit 8 (lc_dst_id lc)), ucast (lc_dst_id lc),
               ucast (drop_bit 16 (lc_src_id lc)), ucast (drop_bit 8 (lc_src_id lc)), ucast (lc_src_id lc)])
            (Some emb_bits)
      | _ \<Rightarrow> Some (Inl (Errno DMR_EINVAL)))"

definition dmr_emb_lcss_name :: "dmr_emb_lcss \<Rightarrow> string" where
  "dmr_emb_lcss_name lcss =
     (if lcss = DMR_EMB_LCSS_SINGLE_FRAGMENT then ''single fragment''
      else if lcss = DMR_EMB_LCSS_FIRST_FRAGMENT then ''first fragment''
      else if lcss = DMR_EMB_LCSS_LAST_FRAGMENT then ''last fragment''
      else if lcss = DMR_EMB_LCSS_CONTINUATION then ''continuation''
      else ''invalid'')"

text \<open>The five statements that put 32 bits into the packet.\<close>

definition emb_put_fragment :: "u8 list \<Rightarrow> u8 list \<Rightarrow> u8 list" where
  "emb_put_fragment lc_bytes packet =
     packet[14 := (packet ! 14 AND 0xf0) OR drop_bit 4 (lc_bytes ! 0),
            15 := push_bit 4 (lc_bytes ! 0) OR drop_bit 4 (lc_bytes ! 1),
            16 := push_bit 4 (lc_bytes ! 1) OR drop_bit 4 (lc_bytes ! 2),
            17 := push_bit 4 (lc_bytes ! 2) OR drop_bit 4 (lc_bytes ! 3),
            18 := push_bit 4 (lc_bytes ! 3) OR drop_bit 4 (packet ! 18)]"

definition dmr_emb_lcss_fragment_encode ::
  "u8 list option \<Rightarrow> dmr_emb option \<Rightarrow> dmr_vbptc_16_11 option \<Rightarrow> u8 \<Rightarrow> (failure + u8 list) option" where
  "dmr_emb_lcss_fragment_encode packet emb vbptc fragment =
     (case (packet, emb) of
        (Some packet, Some emb) \<Rightarrow>
          let bits = replicate 32 False;
              offset = ucast fragment * 32 :: u16
          in do {
               r \<leftarrow> (case vbptc of None \<Rightarrow> Some (Inr bits)
                      | Some _ \<Rightarrow> dmr_vbptc_16_11_get_fragment vbptc (Some bits) offset 32);
               case r of
                 Inl e \<Rightarrow> Some (Inl (Errno DMR_LASTERROR))
               | Inr bits \<Rightarrow> do {
                   lc_bytes \<leftarrow> dmr_bits_to_bytes bits 32 (replicate 4 0) 4;
                   Some (dmr_emb_encode (Some (emb_put_fragment lc_bytes packet)) (Some emb)) } }
      | _ \<Rightarrow> Some (Inl (Errno DMR_EINVAL)))"

section \<open>The header\<close>

lemma and_f0: "w AND 0xf0 = push_bit 4 (drop_bit 4 w)" for w :: u8
proof -
  have "bit (0xf0 :: u8) m \<longleftrightarrow> 4 \<le> m" if "m < 8" for m
    using that by (auto simp: less_Suc_eq numeral_eq_Suc)
  then show ?thesis by (intro bit_word_eqI) (auto simp: bit_simps)
qed

lemma emb_nibbles:
  "(push_bit 4 ((x AND 0xf0) OR drop_bit 4 e) AND 0xf0) OR (drop_bit 4 ((y AND 0x0f) OR push_bit 4 e) AND 0x0f) = e"
  for x y e :: u8
  unfolding and_mask_take_bit and_f0 by (rule bit_word_eqI) (auto simp: bit_simps dest: u8_bit_bound)

lemma length_qr_encode [simp, dmr_len]: "length (dmr_qr_16_7_encode buf) = length buf"
  by (simp add: dmr_qr_16_7_encode_def Let_def)

lemma length_emb_header_bytes [simp, dmr_len]: "length (emb_header_bytes emb) = 2"
  by (simp add: emb_header_bytes_def)

lemma qr_encode_accepted: "length buf = 2 \<Longrightarrow> dmr_qr_16_7_decode (dmr_qr_16_7_encode buf)"
  unfolding qr_decode_iff by (simp only: qr_word_encode)

lemma list_2: "length xs = 2 \<Longrightarrow> [xs ! 0, xs ! 1] = xs"
  by (auto simp: length_Suc_conv numeral_2_eq_2)

text \<open>Bits 1 to 7 of the transmitted byte are those of the header byte.\<close>

lemma bit_emb_header:
  assumes "0 < m"
  shows "bit (dmr_qr_16_7_encode (emb_header_bytes emb) ! 0) m \<longleftrightarrow>
    m < 4 \<and> bit (emb_color_code emb) m \<or> m = 4 \<and> emb_pi emb \<or> 5 \<le> m \<and> m < 7 \<and> bit (emb_lcss emb) (m - 5)"
proof -
  have pi_bit: "bit (push_bit 4 (if c then 0x01 else 0x00 :: u8)) m \<longleftrightarrow> c \<and> m = 4" for c
    unfolding bit_push_bit_iff by (cases c) (auto simp: bit_1_iff)
  have "bit (dmr_qr_16_7_encode (emb_header_bytes emb) ! 0) m =
      bit (drop_bit 1 (dmr_qr_16_7_encode (emb_header_bytes emb) ! 0)) (m - 1)"
    using assms by (simp add: bit_simps)
  also have "\<dots> = bit (emb_header_bytes emb ! 0) m"
    using assms unfolding qr_word_encode(2) [OF length_emb_header_bytes] by (simp add: bit_simps)
  also have "\<dots> = (m < 4 \<and> bit (emb_color_code emb) m \<or> m = 4 \<and> emb_pi emb \<or>
      5 \<le> m \<and> m < 7 \<and> bit (emb_lcss emb) (m - 5))"
    unfolding emb_header_bytes_def nth_Cons_0 and_mask_take_bit bit_or_iff pi_bit
    by (cases "m < 8") (auto simp: bit_simps)
  finally show ?thesis .
qed

lemma emb_encode_Inr: "\<exists>p. dmr_emb_encode (Some packet) (Some emb) = Inr p \<and> length p = length packet"
  by (simp add: dmr_emb_encode_def Let_def)

lemma emb_decode_encoded:
  assumes "length packet = 33" "dmr_emb_encode (Some packet) (Some emb) = Inr p"
  shows "dmr_emb_decode (Some p) (Some old) = Inr (old\<lparr>
    emb_color_code := push_bit 1 (ucast (emb_lcss emb AND 3)) OR (if emb_pi emb then 1 else 0),
    emb_pi := bit (emb_color_code emb) 3, emb_lcss := emb_lcss emb AND 3\<rparr>)"
proof -
  let ?e = "dmr_qr_16_7_encode (emb_header_bytes emb)"
  have p: "p = packet[13 := (packet ! 13 AND 0xf0) OR drop_bit 4 (?e ! 0),
      14 := (packet ! 14 AND 0x0f) OR push_bit 4 (?e ! 0), 18 := (packet ! 18 AND 0xf0) OR drop_bit 4 (?e ! 1),
      19 := (packet ! 19 AND 0x0f) OR push_bit 4 (?e ! 1)]"
    using assms(2) by (simp add: dmr_emb_encode_def Let_def)
  have n: "p ! 13 = (packet ! 13 AND 0xf0) OR drop_bit 4 (?e ! 0)"
    "p ! 14 = (packet ! 14 AND 0x0f) OR push_bit 4 (?e ! 0)"
    "p ! 18 = (packet ! 18 AND 0xf0) OR drop_bit 4 (?e ! 1)"
    "p ! 19 = (packet ! 19 AND 0x0f) OR push_bit 4 (?e ! 1)"
    using assms(1) unfolding p by simp_all
  have l: "[?e ! 0, ?e ! 1] = ?e" by (rule list_2) simp
  have d: "dmr_emb_decode (Some p) (Some old) = Inr (old\<lparr>emb_color_code := drop_bit 4 (?e ! 0) AND 0x0f,
      emb_pi := (?e ! 0 AND 0x08 = 0x08), emb_lcss := ucast (drop_bit 5 (?e ! 0) AND 0x07)\<rparr>)"
    unfolding dmr_emb_decode_def prod.case option.case Let_def n emb_nibbles l
    by (simp only: qr_encode_accepted length_emb_header_bytes not_True_eq_False if_False)
  have m7: "w AND 0x07 = take_bit 3 w" for w :: u8
    by (simp add: take_bit_eq_mask mask_numeral)
  have "drop_bit 4 (?e ! 0) AND 0x0f = push_bit 1 (ucast (emb_lcss emb AND 3)) OR (if emb_pi emb then 1 else 0)"
    unfolding and_mask_take_bit
    by (rule bit_word_eqI) (auto simp: bit_simps bit_emb_header bit_1_iff)
  moreover have "(?e ! 0 AND 0x08 = 0x08) = bit (emb_color_code emb) 3"
    using and_pow2 [of "?e ! 0" 3] by (simp add: bit_emb_header)
  moreover have "ucast (drop_bit 5 (?e ! 0) AND 0x07) = emb_lcss emb AND 3"
    unfolding and_mask_take_bit m7 by (rule bit_word_eqI) (auto simp: bit_simps bit_emb_header)
  ultimately show ?thesis using d by simp
qed

section \<open>The fragment\<close>

lemma divmod_8: "r < 8 \<Longrightarrow> (8 * q + r) div 8 = q \<and> (8 * q + r) mod 8 = (r :: nat)"
  by simp

lemma emb_put_bits:
  assumes "length packet = 33" "length b = 4" "dmr_emb_encode (Some (emb_put_fragment b packet)) (Some emb) = Inr p"
  shows "take 32 (drop 116 (bytes_bits p)) = bytes_bits b"
proof -
  let ?e = "dmr_qr_16_7_encode (emb_header_bytes emb)" and ?q = "emb_put_fragment b packet"
  have "p = ?q[13 := (?q ! 13 AND 0xf0) OR drop_bit 4 (?e ! 0),
      14 := (?q ! 14 AND 0x0f) OR push_bit 4 (?e ! 0), 18 := (?q ! 18 AND 0xf0) OR drop_bit 4 (?e ! 1),
      19 := (?q ! 19 AND 0x0f) OR push_bit 4 (?e ! 1)]"
    using assms(3) by (simp add: dmr_emb_encode_def Let_def)
  then have len: "length p = 33"
    and p: "p ! 14 = ((packet ! 14 AND 0xf0) OR drop_bit 4 (b ! 0)) AND 0x0f OR push_bit 4 (?e ! 0)"
      "p ! 15 = push_bit 4 (b ! 0) OR drop_bit 4 (b ! 1)" "p ! 16 = push_bit 4 (b ! 1) OR drop_bit 4 (b ! 2)"
      "p ! 17 = push_bit 4 (b ! 2) OR drop_bit 4 (b ! 3)"
      "p ! 18 = (push_bit 4 (b ! 3) OR drop_bit 4 (packet ! 18)) AND 0xf0 OR drop_bit 4 (?e ! 1)"
    using assms(1) by (simp_all add: emb_put_fragment_def)
  have low: "bit (p ! (14 + k)) m = bit (b ! k) (4 + m)" if "k < 4" "m < 4" for k m
    using that p unfolding and_mask_take_bit and_f0
    by (cases "k = 0 \<or> k = 1 \<or> k = 2 \<or> k = 3") (auto simp: bit_simps)
  have high: "bit (p ! (15 + k)) m = bit (b ! k) (m - 4)" if "k < 4" "4 \<le> m" "m < 8" for k m
    using that p u8_bit_bound [of "b ! (k + 1)" "4 + m"] u8_bit_bound [of "?e ! 1" "4 + m"]
      u8_bit_bound [of "packet ! 18" "4 + m"] unfolding and_mask_take_bit and_f0
    by (cases "k = 0 \<or> k = 1 \<or> k = 2 \<or> k = 3") (auto simp: bit_simps numeral_2_eq_2 numeral_3_eq_3)
  show ?thesis
  proof (rule nth_equalityI)
    fix i assume "i < length (take 32 (drop 116 (bytes_bits p)))"
    then have i: "i < 32" by simp
    have "take 32 (drop 116 (bytes_bits p)) ! i = bit (p ! ((116 + i) div 8)) (7 - (116 + i) mod 8)"
      using i len by (simp add: nth_bytes_bits)
    also have "\<dots> = bit (b ! (i div 8)) (7 - i mod 8)"
    proof -
      define q r where "q = i div 8" and "r = i mod 8"
      have qr: "q < 4" "r < 8" using i by (simp_all add: q_def r_def)
      have "i = 8 * q + r" by (simp add: q_def r_def)
      then have "116 + i = 8 * (14 + q) + (r + 4)" and "4 \<le> r \<Longrightarrow> 116 + i = 8 * (15 + q) + (r - 4)" by simp_all
      then have dm: "r < 4 \<Longrightarrow> (116 + i) div 8 = 14 + q \<and> (116 + i) mod 8 = r + 4"
        "4 \<le> r \<Longrightarrow> (116 + i) div 8 = 15 + q \<and> (116 + i) mod 8 = r - 4"
        using divmod_8 [of "r + 4" "14 + q"] divmod_8 [of "r - 4" "15 + q"] qr by simp_all
      show ?thesis
        using dm low [of q "3 - r"] high [of q "11 - r"] qr unfolding q_def [symmetric] r_def [symmetric]
        by (cases "r < 4") simp_all
    qed
    finally show "take 32 (drop 116 (bytes_bits p)) ! i = bytes_bits b ! i"
      using i assms(2) by (simp add: nth_bytes_bits)
  qed (simp add: len assms(2))
qed

text \<open>What a receiver can read at bits 116 to 147 of the burst.\<close>

definition emb_field :: "u8 list \<Rightarrow> bool list" where
  "emb_field packet = take 32 (drop 116 (bytes_bits packet))"

lemma unat_fragment_offset: "unat (ucast fragment * 32 :: u16) = unat fragment * 32" for fragment :: u8
proof -
  have u: "unat (ucast fragment :: u16) = unat fragment"
    using unat_u8_less [of fragment] by (simp add: unsigned_ucast_eq take_bit_nat_eq_self)
  then have "unat (ucast fragment :: u16) * unat (32 :: u16) < 2 ^ LENGTH(16)"
    using unat_u8_less [of fragment] by simp
  then show ?thesis using u unat_mult_lem [of "ucast fragment :: u16" 32] by simp
qed

lemma emb_fragment_field:
  assumes "length packet = 33" "vb_wf v" "unat fragment * 32 + 32 \<le> 16 * unat (vb_rows v)"
  shows "\<exists>p. dmr_emb_lcss_fragment_encode (Some packet) (Some emb) (Some v) fragment = Some (Inr p) \<and>
    length p = 33 \<and> emb_field p = take 32 (drop (unat fragment * 32) (vb_stream v)) \<and>
    dmr_emb_decode (Some p) (Some old) = Inr (old\<lparr>
      emb_color_code := push_bit 1 (ucast (emb_lcss emb AND 3)) OR (if emb_pi emb then 1 else 0),
      emb_pi := bit (emb_color_code emb) 3, emb_lcss := emb_lcss emb AND 3\<rparr>)"
proof -
  let ?f = "take 32 (drop (unat fragment * 32) (vb_stream v))"
  have f: "length ?f = 32" using assms(2,3) by (simp add: length_vb_stream)
  have g: "dmr_vbptc_16_11_get_fragment (Some v) (Some (replicate 32 False)) (ucast fragment * 32) 32 = Some (Inr ?f)"
    using vbptc_get_fragment_eq [OF assms(2), of "ucast fragment * 32" 32 "replicate 32 False"] assms(3) f
    by (simp add: unat_fragment_offset blit_def)
  have b: "dmr_bits_to_bytes ?f 32 (replicate 4 0) 4 = Some (bits_bytes ?f)"
    using dmr_bits_to_bytes_eq [of ?f 4 "replicate 4 0"] f by simp
  obtain p where p: "dmr_emb_encode (Some (emb_put_fragment (bits_bytes ?f) packet)) (Some emb) = Inr p"
    "length p = 33" using emb_encode_Inr assms(1) by (metis emb_put_fragment_def length_list_update)
  have "emb_field p = ?f" using emb_put_bits [OF assms(1) _ p(1)] f by (simp add: emb_field_def)
  moreover have "dmr_emb_lcss_fragment_encode (Some packet) (Some emb) (Some v) fragment = Some (Inr p)"
    using p by (simp add: dmr_emb_lcss_fragment_encode_def g b Let_def)
  ultimately show ?thesis
    using p(2) emb_decode_encoded [OF _ p(1), of old] assms(1) by (simp add: emb_put_fragment_def)
qed

section \<open>Properties\<close>

text \<open>
  The header that \<open>dmr_emb_encode\<close> writes is accepted by \<open>dmr_emb_decode\<close>, but the two
  disagree about the layout: the fragment position comes back, while the color code read is
  twice the fragment position plus the privacy flag, and the privacy flag read is bit 3 of
  the color code.
\<close>

theorem emb_header_encode_decode:
  assumes "length packet = 33"
  shows "\<exists>p. dmr_emb_encode (Some packet) (Some emb) = Inr p \<and>
    dmr_emb_decode (Some p) (Some old) = Inr (old\<lparr>
      emb_color_code := push_bit 1 (ucast (emb_lcss emb AND 3)) OR (if emb_pi emb then 1 else 0),
      emb_pi := bit (emb_color_code emb) 3, emb_lcss := emb_lcss emb AND 3\<rparr>)"
  using emb_encode_Inr [of packet emb] emb_decode_encoded [OF assms] by blast

theorem emb_header_encode_decode_witness:
  "\<exists>p. dmr_emb_encode (Some (replicate 33 0x5a)) (Some \<lparr>emb_color_code = 1, emb_pi = True, emb_lcss = 2, emb_crc = 0\<rparr>) = Inr p \<and>
    dmr_emb_decode (Some p) (Some \<lparr>emb_color_code = 0, emb_pi = False, emb_lcss = 0, emb_crc = 0\<rparr>) =
      Inr \<lparr>emb_color_code = 5, emb_pi = False, emb_lcss = 2, emb_crc = 0\<rparr>"
  using emb_header_encode_decode [of "replicate 33 0x5a" "\<lparr>emb_color_code = 1, emb_pi = True, emb_lcss = 2, emb_crc = 0\<rparr>"
    "\<lparr>emb_color_code = 0, emb_pi = False, emb_lcss = 0, emb_crc = 0\<rparr>"] by simp

text \<open>
  The matrix crosses the air in four bursts: for a matrix of eight rows, the four calls of
  \<open>dmr_emb_lcss_fragment_encode\<close> succeed on any four bursts and any headers, and the 32-bit
  fields of the four bursts together are the whole matrix in column order.
\<close>

theorem emb_fragments_carry_matrix:
  assumes "vb_wf v" "vb_rows v = 8" "length packets = 4" "\<forall>packet \<in> set packets. length packet = 33"
    and "length embs = 4"
  shows "\<exists>ps. length ps = 4 \<and>
    (\<forall>k < 4. dmr_emb_lcss_fragment_encode (Some (packets ! k)) (Some (embs ! k)) (Some v) (of_nat k) = Some (Inr (ps ! k))) \<and>
    concat (map emb_field ps) = vb_stream v"
proof -
  have k: "unat (of_nat k :: u8) = k" if "k < 4" for k
    using that by (simp add: unat_of_nat take_bit_nat_eq_self)
  define enc where "enc k p \<longleftrightarrow> dmr_emb_lcss_fragment_encode (Some (packets ! k)) (Some (embs ! k)) (Some v) (of_nat k) =
    Some (Inr p) \<and> emb_field p = take 32 (drop (k * 32) (vb_stream v))" for k p
  have "\<exists>p. enc k p" if "k < 4" for k
    using emb_fragment_field [of "packets ! k" v "of_nat k" "embs ! k"] assms k [OF that] that
    unfolding enc_def by fastforce
  then obtain f where f: "enc k (f k)" if "k < 4" for k by metis
  let ?s = "vb_stream v"
  have l: "length ?s = 128" using assms(1,2) by (simp add: length_vb_stream)
  have "concat (map (\<lambda>k. emb_field (f k)) [0..<4]) =
      take 32 ?s @ take 32 (drop 32 ?s) @ take 32 (drop 64 ?s) @ take 32 (drop 96 ?s)"
    using f unfolding enc_def by (simp add: upt_rec)
  also have "\<dots> = ?s"
    using l append_take_drop_id [of 32 "drop 64 ?s"] append_take_drop_id [of 32 "drop 32 ?s"]
      append_take_drop_id [of 32 ?s] by (simp only: drop_drop) simp
  finally show ?thesis
    using f unfolding enc_def by (intro exI [of _ "map f [0..<4]"]) (simp add: o_def)
qed

theorem emb_fragments_carry_matrix_witness:
  "\<exists>ps. length ps = 4 \<and>
    (\<forall>k < 4. dmr_emb_lcss_fragment_encode (Some (replicate 4 (replicate 33 0xaa) ! k))
       (Some (replicate 4 \<lparr>emb_color_code = 1, emb_pi = False, emb_lcss = 3, emb_crc = 0\<rparr> ! k))
       (Some \<lparr>vb_matrix = Some (replicate 128 True), vb_row = 0, vb_col = 0, vb_rows = 8\<rparr>) (of_nat k) = Some (Inr (ps ! k))) \<and>
    concat (map emb_field ps) = vb_stream \<lparr>vb_matrix = Some (replicate 128 True), vb_row = 0, vb_col = 0, vb_rows = 8\<rparr>"
  by (rule emb_fragments_carry_matrix) (simp_all add: vb_wf_def vb_used_def)

end
