(* ===== verification/Dmr_Trellis.thy ===== *)
theory Dmr_Trellis
  imports Dmr_Bits Dmr_Bptc
begin

unbundle bit_operations_syntax

text \<open>
  \<open>src/dmr/fec/trellis.c\<close>: the decoder of the rate 3/4 trellis code.  The stages of the one C
  function are a definition each: dibits, deinterleaving, constellation points, the walk
  through the state transition table, and the packing of the result.  The stages up to the
  walk are proved to invert an encoder built from the same tables; the packing stage reads an
  array that nothing was written to.
\<close>

section \<open>Definitions\<close>

definition state_transition_table :: "u8 list" where
  "state_transition_table =
    [0,  8, 4, 12, 2, 10, 6, 14,
     4, 12, 2, 10, 6, 14, 0,  8,
     1,  9, 5, 13, 3, 11, 7, 15,
     5, 13, 3, 11, 7, 15, 1,  9,
     3, 11, 7, 15, 1,  9, 5, 13,
     7, 15, 1,  9, 5, 13, 3, 11,
     2, 10, 6, 14, 0,  8, 4, 12,
     6, 14, 0,  8, 4, 12, 2, 10]"

text \<open>The \<open>int8_t\<close> values are only copied and compared.\<close>

definition constellation_point_mapping :: "(int \<times> int) list" where
  "constellation_point_mapping =
    [(1, -1), (-1, -1), (3, -3), (-3, -3),
     (-3, -1), (3, -1), (-1, -3), (1, -3),
     (-3, 3), (3, 3), (-1, 1), (1, 1),
     (1, 3), (-1, 3), (3, 1), (-3, 1)]"

definition rate_34_interleaving_schedule :: "u8 list" where
  "rate_34_interleaving_schedule =
    [0x00, 0x01, 0x08, 0x09, 0x10, 0x11, 0x18, 0x19, 0x20, 0x21, 0x28, 0x29,
     0x30, 0x31, 0x38, 0x39, 0x40, 0x41, 0x48, 0x49, 0x50, 0x51, 0x58, 0x59,
     0x60, 0x61, 0x02, 0x03, 0x0a, 0x0b, 0x12, 0x13, 0x1a, 0x1b, 0x22, 0x23,
     0x2a, 0x2b, 0x32, 0x33, 0x3a, 0x3b, 0x42, 0x43, 0x4a, 0x4b, 0x52, 0x53,
     0x5a, 0x5b, 0x04, 0x05, 0x0c, 0x0d, 0x14, 0x15, 0x1c, 0x1d, 0x24, 0x25,
     0x2c, 0x2d, 0x34, 0x35, 0x3c, 0x3d, 0x44, 0x45, 0x4c, 0x4d, 0x54, 0x55,
     0x5c, 0x5d, 0x06, 0x07, 0x0e, 0x0f, 0x16, 0x17, 0x1e, 0x1f, 0x26, 0x27,
     0x2e, 0x2f, 0x36, 0x37, 0x3e, 0x3f, 0x46, 0x47, 0x4e, 0x4f, 0x56, 0x57,
     0x5e, 0x5f]"

definition trellis_dibit :: "bool \<Rightarrow> bool \<Rightarrow> int" where
  "trellis_dibit b0 b1 = (if b0 then if b1 then -3 else -1 else if b1 then 3 else 1)"

text \<open>The loop reads \<open>bits\<close>, not the array \<open>info\<close> that was just cut out of it.\<close>

definition trellis_dibits :: "bool list \<Rightarrow> int list" where
  "trellis_dibits bits = map (\<lambda>o'. trellis_dibit (bits ! (2 * o')) (bits ! (2 * o' + 1))) [0..<98]"

text \<open>\<open>uninit\<close> is what the local array holds before the loop.\<close>

definition trellis_deinterleave :: "int list \<Rightarrow> int list \<Rightarrow> int list" where
  "trellis_deinterleave uninit dibits =
     fold (\<lambda>i d. d[unat (rate_34_interleaving_schedule ! i) := dibits ! i]) [0..<98] uninit"

text \<open>The inner loop over the sixteen points; \<open>old\<close> is left where none of them fits.\<close>

definition trellis_point :: "u8 \<Rightarrow> int \<Rightarrow> int \<Rightarrow> u8" where
  "trellis_point old d0 d1 =
     (case filter (\<lambda>j. constellation_point_mapping ! j = (d0, d1)) [0..<16] of
        [] \<Rightarrow> old
      | j # _ \<Rightarrow> of_nat j)"

definition trellis_points :: "u8 list \<Rightarrow> int list \<Rightarrow> u8 list" where
  "trellis_points uninit dibits =
     map (\<lambda>o'. trellis_point (uninit ! o') (dibits ! (2 * o')) (dibits ! (2 * o' + 1))) [0..<49]"

text \<open>The search of a row of the state transition table, the row of the last tribit.\<close>

definition trellis_match :: "u8 \<Rightarrow> u8 \<Rightarrow> u8 option" where
  "trellis_match prev point =
     (let start = unat prev * 8
      in case filter (\<lambda>j. point = state_transition_table ! j) [start..<start + 8] of
           [] \<Rightarrow> None
         | j # _ \<Rightarrow> Some (of_nat (j - start)))"

text \<open>The walk; \<open>Inl i\<close> is the error at point \<open>i\<close>.\<close>

fun trellis_walk :: "nat \<Rightarrow> u8 \<Rightarrow> u8 list \<Rightarrow> nat + u8 list" where
  "trellis_walk i prev [] = Inr []"
| "trellis_walk i prev (p # ps) =
     (case trellis_match prev p of
        None \<Rightarrow> Inl i
      | Some t \<Rightarrow> (case trellis_walk (Suc i) t ps of Inl e \<Rightarrow> Inl e | Inr ts \<Rightarrow> Inr (t # ts)))"

definition trellis_tribits :: "int list \<Rightarrow> u8 list \<Rightarrow> bool list \<Rightarrow> nat + u8 list" where
  "trellis_tribits uninit_d uninit_p bits =
     trellis_walk 0 0 (take 48 (trellis_points uninit_p (trellis_deinterleave uninit_d (trellis_dibits bits))))"

text \<open>The loop that maps the tribits back writes into \<open>bits\<close>.\<close>

definition trellis_map_tribits :: "u8 list \<Rightarrow> bool list \<Rightarrow> bool list" where
  "trellis_map_tribits tribits bits =
     fold (\<lambda>o' bits.
        let t = tribits ! o';
            bits = (if t AND 4 > 0 then bits[3 * o' := True] else bits);
            bits = (if t AND 2 > 0 then bits[3 * o' + 1 := True] else bits)
        in (if t AND 1 > 0 then bits[3 * o' + 2 := True] else bits)) [0..<48] bits"

text \<open>\<open>None\<close> is an access outside the packet or outside \<open>bytes\<close>.\<close>

definition dmr_trellis_rate_34_decode ::
  "int list \<Rightarrow> u8 list \<Rightarrow> u8 list option \<Rightarrow> u8 list option \<Rightarrow> (failure + u8 list) option" where
  "dmr_trellis_rate_34_decode uninit_d uninit_p packet bytes =
     (case (packet, bytes) of
        (Some packet, Some bytes) \<Rightarrow> do {
          bits \<leftarrow> dmr_bytes_to_bits packet DMR_PACKET_LEN (replicate DMR_PACKET_BITS False) DMR_PACKET_BITS;
          case trellis_tribits uninit_d uninit_p bits of
            Inl i \<Rightarrow> Some (Inl Fail)
          | Inr tribits \<Rightarrow>
              let info = replicate 196 False;
                  bits = trellis_map_tribits tribits bits
              in do { bytes \<leftarrow> dmr_bits_to_bytes info 144 bytes 18; Some (Inr bytes) } }
      | _ \<Rightarrow> Some (Inl (Errno DMR_EINVAL)))"

section \<open>An encoder from the same tables\<close>

fun trellis_enc_points :: "u8 \<Rightarrow> u8 list \<Rightarrow> u8 list" where
  "trellis_enc_points prev [] = []"
| "trellis_enc_points prev (t # ts) = state_transition_table ! (unat prev * 8 + unat t) # trellis_enc_points t ts"

definition trellis_enc_dibits :: "u8 list \<Rightarrow> int list" where
  "trellis_enc_dibits ps = concat (map (\<lambda>p. case constellation_point_mapping ! unat p of (a, b) \<Rightarrow> [a, b]) ps)"

definition trellis_enc_bits :: "u8 list \<Rightarrow> bool list" where
  "trellis_enc_bits ps =
     concat (map (\<lambda>i. let d = trellis_enc_dibits ps ! unat (rate_34_interleaving_schedule ! i)
                      in [d < 0, \<bar>d\<bar> = 3]) [0..<98])"

section \<open>The stages invert the encoder\<close>

lemma trellis_dibit_bits: "d \<in> {1, 3, -1, -3} \<Longrightarrow> trellis_dibit (d < 0) (\<bar>d\<bar> = 3) = d"
  by (auto simp: trellis_dibit_def)

fun match_row_ok :: "nat \<Rightarrow> nat \<Rightarrow> bool" where
  "match_row_ok l t \<longleftrightarrow> trellis_match (of_nat l) (state_transition_table ! (l * 8 + t)) = Some (of_nat t) \<and>
     state_transition_table ! (l * 8 + t) < 16"

lemma match_row_ok_all: "\<forall>l \<in> set [0..<8]. \<forall>t \<in> set [0..<8]. match_row_ok l t"
  by (simp add: upt_rec trellis_match_def state_transition_table_def Let_def)

lemma trellis_match_table:
  assumes "unat l < 8" "unat t < 8"
  shows "trellis_match l (state_transition_table ! (unat l * 8 + unat t)) = Some t"
    and "state_transition_table ! (unat l * 8 + unat t) < 16"
  using match_row_ok_all assms by (force simp: Ball_def)+

lemma trellis_walk_enc:
  "unat l < 8 \<Longrightarrow> \<forall>t \<in> set ts. unat t < 8 \<Longrightarrow> trellis_walk i l (trellis_enc_points l ts) = Inr ts"
  by (induction ts arbitrary: i l) (simp_all add: trellis_match_table)

lemma trellis_enc_points_bound:
  "unat l < 8 \<Longrightarrow> \<forall>t \<in> set ts. unat t < 8 \<Longrightarrow> \<forall>p \<in> set (trellis_enc_points l ts). p < 16"
  by (induction ts arbitrary: l) (auto simp: trellis_match_table)

lemma length_trellis_enc_points [simp, dmr_len]: "length (trellis_enc_points l ts) = length ts"
  by (induction ts arbitrary: l) simp_all

fun point_ok :: "nat \<Rightarrow> bool" where
  "point_ok j \<longleftrightarrow> (case constellation_point_mapping ! j of (a, b) \<Rightarrow>
     (\<forall>old. trellis_point old a b = of_nat j) \<and> a \<in> {1, 3, -1, -3} \<and> b \<in> {1, 3, -1, -3})"

lemma point_ok_all: "\<forall>j \<in> set [0..<16]. point_ok j"
  by (simp add: upt_rec trellis_point_def constellation_point_mapping_def)

lemma point_ok_word: "p < 16 \<Longrightarrow> point_ok (unat p)" for p :: u8
proof -
  assume "p < 16"
  then have "unat p \<in> set [0..<16]" by (simp add: word_less_nat_alt)
  with point_ok_all show ?thesis by blast
qed

lemma length_trellis_enc_dibits [simp, dmr_len]: "length (trellis_enc_dibits ps) = 2 * length ps"
  by (induction ps) (simp_all add: trellis_enc_dibits_def split: prod.splits)

lemma trellis_enc_dibits_nth:
  "k < length ps \<Longrightarrow>
   (trellis_enc_dibits ps ! (2 * k), trellis_enc_dibits ps ! (2 * k + 1)) = constellation_point_mapping ! unat (ps ! k)"
proof (induction ps arbitrary: k)
  case (Cons p ps)
  have "trellis_enc_dibits (p # ps) =
      fst (constellation_point_mapping ! unat p) # snd (constellation_point_mapping ! unat p) # trellis_enc_dibits ps"
    by (simp add: trellis_enc_dibits_def split: prod.splits)
  with Cons show ?case by (cases k) auto
qed simp

lemma trellis_enc_dibits_set:
  assumes "\<forall>p \<in> set ps. p < 16"
  shows "set (trellis_enc_dibits ps) \<subseteq> {1, 3, -1, -3}"
  using assms
proof (induction ps)
  case (Cons p ps)
  from Cons.prems have "point_ok (unat p)" by (intro point_ok_word) simp
  with Cons show ?case by (auto simp: trellis_enc_dibits_def split: prod.splits)
qed (simp add: trellis_enc_dibits_def)

lemma trellis_points_enc:
  assumes "length ps = 49" "\<forall>p \<in> set ps. p < 16"
  shows "trellis_points uninit (trellis_enc_dibits ps) = ps"
proof (rule nth_equalityI)
  fix k assume "k < length (trellis_points uninit (trellis_enc_dibits ps))"
  then have k: "k < 49" by (simp add: trellis_points_def)
  then have "point_ok (unat (ps ! k))" using assms by (intro point_ok_word) simp
  with trellis_enc_dibits_nth [of k ps] k assms(1)
  show "trellis_points uninit (trellis_enc_dibits ps) ! k = ps ! k"
    by (simp add: trellis_points_def split: prod.splits)
qed (use assms in \<open>simp add: trellis_points_def\<close>)

text \<open>The schedule is a permutation of the 98 positions.\<close>

definition schedule :: "nat \<Rightarrow> nat" where
  "schedule i = unat (rate_34_interleaving_schedule ! i)"

lemma length_schedule: "length rate_34_interleaving_schedule = 98"
  by (simp add: rate_34_interleaving_schedule_def)

lemma schedule_list:
  "distinct (map schedule [0..<98]) \<and> (\<forall>x \<in> set (map schedule [0..<98]). x < 98)"
proof -
  have "map schedule [0..<98] = map unat rate_34_interleaving_schedule"
    by (rule nth_equalityI) (simp_all add: schedule_def length_schedule)
  then show ?thesis by (simp add: rate_34_interleaving_schedule_def)
qed

lemma schedule_inj: "inj_on schedule (set [0..<98])"
  using schedule_list by (simp add: distinct_map)

lemma schedule_surj: "k < 98 \<Longrightarrow> \<exists>i < 98. schedule i = k"
proof -
  assume k: "k < 98"
  have "schedule ` {0..<98} \<subseteq> {0..<98}" using schedule_list by auto
  moreover have "card (schedule ` {0..<98}) = card {0..<98 :: nat}" using schedule_inj by (simp add: card_image)
  ultimately have "schedule ` {0..<98} = {0..<98}" by (simp add: card_subset_eq)
  with k show ?thesis by (metis atLeastLessThan_iff imageE zero_le)
qed

lemma trellis_deinterleave_nth:
  assumes "length uninit = 98" "i < 98"
  shows "trellis_deinterleave uninit dibits ! schedule i = dibits ! i"
  unfolding trellis_deinterleave_def schedule_def [symmetric]
  using assms schedule_inj schedule_list by (intro nth_fold_update_in) auto

lemma trellis_deinterleave_interleaved:
  assumes "length uninit = 98" "length ds = 98" "\<And>i. i < 98 \<Longrightarrow> dibits ! i = ds ! schedule i"
  shows "trellis_deinterleave uninit dibits = ds"
proof (rule nth_equalityI)
  show "length (trellis_deinterleave uninit dibits) = length ds"
    using assms by (simp add: trellis_deinterleave_def)
  fix k assume "k < length (trellis_deinterleave uninit dibits)"
  then have "k < 98" using assms by (simp add: trellis_deinterleave_def)
  then obtain i where "i < 98" "schedule i = k" using schedule_surj by blast
  then show "trellis_deinterleave uninit dibits ! k = ds ! k"
    using trellis_deinterleave_nth [OF assms(1), of i dibits] assms(3) by auto
qed

lemma concat_pairs_nth:
  "i < n \<Longrightarrow> concat (map (\<lambda>i. [f i, g i]) [0..<n]) ! (2 * i) = f i \<and>
    concat (map (\<lambda>i. [f i, g i]) [0..<n]) ! (2 * i + 1) = g i"
proof (induction n)
  case (Suc n)
  have "length (concat (map (\<lambda>i. [f i, g i]) [0..<n])) = 2 * n" by (induction n) simp_all
  with Suc show ?case by (cases "i = n") (auto simp: nth_append)
qed simp

lemma trellis_tribits_enc:
  assumes "length uninit_d = 98" "length ts = 48" "\<forall>t \<in> set ts. unat t < 8" "p < 16"
    and "take 196 bits = trellis_enc_bits (trellis_enc_points 0 ts @ [p])" "196 \<le> length bits"
  shows "trellis_tribits uninit_d uninit_p bits = Inr ts"
proof -
  let ?ps = "trellis_enc_points 0 ts @ [p]"
  let ?d = "\<lambda>i. trellis_enc_dibits ?ps ! schedule i"
  have ps: "\<forall>p \<in> set ?ps. p < 16" using trellis_enc_points_bound [of 0 ts] assms by auto
  have "trellis_dibits bits ! i = ?d i" if "i < 98" for i
  proof -
    have "bits ! (2 * i) = (?d i < 0) \<and> bits ! (2 * i + 1) = (\<bar>?d i\<bar> = 3)"
      using concat_pairs_nth [of i 98 "\<lambda>i. ?d i < 0" "\<lambda>i. \<bar>?d i\<bar> = 3"] that
        nth_take [of "2 * i" 196 bits] nth_take [of "2 * i + 1" 196 bits] assms(5)
      by (simp add: trellis_enc_bits_def schedule_def Let_def)
    moreover have "?d i \<in> {1, 3, -1, -3}"
      using trellis_enc_dibits_set [OF ps] schedule_list assms(2) that nth_mem [of "schedule i" "trellis_enc_dibits ?ps"]
      by (simp add: subset_iff)
    ultimately show ?thesis using that by (simp add: trellis_dibits_def trellis_dibit_bits)
  qed
  then have "trellis_deinterleave uninit_d (trellis_dibits bits) = trellis_enc_dibits ?ps"
    using assms(1,2) by (intro trellis_deinterleave_interleaved) simp_all
  then have "trellis_points uninit_p (trellis_deinterleave uninit_d (trellis_dibits bits)) = ?ps"
    using trellis_points_enc [of ?ps] ps assms(2) by simp
  then show ?thesis using trellis_walk_enc [of 0 ts] assms(2,3) by (simp add: trellis_tribits_def)
qed

section \<open>The packed result\<close>

lemma trellis_bits_of_packet:
  "length packet = 33 \<Longrightarrow>
   dmr_bytes_to_bits packet DMR_PACKET_LEN (replicate DMR_PACKET_BITS False) DMR_PACKET_BITS = Some (bytes_bits packet)"
  using dmr_bytes_to_bits_eq [of packet 33 "replicate 264 False"] by simp

lemma trellis_zero_bytes:
  "18 \<le> length bytes \<Longrightarrow>
   dmr_bits_to_bytes (replicate 196 False) 144 bytes 18 = Some (replicate 18 0 @ drop 18 bytes)"
proof -
  have "dmr_bits_to_byte (drop (i * 8) (replicate 196 False)) = 0" if "i < 18" for i
    using that by (intro bit_word_eqI) (simp add: bit_dmr_bits_to_byte)
  then have "map (\<lambda>i. dmr_bits_to_byte (drop (i * 8) (replicate 196 False))) [0..<18] = replicate 18 0"
    by (intro nth_equalityI) simp_all
  then show "18 \<le> length bytes \<Longrightarrow> ?thesis"
    using bits_to_bytes_loop [of 18 bytes "replicate 196 False"] by (simp add: dmr_bits_to_bytes_def del: drop_replicate)
qed

lemma trellis_decode_cases:
  assumes "length packet = 33" "18 \<le> length bytes"
  shows "dmr_trellis_rate_34_decode uninit_d uninit_p (Some packet) (Some bytes) =
    (case trellis_tribits uninit_d uninit_p (bytes_bits packet) of
       Inl i \<Rightarrow> Some (Inl Fail) | Inr ts \<Rightarrow> Some (Inr (replicate 18 0 @ drop 18 bytes)))"
  using assms by (simp add: dmr_trellis_rate_34_decode_def trellis_bits_of_packet trellis_zero_bytes split: sum.splits)

section \<open>Properties\<close>

text \<open>
  C25. The trellis walk recovers the message and the decoder throws it away: when the first
  196 bits of the packet are the trellis encoding of 48 tribits (built from the same three
  tables, any closing point), the stages up to the walk return exactly these tribits,
  whatever the uninitialised locals held, and yet the decoder reports success with eighteen
  zero bytes, since it packs the cleared array instead of the one it filled.
\<close>

theorem trellis_rate_34_recovers_and_drops:
  assumes "length uninit_d = 98" "length ts = 48" "\<forall>t \<in> set ts. unat t < 8" "p < 16"
    and "length packet = 33" "length bytes = 18"
    and "take 196 (bytes_bits packet) = trellis_enc_bits (trellis_enc_points 0 ts @ [p])"
  shows "trellis_tribits uninit_d uninit_p (bytes_bits packet) = Inr ts \<and>
    dmr_trellis_rate_34_decode uninit_d uninit_p (Some packet) (Some bytes) = Some (Inr (replicate 18 0))"
  using trellis_tribits_enc [OF assms(1-4,7)] assms(5,6) by (simp add: trellis_decode_cases)

text \<open>A burst whose tribits are all seven.\<close>

definition trellis_example :: "u8 list" where
  "trellis_example =
     [0x48, 0x88, 0x88, 0x88, 0x88, 0x88, 0x28, 0x88, 0x88, 0x88, 0x88, 0x88, 0x88, 0x88, 0x88, 0x88,
      0x88, 0x88, 0x88, 0x88, 0x88, 0x88, 0x88, 0x88, 0x80, 0, 0, 0, 0, 0, 0, 0, 0]"

lemma trellis_example_bits:
  "take 196 (bytes_bits trellis_example) = trellis_enc_bits (trellis_enc_points 0 (replicate 48 7) @ [0])"
  by code_simp

theorem trellis_rate_34_recovers_and_drops_witness:
  "trellis_tribits (replicate 98 0) (replicate 49 0) (bytes_bits trellis_example) = Inr (replicate 48 7) \<and>
   dmr_trellis_rate_34_decode (replicate 98 0) (replicate 49 0) (Some trellis_example) (Some (replicate 18 0xff)) =
     Some (Inr (replicate 18 0))"
  by (rule trellis_rate_34_recovers_and_drops [OF _ _ _ _ _ _ trellis_example_bits])
    (simp_all add: trellis_example_def)

end
