(* ===== verification/Dmr_Data.thy ===== *)
theory Dmr_Data
  imports Dmr_Crc Dmr_Lc Dmr_Trellis
begin

unbundle bit_operations_syntax

text \<open>
  \<open>src/dmr/payload/data.c\<close>: packet data.  The header burst is BPTC(196,96) coded and holds, by
  data packet format, one of seven layouts; the data bursts are trellis coded.
\<close>

section \<open>Definitions\<close>

type_synonym dmr_dpf = u32
type_synonym dmr_sap = u32
type_synonym dmr_dd = u32
type_synonym dmr_udtf = u32
type_synonym dmr_data_rate = u32

abbreviation (input) DMR_DPF_UDT :: dmr_dpf where "DMR_DPF_UDT \<equiv> 0x00"
abbreviation (input) DMR_DPF_RESPONSE :: dmr_dpf where "DMR_DPF_RESPONSE \<equiv> 0x01"
abbreviation (input) DMR_DPF_UNCONFIRMED :: dmr_dpf where "DMR_DPF_UNCONFIRMED \<equiv> 0x02"
abbreviation (input) DMR_DPF_CONFIRMED :: dmr_dpf where "DMR_DPF_CONFIRMED \<equiv> 0x03"
abbreviation (input) DMR_DPF_DEFINED_SHORT :: dmr_dpf where "DMR_DPF_DEFINED_SHORT \<equiv> 0x0d"
abbreviation (input) DMR_DPF_RAW_SHORT :: dmr_dpf where "DMR_DPF_RAW_SHORT \<equiv> 0x0e"
abbreviation (input) DMR_DPF_PROPRIETARY :: dmr_dpf where "DMR_DPF_PROPRIETARY \<equiv> 0x0f"

abbreviation (input) DMR_SAP_UDT :: dmr_sap where "DMR_SAP_UDT \<equiv> 0x00"
abbreviation (input) DMR_SAP_TCPIP_HEADER_COMPRESSION :: dmr_sap where "DMR_SAP_TCPIP_HEADER_COMPRESSION \<equiv> 0x02"
abbreviation (input) DMR_SAP_UDPIP_HEADER_COMPRESSION :: dmr_sap where "DMR_SAP_UDPIP_HEADER_COMPRESSION \<equiv> 0x03"
abbreviation (input) DMR_SAP_IP_BASED_PACKET_DATA :: dmr_sap where "DMR_SAP_IP_BASED_PACKET_DATA \<equiv> 0x04"
abbreviation (input) DMR_SAP_ARP :: dmr_sap where "DMR_SAP_ARP \<equiv> 0x05"
abbreviation (input) DMR_SAP_PROPRIETARY_DATA :: dmr_sap where "DMR_SAP_PROPRIETARY_DATA \<equiv> 0x09"
abbreviation (input) DMR_SAP_SHORT_DATA :: dmr_sap where "DMR_SAP_SHORT_DATA \<equiv> 0x0a"

abbreviation (input) DMR_DATA_RATE1 :: dmr_data_rate where "DMR_DATA_RATE1 \<equiv> 1"
abbreviation (input) DMR_DATA_RATE12 :: dmr_data_rate where "DMR_DATA_RATE12 \<equiv> 12"
abbreviation (input) DMR_DATA_RATE34 :: dmr_data_rate where "DMR_DATA_RATE34 \<equiv> 34"

text \<open>
  The union of the header, one constructor per member with its fields in the order of the struct:
  \<^item> \<open>Unconfirmed\<close>: \<open>pad_octet_count\<close>, \<open>full_message\<close>, \<open>blocks_to_follow\<close>, \<open>fragment_seq\<close>
  \<^item> \<open>Confirmed\<close>: \<open>pad_octet_count\<close>, \<open>full_message\<close>, \<open>blocks_to_follow\<close>, \<open>resync\<close>, \<open>send_seq\<close>, \<open>fragment_seq\<close>
  \<^item> \<open>Response\<close>: \<open>blocks_to_follow\<close>, \<open>class_type\<close>, \<open>status\<close>
  \<^item> \<open>Raw_Short\<close>: \<open>appended_blocks\<close>, \<open>src_port\<close>, \<open>dst_port\<close>, \<open>resync\<close>, \<open>full_message\<close>, \<open>bit_padding\<close>
  \<^item> \<open>Defined_Short\<close>: \<open>appended_blocks\<close>, \<open>dd\<close>, \<open>resync\<close>, \<open>full_message\<close>, \<open>bit_padding\<close>
  \<^item> \<open>Udt\<close>: \<open>udtf\<close>, \<open>pad_nibble\<close>, \<open>appended_blocks\<close>, \<open>supplementary\<close>, \<open>opcode\<close>
  \<^item> \<open>Proprietary\<close>: \<open>mfid\<close>
\<close>

datatype dmr_data_union =
    Unconfirmed u8 bool u8 u8
  | Confirmed u8 bool u8 bool u8 u8
  | Response u8 u8 u8
  | Raw_Short u8 u8 u8 bool bool u8
  | Defined_Short u8 dmr_dd bool bool u8
  | Udt dmr_udtf u8 u8 bool u8
  | Proprietary u8

record dmr_data_header =
  dh_dpf :: dmr_dpf
  dh_group :: bool
  dh_response_requested :: bool
  dh_header_compression :: bool
  dh_sap :: dmr_sap
  dh_dst_id :: u32
  dh_src_id :: u32
  dh_crc :: u16
  dh_data :: dmr_data_union

record dmr_data_block =
  db_serial :: u8
  db_crc :: u16
  db_ok :: bool
  db_data :: "u8 list"
  db_length :: u8

definition dpf_names :: "(dmr_dpf \<times> string) list" where
  "dpf_names =
    [(DMR_DPF_UDT, ''Unified Data Transport (UDT)''),
     (DMR_DPF_RESPONSE, ''response''),
     (DMR_DPF_UNCONFIRMED, ''unconfirmed''),
     (DMR_DPF_CONFIRMED, ''confirmed''),
     (DMR_DPF_DEFINED_SHORT, ''defined short''),
     (DMR_DPF_RAW_SHORT, ''raw short''),
     (DMR_DPF_PROPRIETARY, ''proprietary'')]"

definition sap_names :: "(dmr_sap \<times> string) list" where
  "sap_names =
    [(DMR_SAP_UDT, ''Unified Data Transport (UDT)''),
     (DMR_SAP_TCPIP_HEADER_COMPRESSION, ''TCP/IP header compression''),
     (DMR_SAP_UDPIP_HEADER_COMPRESSION, ''UDP/IP header compression''),
     (DMR_SAP_IP_BASED_PACKET_DATA, ''IP based packet data''),
     (DMR_SAP_ARP, ''ARP''),
     (DMR_SAP_PROPRIETARY_DATA, ''proprietary data''),
     (DMR_SAP_SHORT_DATA, ''short data'')]"

text \<open>\<open>None\<close> is \<open>NULL\<close>.\<close>

definition dmr_dpf_name :: "dmr_dpf \<Rightarrow> string option" where
  "dmr_dpf_name dpf = map_of dpf_names dpf"

definition dmr_sap_name :: "dmr_sap \<Rightarrow> string option" where
  "dmr_sap_name sap = map_of sap_names sap"

definition data_header_crc :: "u8 list \<Rightarrow> u16" where
  "data_header_crc bytes =
     (let crc = fold (\<lambda>i crc. dmr_crc16 crc (bytes ! i)) [0..<10] 0;
          crc = dmr_crc16_finish crc
      in NOT crc XOR 0xcccc)"

text \<open>The \<open>switch\<close>; a format without a case leaves the union as it was.\<close>

definition data_header_union :: "u8 list \<Rightarrow> dmr_dpf \<Rightarrow> dmr_data_union \<Rightarrow> dmr_data_union" where
  "data_header_union bytes dpf old =
     (if dpf = DMR_DPF_PROPRIETARY then Proprietary (bytes ! 1 AND 0x7f)
      else if dpf = DMR_DPF_UDT then
        Udt (ucast (bytes ! 1 AND 0x0f)) (drop_bit 3 (bytes ! 8 AND 0xf8)) (bytes ! 8 AND 0x03)
          (bytes ! 9 AND 0x80 \<noteq> 0) (bytes ! 9 AND 0x3f)
      else if dpf = DMR_DPF_UNCONFIRMED then
        Unconfirmed ((bytes ! 0 AND 0x10) OR (bytes ! 1 AND 0x0f)) (bytes ! 8 AND 0x80 \<noteq> 0)
          (bytes ! 8 AND 0x7f) (bytes ! 9 AND 0x0f)
      else if dpf = DMR_DPF_CONFIRMED then
        Confirmed ((bytes ! 0 AND 0x10) OR (bytes ! 1 AND 0x0f)) (bytes ! 8 AND 0x80 \<noteq> 0)
          (bytes ! 8 AND 0x7f) (bytes ! 9 AND 0x80 \<noteq> 0) (drop_bit 4 (bytes ! 9 AND 0x70)) (bytes ! 9 AND 0x0f)
      else if dpf = DMR_DPF_RESPONSE then
        Response (bytes ! 8 AND 0x7f) (drop_bit 3 (bytes ! 9 AND 0xf8)) (bytes ! 9 AND 0x07)
      else if dpf = DMR_DPF_RAW_SHORT then
        Raw_Short ((bytes ! 0 AND 0x30) OR (bytes ! 1 AND 0x0f)) (drop_bit 5 (bytes ! 8 AND 0xe0))
          (drop_bit 2 (bytes ! 8 AND 0x1c)) (bytes ! 8 AND 0x02 \<noteq> 0) (bytes ! 8 AND 0x01 \<noteq> 0) (bytes ! 9)
      else if dpf = DMR_DPF_DEFINED_SHORT then
        Defined_Short ((bytes ! 0 AND 0x30) OR (bytes ! 1 AND 0x0f)) (ucast (drop_bit 2 (bytes ! 8 AND 0xfc)))
          (bytes ! 8 AND 0x02 \<noteq> 0) (bytes ! 8 AND 0x01 \<noteq> 0) (bytes ! 9)
      else old)"

text \<open>A checksum that does not match is only logged.\<close>

definition data_header_fields :: "u8 list \<Rightarrow> dmr_data_header \<Rightarrow> dmr_data_header" where
  "data_header_fields bytes header =
     (let dpf = ucast (bytes ! 0 AND 0x0f)
      in header\<lparr>
        dh_group := (bytes ! 0 AND 0x80 \<noteq> 0),
        dh_response_requested := (bytes ! 0 AND 0x40 \<noteq> 0),
        dh_header_compression := (bytes ! 0 AND 0x20 \<noteq> 0),
        dh_dpf := dpf,
        dh_sap := ucast (drop_bit 4 (bytes ! 1 AND 0xf0)),
        dh_src_id := lc_id (bytes ! 2) (bytes ! 3) (bytes ! 4),
        dh_dst_id := lc_id (bytes ! 5) (bytes ! 6) (bytes ! 7),
        dh_crc := push_bit 8 (ucast (bytes ! 10)) OR ucast (bytes ! 11),
        dh_data := data_header_union bytes dpf (dh_data header)\<rparr>)"

definition dmr_data_header_decode ::
  "bool \<Rightarrow> u8 list option \<Rightarrow> dmr_data_header option \<Rightarrow> dmr_data_type \<Rightarrow> (failure + dmr_data_header) option" where
  "dmr_data_header_decode mem packet header data_type =
     (case (packet, header) of
        (Some packet, Some header) \<Rightarrow>
          if data_type \<ge> DMR_DATA_TYPE_INVALID then Some (Inl (Errno DMR_EINVAL))
          else if \<not> mem then Some (Inl (Errno DMR_ENOMEM))
          else
            let bptc = \<lparr>bptc_raw = replicate 196 False, bptc_deinterleaved_bits = replicate 196 False\<rparr>
            in do { (r, bptc) \<leftarrow> dmr_bptc_196_96_decode (Some packet) (Some bptc) (Some (replicate 12 0));
                    case r of
                      Inl e \<Rightarrow> Some (Inl (Errno DMR_LASTERROR))
                    | Inr bytes \<Rightarrow> Some (Inr (data_header_fields bytes header)) }
      | _ \<Rightarrow> Some (Inl (Errno DMR_EINVAL)))"

definition dmr_data_block_size :: "dmr_data_rate \<Rightarrow> bool \<Rightarrow> u8" where
  "dmr_data_block_size rate confirmed =
     (if rate = DMR_DATA_RATE1 then if confirmed then 22 else 24
      else if rate = DMR_DATA_RATE12 then if confirmed then 10 else 12
      else if rate = DMR_DATA_RATE34 then if confirmed then 16 else 18
      else 0)"

text \<open>The checksum of a confirmed block: every data byte, the serial number, inversion and mask.\<close>

definition data_block_crc :: "dmr_data_block \<Rightarrow> u16" where
  "data_block_crc block =
     (let crc = fold (\<lambda>i crc. dmr_crc9 crc (db_data block ! i) 8) [0..<unat (db_length block)] 0;
          crc = dmr_crc9 crc (db_serial block) 7;
          crc = dmr_crc9_finish crc 8
      in (NOT crc AND 0x01ff) XOR 0x01ff)"

text \<open>
  \<open>uninit_d\<close> and \<open>uninit_p\<close> are the uninitialised locals of the trellis decoder.  The
  \<open>memcpy\<close> takes \<open>min (sizeof(block->data), sizeof(bytes))\<close> bytes from \<open>bytes + 2\<close>: the two bytes
  behind the array are \<open>beyond\<close>.
\<close>

definition dmr_data_block_decode ::
  "int list \<Rightarrow> u8 list \<Rightarrow> u8 list \<Rightarrow> u8 list option \<Rightarrow> dmr_data_block option \<Rightarrow> bool \<Rightarrow> dmr_data_type \<Rightarrow>
   (failure + dmr_data_block) option" where
  "dmr_data_block_decode uninit_d uninit_p beyond packet block confirmed data_type =
     (case (packet, block) of
        (Some packet, Some _) \<Rightarrow>
          if data_type = DMR_DATA_TYPE_RATE34_DATA then
            let len = dmr_data_block_size DMR_DATA_RATE34 confirmed;
                block = \<lparr>db_serial = 0, db_crc = 0, db_ok = False, db_data = replicate 24 0, db_length = len\<rparr>;
                bytes = replicate (unat len + 2) 0
            in do {
                 r \<leftarrow> dmr_trellis_rate_34_decode uninit_d uninit_p (Some packet) (Some bytes);
                 case r of
                   Inl e \<Rightarrow> Some (Inl (Errno DMR_LASTERROR))
                 | Inr bytes \<Rightarrow>
                     if confirmed then
                       let block = block\<lparr>db_serial := drop_bit 1 (bytes ! 0),
                             db_crc := push_bit 8 (ucast (bytes ! 0) AND 0x01) OR ucast (bytes ! 1),
                             db_data := blit (db_data block) 0 (take (min 24 (length bytes)) (drop 2 (bytes @ beyond)))\<rparr>;
                           ok = (data_block_crc block = db_crc block);
                           block = block\<lparr>db_ok := ok\<rparr>
                       in if \<not> ok then Some (Inl Fail) else Some (Inr block)
                     else Some (Inr block) }
          else Some (Inl (Errno DMR_EINVAL))
      | _ \<Rightarrow> Some (Inl (Errno DMR_EINVAL)))"

section \<open>Data blocks\<close>

lemma data_block_crc_zero:
  assumes "db_serial block = 0" "db_length block = 16" "\<forall>i < 16. db_data block ! i = 0"
  shows "data_block_crc block = 0"
proof -
  have "dmr_crc9 0 0 8 = 0" "dmr_crc9 0 0 7 = 0" "dmr_crc9_finish 0 8 = 0"
    by code_simp+
  moreover from this have "fold (\<lambda>i crc. dmr_crc9 crc (db_data block ! i) 8) [0..<16] 0 = 0"
    using assms(3) by (intro fold_inv [of "\<lambda>c. c = 0"]) simp_all
  ultimately show ?thesis using assms by (simp add: data_block_crc_def)
qed

section \<open>Headers\<close>

text \<open>A field that fits \<open>k\<close> bits, and a flag at a bit position.\<close>

definition fits :: "nat \<Rightarrow> 'a::len word \<Rightarrow> bool" where
  "fits k w \<longleftrightarrow> unat w < 2 ^ k"

definition flag :: "nat \<Rightarrow> bool \<Rightarrow> u8" where
  "flag k c = (if c then 2 ^ k else 0)"

lemma fits_bit: "fits k w \<Longrightarrow> bit w m \<Longrightarrow> m < k" for w :: "'a::len word"
  unfolding fits_def by (rule bit_less_take_bit [OF take_bit_of_less])

lemma bit_flag [simp]: "bit (flag k c) m \<longleftrightarrow> c \<and> m = k \<and> m < 8"
  by (auto simp: flag_def bit_exp_iff)

text \<open>
  The layout of the header bytes: what the standard calls the first two octets and octets 8
  and 9, from the fields of each format.
\<close>

fun union_bytes :: "dmr_data_union \<Rightarrow> u8 \<times> u8 \<times> u8 \<times> u8" where
  "union_bytes (Unconfirmed pad full blocks frag) =
     (pad AND 0x10, pad AND 0x0f, flag 7 full OR blocks, frag)"
| "union_bytes (Confirmed pad full blocks resync send frag) =
     (pad AND 0x10, pad AND 0x0f, flag 7 full OR blocks, flag 7 resync OR push_bit 4 send OR frag)"
| "union_bytes (Response blocks class_type status) = (0, 0, blocks, push_bit 3 class_type OR status)"
| "union_bytes (Raw_Short app src dst resync full pad) =
     (app AND 0x10, app AND 0x0f, push_bit 5 src OR push_bit 2 dst OR flag 1 resync OR flag 0 full, pad)"
| "union_bytes (Defined_Short app dd resync full pad) =
     (app AND 0x10, app AND 0x0f, push_bit 2 (ucast dd) OR flag 1 resync OR flag 0 full, pad)"
| "union_bytes (Udt udtf pad app supplementary opcode) =
     (0, ucast udtf, push_bit 3 pad OR app, flag 7 supplementary OR opcode)"
| "union_bytes (Proprietary mfid) = (0, mfid AND 0x0f, 0, 0)"

text \<open>
  Which fields fit: the short data formats share bit 5 of the first byte with the header
  compression flag, and the manufacturer id shares bits with the access point.
\<close>

fun union_wf :: "dmr_data_header \<Rightarrow> dmr_data_union \<Rightarrow> bool" where
  "union_wf h (Unconfirmed pad full blocks frag) \<longleftrightarrow>
     dh_dpf h = DMR_DPF_UNCONFIRMED \<and> fits 5 pad \<and> fits 7 blocks \<and> fits 4 frag"
| "union_wf h (Confirmed pad full blocks resync send frag) \<longleftrightarrow>
     dh_dpf h = DMR_DPF_CONFIRMED \<and> fits 5 pad \<and> fits 7 blocks \<and> fits 3 send \<and> fits 4 frag"
| "union_wf h (Response blocks class_type status) \<longleftrightarrow>
     dh_dpf h = DMR_DPF_RESPONSE \<and> fits 7 blocks \<and> fits 5 class_type \<and> fits 3 status"
| "union_wf h (Raw_Short app src dst resync full pad) \<longleftrightarrow>
     dh_dpf h = DMR_DPF_RAW_SHORT \<and> fits 6 app \<and> fits 3 src \<and> fits 3 dst \<and> dh_header_compression h = bit app 5"
| "union_wf h (Defined_Short app dd resync full pad) \<longleftrightarrow>
     dh_dpf h = DMR_DPF_DEFINED_SHORT \<and> fits 6 app \<and> fits 6 dd \<and> dh_header_compression h = bit app 5"
| "union_wf h (Udt udtf pad app supplementary opcode) \<longleftrightarrow>
     dh_dpf h = DMR_DPF_UDT \<and> fits 4 udtf \<and> fits 5 pad \<and> fits 2 app \<and> fits 6 opcode"
| "union_wf h (Proprietary mfid) \<longleftrightarrow>
     dh_dpf h = DMR_DPF_PROPRIETARY \<and> fits 7 mfid \<and> dh_sap h AND 7 = ucast (drop_bit 4 mfid)"

definition data_header_octets :: "dmr_data_header \<Rightarrow> u8 list" where
  "data_header_octets h =
     (case union_bytes (dh_data h) of (u0, u1, u8, u9) \<Rightarrow>
       [flag 7 (dh_group h) OR flag 6 (dh_response_requested h) OR flag 5 (dh_header_compression h) OR u0 OR
          ucast (dh_dpf h),
        push_bit 4 (ucast (dh_sap h)) OR u1,
        ucast (drop_bit 16 (dh_src_id h)), ucast (drop_bit 8 (dh_src_id h)), ucast (dh_src_id h),
        ucast (drop_bit 16 (dh_dst_id h)), ucast (drop_bit 8 (dh_dst_id h)), ucast (dh_dst_id h),
        u8, u9])"

definition data_header_bytes :: "dmr_data_header \<Rightarrow> u8 list" where
  "data_header_bytes h = data_header_octets h @ [ucast (drop_bit 8 (dh_crc h)), ucast (dh_crc h)]"

definition data_header_wf :: "dmr_data_header \<Rightarrow> bool" where
  "data_header_wf h \<longleftrightarrow> fits 4 (dh_sap h) \<and> fits 24 (dh_src_id h) \<and> fits 24 (dh_dst_id h) \<and> union_wf h (dh_data h)"

text \<open>The masks of the decoder as bit ranges.\<close>

lemma mask_bits:
  "bit (0xf8 :: u8) m \<longleftrightarrow> 3 \<le> m \<and> m < 8" "bit (0x70 :: u8) m \<longleftrightarrow> 4 \<le> m \<and> m < 7"
  "bit (0x30 :: u8) m \<longleftrightarrow> 4 \<le> m \<and> m < 6" "bit (0xe0 :: u8) m \<longleftrightarrow> 5 \<le> m \<and> m < 8"
  "bit (0x1c :: u8) m \<longleftrightarrow> 2 \<le> m \<and> m < 5" "bit (0xfc :: u8) m \<longleftrightarrow> 2 \<le> m \<and> m < 8"
  "bit (0xf0 :: u8) m \<longleftrightarrow> 4 \<le> m \<and> m < 8"
  by (cases "m < 8"; auto simp: less_Suc_eq numeral_eq_Suc dest: u8_bit_bound)+

lemma flag_test:
  "w AND 0x80 \<noteq> 0 \<longleftrightarrow> bit w 7" "w AND 0x40 \<noteq> 0 \<longleftrightarrow> bit w 6" "w AND 0x20 \<noteq> 0 \<longleftrightarrow> bit w 5"
  "w AND 0x02 \<noteq> 0 \<longleftrightarrow> bit w 1" "w AND 0x01 \<noteq> 0 \<longleftrightarrow> bit w 0" for w :: u8
  using and_pow2_nonzero [of w 7] and_pow2_nonzero [of w 6] and_pow2_nonzero [of w 5]
    and_pow2_nonzero [of w 1] and_pow2_nonzero [of w 0] by simp_all

lemma mask_forms:
  "drop_bit 4 (w AND 0xf0) = drop_bit 4 w" "drop_bit 3 (w AND 0xf8) = drop_bit 3 w"
  "drop_bit 4 (w AND 0x70) = take_bit 3 (drop_bit 4 w)" "drop_bit 5 (w AND 0xe0) = drop_bit 5 w"
  "drop_bit 2 (w AND 0x1c) = take_bit 3 (drop_bit 2 w)" "drop_bit 2 (w AND 0xfc) = drop_bit 2 w"
  "w AND 0x07 = take_bit 3 w"
  "w AND 0x10 = flag 4 (bit w 4)" for w :: u8
proof -
  note b = bit_drop_bit_eq bit_and_iff bit_push_bit_iff bit_take_bit_iff mask_bits
  show "drop_bit 4 (w AND 0xf0) = drop_bit 4 w" "drop_bit 3 (w AND 0xf8) = drop_bit 3 w"
    "drop_bit 4 (w AND 0x70) = take_bit 3 (drop_bit 4 w)" "drop_bit 5 (w AND 0xe0) = drop_bit 5 w"
    "drop_bit 2 (w AND 0x1c) = take_bit 3 (drop_bit 2 w)" "drop_bit 2 (w AND 0xfc) = drop_bit 2 w"
    by (rule bit_word_eqI; auto simp add: b simp del: drop_bit_and bit_numeral_word_iff dest: u8_bit_bound)+
  show "w AND 0x07 = take_bit 3 w" by (simp add: take_bit_eq_mask mask_numeral)
  show "w AND 0x10 = flag 4 (bit w 4)" using and_pow2 [of w 4] by (simp add: flag_def)
qed

lemma bit_and_30: "bit (w AND 0x30) m \<longleftrightarrow> (m = 4 \<or> m = 5) \<and> bit w m" for w :: u8
  unfolding bit_and_iff mask_bits by auto

lemma union_bytes_bits:
  assumes "union_wf h d" "union_bytes d = (u0, u1, u8, u9)"
  shows "bit u0 m \<Longrightarrow> m = 4" "bit u1 m \<Longrightarrow> m < 4" "fits 4 (dh_dpf h)"
proof -
  show "bit u0 m \<Longrightarrow> m = 4" "bit u1 m \<Longrightarrow> m < 4"
    using assms unfolding mask_forms and_mask_take_bit
    by (cases d; auto simp: bit_simps mask_forms and_mask_take_bit dest: fits_bit)+
  show "fits 4 (dh_dpf h)" using assms(1) by (cases d) (simp_all add: fits_def)
qed

lemma header_byte0:
  assumes u0: "\<forall>m. bit u0 m \<longrightarrow> m = 4" and dpf: "fits 4 dpf"
    and b_def: "b = flag 7 g OR flag 6 r OR flag 5 c OR u0 OR ucast (dpf :: u32)"
  shows "bit b 7 = g" "bit b 6 = r" "bit b 5 = c" "ucast (b AND 0x0f) = dpf" "b AND 0x10 = u0"
    "b AND 0x30 = flag 5 c OR u0"
proof -
  note d = fits_bit [OF dpf]
  have "u0 = flag 4 (bit u0 4)" by (rule bit_word_eqI) (auto dest: u0 [rule_format])
  then obtain z where z: "u0 = flag 4 z" ..
  show "bit b 7 = g" "bit b 6 = r" "bit b 5 = c"
    using u0 [rule_format, of 7] u0 [rule_format, of 6] u0 [rule_format, of 5] d [of 7] d [of 6] d [of 5]
    by (auto simp: b_def bit_simps)
  show "ucast (b AND 0x0f) = dpf"
    unfolding b_def and_mask_take_bit by (rule bit_word_eqI) (auto simp: bit_simps dest: d u0 [rule_format])
  show "b AND 0x10 = u0"
    unfolding b_def z mask_forms by (rule bit_word_eqI) (auto simp: bit_simps dest: d)
  show "b AND 0x30 = flag 5 c OR u0"
  proof (rule bit_word_eqI)
    fix n
    have "bit (b AND 0x30) n \<longleftrightarrow> (n = 4 \<or> n = 5) \<and> bit b n" by (rule bit_and_30)
    then show "bit (b AND 0x30) n = bit (flag 5 c OR u0) n"
      using d [of n] unfolding b_def z by (auto simp: bit_or_iff bit_unsigned_iff)
  qed
qed

lemma header_byte1:
  assumes u1: "\<forall>m. bit u1 m \<longrightarrow> m < 4" and sap: "fits 4 sap"
    and b_def: "b = push_bit 4 (ucast (sap :: u32)) OR (u1 :: u8)"
  shows "ucast (drop_bit 4 (b AND 0xf0)) = sap" "b AND 0x0f = u1" "b AND 0x7f = push_bit 4 (ucast (sap AND 7)) OR u1"
proof -
  note d = fits_bit [OF sap]
  have m7: "sap AND 7 = take_bit 3 sap" by (simp add: take_bit_eq_mask mask_numeral)
  show "ucast (drop_bit 4 (b AND 0xf0)) = sap"
    unfolding b_def mask_forms by (rule bit_word_eqI) (auto simp: bit_simps dest: d u1 [rule_format])
  show "b AND 0x0f = u1"
    unfolding b_def and_mask_take_bit by (rule bit_word_eqI) (auto simp: bit_simps dest: d u1 [rule_format])
  show "b AND 0x7f = push_bit 4 (ucast (sap AND 7)) OR u1"
    unfolding b_def m7 and_mask_take_bit by (rule bit_word_eqI) (auto simp: bit_simps dest: d u1 [rule_format])
qed

text \<open>Each byte taken apart again.\<close>

lemma split_pad:
  assumes "fits 5 pad"
  shows "(pad AND 0x10) OR (pad AND 0x0f) = (pad :: u8)"
  unfolding mask_forms and_mask_take_bit
proof (rule bit_word_eqI)
  fix m show "bit (flag 4 (bit pad 4) OR take_bit 4 pad) m = bit pad m"
    using fits_bit [OF assms, of m] by (cases "m = 4") (auto simp: bit_or_iff bit_take_bit_iff)
qed

lemma split_app:
  assumes "fits 6 app"
  shows "(flag 5 (bit app 5) OR (app AND 0x10)) OR (app AND 0x0f) = (app :: u8)"
  unfolding mask_forms and_mask_take_bit
proof (rule bit_word_eqI)
  fix m show "bit ((flag 5 (bit app 5) OR flag 4 (bit app 4)) OR take_bit 4 app) m = bit app m"
    using fits_bit [OF assms, of m] by (cases "m = 4"; cases "m = 5") (auto simp: bit_or_iff bit_take_bit_iff)
qed

lemma fits_take_bit: "fits k w \<Longrightarrow> \<exists>v. w = take_bit k v" for w :: "'a::len word"
  unfolding fits_def by (metis take_bit_of_less)

lemma split_flag7:
  assumes "fits 7 x"
  shows "bit (flag 7 c OR x) 7 = c" "(flag 7 c OR x) AND 0x7f = (x :: u8)"
proof -
  obtain x' where x: "x = take_bit 7 x'" using fits_take_bit assms by blast
  show "bit (flag 7 c OR x) 7 = c" "(flag 7 c OR x) AND 0x7f = (x :: u8)"
    unfolding x mask_forms and_mask_take_bit
    by (auto simp: bit_simps intro!: bit_word_eqI)
qed

lemma split_seq:
  assumes "fits 3 send" "fits 4 frag"
  shows "bit (flag 7 r OR push_bit 4 send OR frag) 7 = r" "drop_bit 4 ((flag 7 r OR push_bit 4 send OR frag) AND 0x70) = send" "(flag 7 r OR push_bit 4 send OR frag) AND 0x0f = (frag :: u8)"
proof -
  obtain send' where send: "send = take_bit 3 send'" using fits_take_bit assms by blast
  obtain frag' where frag: "frag = take_bit 4 frag'" using fits_take_bit assms by blast
  show "bit (flag 7 r OR push_bit 4 send OR frag) 7 = r" "drop_bit 4 ((flag 7 r OR push_bit 4 send OR frag) AND 0x70) = send" "(flag 7 r OR push_bit 4 send OR frag) AND 0x0f = (frag :: u8)"
    unfolding send frag mask_forms and_mask_take_bit
    by (auto simp: bit_simps intro!: bit_word_eqI)
qed

lemma split_35:
  assumes "fits 5 a" "fits 3 b"
  shows "drop_bit 3 ((push_bit 3 a OR b) AND 0xf8) = a" "(push_bit 3 a OR b) AND 0x07 = (b :: u8)"
proof -
  obtain a' where a: "a = take_bit 5 a'" using fits_take_bit assms by blast
  obtain b' where b: "b = take_bit 3 b'" using fits_take_bit assms by blast
  show "drop_bit 3 ((push_bit 3 a OR b) AND 0xf8) = a" "(push_bit 3 a OR b) AND 0x07 = (b :: u8)"
    unfolding a b mask_forms and_mask_take_bit
    by (auto simp: bit_simps intro!: bit_word_eqI)
qed

lemma split_25:
  assumes "fits 5 a" "fits 2 b"
  shows "drop_bit 3 ((push_bit 3 a OR b) AND 0xf8) = a" "(push_bit 3 a OR b) AND 0x03 = (b :: u8)"
proof -
  obtain a' where a: "a = take_bit 5 a'" using fits_take_bit assms by blast
  obtain b' where b: "b = take_bit 2 b'" using fits_take_bit assms by blast
  show "drop_bit 3 ((push_bit 3 a OR b) AND 0xf8) = a" "(push_bit 3 a OR b) AND 0x03 = (b :: u8)"
    unfolding a b mask_forms and_mask_take_bit
    by (auto simp: bit_simps intro!: bit_word_eqI)
qed

lemma split_ports:
  assumes "fits 3 a" "fits 3 b" and w_def: "w = push_bit 5 a OR push_bit 2 b OR flag 1 r OR flag 0 f"
  shows "drop_bit 5 (w AND 0xe0) = a" "drop_bit 2 (w AND 0x1c) = b" "bit w 1 = r" "bit w 0 = (f :: bool)"
proof -
  obtain a' where a: "a = take_bit 3 a'" using fits_take_bit assms by blast
  obtain b' where b: "b = take_bit 3 b'" using fits_take_bit assms by blast
  show "drop_bit 5 (w AND 0xe0) = a" "drop_bit 2 (w AND 0x1c) = b" "bit w 1 = r" "bit w 0 = (f :: bool)"
    unfolding w_def a b mask_forms and_mask_take_bit
    by (auto simp: bit_simps simp flip: bit_0 intro!: bit_word_eqI)
qed

lemma split_dd:
  assumes "fits 6 (a :: u32)" and w_def: "w = push_bit 2 (ucast a) OR flag 1 r OR flag 0 f"
  shows "ucast (drop_bit 2 (w AND 0xfc)) = a" "bit w 1 = r" "bit w 0 = (f :: bool)"
proof -
  obtain a' where a: "a = take_bit 6 a'" using fits_take_bit assms by blast
  show "ucast (drop_bit 2 (w AND 0xfc)) = a" "bit w 1 = r" "bit w 0 = (f :: bool)"
    unfolding w_def a mask_forms and_mask_take_bit
    by (auto simp: bit_simps simp flip: bit_0 intro!: bit_word_eqI)
qed

lemma split_opcode:
  assumes "fits 6 x"
  shows "bit (flag 7 c OR x) 7 = c" "(flag 7 c OR x) AND 0x3f = (x :: u8)"
proof -
  obtain x' where x: "x = take_bit 6 x'" using fits_take_bit assms by blast
  show "bit (flag 7 c OR x) 7 = c" "(flag 7 c OR x) AND 0x3f = (x :: u8)"
    unfolding x mask_forms and_mask_take_bit
    by (auto simp: bit_simps intro!: bit_word_eqI)
qed

lemma split_mfid:
  assumes "fits 7 x"
  shows "push_bit 4 (ucast (ucast (drop_bit 4 x) :: u32)) OR (x AND 0x0f) = (x :: u8)"
  unfolding and_mask_take_bit by (rule bit_word_eqI) (auto simp: bit_simps)

lemma split_low: "fits 4 x \<Longrightarrow> x AND 0x0f = x" "fits 7 x \<Longrightarrow> x AND 0x7f = x" for x :: u8
  unfolding and_mask_take_bit fits_def by (rule take_bit_of_less, assumption)+

lemma split_udtf: "fits 4 x \<Longrightarrow> ucast (ucast x :: u8) = (x :: u32)"
  by (rule bit_word_eqI) (auto simp: bit_simps dest: fits_bit)

lemma data_union_of_bytes:
  assumes u: "union_bytes d = (u0, u1, u8, u9)" and wf: "union_wf h d"
    and "b ! 0 AND 0x10 = u0" "b ! 0 AND 0x30 = flag 5 (dh_header_compression h) OR u0"
    and "b ! 1 AND 0x0f = u1" "b ! 1 AND 0x7f = push_bit 4 (ucast (dh_sap h AND 7)) OR u1"
    and "b ! 8 = u8" "b ! 9 = u9"
  shows "data_header_union b (dh_dpf h) old = d"
proof -
  have b: "b ! 0 AND 0x10 = fst (union_bytes d)" "b ! 0 AND 0x30 = flag 5 (dh_header_compression h) OR fst (union_bytes d)"
    "b ! 1 AND 0x0f = fst (snd (union_bytes d))" "b ! 1 AND 0x7f = push_bit 4 (ucast (dh_sap h AND 7)) OR fst (snd (union_bytes d))"
    "b ! 8 = fst (snd (snd (union_bytes d)))" "b ! 9 = snd (snd (snd (union_bytes d)))"
    using assms by simp_all
  show ?thesis
  proof (cases d)
    case (Unconfirmed pad full blocks frag)
    then show ?thesis
      using b wf by (simp add: data_header_union_def flag_test split_pad split_flag7 split_low del: drop_bit_and drop_bit_or)
  next
    case (Confirmed pad full blocks resync send frag)
    then show ?thesis
      using b wf by (simp add: data_header_union_def flag_test split_pad split_flag7 split_seq del: drop_bit_and drop_bit_or)
  next
    case (Response blocks class_type status)
    then show ?thesis
      using b wf by (simp add: data_header_union_def split_35 split_low del: drop_bit_and drop_bit_or)
  next
    case (Raw_Short app src dst resync full pad)
    then show ?thesis
      using b wf split_ports [of src dst _ resync full, OF _ _ refl] split_app [of app]
      by (simp add: data_header_union_def flag_test del: drop_bit_and drop_bit_or)
  next
    case (Defined_Short app dd resync full pad)
    then show ?thesis
      using b wf split_dd [of dd _ resync full, OF _ refl] split_app [of app]
      by (simp add: data_header_union_def flag_test del: drop_bit_and drop_bit_or)
  next
    case (Udt udtf pad app supplementary opcode)
    then show ?thesis
      using b wf by (simp add: data_header_union_def flag_test split_25 split_opcode split_udtf del: drop_bit_and drop_bit_or)
  next
    case (Proprietary mfid)
    then show ?thesis
      using b wf by (simp add: data_header_union_def split_mfid del: drop_bit_and drop_bit_or)
  qed
qed

lemma data_header_fields_bytes:
  assumes "data_header_wf h"
  shows "data_header_fields (data_header_bytes h) old = h"
proof -
  obtain u0 u1 u8 u9 where u: "union_bytes (dh_data h) = (u0, u1, u8, u9)" by (rule prod_cases4)
  let ?b = "data_header_bytes h"
  have wf: "fits 4 (dh_sap h)" "union_wf h (dh_data h)" and ids: "unat (dh_src_id h) < 2 ^ 24" "unat (dh_dst_id h) < 2 ^ 24"
    using assms by (simp_all add: data_header_wf_def fits_def)
  have b: "?b ! 0 = flag 7 (dh_group h) OR flag 6 (dh_response_requested h) OR flag 5 (dh_header_compression h) OR u0 OR
      ucast (dh_dpf h)" "?b ! 1 = push_bit 4 (ucast (dh_sap h)) OR u1" "?b ! 8 = u8" "?b ! 9 = u9"
    by (simp_all add: data_header_bytes_def data_header_octets_def u)
  have u01: "\<forall>m. bit u0 m \<longrightarrow> m = 4" "\<forall>m. bit u1 m \<longrightarrow> m < 4" using union_bytes_bits [OF wf(2) u] by blast+
  note b0 = header_byte0 [OF u01(1) union_bytes_bits(3) [OF wf(2) u] b(1)] and b1 = header_byte1 [OF u01(2) wf(1) b(2)]
  have src: "lc_id (?b ! 2) (?b ! 3) (?b ! 4) = dh_src_id h" and dst: "lc_id (?b ! 5) (?b ! 6) (?b ! 7) = dh_dst_id h"
    using lc_id_split [OF ids(1)] lc_id_split [OF ids(2)] by (simp_all add: data_header_bytes_def data_header_octets_def u)
  have crc: "push_bit 8 (ucast (?b ! 10)) OR ucast (?b ! 11) = dh_crc h"
    by (rule bit_word_eqI) (auto simp: data_header_bytes_def data_header_octets_def u bit_simps)
  note d = data_union_of_bytes [OF u wf(2) b0(5,6) b1(2,3) b(3,4)]
  show ?thesis
    unfolding data_header_fields_def Let_def flag_test b0(1-4) b1(1) src dst crc d by simp
qed

section \<open>Properties\<close>

text \<open>
  C26. Data header round trip: for each of the seven formats, a header whose fields fit is
  laid out in twelve bytes, BPTC coded and decoded to exactly the same header.  The checksum
  field is free: a header with a wrong CRC-16 is delivered all the same.
\<close>

theorem data_header_roundtrip:
  assumes "data_header_wf h" "length packet = 33" "length uninit = 264" "bptc_wf bptc" "data_type < 10"
  shows "\<exists>p st. dmr_bptc_196_96_encode uninit (Some packet) (Some bptc) (Some (data_header_bytes h)) = Some (Inr p, st) \<and>
    dmr_data_header_decode True (Some p) (Some old) data_type = Some (Inr h)"
proof -
  have len: "length (data_header_bytes h) = 12"
    by (simp add: data_header_bytes_def data_header_octets_def split: prod.splits)
  from bptc_encode_eq [OF len assms(2,4,3)] obtain p st where
    p: "dmr_bptc_196_96_encode uninit (Some packet) (Some bptc) (Some (data_header_bytes h)) = Some (Inr p, st)"
    "length p = 33" "bptc_matrix p = bptc_encode_matrix (bytes_bits (data_header_bytes h))" by blast
  let ?z = "\<lparr>bptc_raw = replicate 196 False, bptc_deinterleaved_bits = replicate 196 False\<rparr>"
  obtain st' where "dmr_bptc_196_96_decode (Some p) (Some ?z) (Some (replicate 12 0)) = Some (Inr (data_header_bytes h), st')"
    using bptc_decode_encoded [OF p(2,3) len, of ?z "replicate 12 0"] by (auto simp: bptc_wf_def)
  then have "dmr_data_header_decode True (Some p) (Some old) data_type = Some (Inr h)"
    using assms(5) data_header_fields_bytes [OF assms(1), of old] by (simp add: dmr_data_header_decode_def)
  with p(1) show ?thesis by blast
qed

theorem data_header_roundtrip_witness:
  "\<exists>p st. dmr_bptc_196_96_encode (replicate 264 True) (Some (replicate 33 0))
      (Some \<lparr>bptc_raw = replicate 196 True, bptc_deinterleaved_bits = replicate 196 False\<rparr>)
      (Some (data_header_bytes \<lparr>dh_dpf = 3, dh_group = True, dh_response_requested = True, dh_header_compression = False,
        dh_sap = 4, dh_dst_id = 2041, dh_src_id = 2042214, dh_crc = 0xbeef, dh_data = Confirmed 17 True 5 False 6 9\<rparr>)) =
      Some (Inr p, st) \<and>
    dmr_data_header_decode True (Some p) (Some \<lparr>dh_dpf = 0, dh_group = False, dh_response_requested = False,
      dh_header_compression = False, dh_sap = 0, dh_dst_id = 0, dh_src_id = 0, dh_crc = 0, dh_data = Proprietary 0\<rparr>) 6 =
      Some (Inr \<lparr>dh_dpf = 3, dh_group = True, dh_response_requested = True, dh_header_compression = False,
        dh_sap = 4, dh_dst_id = 2041, dh_src_id = 2042214, dh_crc = 0xbeef, dh_data = Confirmed 17 True 5 False 6 9\<rparr>)"
  by (rule data_header_roundtrip) (simp_all add: data_header_wf_def fits_def bptc_wf_def)

text \<open>
  What a rate 3/4 data burst decodes to: for every packet, either the trellis walk fails,
  which is reported, or the block is delivered as valid with serial number, checksum and
  sixteen (eighteen) data bytes all zero.  The checksum of a confirmed block never fails.
\<close>

theorem data_block_decode_delivers_zeros:
  assumes "length packet = 33" "length beyond = 2"
  shows "dmr_data_block_decode uninit_d uninit_p beyond (Some packet) (Some block) confirmed DMR_DATA_TYPE_RATE34_DATA =
    (case trellis_tribits uninit_d uninit_p (bytes_bits packet) of
       Inl i \<Rightarrow> Some (Inl (Errno DMR_LASTERROR))
     | Inr ts \<Rightarrow> Some (Inr (if confirmed
         then \<lparr>db_serial = 0, db_crc = 0, db_ok = True, db_data = replicate 16 0 @ beyond @ replicate 6 0, db_length = 16\<rparr>
         else \<lparr>db_serial = 0, db_crc = 0, db_ok = False, db_data = replicate 24 0, db_length = 18\<rparr>)))"
proof -
  let ?b = "\<lparr>db_serial = 0, db_crc = 0, db_ok = False, db_data = replicate 16 0 @ beyond @ replicate 6 0, db_length = 16\<rparr>"
  have crc: "data_block_crc ?b = 0" by (rule data_block_crc_zero) (simp_all add: nth_append)
  have "drop 2 (replicate 18 0 @ beyond) = replicate 16 0 @ beyond" by simp
  then have copy: "blit (replicate 24 0) 0 (take 18 (drop 2 (replicate 18 0 @ beyond))) = replicate 16 0 @ beyond @ replicate 6 0"
    using assms(2) by (simp add: blit_def)
  show ?thesis
    using assms(1) crc copy
    by (auto simp: dmr_data_block_decode_def dmr_data_block_size_def trellis_decode_cases Let_def split: sum.splits)
qed

theorem data_block_decode_delivers_zeros_witness:
  "dmr_data_block_decode (replicate 98 0) (replicate 49 0) [1, 2] (Some trellis_example)
     (Some \<lparr>db_serial = 9, db_crc = 9, db_ok = False, db_data = replicate 24 9, db_length = 9\<rparr>) True DMR_DATA_TYPE_RATE34_DATA =
   Some (Inr \<lparr>db_serial = 0, db_crc = 0, db_ok = True, db_data = replicate 16 0 @ [1, 2] @ replicate 6 0, db_length = 16\<rparr>)"
proof -
  have "trellis_tribits (replicate 98 0) (replicate 49 0) (bytes_bits trellis_example) = Inr (replicate 48 7)"
    by (rule trellis_tribits_enc [where p = 0])
      (simp_all only: trellis_example_bits, simp_all add: trellis_example_def)
  then show ?thesis
    by (subst data_block_decode_delivers_zeros) (simp_all add: trellis_example_def)
qed

end
