(* ===== verification/Dmr_Queue.thy ===== *)
theory Dmr_Queue
  imports Dmr_Prelude
begin

text \<open>
  The tail queue macros of \<open>include/dmr/queue.h\<close> on an explicit store.  Elements are addresses;
  the head and every element hold a pointer to the next element and the address of the pointer
  that points at them.  The macros are proved to implement the operations of lists, which is
  the level at which \<open>Dmr_Raw\<close> and \<open>Dmr_Packetq\<close> use them.
\<close>

section \<open>Definitions\<close>

type_synonym addr = nat

text \<open>The address of a \<open>struct type *\<close> variable: \<open>&head->tqh_first\<close> or \<open>&elm->field.tqe_next\<close>.\<close>

datatype slot = First_slot | Next_slot addr

record tailq =
  tqh_first :: "addr option"
  tqh_last :: slot
  tqe_next :: "addr \<Rightarrow> addr option"
  tqe_prev :: "addr \<Rightarrow> slot"

text \<open>\<open>*p\<close> and \<open>*p = v\<close>.\<close>

fun read_slot :: "tailq \<Rightarrow> slot \<Rightarrow> addr option" where
  "read_slot q First_slot = tqh_first q"
| "read_slot q (Next_slot a) = tqe_next q a"

fun write_slot :: "slot \<Rightarrow> addr option \<Rightarrow> tailq \<Rightarrow> tailq" where
  "write_slot First_slot v q = q\<lparr>tqh_first := v\<rparr>"
| "write_slot (Next_slot a) v q = q\<lparr>tqe_next := (tqe_next q)(a := v)\<rparr>"

definition set_prev :: "addr \<Rightarrow> slot \<Rightarrow> tailq \<Rightarrow> tailq" where
  "set_prev a s q = q\<lparr>tqe_prev := (tqe_prev q)(a := s)\<rparr>"

definition DMR_TAILQ_FIRST :: "tailq \<Rightarrow> addr option" where
  "DMR_TAILQ_FIRST q = tqh_first q"

definition DMR_TAILQ_NEXT :: "tailq \<Rightarrow> addr \<Rightarrow> addr option" where
  "DMR_TAILQ_NEXT q elm = tqe_next q elm"

definition DMR_TAILQ_EMPTY :: "tailq \<Rightarrow> bool" where
  "DMR_TAILQ_EMPTY q \<longleftrightarrow> DMR_TAILQ_FIRST q = None"

definition DMR_TAILQ_INIT :: "tailq \<Rightarrow> tailq" where
  "DMR_TAILQ_INIT q = q\<lparr>tqh_first := None, tqh_last := First_slot\<rparr>"

definition DMR_TAILQ_INSERT_HEAD :: "addr \<Rightarrow> tailq \<Rightarrow> tailq" where
  "DMR_TAILQ_INSERT_HEAD elm q =
     (let q = write_slot (Next_slot elm) (tqh_first q) q;
          q = (case tqh_first q of
                 Some f \<Rightarrow> set_prev f (Next_slot elm) q
               | None \<Rightarrow> q\<lparr>tqh_last := Next_slot elm\<rparr>);
          q = q\<lparr>tqh_first := Some elm\<rparr>
      in set_prev elm First_slot q)"

definition DMR_TAILQ_INSERT_TAIL :: "addr \<Rightarrow> tailq \<Rightarrow> tailq" where
  "DMR_TAILQ_INSERT_TAIL elm q =
     (let q = write_slot (Next_slot elm) None q;
          q = set_prev elm (tqh_last q) q;
          q = write_slot (tqh_last q) (Some elm) q
      in q\<lparr>tqh_last := Next_slot elm\<rparr>)"

definition DMR_TAILQ_INSERT_AFTER :: "addr \<Rightarrow> addr \<Rightarrow> tailq \<Rightarrow> tailq" where
  "DMR_TAILQ_INSERT_AFTER listelm elm q =
     (let q = write_slot (Next_slot elm) (tqe_next q listelm) q;
          q = (case tqe_next q elm of
                 Some n \<Rightarrow> set_prev n (Next_slot elm) q
               | None \<Rightarrow> q\<lparr>tqh_last := Next_slot elm\<rparr>);
          q = write_slot (Next_slot listelm) (Some elm) q
      in set_prev elm (Next_slot listelm) q)"

definition DMR_TAILQ_INSERT_BEFORE :: "addr \<Rightarrow> addr \<Rightarrow> tailq \<Rightarrow> tailq" where
  "DMR_TAILQ_INSERT_BEFORE listelm elm q =
     (let q = set_prev elm (tqe_prev q listelm) q;
          q = write_slot (Next_slot elm) (Some listelm) q;
          q = write_slot (tqe_prev q listelm) (Some elm) q
      in set_prev listelm (Next_slot elm) q)"

text \<open>The invalidation of the removed element is only compiled in for debugging.\<close>

definition DMR_TAILQ_REMOVE :: "addr \<Rightarrow> tailq \<Rightarrow> tailq" where
  "DMR_TAILQ_REMOVE elm q =
     (let q = (case tqe_next q elm of
                 Some n \<Rightarrow> set_prev n (tqe_prev q elm) q
               | None \<Rightarrow> q\<lparr>tqh_last := tqe_prev q elm\<rparr>)
      in write_slot (tqe_prev q elm) (tqe_next q elm) q)"

text \<open>The elements in the order in which \<open>FOREACH_SAFE\<close> visits them, when its loop ends.\<close>

partial_function (option) tailq_foreach :: "tailq \<Rightarrow> addr option \<Rightarrow> addr list option" where
  "tailq_foreach q var =
     (case var of
        None \<Rightarrow> Some []
      | Some x \<Rightarrow> do { xs \<leftarrow> tailq_foreach q (DMR_TAILQ_NEXT q x); Some (x # xs) })"

definition DMR_TAILQ_FOREACH :: "tailq \<Rightarrow> addr list option" where
  "DMR_TAILQ_FOREACH q = tailq_foreach q (DMR_TAILQ_FIRST q)"

section \<open>The list a queue represents\<close>

text \<open>A stretch of the queue from slot \<open>s\<close> to slot \<open>e\<close>.\<close>

fun tq_seg :: "tailq \<Rightarrow> slot \<Rightarrow> addr list \<Rightarrow> slot \<Rightarrow> bool" where
  "tq_seg q s [] e \<longleftrightarrow> s = e"
| "tq_seg q s (x # xs) e \<longleftrightarrow> read_slot q s = Some x \<and> tqe_prev q x = s \<and> tq_seg q (Next_slot x) xs e"

definition tq_rep :: "tailq \<Rightarrow> addr list \<Rightarrow> bool" where
  "tq_rep q xs \<longleftrightarrow> distinct xs \<and> tq_seg q First_slot xs (tqh_last q) \<and> read_slot q (tqh_last q) = None"

text \<open>The slots that a stretch reads.\<close>

fun tq_slots :: "slot \<Rightarrow> addr list \<Rightarrow> slot set" where
  "tq_slots s [] = {}"
| "tq_slots s (x # xs) = insert s (tq_slots (Next_slot x) xs)"

lemma read_write_slot [simp]: "read_slot (write_slot p v q) r = (if r = p then v else read_slot q r)"
  by (cases p; cases r) auto

lemma prev_write_slot [simp]: "tqe_prev (write_slot p v q) = tqe_prev q" "tqh_last (write_slot p v q) = tqh_last q"
  by (cases p; simp)+

lemma set_prev_simps [simp]:
  "read_slot (set_prev a s q) r = read_slot q r" "tqe_prev (set_prev a s q) = (tqe_prev q)(a := s)"
  "tqh_last (set_prev a s q) = tqh_last q"
  by (cases r; simp add: set_prev_def)+

lemma read_slot_upd [simp]:
  "read_slot (q\<lparr>tqh_last := s\<rparr>) r = read_slot q r"
  "read_slot (q\<lparr>tqh_first := v\<rparr>) r = (if r = First_slot then v else read_slot q r)"
  by (cases r; simp)+

text \<open>All reads of pointers are reads of slots.\<close>

lemma read_slots: "tqh_first q = read_slot q First_slot" "tqe_next q a = read_slot q (Next_slot a)"
  by simp_all

declare read_slot.simps [simp del] write_slot.simps [simp del] read_slots [simp]

lemmas tailq_defs = DMR_TAILQ_FIRST_def DMR_TAILQ_NEXT_def DMR_TAILQ_EMPTY_def DMR_TAILQ_INIT_def
  DMR_TAILQ_INSERT_HEAD_def DMR_TAILQ_INSERT_TAIL_def DMR_TAILQ_INSERT_AFTER_def DMR_TAILQ_INSERT_BEFORE_def
  DMR_TAILQ_REMOVE_def Let_def

lemma tq_slots_sub: "tq_slots s xs \<subseteq> insert s (Next_slot ` set xs)"
  by (induction xs arbitrary: s) auto

lemma tq_seg_append: "tq_seg q s (xs @ ys) e \<longleftrightarrow> (\<exists>m. tq_seg q s xs m \<and> tq_seg q m ys e)"
  by (induction xs arbitrary: s) auto

lemma tq_seg_cong:
  assumes "tq_seg q s xs e" "\<forall>x \<in> set xs. tqe_prev q' x = tqe_prev q x"
    and "\<forall>p \<in> tq_slots s xs. read_slot q' p = read_slot q p"
  shows "tq_seg q' s xs e"
  using assms by (induction xs arbitrary: s) auto

lemma tq_seg_end:
  assumes "tq_seg q s xs e" "distinct xs" "s \<notin> Next_slot ` set xs"
  shows "e \<notin> tq_slots s xs" "e \<in> insert s (Next_slot ` set xs)"
  using assms
proof (induction xs arbitrary: s)
  case (Cons x xs)
  { case 1 with Cons show ?case by fastforce }
  { case 2 with Cons show ?case by fastforce }
qed auto

section \<open>The macros on lists\<close>

lemma tq_rep_split:
  "tq_rep q (xs @ ys) \<longleftrightarrow> distinct (xs @ ys) \<and>
    (\<exists>m. tq_seg q First_slot xs m \<and> tq_seg q m ys (tqh_last q)) \<and> read_slot q (tqh_last q) = None"
  by (auto simp: tq_rep_def tq_seg_append)

text \<open>
  Every macro rewrites one place: the front of the queue stays, up to a slot \<open>m\<close>, and what
  follows \<open>m\<close> is new.
\<close>

lemma tq_front:
  assumes "tq_seg q First_slot xs m" "distinct xs" "\<forall>x \<in> set xs. tqe_prev q' x = tqe_prev q x"
    and "\<forall>p \<in> insert First_slot (Next_slot ` set xs). p \<noteq> m \<longrightarrow> read_slot q' p = read_slot q p"
  shows "tq_seg q' First_slot xs m"
proof (rule tq_seg_cong [OF assms(1,3)])
  have "m \<notin> tq_slots First_slot xs" using tq_seg_end(1) [OF assms(1,2)] by blast
  then show "\<forall>p \<in> tq_slots First_slot xs. read_slot q' p = read_slot q p"
    using assms(4) tq_slots_sub [of First_slot xs] by (metis subsetD)
qed

lemma tq_back:
  assumes "tq_seg q (Next_slot y) ys e" "\<forall>x \<in> set ys. tqe_prev q' x = tqe_prev q x"
    and "\<forall>p \<in> Next_slot ` set (y # ys). read_slot q' p = read_slot q p"
  shows "tq_seg q' (Next_slot y) ys e"
  using tq_slots_sub [of "Next_slot y" ys] assms(3) by (intro tq_seg_cong [OF assms(1,2)]) auto

lemma tq_end:
  assumes "tq_seg q First_slot xs m" "distinct xs"
  shows "m \<in> insert First_slot (Next_slot ` set xs)"
  using tq_seg_end(2) [OF assms] by blast

lemma tq_end_back: "tq_seg q (Next_slot y) ys e \<Longrightarrow> distinct (y # ys) \<Longrightarrow> e \<in> Next_slot ` set (y # ys)"
  using tq_seg_end(2) [of q "Next_slot y" ys e] by auto

lemma tq_init: "tq_rep (DMR_TAILQ_INIT q) []"
  by (simp add: tq_rep_def tailq_defs)

lemma tq_empty: "tq_rep q xs \<Longrightarrow> DMR_TAILQ_EMPTY q \<longleftrightarrow> xs = []"
  by (cases xs) (auto simp: tq_rep_def tailq_defs)

lemma tq_first: "tq_rep q xs \<Longrightarrow> DMR_TAILQ_FIRST q = (case xs of [] \<Rightarrow> None | x # _ \<Rightarrow> Some x)"
  by (cases xs) (auto simp: tq_rep_def tailq_defs)

text \<open>Insertion of \<open>x\<close> at the slot \<open>m\<close> between \<open>xs\<close> and \<open>ys\<close>; the four macros are instances of it.\<close>

lemma tq_insert_at:
  assumes q: "distinct (xs @ ys)" "tq_seg q First_slot xs m" "tq_seg q m ys (tqh_last q)" "read_slot q (tqh_last q) = None"
    and x: "x \<notin> set (xs @ ys)"
    and r: "\<And>p. read_slot q' p = (if p = m then Some x else if p = Next_slot x then read_slot q m else read_slot q p)"
    and pv: "\<And>a. tqe_prev q' a = (if a = x then m else if Some a = read_slot q m then Next_slot x else tqe_prev q a)"
    and l: "tqh_last q' = (if read_slot q m = None then Next_slot x else tqh_last q)"
  shows "tq_rep q' (xs @ x # ys)"
proof -
  have m: "m \<in> insert First_slot (Next_slot ` set xs)" using tq_end [OF q(2)] q(1) by simp
  have nm: "m \<noteq> Next_slot x" "\<forall>y \<in> set ys. m \<noteq> Next_slot y" using m x q(1) by auto
  have rm: "read_slot q m = (case ys of [] \<Rightarrow> None | y # _ \<Rightarrow> Some y)" using q(3,4) by (cases ys) auto
  have "tq_seg q' First_slot xs m"
    using q(1) x rm by (intro tq_front [OF q(2)]) (auto simp: r pv split: list.splits)
  moreover have "tq_seg q' (Next_slot x) ys (tqh_last q') \<and> read_slot q' (tqh_last q') = None"
  proof (cases ys)
    case Nil
    with rm nm show ?thesis by (simp add: l r)
  next
    case (Cons y zs)
    have z: "tq_seg q (Next_slot y) zs (tqh_last q)" using q(3) Cons by simp
    have e: "tqh_last q \<in> Next_slot ` set (y # zs)" using tq_end_back [OF z] q(1) Cons by auto
    have "tq_seg q' (Next_slot y) zs (tqh_last q)"
      using q(1) x rm nm Cons by (intro tq_back [OF z]) (auto simp: r pv)
    then show ?thesis using rm nm Cons e x q(4) by (auto simp: r pv l)
  qed
  ultimately show ?thesis using q(1) x nm unfolding tq_rep_split
    by (auto simp: r pv)
qed

lemma tq_insert_tail:
  assumes "tq_rep q xs" "x \<notin> set xs"
  shows "tq_rep (DMR_TAILQ_INSERT_TAIL x q) (xs @ [x])"
  using assms by (intro tq_insert_at [where m = "tqh_last q" and q = q]) (auto simp: tq_rep_def tailq_defs)

lemma tq_insert_head:
  assumes "tq_rep q xs" "x \<notin> set xs"
  shows "tq_rep (DMR_TAILQ_INSERT_HEAD x q) (x # xs)"
proof -
  have "tq_rep (DMR_TAILQ_INSERT_HEAD x q) ([] @ x # xs)"
    using assms by (intro tq_insert_at [where m = First_slot and q = q])
      (cases xs; auto simp: tq_rep_def tailq_defs)+
  then show ?thesis by simp
qed

lemma tq_insert_after:
  assumes "tq_rep q (xs @ l # ys)" "x \<notin> set (xs @ l # ys)"
  shows "tq_rep (DMR_TAILQ_INSERT_AFTER l x q) ((xs @ [l]) @ x # ys)"
proof (rule tq_insert_at [where m = "Next_slot l" and q = q])
  show "tq_seg q First_slot (xs @ [l]) (Next_slot l)" "tq_seg q (Next_slot l) ys (tqh_last q)"
    using assms(1) by (auto simp: tq_rep_def tq_seg_append)
qed (use assms in \<open>cases ys; auto simp: tq_rep_def tq_seg_append tailq_defs\<close>)+

lemma tq_insert_before:
  assumes "tq_rep q (xs @ l # ys)" "x \<notin> set (xs @ l # ys)"
  shows "tq_rep (DMR_TAILQ_INSERT_BEFORE l x q) (xs @ x # l # ys)"
proof (rule tq_insert_at [where m = "tqe_prev q l" and q = q])
  show "tq_seg q First_slot xs (tqe_prev q l)" "tq_seg q (tqe_prev q l) (l # ys) (tqh_last q)"
    using assms(1) by (auto simp: tq_rep_def tq_seg_append)
qed (use assms in \<open>auto simp: tq_rep_def tq_seg_append tailq_defs\<close>)+

lemma tq_foreach:
  assumes "tq_rep q xs"
  shows "DMR_TAILQ_FOREACH q = Some xs"
proof -
  have "tailq_foreach q (read_slot q s) = Some xs" if "tq_seg q s xs e" "read_slot q e = None" for s e xs
    using that
  proof (induction xs arbitrary: s)
    case Nil
    then show ?case by (simp add: tailq_foreach.simps)
  next
    case (Cons x xs)
    then have "tailq_foreach q (read_slot q (Next_slot x)) = Some xs" by simp
    with Cons.prems show ?case by (subst tailq_foreach.simps) (simp add: DMR_TAILQ_NEXT_def)
  qed
  with assms show ?thesis by (auto simp: DMR_TAILQ_FOREACH_def DMR_TAILQ_FIRST_def tq_rep_def)
qed

lemma tq_remove:
  assumes "tq_rep q (xs @ x # ys)"
  shows "tq_rep (DMR_TAILQ_REMOVE x q) (xs @ ys)"
proof -
  let ?q = "DMR_TAILQ_REMOVE x q"
  from assms obtain m where d: "distinct (xs @ x # ys)" and m: "tq_seg q First_slot xs m" "tqe_prev q x = m"
    and y: "tq_seg q (Next_slot x) ys (tqh_last q)" "read_slot q (tqh_last q) = None"
    by (auto simp: tq_rep_split)
  have mid: "m \<in> insert First_slot (Next_slot ` set xs)" using tq_end [OF m(1)] d by simp
  show ?thesis
  proof (cases ys)
    case Nil
    have "tq_seg ?q First_slot xs m"
      using d y Nil m(2) by (intro tq_front [OF m(1)]) (auto simp: tailq_defs)
    with Nil y m d show ?thesis by (simp add: tq_rep_def tailq_defs)
  next
    case (Cons z zs)
    have z: "read_slot q (Next_slot x) = Some z" "tq_seg q (Next_slot z) zs (tqh_last q)" using y Cons by auto
    have e: "tqh_last q \<in> Next_slot ` set (z # zs)" using tq_end_back [OF z(2)] d Cons by auto
    have "tq_seg ?q First_slot xs m"
      using d z Cons m(2) by (intro tq_front [OF m(1)]) (auto simp: tailq_defs)
    moreover have "tq_seg ?q (Next_slot z) zs (tqh_last q)"
      using z d mid Cons m(2) by (intro tq_back [OF z(2)]) (auto simp: tailq_defs)
    moreover have "read_slot ?q m = Some z" "tqe_prev ?q z = m" "tqh_last ?q = tqh_last q"
      using z m(2) d Cons by (auto simp: tailq_defs)
    moreover have "read_slot ?q (tqh_last q) = None"
      using z m(2) y(2) mid e d Cons by (auto simp: tailq_defs)
    ultimately show ?thesis using Cons d by (auto simp: tq_rep_split)
  qed
qed

section \<open>Properties\<close>

text \<open>
  C27. The tail queue macros implement lists: on a well-formed queue that holds the elements
  \<open>xs @ l # ys\<close>, inserting a new element at the head, at the tail, before or after \<open>l\<close> and
  removing \<open>l\<close> leave well-formed queues with the corresponding lists, the first element and
  the emptiness test are those of the list, and the \<open>FOREACH\<close> loop ends after visiting
  exactly the elements in order.
\<close>

theorem tailq_implements_lists:
  assumes "tq_rep q (xs @ l # ys)" "x \<notin> set (xs @ l # ys)"
  shows "tq_rep (DMR_TAILQ_INSERT_HEAD x q) (x # xs @ l # ys) \<and>
    tq_rep (DMR_TAILQ_INSERT_TAIL x q) (xs @ l # ys @ [x]) \<and>
    tq_rep (DMR_TAILQ_INSERT_AFTER l x q) (xs @ l # x # ys) \<and>
    tq_rep (DMR_TAILQ_INSERT_BEFORE l x q) (xs @ x # l # ys) \<and>
    tq_rep (DMR_TAILQ_REMOVE l q) (xs @ ys) \<and>
    DMR_TAILQ_FIRST q = Some (hd (xs @ [l])) \<and> \<not> DMR_TAILQ_EMPTY q \<and>
    DMR_TAILQ_FOREACH q = Some (xs @ l # ys)"
  using tq_insert_head [OF assms] tq_insert_tail [OF assms] tq_insert_after [OF assms] tq_insert_before [OF assms]
    tq_remove [OF assms(1)] tq_first [OF assms(1)] tq_empty [OF assms(1)] tq_foreach [OF assms(1)]
  by (cases xs) simp_all

theorem tailq_implements_lists_witness:
  "let q = DMR_TAILQ_INSERT_TAIL 2 (DMR_TAILQ_INSERT_TAIL 1 (DMR_TAILQ_INSERT_TAIL 5
       (DMR_TAILQ_INIT \<lparr>tqh_first = Some 9, tqh_last = Next_slot 9, tqe_next = \<lambda>a. Some a, tqe_prev = \<lambda>a. First_slot\<rparr>)))
   in tq_rep (DMR_TAILQ_REMOVE 1 q) [5, 2] \<and> tq_rep (DMR_TAILQ_INSERT_BEFORE 1 7 q) [5, 7, 1, 2]"
proof -
  let ?q = "DMR_TAILQ_INSERT_TAIL 2 (DMR_TAILQ_INSERT_TAIL 1 (DMR_TAILQ_INSERT_TAIL 5
       (DMR_TAILQ_INIT \<lparr>tqh_first = Some 9, tqh_last = Next_slot 9, tqe_next = \<lambda>a. Some a, tqe_prev = \<lambda>a. First_slot\<rparr>)))"
  have "tq_rep ?q ([5] @ 1 # [2])" by (simp add: tq_rep_def tailq_defs)
  from tailq_implements_lists [OF this, of 7] show ?thesis by simp
qed

end
