(* ===== verification/Dmr_Raw.thy ===== *)
theory Dmr_Raw
  imports Dmr_Common Dmr_Queue
begin

unbundle bit_operations_syntax

text \<open>
  \<open>src/dmr/raw.c\<close>: growing byte buffers, in which the protocols build their frames, and queues
  of them.  \<open>realloc\<close> stands for \<open>talloc_realloc\<close> (\<open>None\<close> is \<open>NULL\<close>); a Boolean \<open>mem\<close> says whether
  a zeroed allocation succeeds.  A writer returns \<open>None\<close> when it would touch memory outside
  the buffer.
\<close>

section \<open>Definitions\<close>

record dmr_raw =
  raw_buf :: "u8 list"
  raw_allocated :: u64
  raw_len :: u64

type_synonym reallocator = "u8 list \<Rightarrow> nat \<Rightarrow> u8 list option"

text \<open>What the callers rely on: the block has the new size and starts with the old contents.\<close>

definition realloc_ok :: "reallocator \<Rightarrow> bool" where
  "realloc_ok realloc \<longleftrightarrow> (\<forall>buf n buf'. realloc buf n = Some buf' \<longrightarrow>
     length buf' = n \<and> take (min n (length buf)) buf' = take (min n (length buf)) buf)"

definition swap_uint32 :: "u32 \<Rightarrow> u32" where
  "swap_uint32 x = push_bit 24 x OR (push_bit 8 x AND 0x00ff0000) OR (drop_bit 8 x AND 0x0000ff00) OR drop_bit 24 x"

text \<open>\<open>(len + 127) & (-128ll)\<close>\<close>

definition raw_round :: "u64 \<Rightarrow> u64" where
  "raw_round len = (len + 127) AND (- 128)"

definition dmr_raw_new :: "bool \<Rightarrow> bool \<Rightarrow> u64 \<Rightarrow> dmr_raw option" where
  "dmr_raw_new mem mem' len =
     (if \<not> mem then None
      else let len = raw_round len
           in if \<not> mem' then None
              else Some \<lparr>raw_buf = replicate (unat len) 0, raw_allocated = len, raw_len = 0\<rparr>)"

definition dmr_raw_grow :: "common_ops \<Rightarrow> reallocator \<Rightarrow> dmr_raw option \<Rightarrow> u64 \<Rightarrow> failure + dmr_raw" where
  "dmr_raw_grow c realloc raw len =
     (case raw of
        None \<Rightarrow> Inl (Errno DMR_EINVAL)
      | Some raw \<Rightarrow>
          if len < raw_allocated raw then Inr raw
          else let len = raw_round len
               in case realloc (raw_buf raw) (unat len) of
                    None \<Rightarrow> Inl (Errno DMR_ENOMEM)
                  | Some tmp \<Rightarrow>
                      let n = unat (raw_len raw)
                      in Inr (raw\<lparr>raw_buf := take n tmp @ byte_zero c (drop n tmp) (unat (len - raw_len raw)),
                                  raw_allocated := len\<rparr>))"

definition dmr_raw_grow_add :: "common_ops \<Rightarrow> reallocator \<Rightarrow> dmr_raw option \<Rightarrow> u64 \<Rightarrow> failure + dmr_raw" where
  "dmr_raw_grow_add c realloc raw add =
     (case raw of
        None \<Rightarrow> Inl (Errno DMR_EINVAL)
      | Some r \<Rightarrow> dmr_raw_grow c realloc raw (raw_len r + add))"

text \<open>Every writer first grows the buffer and turns a failure into \<open>DMR_LASTERROR\<close>.\<close>

definition raw_writer ::
  "common_ops \<Rightarrow> reallocator \<Rightarrow> dmr_raw option \<Rightarrow> u64 \<Rightarrow> (dmr_raw \<Rightarrow> dmr_raw option) \<Rightarrow> (failure + dmr_raw) option" where
  "raw_writer c realloc raw add body =
     (case raw of
        None \<Rightarrow> Some (Inl (Errno DMR_EINVAL))
      | Some r \<Rightarrow>
          (case dmr_raw_grow_add c realloc raw add of
             Inl e \<Rightarrow> Some (Inl (Errno DMR_LASTERROR))
           | Inr r \<Rightarrow> map_option Inr (body r)))"

definition dmr_raw_add ::
  "common_ops \<Rightarrow> reallocator \<Rightarrow> dmr_raw option \<Rightarrow> u8 list \<Rightarrow> u64 \<Rightarrow> (failure + dmr_raw) option" where
  "dmr_raw_add c realloc raw buf len = raw_writer c realloc raw len (\<lambda>raw.
     let n = unat (raw_len raw)
     in if unat len \<le> length buf \<and> n + unat len \<le> length (raw_buf raw)
        then Some (raw\<lparr>raw_buf := take n (raw_buf raw) @ byte_copy c (drop n (raw_buf raw)) buf (unat len),
                       raw_len := raw_len raw + len\<rparr>)
        else None)"

text \<open>\<open>raw->buf[raw->len++] = in\<close>\<close>

definition raw_putc :: "u8 \<Rightarrow> dmr_raw \<Rightarrow> dmr_raw option" where
  "raw_putc x raw =
     map_option (\<lambda>buf. raw\<lparr>raw_buf := buf, raw_len := raw_len raw + 1\<rparr>)
       (c_write (raw_buf raw) (unat (raw_len raw)) x)"

definition dmr_raw_add_hex ::
  "common_ops \<Rightarrow> reallocator \<Rightarrow> dmr_raw option \<Rightarrow> u8 list \<Rightarrow> u64 \<Rightarrow> (failure + dmr_raw) option" where
  "dmr_raw_add_hex c realloc raw buf len = raw_writer c realloc raw (len * 2)
     (foldo (\<lambda>i raw. do {
        b \<leftarrow> c_read buf i;
        raw \<leftarrow> raw_putc (bhex c ! unat (drop_bit 4 b)) raw;
        raw_putc (bhex c ! unat (b AND 0x0f)) raw }) [0..<unat len])"

definition dmr_raw_add_uint8 ::
  "common_ops \<Rightarrow> reallocator \<Rightarrow> dmr_raw option \<Rightarrow> u8 \<Rightarrow> (failure + dmr_raw) option" where
  "dmr_raw_add_uint8 c realloc raw x = raw_writer c realloc raw 1 (raw_putc x)"

definition dmr_raw_add_xuint8 ::
  "common_ops \<Rightarrow> reallocator \<Rightarrow> dmr_raw option \<Rightarrow> u8 \<Rightarrow> (failure + dmr_raw) option" where
  "dmr_raw_add_xuint8 c realloc raw x = raw_writer c realloc raw 2 (\<lambda>raw. do {
     raw \<leftarrow> raw_putc (bhex c ! unat (drop_bit 4 x)) raw;
     raw_putc (bhex c ! unat (x AND 0x0f)) raw })"

text \<open>The macro \<open>AU\<close>: \<open>size\<close> bytes, the low byte first.\<close>

definition raw_add_uint ::
  "common_ops \<Rightarrow> reallocator \<Rightarrow> nat \<Rightarrow> dmr_raw option \<Rightarrow> 'a::len word \<Rightarrow> (failure + dmr_raw) option" where
  "raw_add_uint c realloc size' raw x = raw_writer c realloc raw (of_nat size') (\<lambda>raw.
     map_option fst (foldo (\<lambda>i (raw, x). do {
        raw \<leftarrow> raw_putc (ucast (x AND 0xff)) raw;
        Some (raw, drop_bit 8 x) }) [0..<size'] (raw, x)))"

definition dmr_raw_add_uint16 ::
  "common_ops \<Rightarrow> reallocator \<Rightarrow> dmr_raw option \<Rightarrow> u16 \<Rightarrow> (failure + dmr_raw) option" where
  "dmr_raw_add_uint16 c realloc = raw_add_uint c realloc 2"

definition dmr_raw_add_uint24 ::
  "common_ops \<Rightarrow> reallocator \<Rightarrow> dmr_raw option \<Rightarrow> u32 \<Rightarrow> (failure + dmr_raw) option" where
  "dmr_raw_add_uint24 c realloc = raw_add_uint c realloc 3"

definition dmr_raw_add_uint32 ::
  "common_ops \<Rightarrow> reallocator \<Rightarrow> dmr_raw option \<Rightarrow> u32 \<Rightarrow> (failure + dmr_raw) option" where
  "dmr_raw_add_uint32 c realloc = raw_add_uint c realloc 4"

definition dmr_raw_add_uint64 ::
  "common_ops \<Rightarrow> reallocator \<Rightarrow> dmr_raw option \<Rightarrow> u64 \<Rightarrow> (failure + dmr_raw) option" where
  "dmr_raw_add_uint64 c realloc = raw_add_uint c realloc 8"

definition dmr_raw_add_uint32_le ::
  "common_ops \<Rightarrow> reallocator \<Rightarrow> dmr_raw option \<Rightarrow> u32 \<Rightarrow> (failure + dmr_raw) option" where
  "dmr_raw_add_uint32_le c realloc raw x = dmr_raw_add_uint32 c realloc raw (swap_uint32 x)"

text \<open>\<open>snprintf (dst, size, "%0<size>x", v)\<close>: at most \<open>size - 1\<close> digits and a zero byte.\<close>

fun hex_text :: "nat \<Rightarrow> u8 list" where
  "hex_text v =
     (let digit = (\<lambda>d. if d < 10 then of_nat (0x30 + d) else of_nat (0x61 + (d - 10)))
      in if v < 16 then [digit v] else hex_text (v div 16) @ [digit (v mod 16)])"

definition hex_pad :: "nat \<Rightarrow> nat \<Rightarrow> u8 list" where
  "hex_pad n v = replicate (n - length (hex_text v)) 0x30 @ hex_text v"

definition snprintf_hex :: "nat \<Rightarrow> nat \<Rightarrow> u8 list" where
  "snprintf_hex size' v = take (size' - 1) (hex_pad size' v) @ [0]"

text \<open>The macro \<open>AX\<close>.\<close>

definition raw_add_xuint ::
  "common_ops \<Rightarrow> reallocator \<Rightarrow> nat \<Rightarrow> dmr_raw option \<Rightarrow> 'a::len word \<Rightarrow> (failure + dmr_raw) option" where
  "raw_add_xuint c realloc size' raw x = raw_writer c realloc raw (of_nat size') (\<lambda>raw.
     let n = unat (raw_len raw)
     in if n + size' \<le> length (raw_buf raw)
        then let buf = take n (raw_buf raw) @ byte_zero c (drop n (raw_buf raw)) size'
             in Some (raw\<lparr>raw_buf := blit buf n (snprintf_hex size' (unat x)), raw_len := raw_len raw + of_nat size'\<rparr>)
        else None)"

definition dmr_raw_add_xuint16 ::
  "common_ops \<Rightarrow> reallocator \<Rightarrow> dmr_raw option \<Rightarrow> u16 \<Rightarrow> (failure + dmr_raw) option" where
  "dmr_raw_add_xuint16 c realloc = raw_add_xuint c realloc 4"

definition dmr_raw_add_xuint24 ::
  "common_ops \<Rightarrow> reallocator \<Rightarrow> dmr_raw option \<Rightarrow> u32 \<Rightarrow> (failure + dmr_raw) option" where
  "dmr_raw_add_xuint24 c realloc = raw_add_xuint c realloc 6"

definition dmr_raw_add_xuint32 ::
  "common_ops \<Rightarrow> reallocator \<Rightarrow> dmr_raw option \<Rightarrow> u32 \<Rightarrow> (failure + dmr_raw) option" where
  "dmr_raw_add_xuint32 c realloc = raw_add_xuint c realloc 8"

definition dmr_raw_add_xuint64 ::
  "common_ops \<Rightarrow> reallocator \<Rightarrow> dmr_raw option \<Rightarrow> u64 \<Rightarrow> (failure + dmr_raw) option" where
  "dmr_raw_add_xuint64 c realloc = raw_add_xuint c realloc 16"

definition dmr_raw_add_xuint32_le ::
  "common_ops \<Rightarrow> reallocator \<Rightarrow> dmr_raw option \<Rightarrow> u32 \<Rightarrow> (failure + dmr_raw) option" where
  "dmr_raw_add_xuint32_le c realloc raw x = dmr_raw_add_xuint32 c realloc raw (swap_uint32 x)"

text \<open>\<open>text\<close> is the formatted string; at most \<open>len\<close> of its characters and a zero byte are written.\<close>

definition dmr_raw_addf ::
  "common_ops \<Rightarrow> reallocator \<Rightarrow> dmr_raw option \<Rightarrow> u64 \<Rightarrow> u8 list \<Rightarrow> (failure + dmr_raw) option" where
  "dmr_raw_addf c realloc raw len fmt_text = raw_writer c realloc raw (len + 1) (\<lambda>raw.
     let n = unat (raw_len raw); out = take (unat len) fmt_text @ [0]
     in if n + length out \<le> length (raw_buf raw)
        then Some (raw\<lparr>raw_buf := blit (raw_buf raw) n out, raw_len := raw_len raw + len\<rparr>)
        else None)"

definition dmr_raw_reset :: "common_ops \<Rightarrow> dmr_raw option \<Rightarrow> failure + dmr_raw" where
  "dmr_raw_reset c raw =
     (case raw of
        None \<Rightarrow> Inl (Errno DMR_EINVAL)
      | Some raw \<Rightarrow> Inr (raw\<lparr>raw_buf := byte_zero c (raw_buf raw) (unat (raw_allocated raw)), raw_len := 0\<rparr>))"

definition dmr_raw_size :: "dmr_raw option \<Rightarrow> u64" where
  "dmr_raw_size raw = (case raw of None \<Rightarrow> 0 | Some raw \<Rightarrow> raw_len raw)"

definition dmr_raw_zero :: "common_ops \<Rightarrow> dmr_raw option \<Rightarrow> failure + dmr_raw" where
  "dmr_raw_zero c raw =
     (case raw of
        None \<Rightarrow> Inl (Errno DMR_EINVAL)
      | Some raw \<Rightarrow> Inr (raw\<lparr>raw_buf := byte_zero c (raw_buf raw) (unat (raw_len raw))\<rparr>))"

declare hex_text.simps [simp del]

section \<open>Growing\<close>

definition raw_inv :: "dmr_raw \<Rightarrow> bool" where
  "raw_inv r \<longleftrightarrow> length (raw_buf r) = unat (raw_allocated r) \<and> raw_len r \<le> raw_allocated r"

definition raw_contents :: "dmr_raw \<Rightarrow> u8 list" where
  "raw_contents r = take (unat (raw_len r)) (raw_buf r)"

lemma raw_invD: "raw_inv r \<Longrightarrow> unat (raw_len r) \<le> length (raw_buf r)" "raw_inv r \<Longrightarrow> length (raw_buf r) < 2 ^ 64"
  using unsigned_less [of "raw_allocated r"] by (auto simp: raw_inv_def word_le_nat_alt)

lemma length_raw_contents [dmr_len]: "raw_inv r \<Longrightarrow> length (raw_contents r) = unat (raw_len r)"
  using raw_invD [of r] by (simp add: raw_contents_def)

lemma raw_round_ge:
  assumes "unat len + 127 < 2 ^ 64"
  shows "unat len \<le> unat (raw_round len)"
proof -
  let ?x = "len + 127"
  have m: "- 128 = NOT (mask 7 :: u64)" using minus_eq_not_minus_1 [of "128 :: u64"] by (simp add: mask_numeral)
  have "raw_round len = push_bit 7 (drop_bit 7 ?x)"
    unfolding raw_round_def m by (rule bit_word_eqI) (auto simp: bit_simps)
  then have "raw_round len + take_bit 7 ?x = ?x" by (simp only: bits_ident)
  moreover have "unat (take_bit 7 ?x) \<le> 127"
    using take_bit_nat_less_exp [of 7 "unat ?x"] by (simp add: unsigned_take_bit_eq)
  moreover have "unat ?x = unat len + 127" using assms unat_add_lem [of len 127] by simp
  moreover have "unat (raw_round len + take_bit 7 ?x) \<le> unat (raw_round len) + unat (take_bit 7 ?x)"
    by (simp add: unat_word_ariths)
  ultimately show ?thesis by simp
qed

lemma raw_grow_cases:
  assumes "common_ok c" "realloc_ok realloc" "raw_inv r" "unat (raw_len r) \<le> unat len" "unat len + 127 < 2 ^ 64"
  shows "dmr_raw_grow c realloc (Some r) len = Inl (Errno DMR_ENOMEM) \<or>
    (\<exists>r'. dmr_raw_grow c realloc (Some r) len = Inr r' \<and> raw_inv r' \<and> raw_contents r' = raw_contents r \<and>
      raw_len r' = raw_len r \<and> unat len \<le> length (raw_buf r'))"
proof (cases "len < raw_allocated r")
  case True
  with assms(3) show ?thesis by (auto simp: dmr_raw_grow_def raw_inv_def word_less_nat_alt)
next
  case False
  let ?l = "raw_round len" and ?n = "unat (raw_len r)"
  show ?thesis
  proof (cases "realloc (raw_buf r) (unat ?l)")
    case None
    with False show ?thesis by (simp add: dmr_raw_grow_def Let_def)
  next
    case (Some tmp)
    have t: "length tmp = unat ?l" "take (min (unat ?l) (length (raw_buf r))) tmp = take (min (unat ?l) (length (raw_buf r))) (raw_buf r)"
      using assms(2) Some unfolding realloc_ok_def by blast+
    have ge: "unat len \<le> unat ?l" using raw_round_ge assms(5) .
    have n: "?n \<le> min (unat ?l) (length (raw_buf r))" using raw_invD [OF assms(3)] assms(4) ge by simp
    then have "take ?n tmp = raw_contents r"
      using arg_cong [OF t(2), of "take ?n"] by (simp add: raw_contents_def min_def split: if_splits)
    moreover have "unat (?l - raw_len r) = unat ?l - ?n"
      using n by (simp add: unat_sub word_le_nat_alt)
    moreover have "byte_zero c (drop ?n tmp) (unat ?l - ?n) = replicate (unat ?l - ?n) 0"
      using assms(1) t(1) by (simp add: common_okD)
    ultimately have "dmr_raw_grow c realloc (Some r) len =
        Inr (r\<lparr>raw_buf := raw_contents r @ replicate (unat ?l - ?n) 0, raw_allocated := ?l\<rparr>)"
      using False Some by (simp add: dmr_raw_grow_def Let_def)
    then show ?thesis
      using n ge length_raw_contents [OF assms(3)] by (simp add: raw_inv_def raw_contents_def word_le_nat_alt)
  qed
qed

section \<open>Appending\<close>

text \<open>What every writer does to a buffer with enough room.\<close>

definition raw_append :: "dmr_raw \<Rightarrow> u8 list \<Rightarrow> dmr_raw" where
  "raw_append r xs = r\<lparr>raw_buf := blit (raw_buf r) (unat (raw_len r)) xs, raw_len := raw_len r + of_nat (length xs)\<rparr>"

definition raw_room :: "dmr_raw \<Rightarrow> nat \<Rightarrow> bool" where
  "raw_room r n \<longleftrightarrow> raw_inv r \<and> unat (raw_len r) + n \<le> length (raw_buf r)"

lemma raw_len_append: "raw_room r (length xs) \<Longrightarrow> unat (raw_len (raw_append r xs)) = unat (raw_len r) + length xs"
proof -
  assume r: "raw_room r (length xs)"
  then have l: "unat (raw_len r) + length xs < 2 ^ 64" using raw_invD(2) [of r] by (auto simp: raw_room_def)
  then have "unat (of_nat (length xs) :: u64) = length xs" by (simp add: unat_of_nat take_bit_nat_eq_self)
  then show ?thesis using l unat_add_lem [of "raw_len r" "of_nat (length xs)"] by (simp add: raw_append_def)
qed

lemma raw_append_inv:
  assumes "raw_room r (length xs + n)"
  shows "raw_room (raw_append r xs) n" "raw_contents (raw_append r xs) = raw_contents r @ xs"
proof -
  have r: "raw_room r (length xs)" using assms by (simp add: raw_room_def)
  note l = raw_len_append [OF r]
  have "length (raw_buf (raw_append r xs)) = length (raw_buf r)" "raw_allocated (raw_append r xs) = raw_allocated r"
    using r by (simp_all add: raw_append_def raw_room_def)
  with l assms show "raw_room (raw_append r xs) n"
    by (simp add: raw_room_def raw_inv_def word_le_nat_alt)
  show "raw_contents (raw_append r xs) = raw_contents r @ xs"
    using l r unfolding raw_contents_def by (simp add: raw_append_def raw_room_def blit_def)
qed

lemma raw_append_append:
  assumes "raw_room r (length xs + length ys)"
  shows "raw_append (raw_append r xs) ys = raw_append r (xs @ ys)"
proof -
  have r: "raw_room r (length xs)" using assms by (simp add: raw_room_def)
  have "blit (blit (raw_buf r) (unat (raw_len r)) xs) (unat (raw_len r) + length xs) ys =
      blit (raw_buf r) (unat (raw_len r)) (xs @ ys)"
    using assms by (simp add: blit_def raw_room_def ac_simps)
  moreover have "unat (raw_len r + of_nat (length xs)) = unat (raw_len r) + length xs"
    using raw_len_append [OF r] by (simp add: raw_append_def)
  ultimately show ?thesis by (simp add: raw_append_def add.assoc)
qed

lemma raw_putc_append: "raw_room r (Suc n) \<Longrightarrow> raw_putc x r = Some (raw_append r [x])"
  by (simp add: raw_putc_def raw_append_def raw_room_def blit_def list_update_append upd_conv_take_nth_drop)

lemma raw_append_Nil: "raw_room r n \<Longrightarrow> raw_append r [] = r"
  by (simp add: raw_append_def raw_room_def blit_def)

lemma raw_room_less: "raw_room r (n + k) \<Longrightarrow> raw_room r n" "raw_room r (Suc n) \<Longrightarrow> raw_room r n"
  by (simp_all add: raw_room_def)

text \<open>A writer: grow, then append.\<close>

definition raw_emit :: "common_ops \<Rightarrow> reallocator \<Rightarrow> dmr_raw \<Rightarrow> u8 list \<Rightarrow> (failure + dmr_raw) option" where
  "raw_emit c realloc r xs =
     (case dmr_raw_grow_add c realloc (Some r) (of_nat (length xs)) of
        Inl e \<Rightarrow> Some (Inl (Errno DMR_LASTERROR))
      | Inr r' \<Rightarrow> Some (Inr (raw_append r' xs)))"

text \<open>The assumptions under which the buffer works: sizes far from the end of the address space.\<close>

definition raw_ready :: "common_ops \<Rightarrow> reallocator \<Rightarrow> dmr_raw \<Rightarrow> nat \<Rightarrow> bool" where
  "raw_ready c realloc r n \<longleftrightarrow> common_ok c \<and> realloc_ok realloc \<and> raw_inv r \<and> unat (raw_len r) + n + 127 < 2 ^ 64"

lemma raw_grow_add_cases:
  assumes "raw_ready c realloc r n"
  shows "dmr_raw_grow_add c realloc (Some r) (of_nat n) = Inl (Errno DMR_ENOMEM) \<or>
    (\<exists>r'. dmr_raw_grow_add c realloc (Some r) (of_nat n) = Inr r' \<and> raw_room r' n \<and>
      raw_contents r' = raw_contents r \<and> raw_len r' = raw_len r)"
proof -
  have ok: "common_ok c" "realloc_ok realloc" "raw_inv r" and l: "unat (raw_len r) + n + 127 < 2 ^ 64"
    using assms by (simp_all add: raw_ready_def)
  then have "unat (of_nat n :: u64) = n" by (simp add: unat_of_nat take_bit_nat_eq_self)
  then have "unat (raw_len r + of_nat n) = unat (raw_len r) + n"
    using l unat_add_lem [of "raw_len r" "of_nat n"] by simp
  with raw_grow_cases [OF ok, of "raw_len r + of_nat n"] l show ?thesis
    by (auto simp: dmr_raw_grow_add_def raw_room_def)
qed

lemma raw_writer_eq:
  assumes "raw_ready c realloc r (length xs)" "\<And>r'. raw_room r' (length xs) \<Longrightarrow> body r' = Some (raw_append r' xs)"
  shows "raw_writer c realloc (Some r) (of_nat (length xs)) body = raw_emit c realloc r xs"
  using raw_grow_add_cases [OF assms(1)] assms(2) by (auto simp: raw_writer_def raw_emit_def)

lemma raw_add_eq:
  assumes "raw_ready c realloc r (length xs)"
  shows "dmr_raw_add c realloc (Some r) xs (of_nat (length xs)) = raw_emit c realloc r xs"
  unfolding dmr_raw_add_def
proof (rule raw_writer_eq [OF assms])
  fix r' assume r: "raw_room r' (length xs)"
  have "common_ok c" using assms by (simp add: raw_ready_def)
  moreover have "unat (of_nat (length xs) :: u64) = length xs"
    using assms by (simp add: raw_ready_def unat_of_nat take_bit_nat_eq_self)
  ultimately show "(let n = unat (raw_len r') in
      if unat (of_nat (length xs) :: u64) \<le> length xs \<and> n + unat (of_nat (length xs) :: u64) \<le> length (raw_buf r')
      then Some (r'\<lparr>raw_buf := take n (raw_buf r') @ byte_copy c (drop n (raw_buf r')) xs (unat (of_nat (length xs) :: u64)),
        raw_len := raw_len r' + of_nat (length xs)\<rparr>) else None) = Some (raw_append r' xs)"
    using r by (auto simp: raw_append_def raw_room_def blit_def common_okD Let_def ac_simps)
qed

lemma foldo_putc: "raw_room r (length xs) \<Longrightarrow> foldo raw_putc xs r = Some (raw_append r xs)"
proof (induction xs arbitrary: r)
  case Nil
  then show ?case by (simp add: raw_append_Nil)
next
  case (Cons x xs)
  have "raw_room (raw_append r [x]) (length xs)" using raw_append_inv(1) [of r "[x]" "length xs"] Cons.prems by simp
  then show ?case
    using Cons raw_putc_append [of r "length xs" x] raw_append_append [of r "[x]" xs] by simp
qed

lemma raw_putc_pair: "raw_room r (Suc (Suc 0)) \<Longrightarrow> do { r \<leftarrow> raw_putc a r; raw_putc b r } = Some (raw_append r [a, b])"
  using foldo_putc [of r "[a, b]"] by (auto split: option.splits)

text \<open>The bytes of the integer writers.\<close>

definition le_bytes :: "nat \<Rightarrow> 'a::len word \<Rightarrow> u8 list" where
  "le_bytes n x = map (\<lambda>i. ucast (drop_bit (8 * i) x)) [0..<n]"

definition hex_bytes :: "common_ops \<Rightarrow> u8 list \<Rightarrow> u8 list" where
  "hex_bytes c bs = concat (map (\<lambda>b. [bhex c ! unat (drop_bit 4 b), bhex c ! unat (b AND 0x0f)]) bs)"

lemma length_le_bytes [simp, dmr_len]: "length (le_bytes n x) = n"
  by (simp add: le_bytes_def)

lemma length_hex_bytes [simp, dmr_len]: "length (hex_bytes c bs) = 2 * length bs"
  by (induction bs) (simp_all add: hex_bytes_def)

lemma ucast_low_byte: "ucast (x AND 0xff) = (ucast x :: u8)" for x :: "'a::len word"
  unfolding and_mask_take_bit by (rule bit_word_eqI) (auto simp: bit_simps)

lemma raw_uint_loop:
  "raw_room r n \<Longrightarrow>
   foldo (\<lambda>i (raw, x). do { raw \<leftarrow> raw_putc (ucast (x AND 0xff)) raw; Some (raw, drop_bit 8 x) }) [0..<n] (r, x) =
     Some (raw_append r (le_bytes n x), drop_bit (8 * n) x)"
proof (induction n)
  case 0
  then show ?case by (simp add: raw_append_Nil le_bytes_def)
next
  case (Suc n)
  let ?r = "raw_append r (le_bytes n x)" and ?b = "ucast (drop_bit (8 * n) x) :: u8"
  have "raw_room ?r (Suc 0)" using raw_append_inv(1) [of r "le_bytes n x" 1] Suc.prems by simp
  then have "raw_putc (ucast (drop_bit (8 * n) x AND 0xff)) ?r = Some (raw_append ?r [?b])"
    unfolding ucast_low_byte by (rule raw_putc_append)
  moreover have "raw_append ?r [?b] = raw_append r (le_bytes (Suc n) x)"
    using raw_append_append [of r "le_bytes n x" "[?b]"] Suc.prems by (simp add: le_bytes_def)
  moreover have "drop_bit 8 (drop_bit (8 * n) x) = drop_bit (8 * Suc n) x" by simp
  ultimately show ?case using Suc raw_room_less(2) by (simp add: foldo_append del: ucast_low_byte)
qed

lemma raw_hex_loop:
  "n \<le> length buf \<Longrightarrow> raw_room r (2 * n) \<Longrightarrow>
   foldo (\<lambda>i raw. do { b \<leftarrow> c_read buf i; raw \<leftarrow> raw_putc (bhex c ! unat (drop_bit 4 b)) raw;
        raw_putc (bhex c ! unat (b AND 0x0f)) raw }) [0..<n] r = Some (raw_append r (hex_bytes c (take n buf)))"
proof (induction n)
  case 0
  then show ?case by (simp add: raw_append_Nil hex_bytes_def)
next
  case (Suc n)
  let ?r = "raw_append r (hex_bytes c (take n buf))"
  let ?a = "bhex c ! unat (drop_bit 4 (buf ! n))" and ?b = "bhex c ! unat (buf ! n AND 0x0f)"
  have l: "length (hex_bytes c (take n buf)) = 2 * n" using Suc.prems by simp
  have "raw_room ?r (Suc (Suc 0))"
    using raw_append_inv(1) [of r "hex_bytes c (take n buf)" 2] l Suc.prems by (simp add: numeral_2_eq_2)
  then have "do { raw \<leftarrow> raw_putc ?a ?r; raw_putc ?b raw } = Some (raw_append ?r [?a, ?b])" by (rule raw_putc_pair)
  moreover have "raw_append ?r [?a, ?b] = raw_append r (hex_bytes c (take (Suc n) buf))"
    using raw_append_append [of r "hex_bytes c (take n buf)" "[?a, ?b]"] l Suc.prems
    by (simp add: hex_bytes_def take_Suc_conv_app_nth)
  moreover have "raw_room r (2 * n)" using Suc.prems(2) by (simp add: raw_room_def)
  ultimately show ?case using Suc by (simp add: foldo_append)
qed

lemma length_snprintf_hex [simp, dmr_len]: "0 < n \<Longrightarrow> length (snprintf_hex n v) = n"
  by (simp add: snprintf_hex_def hex_pad_def)

lemma raw_xuint_body:
  assumes "common_ok c" "0 < k" "raw_room r k"
  shows "(let n = unat (raw_len r) in
      if n + k \<le> length (raw_buf r)
      then let buf = take n (raw_buf r) @ byte_zero c (drop n (raw_buf r)) k
           in Some (r\<lparr>raw_buf := blit buf n (snprintf_hex k v), raw_len := raw_len r + of_nat k\<rparr>)
      else None) = Some (raw_append r (snprintf_hex k v))"
  using assms by (auto simp: raw_append_def raw_room_def blit_def common_okD Let_def ac_simps)

section \<open>The buffer as a sink of bytes\<close>

text \<open>
  The contract between the frame builders and the buffer: writing appends, or fails and says
  so.  A frame is a sequence of writes, of which the first failure is returned.
\<close>

primrec puts :: "('b \<Rightarrow> u8 list \<Rightarrow> (failure + 'b) option) \<Rightarrow> u8 list list \<Rightarrow> 'b \<Rightarrow> (failure + 'b) option" where
  "puts put [] b = Some (Inr b)"
| "puts put (xs # xss) b =
     (case put b xs of None \<Rightarrow> None | Some (Inl e) \<Rightarrow> Some (Inl e) | Some (Inr b') \<Rightarrow> puts put xss b')"

locale byte_sink =
  fixes inv :: "'b \<Rightarrow> bool"
    and contents :: "'b \<Rightarrow> u8 list"
    and put :: "'b \<Rightarrow> u8 list \<Rightarrow> (failure + 'b) option"
    and bound :: nat
  assumes put_cases: "inv b \<Longrightarrow> length (contents b) + length xs < bound \<Longrightarrow>
    put b xs = Some (Inl (Errno DMR_LASTERROR)) \<or>
    (\<exists>b'. put b xs = Some (Inr b') \<and> inv b' \<and> contents b' = contents b @ xs)"
begin

lemma puts_cases:
  assumes "inv b" "length (contents b) + length (concat xss) < bound"
  shows "puts put xss b = Some (Inl (Errno DMR_LASTERROR)) \<or>
    (\<exists>b'. puts put xss b = Some (Inr b') \<and> inv b' \<and> contents b' = contents b @ concat xss)"
  using assms
proof (induction xss arbitrary: b)
  case (Cons xs xss)
  from put_cases [OF Cons.prems(1), of xs] Cons.prems(2) consider
    "put b xs = Some (Inl (Errno DMR_LASTERROR))" |
    b' where "put b xs = Some (Inr b')" "inv b'" "contents b' = contents b @ xs" by auto
  then show ?case
  proof cases
    case 1
    then show ?thesis by simp
  next
    case 2
    with Cons.IH [OF 2(2)] Cons.prems(2) show ?thesis by simp
  qed
qed simp

lemma puts_append:
  "puts put (xss @ yss) b =
     (case puts put xss b of None \<Rightarrow> None | Some (Inl e) \<Rightarrow> Some (Inl e) | Some (Inr b') \<Rightarrow> puts put yss b')"
  by (induction xss arbitrary: b) (auto split: option.splits sum.splits)

end

text \<open>The library functions and the allocator are parameters, so the instance names them.\<close>

definition raw_put :: "common_ops \<Rightarrow> reallocator \<Rightarrow> dmr_raw \<Rightarrow> u8 list \<Rightarrow> (failure + dmr_raw) option" where
  "raw_put c realloc r xs = dmr_raw_add c realloc (Some r) xs (of_nat (length xs))"

lemma raw_emit_cases:
  assumes "raw_ready c realloc r (length xs)"
  shows "raw_emit c realloc r xs = Some (Inl (Errno DMR_LASTERROR)) \<or>
    (\<exists>r'. raw_emit c realloc r xs = Some (Inr r') \<and> raw_inv r' \<and> raw_contents r' = raw_contents r @ xs \<and>
      unat (raw_len r') = unat (raw_len r) + length xs)"
  using raw_grow_add_cases [OF assms]
proof
  assume "\<exists>r'. dmr_raw_grow_add c realloc (Some r) (of_nat (length xs)) = Inr r' \<and> raw_room r' (length xs) \<and>
      raw_contents r' = raw_contents r \<and> raw_len r' = raw_len r"
  then obtain r' where r': "dmr_raw_grow_add c realloc (Some r) (of_nat (length xs)) = Inr r'" "raw_room r' (length xs)"
    "raw_contents r' = raw_contents r" "raw_len r' = raw_len r" by blast
  have "raw_room (raw_append r' xs) 0" "raw_contents (raw_append r' xs) = raw_contents r @ xs"
    using raw_append_inv [of r' xs 0] r' by simp_all
  with raw_len_append [OF r'(2)] r'(1,4) show ?thesis by (simp add: raw_emit_def raw_room_def)
qed (simp add: raw_emit_def)

definition raw_sink_inv :: "common_ops \<Rightarrow> reallocator \<Rightarrow> dmr_raw \<Rightarrow> bool" where
  "raw_sink_inv c realloc r \<longleftrightarrow> common_ok c \<and> realloc_ok realloc \<and> raw_inv r"

abbreviation raw_bound :: nat where
  "raw_bound \<equiv> 2 ^ 64 - 127"

interpretation raw: byte_sink "raw_sink_inv c realloc" raw_contents "raw_put c realloc" raw_bound
proof
  fix b :: dmr_raw and xs :: "u8 list"
  assume b: "raw_sink_inv c realloc b" "length (raw_contents b) + length xs < raw_bound"
  then have ready: "raw_ready c realloc b (length xs)"
    by (simp add: raw_ready_def raw_sink_inv_def length_raw_contents)
  then have "raw_put c realloc b xs = raw_emit c realloc b xs" by (simp add: raw_put_def raw_add_eq)
  with raw_emit_cases [OF ready] b(1)
  show "raw_put c realloc b xs = Some (Inl (Errno DMR_LASTERROR)) \<or>
    (\<exists>b'. raw_put c realloc b xs = Some (Inr b') \<and> raw_sink_inv c realloc b' \<and> raw_contents b' = raw_contents b @ xs)"
    by (auto simp: raw_sink_inv_def)
qed

lemma raw_new_inv:
  assumes "dmr_raw_new mem mem' len = Some r"
  shows "raw_inv r \<and> raw_contents r = []"
  using assms by (auto simp: dmr_raw_new_def raw_inv_def raw_contents_def Let_def split: if_splits)

lemma raw_writers:
  assumes "raw_sink_inv c realloc r"
  shows raw_uint8_put: "length (raw_contents r) + 1 < raw_bound \<Longrightarrow>
      dmr_raw_add_uint8 c realloc (Some r) x = raw_put c realloc r [x]"
    and raw_xuint8_put: "length (raw_contents r) + 2 < raw_bound \<Longrightarrow>
      dmr_raw_add_xuint8 c realloc (Some r) x = raw_put c realloc r (hex_bytes c [x])"
    and raw_hex_put: "length (raw_contents r) + 2 * length bs < raw_bound \<Longrightarrow>
      dmr_raw_add_hex c realloc (Some r) bs (of_nat (length bs)) = raw_put c realloc r (hex_bytes c bs)"
    and raw_uint_put: "length (raw_contents r) + n < raw_bound \<Longrightarrow>
      raw_add_uint c realloc n (Some r) w = raw_put c realloc r (le_bytes n w)"
    and raw_xuint_put: "0 < n \<Longrightarrow> length (raw_contents r) + n < raw_bound \<Longrightarrow>
      raw_add_xuint c realloc n (Some r) w = raw_put c realloc r (snprintf_hex n (unat w))"
proof -
  have ready: "raw_ready c realloc r (length xs)" if "length (raw_contents r) + length xs < raw_bound" for xs :: "u8 list"
    using assms that by (simp add: raw_ready_def raw_sink_inv_def length_raw_contents)
  have put: "raw_put c realloc r xs = raw_writer c realloc (Some r) (of_nat (length xs)) body"
    if "length (raw_contents r) + length xs < raw_bound"
      "\<And>r'. raw_room r' (length xs) \<Longrightarrow> body r' = Some (raw_append r' xs)" for xs body
    using ready [OF that(1)] that(2) by (simp add: raw_put_def raw_add_eq raw_writer_eq)
  have put_n: "raw_put c realloc r xs = raw_writer c realloc (Some r) (of_nat n) body"
    if "length xs = n" "length (raw_contents r) + n < raw_bound"
      "\<And>r'. raw_room r' n \<Longrightarrow> body r' = Some (raw_append r' xs)" for n xs body
    using put [of xs body] that by blast
  show "length (raw_contents r) + 1 < raw_bound \<Longrightarrow> dmr_raw_add_uint8 c realloc (Some r) x = raw_put c realloc r [x]"
    using put [of "[x]" "raw_putc x"] raw_putc_append by (simp add: dmr_raw_add_uint8_def)
  show "length (raw_contents r) + 2 < raw_bound \<Longrightarrow>
      dmr_raw_add_xuint8 c realloc (Some r) x = raw_put c realloc r (hex_bytes c [x])"
    using put [of "hex_bytes c [x]" "\<lambda>raw. do {
        raw \<leftarrow> raw_putc (bhex c ! unat (drop_bit 4 x)) raw; raw_putc (bhex c ! unat (x AND 0x0f)) raw }"] raw_putc_pair
    by (simp add: dmr_raw_add_xuint8_def hex_bytes_def)
  show "length (raw_contents r) + 2 * length bs < raw_bound \<Longrightarrow>
      dmr_raw_add_hex c realloc (Some r) bs (of_nat (length bs)) = raw_put c realloc r (hex_bytes c bs)"
  proof -
    assume a: "length (raw_contents r) + 2 * length bs < raw_bound"
    have u: "unat (of_nat (length bs) :: u64) = length bs" using a by (simp add: unat_of_nat take_bit_nat_eq_self)
    have e: "of_nat (length bs) * (2 :: u64) = of_nat (length (hex_bytes c bs))" by simp
    show ?thesis
      unfolding dmr_raw_add_hex_def u e
      using a raw_hex_loop [of "length bs" bs _ c] by (intro put [symmetric]) simp_all
  qed
  show "length (raw_contents r) + n < raw_bound \<Longrightarrow>
      raw_add_uint c realloc n (Some r) w = raw_put c realloc r (le_bytes n w)"
    unfolding raw_add_uint_def using raw_uint_loop [of _ n w] by (intro put_n [symmetric]) simp_all
  show "0 < n \<Longrightarrow> length (raw_contents r) + n < raw_bound \<Longrightarrow>
      raw_add_xuint c realloc n (Some r) w = raw_put c realloc r (snprintf_hex n (unat w))"
    unfolding raw_add_xuint_def using raw_xuint_body [of c n _ "unat w"] assms
    by (intro put_n [symmetric]) (simp_all add: raw_sink_inv_def)
qed

lemmas raw_int_writers = dmr_raw_add_uint16_def dmr_raw_add_uint24_def dmr_raw_add_uint32_def dmr_raw_add_uint64_def
  dmr_raw_add_xuint16_def dmr_raw_add_xuint24_def dmr_raw_add_xuint32_def dmr_raw_add_xuint64_def
  dmr_raw_add_uint32_le_def dmr_raw_add_xuint32_le_def

section \<open>Digits\<close>

lemma hex_text_length: "v < 16 ^ n \<Longrightarrow> 0 < n \<Longrightarrow> length (hex_text v) \<le> n"
proof (induction n arbitrary: v)
  case (Suc n)
  show ?case
  proof (cases "v < 16")
    case True
    then show ?thesis by (subst hex_text.simps) (simp add: Let_def)
  next
    case False
    then have n: "0 < n" using Suc.prems by (cases n) auto
    have "v div 16 < 16 ^ n" using Suc.prems by (simp add: div_less_iff_less_mult mult.commute)
    with Suc.IH n False show ?thesis by (subst hex_text.simps) (simp add: Let_def)
  qed
qed simp

lemma snprintf_hex_high:
  assumes "v < 16 ^ n" "w < 16 ^ n" "v div 16 = w div 16" "0 < n"
  shows "snprintf_hex n v = snprintf_hex n w"
proof -
  define d :: "nat \<Rightarrow> u8" where "d x = (if x < 10 then of_nat (0x30 + x) else of_nat (0x61 + (x - 10)))" for x
  have t: "hex_text x = (if x < 16 then [d x] else hex_text (x div 16) @ [d (x mod 16)])" for x
    by (subst hex_text.simps) (simp add: Let_def d_def)
  have low: "x < 16 \<longleftrightarrow> x div 16 = 0" for x :: nat by auto
  have "take (n - 1) (hex_pad n x) =
      (if x div 16 = 0 then replicate (n - 1) 0x30 else replicate (n - 1 - length (hex_text (x div 16))) 0x30 @ hex_text (x div 16))"
    if "x < 16 ^ n" for x
  proof (cases "x < 16")
    case True
    then show ?thesis using assms(4) t [of x] by (simp add: hex_pad_def low)
  next
    case False
    then have "length (hex_text (x div 16)) \<le> n - 1" using hex_text_length [OF that assms(4)] t [of x] by simp
    then show ?thesis using False t [of x] by (auto simp: hex_pad_def low)
  qed
  from this [OF assms(1)] this [OF assms(2)] assms(3) show ?thesis by (simp add: snprintf_hex_def)
qed

section \<open>Properties\<close>

text \<open>
  C28. The buffer appends and stays well-formed: whatever sequence of chunks is written into a
  fresh buffer, no write leaves the buffer, and either an allocation failure is reported or
  the contents are exactly the chunks in order, with the invariant kept.
\<close>

theorem raw_buffer_appends:
  assumes "common_ok c" "realloc_ok realloc" "dmr_raw_new mem mem' len = Some r" "length (concat xss) < raw_bound"
  shows "puts (raw_put c realloc) xss r = Some (Inl (Errno DMR_LASTERROR)) \<or>
    (\<exists>r'. puts (raw_put c realloc) xss r = Some (Inr r') \<and> raw_inv r' \<and> raw_contents r' = concat xss)"
  using raw.puts_cases [of c realloc r xss] raw_new_inv [OF assms(3)] assms by (auto simp: raw_sink_inv_def)

definition std_realloc :: reallocator where
  "std_realloc buf n = Some (take n (buf @ replicate n 0))"

lemma realloc_ok_std: "realloc_ok std_realloc"
  by (auto simp: realloc_ok_def std_realloc_def min_def)

theorem raw_buffer_appends_witness:
  "puts (raw_put std_common std_realloc) [[1, 2], [], replicate 300 7] \<lparr>raw_buf = replicate 128 0, raw_allocated = 128, raw_len = 0\<rparr> =
     Some (Inl (Errno DMR_LASTERROR)) \<or>
   (\<exists>r'. puts (raw_put std_common std_realloc) [[1, 2], [], replicate 300 7] \<lparr>raw_buf = replicate 128 0, raw_allocated = 128, raw_len = 0\<rparr> =
     Some (Inr r') \<and> raw_inv r' \<and> raw_contents r' = concat [[1, 2], [], replicate 300 7])"
  by (rule raw_buffer_appends [OF common_ok_std realloc_ok_std, of True True 1])
    (simp_all add: dmr_raw_new_def raw_round_def)

text \<open>
  The integer and hexadecimal writers are shorthands: on a well-formed buffer each of them
  behaves exactly as \<open>dmr_raw_add\<close> on the bytes of the value, low byte first, or on the
  hexadecimal digits of the bytes.
\<close>

theorem raw_writers_are_appends:
  assumes "common_ok c" "realloc_ok realloc" "raw_inv r" "length (raw_contents r) + 2 * length bs + 8 < raw_bound"
  shows "dmr_raw_add_uint8 c realloc (Some r) b = raw_put c realloc r [b] \<and>
    dmr_raw_add_uint16 c realloc (Some r) h = raw_put c realloc r (le_bytes 2 h) \<and>
    dmr_raw_add_uint24 c realloc (Some r) w = raw_put c realloc r (le_bytes 3 w) \<and>
    dmr_raw_add_uint32 c realloc (Some r) w = raw_put c realloc r (le_bytes 4 w) \<and>
    dmr_raw_add_uint64 c realloc (Some r) d = raw_put c realloc r (le_bytes 8 d) \<and>
    dmr_raw_add_xuint8 c realloc (Some r) b = raw_put c realloc r (hex_bytes c [b]) \<and>
    dmr_raw_add_hex c realloc (Some r) bs (of_nat (length bs)) = raw_put c realloc r (hex_bytes c bs)"
proof -
  have "raw_sink_inv c realloc r" using assms by (simp add: raw_sink_inv_def)
  note w = raw_writers [OF this]
  from w(1) [of b] w(2) [of b] w(3) [of bs] w(4) [of 2 h] w(4) [of 3 w] w(4) [of 4 w] w(4) [of 8 d] assms(4)
  show ?thesis by (simp add: raw_int_writers)
qed

theorem raw_writers_are_appends_witness:
  "dmr_raw_add_uint16 std_common std_realloc (Some \<lparr>raw_buf = [0, 0, 0], raw_allocated = 3, raw_len = 2\<rparr>) 0x1234 =
     raw_put std_common std_realloc \<lparr>raw_buf = [0, 0, 0], raw_allocated = 3, raw_len = 2\<rparr> (le_bytes 2 (0x1234 :: u16))"
  using raw_writers_are_appends [OF common_ok_std realloc_ok_std,
      of "\<lparr>raw_buf = [0, 0, 0], raw_allocated = 3, raw_len = 2\<rparr>" "[]" 0 "0x1234" 0 0]
  by (simp add: raw_inv_def raw_contents_def)

text \<open>
  The hexadecimal writers for 16, 32 and 64 bits lose the last digit: two values that
  differ only in their low four bits are written as the same text, the last of its \<open>size\<close>
  bytes being the zero that \<open>snprintf\<close> puts there.
\<close>

theorem raw_xuint_drops_last_digit:
  assumes "drop_bit 4 h = drop_bit 4 h'" "drop_bit 4 w = drop_bit 4 w'" "drop_bit 4 d = drop_bit 4 d'"
  shows "dmr_raw_add_xuint16 c realloc raw h = dmr_raw_add_xuint16 c realloc raw h' \<and>
    dmr_raw_add_xuint32 c realloc raw w = dmr_raw_add_xuint32 c realloc raw w' \<and>
    dmr_raw_add_xuint64 c realloc raw d = dmr_raw_add_xuint64 c realloc raw d'"
proof -
  have div16: "unat x div 16 = unat y div 16" if "drop_bit 4 x = drop_bit 4 y" for x y :: "'a::len word"
    using arg_cong [OF that, of unat] unfolding unat_drop_bit_eq by (simp add: drop_bit_eq_div)
  have "unat h < 16 ^ 4" "unat h' < 16 ^ 4" "unat w < 16 ^ 8" "unat w' < 16 ^ 8" "unat d < 16 ^ 16" "unat d' < 16 ^ 16"
    using unsigned_less [of h] unsigned_less [of h'] unsigned_less [of w] unsigned_less [of w']
      unsigned_less [of d] unsigned_less [of d'] by simp_all
  then have eqs: "snprintf_hex 4 (unat h) = snprintf_hex 4 (unat h')" "snprintf_hex 8 (unat w) = snprintf_hex 8 (unat w')"
    "snprintf_hex 16 (unat d) = snprintf_hex 16 (unat d')"
    using div16 [OF assms(1)] div16 [OF assms(2)] div16 [OF assms(3)] by (auto intro: snprintf_hex_high)
  show ?thesis unfolding raw_int_writers raw_add_xuint_def eqs by simp
qed

theorem raw_xuint_drops_last_digit_witness:
  "dmr_raw_add_xuint16 std_common std_realloc None 0xabc1 = dmr_raw_add_xuint16 std_common std_realloc None 0xabcf \<and>
   dmr_raw_add_xuint32 std_common std_realloc (Some \<lparr>raw_buf = [], raw_allocated = 0, raw_len = 0\<rparr>) 0x10 =
     dmr_raw_add_xuint32 std_common std_realloc (Some \<lparr>raw_buf = [], raw_allocated = 0, raw_len = 0\<rparr>) 0x1f"
  using raw_xuint_drops_last_digit [of "0xabc1" "0xabcf" 0 0 0 0 std_common std_realloc None]
    raw_xuint_drops_last_digit [of 0 0 "0x10" "0x1f" 0 0 std_common std_realloc "Some \<lparr>raw_buf = [], raw_allocated = 0, raw_len = 0\<rparr>"]
  by simp

end
