(* ===== verification/Dmr_Packetq.thy ===== *)
theory Dmr_Packetq
  imports Dmr_Raw Dmr_Packet
begin

text \<open>
  The two queues of the library: \<open>dmr_rawq\<close> of \<open>src/dmr/raw.c\<close>, with an optional limit, and
  \<open>dmr_packetq\<close> of \<open>src/dmr/packetq.c\<close>.  Both are tail queues; \<open>Dmr_Queue\<close> shows that the macros
  implement lists, so the head of a queue is the list of its elements here.  A Boolean \<open>mem\<close>
  says whether an allocation succeeds.
\<close>

section \<open>Raw buffer queues\<close>

record dmr_rawq =
  rawq_head :: "dmr_raw list"
  rawq_limit :: u64

definition dmr_rawq_new :: "bool \<Rightarrow> u64 \<Rightarrow> dmr_rawq option" where
  "dmr_rawq_new mem limit = (if \<not> mem then None else Some \<lparr>rawq_head = [], rawq_limit = limit\<rparr>)"

definition dmr_rawq_size :: "dmr_rawq option \<Rightarrow> u64" where
  "dmr_rawq_size rawq = (case rawq of None \<Rightarrow> - 1 | Some q \<Rightarrow> fold (\<lambda>raw i. i + 1) (rawq_head q) 0)"

definition dmr_rawq_empty :: "dmr_rawq option \<Rightarrow> bool" where
  "dmr_rawq_empty rawq = (case rawq of None \<Rightarrow> True | Some q \<Rightarrow> rawq_head q = [])"

definition dmr_rawq_add :: "dmr_rawq option \<Rightarrow> dmr_raw option \<Rightarrow> failure + dmr_rawq" where
  "dmr_rawq_add rawq raw =
     (case (rawq, raw) of
        (Some q, Some raw) \<Rightarrow>
          if rawq_limit q = 0 \<or> dmr_rawq_size (Some q) < rawq_limit q
          then Inr (q\<lparr>rawq_head := rawq_head q @ [raw]\<rparr>) else Inl Fail
      | _ \<Rightarrow> Inl (Errno DMR_EINVAL))"

definition dmr_rawq_unshift :: "dmr_rawq option \<Rightarrow> dmr_raw option \<Rightarrow> failure + dmr_rawq" where
  "dmr_rawq_unshift rawq raw =
     (case (rawq, raw) of
        (Some q, Some raw) \<Rightarrow>
          if rawq_limit q = 0 \<or> dmr_rawq_size (Some q) < rawq_limit q
          then Inr (q\<lparr>rawq_head := raw # rawq_head q\<rparr>) else Inl Fail
      | _ \<Rightarrow> Inl (Errno DMR_EINVAL))"

text \<open>The copied buffer has \<open>len\<close> bytes.\<close>

definition dmr_rawq_addb ::
  "common_ops \<Rightarrow> bool \<Rightarrow> bool \<Rightarrow> dmr_rawq option \<Rightarrow> u8 list \<Rightarrow> u64 \<Rightarrow> failure + dmr_rawq" where
  "dmr_rawq_addb c mem mem' rawq buf len =
     (case rawq of
        None \<Rightarrow> Inl (Errno DMR_EINVAL)
      | Some q \<Rightarrow>
          (case dmr_raw_new mem mem' len of
             None \<Rightarrow> Inl (Errno DMR_ENOMEM)
           | Some raw \<Rightarrow>
               dmr_rawq_add rawq (Some (raw\<lparr>raw_buf := byte_copy c (raw_buf raw) buf (unat len), raw_len := len\<rparr>))))"

text \<open>The callback changes the user data.\<close>

definition dmr_rawq_each :: "dmr_rawq option \<Rightarrow> (dmr_raw \<Rightarrow> 'u \<Rightarrow> 'u) \<Rightarrow> 'u \<Rightarrow> failure + 'u" where
  "dmr_rawq_each rawq cb userdata =
     (case rawq of None \<Rightarrow> Inl (Errno DMR_EINVAL) | Some q \<Rightarrow> Inr (fold cb (rawq_head q) userdata))"

definition dmr_rawq_shift :: "dmr_rawq option \<Rightarrow> dmr_raw option \<times> dmr_rawq option" where
  "dmr_rawq_shift rawq =
     (case rawq of
        None \<Rightarrow> (None, None)
      | Some q \<Rightarrow>
          (case rawq_head q of
             [] \<Rightarrow> (None, Some q)
           | raw # rest \<Rightarrow> (Some raw, Some (q\<lparr>rawq_head := rest\<rparr>))))"

section \<open>Packet queues\<close>

record dmr_packetq =
  pq_head :: "dmr_parsed_packet list"

definition dmr_packetq_new :: "bool \<Rightarrow> dmr_packetq option" where
  "dmr_packetq_new mem = (if mem then Some \<lparr>pq_head = []\<rparr> else None)"

definition dmr_packetq_add :: "bool \<Rightarrow> dmr_packetq option \<Rightarrow> dmr_parsed_packet option \<Rightarrow> failure + dmr_packetq" where
  "dmr_packetq_add mem q parsed =
     (case (q, parsed) of
        (Some q, Some parsed) \<Rightarrow>
          if \<not> mem then Inl (Errno DMR_ENOMEM) else Inr (q\<lparr>pq_head := pq_head q @ [parsed]\<rparr>)
      | _ \<Rightarrow> Inl (Errno DMR_EINVAL))"

definition dmr_packetq_add_packet ::
  "common_ops \<Rightarrow> bool \<Rightarrow> bool \<Rightarrow> dmr_packetq option \<Rightarrow> u8 list option \<Rightarrow> failure + dmr_packetq" where
  "dmr_packetq_add_packet c mem mem' q packet =
     (case (q, packet) of
        (Some q, Some packet) \<Rightarrow>
          if \<not> mem then Inl (Errno DMR_ENOMEM)
          else let parsed = zero_parsed_packet\<lparr>
                     pp_packet := byte_copy c (replicate DMR_PACKET_LEN 0) packet DMR_PACKET_LEN, pp_parsed := False\<rparr>
               in dmr_packetq_add mem' (Some q) (Some parsed)
      | _ \<Rightarrow> Inl (Errno DMR_EINVAL))"

definition dmr_packetq_shift :: "dmr_packetq option \<Rightarrow> failure + dmr_parsed_packet \<times> dmr_packetq" where
  "dmr_packetq_shift q =
     (case q of
        None \<Rightarrow> Inl (Errno DMR_EINVAL)
      | Some q \<Rightarrow>
          (case pq_head q of
             [] \<Rightarrow> Inl Fail
           | parsed # rest \<Rightarrow> Inr (parsed, q\<lparr>pq_head := rest\<rparr>)))"

definition dmr_packetq_shift_packet ::
  "common_ops \<Rightarrow> dmr_packetq option \<Rightarrow> u8 list \<Rightarrow> failure + u8 list \<times> dmr_packetq" where
  "dmr_packetq_shift_packet c q packet_out =
     (case dmr_packetq_shift q of
        Inl e \<Rightarrow> Inl e
      | Inr (parsed, q) \<Rightarrow> Inr (byte_copy c packet_out (pp_packet parsed) DMR_PACKET_LEN, q))"

definition dmr_packetq_flush :: "dmr_packetq option \<Rightarrow> failure + dmr_packetq" where
  "dmr_packetq_flush q =
     (case q of None \<Rightarrow> Inl (Errno DMR_EINVAL) | Some q \<Rightarrow> Inr (q\<lparr>pq_head := []\<rparr>))"

text \<open>The loops stop at the first callback that does not return 0, and return its value.\<close>

fun packetq_each :: "('a \<Rightarrow> 'u \<Rightarrow> int \<times> 'u) \<Rightarrow> 'a list \<Rightarrow> 'u \<Rightarrow> int \<times> 'u" where
  "packetq_each cb [] userdata = (0, userdata)"
| "packetq_each cb (x # xs) userdata =
     (case cb x userdata of (ret, userdata) \<Rightarrow> if ret \<noteq> 0 then (ret, userdata) else packetq_each cb xs userdata)"

definition dmr_packetq_foreach ::
  "dmr_packetq option \<Rightarrow> (dmr_parsed_packet \<Rightarrow> 'u \<Rightarrow> int \<times> 'u) \<Rightarrow> 'u \<Rightarrow> int \<times> 'u" where
  "dmr_packetq_foreach q cb userdata =
     (case q of None \<Rightarrow> (-1, userdata) | Some q \<Rightarrow> packetq_each cb (pq_head q) userdata)"

definition dmr_packetq_foreach_packet ::
  "dmr_packetq option \<Rightarrow> (u8 list \<Rightarrow> 'u \<Rightarrow> int \<times> 'u) \<Rightarrow> 'u \<Rightarrow> int \<times> 'u" where
  "dmr_packetq_foreach_packet q cb userdata =
     (case q of None \<Rightarrow> (-1, userdata) | Some q \<Rightarrow> packetq_each (cb \<circ> pp_packet) (pq_head q) userdata)"

section \<open>The contract of a queue\<close>

datatype 'a queue_op = Q_Add 'a | Q_Shift

text \<open>What the operations of a run return: whether an element was taken, or which one came out.\<close>

datatype 'a queue_out = Taken | Refused | Empty | Out 'a

text \<open>The specification: a list with a capacity, \<open>None\<close> for an unlimited one.\<close>

fun list_run :: "nat option \<Rightarrow> 'a queue_op list \<Rightarrow> 'a list \<Rightarrow> 'a queue_out list \<times> 'a list" where
  "list_run cap [] xs = ([], xs)"
| "list_run cap (Q_Add x # ops) xs =
     (if (case cap of None \<Rightarrow> True | Some n \<Rightarrow> length xs < n)
      then let (outs, ys) = list_run cap ops (xs @ [x]) in (Taken # outs, ys)
      else let (outs, ys) = list_run cap ops xs in (Refused # outs, ys))"
| "list_run cap (Q_Shift # ops) xs =
     (case xs of
        [] \<Rightarrow> let (outs, ys) = list_run cap ops [] in (Empty # outs, ys)
      | x # xs \<Rightarrow> let (outs, ys) = list_run cap ops xs in (Out x # outs, ys))"

fun queue_run ::
  "('q \<Rightarrow> 'a \<Rightarrow> 'q option) \<Rightarrow> ('q \<Rightarrow> ('a \<times> 'q) option) \<Rightarrow> 'a queue_op list \<Rightarrow> 'q \<Rightarrow> 'a queue_out list \<times> 'q" where
  "queue_run add shift [] q = ([], q)"
| "queue_run add shift (Q_Add x # ops) q =
     (case add q x of
        Some q \<Rightarrow> let (outs, q) = queue_run add shift ops q in (Taken # outs, q)
      | None \<Rightarrow> let (outs, q) = queue_run add shift ops q in (Refused # outs, q))"
| "queue_run add shift (Q_Shift # ops) q =
     (case shift q of
        None \<Rightarrow> let (outs, q) = queue_run add shift ops q in (Empty # outs, q)
      | Some (x, q) \<Rightarrow> let (outs, q) = queue_run add shift ops q in (Out x # outs, q))"

locale fifo =
  fixes inv :: "'q \<Rightarrow> bool"
    and items :: "'q \<Rightarrow> 'a list"
    and cap :: "'q \<Rightarrow> nat option"
    and add :: "'q \<Rightarrow> 'a \<Rightarrow> 'q option"
    and shift :: "'q \<Rightarrow> ('a \<times> 'q) option"
  assumes add_room: "inv q \<Longrightarrow> (case cap q of None \<Rightarrow> True | Some n \<Rightarrow> length (items q) < n) \<Longrightarrow>
      \<exists>q'. add q x = Some q' \<and> inv q' \<and> items q' = items q @ [x] \<and> cap q' = cap q"
    and add_full: "inv q \<Longrightarrow> cap q = Some n \<Longrightarrow> n \<le> length (items q) \<Longrightarrow> add q x = None"
    and shift_empty: "inv q \<Longrightarrow> items q = [] \<Longrightarrow> shift q = None"
    and shift_item: "inv q \<Longrightarrow> items q = x # xs \<Longrightarrow> \<exists>q'. shift q = Some (x, q') \<and> inv q' \<and> items q' = xs \<and> cap q' = cap q"
begin

lemma run_refines:
  assumes "inv q" "queue_run add shift ops q = (outs, q')"
  shows "list_run (cap q) ops (items q) = (outs, items q') \<and> inv q'"
  using assms
proof (induction ops arbitrary: q outs)
  case (Cons op ops)
  show ?case
  proof (cases op)
    case (Q_Add x)
    show ?thesis
    proof (cases "case cap q of None \<Rightarrow> True | Some n \<Rightarrow> length (items q) < n")
      case True
      from add_room [OF Cons.prems(1) True, of x] obtain q1 where
        q1: "add q x = Some q1" "inv q1" "items q1 = items q @ [x]" "cap q1 = cap q" by blast
      obtain o1 where o1: "queue_run add shift ops q1 = (o1, q')" "outs = Taken # o1"
        using Cons.prems(2) Q_Add q1(1) by (auto split: prod.splits)
      from Cons.IH [OF q1(2) o1(1)] show ?thesis using Q_Add True q1 o1(2) by simp
    next
      case False
      then have full: "add q x = None" using add_full [OF Cons.prems(1)] by (auto split: option.splits)
      then obtain o1 where o1: "queue_run add shift ops q = (o1, q')" "outs = Refused # o1"
        using Cons.prems(2) Q_Add by (auto split: prod.splits)
      from Cons.IH [OF Cons.prems(1) o1(1)] show ?thesis using Q_Add False o1(2) by simp
    qed
  next
    case Q_Shift
    show ?thesis
    proof (cases "items q")
      case Nil
      then obtain o1 where o1: "queue_run add shift ops q = (o1, q')" "outs = Empty # o1"
        using Cons.prems(2) Q_Shift shift_empty [OF Cons.prems(1)] by (auto split: prod.splits)
      from Cons.IH [OF Cons.prems(1) o1(1)] show ?thesis using Q_Shift Nil o1(2) by simp
    next
      case it: (Cons y ys)
      from shift_item [OF Cons.prems(1) it] obtain q1 where
        q1: "shift q = Some (y, q1)" "inv q1" "items q1 = ys" "cap q1 = cap q" by blast
      obtain o1 where o1: "queue_run add shift ops q1 = (o1, q')" "outs = Out y # o1"
        using Cons.prems(2) Q_Shift q1(1) by (auto split: prod.splits)
      from Cons.IH [OF q1(2) o1(1)] show ?thesis using Q_Shift it q1 o1(2) by simp
    qed
  qed
qed simp

end

definition rawq_inv :: "dmr_rawq \<Rightarrow> bool" where
  "rawq_inv q \<longleftrightarrow> (rawq_limit q \<noteq> 0 \<longrightarrow> length (rawq_head q) \<le> unat (rawq_limit q))"

definition rawq_cap :: "dmr_rawq \<Rightarrow> nat option" where
  "rawq_cap q = (if rawq_limit q = 0 then None else Some (unat (rawq_limit q)))"

definition rawq_put :: "dmr_rawq \<Rightarrow> dmr_raw \<Rightarrow> dmr_rawq option" where
  "rawq_put q raw = (case dmr_rawq_add (Some q) (Some raw) of Inl _ \<Rightarrow> None | Inr q' \<Rightarrow> Some q')"

definition rawq_get :: "dmr_rawq \<Rightarrow> (dmr_raw \<times> dmr_rawq) option" where
  "rawq_get q = (case dmr_rawq_shift (Some q) of (Some raw, Some q') \<Rightarrow> Some (raw, q') | _ \<Rightarrow> None)"

lemma rawq_size_length: "dmr_rawq_size (Some q) = of_nat (length (rawq_head q))"
proof -
  have "fold (\<lambda>raw i. i + 1) xs k = k + of_nat (length xs)" for xs :: "dmr_raw list" and k :: u64
    by (induction xs arbitrary: k) (simp_all add: add.assoc)
  then show ?thesis by (simp add: dmr_rawq_size_def)
qed

lemma rawq_room:
  assumes "rawq_inv q" "rawq_limit q \<noteq> 0"
  shows "dmr_rawq_size (Some q) < rawq_limit q \<longleftrightarrow> length (rawq_head q) < unat (rawq_limit q)"
proof -
  have "unat (rawq_limit q) < 2 ^ 64" using unsigned_less [of "rawq_limit q"] by simp
  then have "length (rawq_head q) < 2 ^ 64" using assms by (simp add: rawq_inv_def)
  then have "unat (of_nat (length (rawq_head q)) :: u64) = length (rawq_head q)"
    by (simp add: unat_of_nat take_bit_nat_eq_self)
  then show ?thesis by (simp add: rawq_size_length word_less_nat_alt)
qed

interpretation rawq: fifo rawq_inv rawq_head rawq_cap rawq_put rawq_get
proof
  fix q :: dmr_rawq and x :: dmr_raw and n :: nat and xs :: "dmr_raw list"
  assume inv: "rawq_inv q"
  show "\<exists>q'. rawq_put q x = Some q' \<and> rawq_inv q' \<and> rawq_head q' = rawq_head q @ [x] \<and> rawq_cap q' = rawq_cap q"
    if "case rawq_cap q of None \<Rightarrow> True | Some n \<Rightarrow> length (rawq_head q) < n"
    using that inv rawq_room [OF inv]
    by (auto simp: rawq_put_def dmr_rawq_add_def rawq_inv_def rawq_cap_def split: if_splits)
  show "rawq_put q x = None" if "rawq_cap q = Some n" "n \<le> length (rawq_head q)"
    using that rawq_room [OF inv] by (auto simp: rawq_put_def dmr_rawq_add_def rawq_cap_def split: if_splits)
  show "rawq_get q = None" if "rawq_head q = []"
    using that by (simp add: rawq_get_def dmr_rawq_shift_def)
  show "\<exists>q'. rawq_get q = Some (x, q') \<and> rawq_inv q' \<and> rawq_head q' = xs \<and> rawq_cap q' = rawq_cap q"
    if "rawq_head q = x # xs"
    using that inv by (auto simp: rawq_get_def dmr_rawq_shift_def rawq_inv_def rawq_cap_def)
qed

text \<open>The packet queue while its allocations succeed.\<close>

definition packetq_put :: "dmr_packetq \<Rightarrow> dmr_parsed_packet \<Rightarrow> dmr_packetq option" where
  "packetq_put q parsed = (case dmr_packetq_add True (Some q) (Some parsed) of Inl _ \<Rightarrow> None | Inr q' \<Rightarrow> Some q')"

definition packetq_get :: "dmr_packetq \<Rightarrow> (dmr_parsed_packet \<times> dmr_packetq) option" where
  "packetq_get q = (case dmr_packetq_shift (Some q) of Inl _ \<Rightarrow> None | Inr r \<Rightarrow> Some r)"

interpretation packetq: fifo "\<lambda>_. True" pq_head "\<lambda>_. None" packetq_put packetq_get
  by unfold_locales
    (simp_all add: packetq_put_def packetq_get_def dmr_packetq_add_def dmr_packetq_shift_def)

section \<open>Properties\<close>

text \<open>
  The raw queue is a bounded first-in first-out queue: any sequence of additions and
  removals on a new queue has the outcome of the same sequence on a list of that capacity
  (limit 0: unlimited), refusals and empty answers included, and the limit is never exceeded.
\<close>

theorem rawq_refines_bounded_list:
  assumes "dmr_rawq_new True limit = Some q" "queue_run rawq_put rawq_get ops q = (outs, q')"
  shows "list_run (if limit = 0 then None else Some (unat limit)) ops [] = (outs, rawq_head q') \<and>
    (limit \<noteq> 0 \<longrightarrow> length (rawq_head q') \<le> unat limit)"
proof -
  have q: "rawq_inv q" "rawq_head q = []" "rawq_cap q = (if limit = 0 then None else Some (unat limit))"
    using assms(1) by (auto simp: dmr_rawq_new_def rawq_inv_def rawq_cap_def)
  have "length ys \<le> n" if "list_run (Some n) ops xs = (outs, ys)" "length xs \<le> n" for n xs ys outs and ops :: "dmr_raw queue_op list"
    using that
  proof (induction "Some n" ops xs arbitrary: outs rule: list_run.induct)
    case (2 x ops xs)
    then show ?case by (auto split: if_splits prod.splits)
  next
    case (3 ops xs)
    then show ?case by (cases xs) (auto split: prod.splits)
  qed simp
  then show ?thesis using rawq.run_refines [OF q(1) assms(2)] q by auto
qed

theorem rawq_refines_bounded_list_witness:
  "let a = \<lparr>raw_buf = [1], raw_allocated = 1, raw_len = 1\<rparr>; b = \<lparr>raw_buf = [2], raw_allocated = 1, raw_len = 1\<rparr> in
   queue_run rawq_put rawq_get [Q_Add a, Q_Add b, Q_Shift, Q_Add b, Q_Shift, Q_Shift] \<lparr>rawq_head = [], rawq_limit = 1\<rparr> =
     ([Taken, Refused, Out a, Taken, Out b, Empty], \<lparr>rawq_head = [], rawq_limit = 1\<rparr>) \<and>
   list_run (Some 1) [Q_Add a, Q_Add b, Q_Shift, Q_Add b, Q_Shift, Q_Shift] [] = ([Taken, Refused, Out a, Taken, Out b, Empty], [])"
proof -
  define a b where "a = \<lparr>raw_buf = [1], raw_allocated = 1, raw_len = 1\<rparr>" and "b = \<lparr>raw_buf = [2], raw_allocated = 1, raw_len = 1\<rparr>"
  have "queue_run rawq_put rawq_get [Q_Add a, Q_Add b, Q_Shift, Q_Add b, Q_Shift, Q_Shift] \<lparr>rawq_head = [], rawq_limit = 1\<rparr> =
     ([Taken, Refused, Out a, Taken, Out b, Empty], \<lparr>rawq_head = [], rawq_limit = 1\<rparr>)"
    by (simp add: rawq_put_def rawq_get_def dmr_rawq_add_def dmr_rawq_shift_def dmr_rawq_size_def)
  with rawq_refines_bounded_list [OF _ this, of 1] show ?thesis
    by (simp add: dmr_rawq_new_def Let_def a_def b_def)
qed

text \<open>
  The packet queue is a first-in first-out queue: while allocations succeed, any sequence
  of additions and removals has the outcome of the same sequence on an unlimited list.
\<close>

theorem packetq_refines_list:
  assumes "dmr_packetq_new True = Some q"
  shows "\<exists>q'. queue_run packetq_put packetq_get ops q = (fst (list_run None ops []), q') \<and>
    pq_head q' = snd (list_run None ops [])"
  using packetq.run_refines [where q = q and ops = ops] assms
  by (cases "queue_run packetq_put packetq_get ops q") (auto simp: dmr_packetq_new_def)

theorem packetq_refines_list_witness:
  "\<exists>q'. queue_run packetq_put packetq_get [Q_Shift, Q_Add zero_parsed_packet, Q_Shift] \<lparr>pq_head = []\<rparr> =
      ([Empty, Taken, Out zero_parsed_packet], q') \<and> pq_head q' = []"
  using packetq_refines_list [of "\<lparr>pq_head = []\<rparr>" "[Q_Shift, Q_Add zero_parsed_packet, Q_Shift]"]
  by (simp add: dmr_packetq_new_def)

end
