(* ===== verification/Dmr_Frame.thy ===== *)
theory Dmr_Frame
  imports Dmr_Raw
begin

text \<open>
  Frames as the protocols build them: a fresh \<open>dmr_raw\<close> and a sequence of writers whose return
  values are ignored.  When the buffer is large enough from the start, every writer succeeds and
  the contents are the concatenation of what was written.
\<close>

section \<open>Definitions\<close>

text \<open>
  \<open>DMR_ERROR_IF_NULL\<close> on the pointer to the connection: without one the call fails, otherwise it
  changes the state behind the pointer; \<open>None\<close> is a call without defined result.
\<close>

definition null_check :: "'r \<Rightarrow> ('s \<Rightarrow> (int \<times> 's \<times> 'r) option) \<Rightarrow> 's option \<Rightarrow> (int \<times> 's option \<times> 'r) option" where
  "null_check d f ptr =
     (case ptr of None \<Rightarrow> Some (-1, None, d) | Some s \<Rightarrow> map_option (\<lambda>(ret, s, r). (ret, Some s, r)) (f s))"

lemma null_check_simps [simp]:
  "null_check d f None = Some (-1, None, d)"
  "null_check d f (Some s) = Some (ret, Some s', r) \<longleftrightarrow> f s = Some (ret, s', r)"
  by (auto simp: null_check_def)

text \<open>
  The frame builders ignore the value of the writers: after a failed one the buffer is as it
  was and the next one follows.
\<close>

definition raw_try :: "(dmr_raw option \<Rightarrow> (failure + dmr_raw) option) \<Rightarrow> dmr_raw \<Rightarrow> dmr_raw option" where
  "raw_try wr raw = (case wr (Some raw) of None \<Rightarrow> None | Some (Inl e) \<Rightarrow> Some raw | Some (Inr raw') \<Rightarrow> Some raw')"

definition raw_steps :: "(dmr_raw option \<Rightarrow> (failure + dmr_raw) option) list \<Rightarrow> dmr_raw \<Rightarrow> dmr_raw option" where
  "raw_steps wrs raw = foldo raw_try wrs raw"

section \<open>Writers that append\<close>

text \<open>
  The buffers of the frame builders are large enough from the start, so that no writer
  reallocates, and zero behind their contents.
\<close>

definition raw_clean :: "dmr_raw \<Rightarrow> bool" where
  "raw_clean r \<longleftrightarrow> raw_inv r \<and> (\<exists>k. raw_buf r = raw_contents r @ replicate k 0)"

definition raw_slack :: "dmr_raw \<Rightarrow> nat \<Rightarrow> bool" where
  "raw_slack r n \<longleftrightarrow> unat (raw_len r) + n < unat (raw_allocated r) \<and> unat (raw_allocated r) \<le> 1024"

definition appends :: "(dmr_raw option \<Rightarrow> (failure + dmr_raw) option) \<Rightarrow> u8 list \<Rightarrow> bool" where
  "appends wr xs \<longleftrightarrow> (\<forall>r. raw_clean r \<longrightarrow> raw_slack r (length xs + 2) \<longrightarrow>
     (\<exists>r'. wr (Some r) = Some (Inr r') \<and> raw_clean r' \<and> raw_contents r' = raw_contents r @ xs \<and>
       raw_allocated r' = raw_allocated r))"

lemma raw_len_contents: "raw_inv r \<Longrightarrow> unat (raw_len r) = length (raw_contents r)"
  by (simp add: length_raw_contents)

lemma grow_add_slack:
  assumes "raw_slack r (n + 1)"
  shows "dmr_raw_grow_add c realloc (Some r) (of_nat n) = Inr r"
proof -
  have l: "unat (raw_len r) + n < 2 ^ 64" "unat (of_nat n :: u64) = n"
    using assms by (simp_all add: raw_slack_def unat_of_nat take_bit_nat_eq_self)
  then have "unat (raw_len r + of_nat n) = unat (raw_len r) + n"
    using unat_add_lem [of "raw_len r" "of_nat n"] by simp
  with assms show ?thesis by (simp add: dmr_raw_grow_add_def dmr_raw_grow_def raw_slack_def word_less_nat_alt)
qed

lemma clean_append:
  assumes "raw_clean r" "raw_slack r (length xs + 2)"
  shows "raw_clean (raw_append r xs)" "raw_contents (raw_append r xs) = raw_contents r @ xs"
    "raw_allocated (raw_append r xs) = raw_allocated r" "raw_room r (length xs)"
proof -
  show room: "raw_room r (length xs)"
    using assms by (simp add: raw_room_def raw_slack_def raw_clean_def raw_inv_def)
  show c: "raw_contents (raw_append r xs) = raw_contents r @ xs" and "raw_allocated (raw_append r xs) = raw_allocated r"
    using raw_append_inv [of r xs 0] room by (simp_all add: raw_append_def)
  obtain k where k: "raw_buf r = raw_contents r @ replicate k 0" using assms(1) by (auto simp: raw_clean_def)
  have "raw_buf (raw_append r xs) = raw_contents r @ xs @ drop (unat (raw_len r) + length xs) (raw_buf r)"
    by (simp add: raw_append_def blit_def raw_contents_def)
  also have "drop (unat (raw_len r) + length xs) (raw_buf r) = replicate (k - length xs) 0"
    using assms(1) by (simp add: k raw_len_contents raw_clean_def)
  finally show "raw_clean (raw_append r xs)"
    using raw_append_inv(1) [of r xs 0] room c by (auto simp: raw_clean_def raw_room_def)
qed

lemma appends_put:
  assumes "common_ok c" "realloc_ok ra" "\<And>r. raw_sink_inv c ra r \<Longrightarrow>
      length (raw_contents r) + length xs < raw_bound \<Longrightarrow> wr (Some r) = raw_put c ra r xs"
  shows "appends wr xs"
  unfolding appends_def
proof (intro allI impI)
  fix r assume r: "raw_clean r" "raw_slack r (length xs + 2)"
  have inv: "raw_sink_inv c ra r" using assms(1,2) r(1) by (simp add: raw_sink_inv_def raw_clean_def)
  have len: "length (raw_contents r) + length xs < 1024"
    using r raw_len_contents [of r] by (simp add: raw_slack_def raw_clean_def)
  have "wr (Some r) = raw_put c ra r xs" using assms(3) [OF inv] len by simp
  also have "\<dots> = raw_emit c ra r xs"
    unfolding raw_put_def using inv len
    by (intro raw_add_eq) (simp add: raw_ready_def raw_sink_inv_def raw_len_contents)
  also have "\<dots> = Some (Inr (raw_append r xs))"
    using grow_add_slack [of r "length xs"] r(2) by (simp add: raw_emit_def raw_slack_def)
  finally show "\<exists>r'. wr (Some r) = Some (Inr r') \<and> raw_clean r' \<and> raw_contents r' = raw_contents r @ xs \<and>
       raw_allocated r' = raw_allocated r" using clean_append [OF r] by blast
qed

lemma appends_writers:
  assumes "common_ok c" "realloc_ok ra"
  shows "appends (\<lambda>raw. dmr_raw_add c ra raw bs (of_nat (length bs))) bs"
    "appends (\<lambda>raw. dmr_raw_add_uint8 c ra raw b) [b]"
    "appends (\<lambda>raw. dmr_raw_add_uint24 c ra raw w) (le_bytes 3 w)"
    "appends (\<lambda>raw. dmr_raw_add_uint32 c ra raw w) (le_bytes 4 w)"
    "appends (\<lambda>raw. dmr_raw_add_xuint32 c ra raw w) (snprintf_hex 8 (unat w))"
    "length hs = 32 \<Longrightarrow> appends (\<lambda>raw. dmr_raw_add_hex c ra raw hs 32) (hex_bytes c hs)"
  subgoal by (rule appends_put [OF assms]) (simp add: raw_put_def)
  subgoal by (rule appends_put [OF assms], rule raw_uint8_put) simp_all
  subgoal unfolding raw_int_writers by (rule appends_put [OF assms], rule raw_uint_put) simp_all
  subgoal unfolding raw_int_writers by (rule appends_put [OF assms], rule raw_uint_put) simp_all
  subgoal unfolding raw_int_writers by (rule appends_put [OF assms], rule raw_xuint_put) simp_all
  subgoal by (rule appends_put [OF assms]) (use raw_writers(3) [of c ra _ hs] in simp_all)
  done

lemma blit_append_zero:
  "drop n buf = replicate m 0 @ 0 # zs \<Longrightarrow> length xs = m \<Longrightarrow> blit buf n (xs @ [0]) = blit buf n xs"
  by (simp add: blit_def) (metis add.commute append_eq_conv_conj drop_drop drop_Suc_Cons drop0 length_replicate list.inject drop_Suc tl_drop)

lemma appends_addf:
  assumes "unat len \<le> length txt" "unat len < 1000"
  shows "appends (\<lambda>raw. dmr_raw_addf c ra raw len txt) (take (unat len) txt)"
  unfolding appends_def
proof (intro allI impI)
  let ?xs = "take (unat len) txt"
  fix r assume r: "raw_clean r" "raw_slack r (length ?xs + 2)"
  have l: "length ?xs = unat len" using assms(1) by simp
  have "len + 1 = of_nat (unat len + 1)" by simp
  then have g: "dmr_raw_grow_add c ra (Some r) (len + 1) = Inr r"
    using grow_add_slack [of r "unat len + 1"] r(2) l by (simp only:) simp
  obtain k where k: "raw_buf r = raw_contents r @ replicate k 0" using r(1) by (auto simp: raw_clean_def)
  have n: "unat (raw_len r) = length (raw_contents r)" and len: "length (raw_buf r) = unat (raw_allocated r)"
    using r(1) by (simp_all add: raw_clean_def raw_len_contents raw_inv_def)
  have "unat len + 1 \<le> k" using r(2) l n len by (simp add: k raw_slack_def)
  then obtain j where j: "k = unat len + (1 + j)" by (metis add.assoc le_Suc_ex)
  have "blit (raw_buf r) (unat (raw_len r)) (?xs @ [0]) = blit (raw_buf r) (unat (raw_len r)) ?xs"
    by (rule blit_append_zero [where m = "unat len" and zs = "replicate j 0"]) (simp_all add: n k j assms(1) min_absorb2 replicate_add replicate_app_Cons_same)
  moreover have "unat (raw_len r) + length (?xs @ [0]) \<le> length (raw_buf r)" using r(2) l len by (simp add: raw_slack_def)
  ultimately have "dmr_raw_addf c ra (Some r) len txt = Some (Inr (raw_append r ?xs))"
    using l by (simp add: dmr_raw_addf_def raw_writer_def g Let_def raw_append_def)
  then show "\<exists>r'. dmr_raw_addf c ra (Some r) len txt = Some (Inr r') \<and> raw_clean r' \<and>
      raw_contents r' = raw_contents r @ ?xs \<and> raw_allocated r' = raw_allocated r"
    using clean_append [OF r] by blast
qed

lemma raw_steps_appends:
  assumes "list_all2 appends wrs xss" "raw_clean r" "raw_slack r (length (concat xss) + 2)"
  shows "\<exists>r'. raw_steps wrs r = Some r' \<and> raw_clean r' \<and> raw_contents r' = raw_contents r @ concat xss \<and>
    raw_allocated r' = raw_allocated r"
  using assms
proof (induction wrs xss arbitrary: r rule: list_all2_induct)
  case Nil
  then show ?case by (simp add: raw_steps_def)
next
  case (Cons wr wrs xs xss)
  have "raw_slack r (length xs + 2)" using Cons.prems(2) by (simp add: raw_slack_def)
  with Cons.hyps(1) Cons.prems(1) obtain r1 where r1: "wr (Some r) = Some (Inr r1)" "raw_clean r1"
    "raw_contents r1 = raw_contents r @ xs" "raw_allocated r1 = raw_allocated r" unfolding appends_def by blast
  have "raw_slack r1 (length (concat xss) + 2)"
    using Cons.prems r1 raw_len_contents [of r] raw_len_contents [of r1] by (simp add: raw_slack_def raw_clean_def)
  from Cons.IH [OF r1(2) this] r1 show ?case by (auto simp: raw_steps_def raw_try_def)
qed

lemma raw_new_clean:
  assumes "dmr_raw_new mem mem' n = Some r" "unat (raw_round n) \<le> 1024"
  shows "raw_clean r" "raw_contents r = []" "raw_allocated r = raw_round n" "raw_len r = 0"
  using assms by (auto simp: dmr_raw_new_def raw_clean_def raw_inv_def raw_contents_def Let_def split: if_splits)

text \<open>A frame built in a fresh buffer that is large enough.\<close>

lemma raw_frame:
  assumes "dmr_raw_new mem mem' n = Some r" "list_all2 appends wrs xss"
    and "length (concat xss) + 2 < unat (raw_round n)" "unat (raw_round n) \<le> 1024"
  shows "\<exists>r'. raw_steps wrs r = Some r' \<and> raw_clean r' \<and> raw_contents r' = concat xss \<and> raw_allocated r' = raw_round n"
proof -
  note r = raw_new_clean [OF assms(1,4)]
  have "raw_slack r (length (concat xss) + 2)" using r assms(3,4) by (simp add: raw_slack_def)
  from raw_steps_appends [OF assms(2) r(1) this] r show ?thesis by simp
qed

lemma clean_longer:
  assumes "raw_clean r" "unat (raw_len r) + k \<le> unat (raw_allocated r)" "unat (raw_allocated r) \<le> 1024"
  shows "raw_contents (r\<lparr>raw_len := raw_len r + of_nat k\<rparr>) = raw_contents r @ replicate k 0"
proof -
  obtain j where j: "raw_buf r = raw_contents r @ replicate j 0" using assms(1) by (auto simp: raw_clean_def)
  have n: "unat (raw_len r) = length (raw_contents r)" "length (raw_buf r) = unat (raw_allocated r)"
    using assms(1) by (simp_all add: raw_clean_def raw_len_contents raw_inv_def)
  have "unat (of_nat k :: u64) = k" using assms(2,3) by (simp add: unat_of_nat take_bit_nat_eq_self)
  then have "unat (raw_len r + of_nat k) = length (raw_contents r) + k"
    using assms(2,3) n unat_add_lem [of "raw_len r" "of_nat k"] by simp
  moreover have "k \<le> j" using assms(2) n j by (metis add_le_cancel_left length_append length_replicate)
  ultimately show ?thesis using j by (simp add: raw_contents_def [of "r\<lparr>raw_len := x\<rparr>" for x] min_absorb1)
qed

end
