(* ===== verification/Dmr_Time.thy ===== *)
theory Dmr_Time
  imports Dmr_Prelude
begin

text \<open>
  \<open>src/dmr/time.c\<close> and the macros of the C library on \<open>struct timeval\<close> that the library uses.  The
  current time is an argument.
\<close>

section \<open>Times\<close>

record timeval =
  tv_sec :: int
  tv_usec :: int

definition timersub :: "timeval \<Rightarrow> timeval \<Rightarrow> timeval" where
  "timersub tvp uvp =
     (let sec = tv_sec tvp - tv_sec uvp; usec = tv_usec tvp - tv_usec uvp
      in if usec < 0 then \<lparr>tv_sec = sec - 1, tv_usec = usec + 1000000\<rparr> else \<lparr>tv_sec = sec, tv_usec = usec\<rparr>)"

definition dmr_time_since :: "timeval \<Rightarrow> timeval \<Rightarrow> u32" where
  "dmr_time_since now tv = of_int (tv_sec (timersub now tv))"

definition dmr_time_ms_since :: "timeval \<Rightarrow> timeval \<Rightarrow> u32" where
  "dmr_time_ms_since now tv =
     (let res = timersub now tv in of_int (tv_sec res * 1000 + (tv_usec res + 500) div 1000))"

text \<open>\<open>timeradd\<close> and \<open>timercmp\<close> of the C library.\<close>

definition timeradd :: "timeval \<Rightarrow> timeval \<Rightarrow> timeval" where
  "timeradd a b =
     (let sec = tv_sec a + tv_sec b; usec = tv_usec a + tv_usec b
      in if usec \<ge> 1000000 then \<lparr>tv_sec = sec + 1, tv_usec = usec - 1000000\<rparr> else \<lparr>tv_sec = sec, tv_usec = usec\<rparr>)"

definition timer_less :: "timeval \<Rightarrow> timeval \<Rightarrow> bool" where
  "timer_less a b \<longleftrightarrow> (if tv_sec a = tv_sec b then tv_usec a < tv_usec b else tv_sec a < tv_sec b)"

section \<open>Microseconds\<close>

definition tv_us :: "timeval \<Rightarrow> int" where
  "tv_us tv = tv_sec tv * 1000000 + tv_usec tv"

definition tv_wf :: "timeval \<Rightarrow> bool" where
  "tv_wf tv \<longleftrightarrow> 0 \<le> tv_usec tv \<and> tv_usec tv < 1000000"

lemma timersub_us [simp]:
  "tv_us (timersub a b) = tv_us a - tv_us b" "tv_wf a \<Longrightarrow> tv_wf b \<Longrightarrow> tv_wf (timersub a b)"
  by (simp_all add: timersub_def tv_us_def tv_wf_def Let_def)

lemma timeradd_us [simp]:
  "tv_us (timeradd a b) = tv_us a + tv_us b" "tv_wf a \<Longrightarrow> tv_wf b \<Longrightarrow> tv_wf (timeradd a b)"
  by (simp_all add: timeradd_def tv_us_def tv_wf_def Let_def)

lemma timer_less_us: "tv_wf a \<Longrightarrow> tv_wf b \<Longrightarrow> timer_less a b \<longleftrightarrow> tv_us a < tv_us b"
  by (auto simp: timer_less_def tv_us_def tv_wf_def)

lemma tv_negative: "tv_wf a \<Longrightarrow> tv_sec a < 0 \<or> tv_usec a < 0 \<longleftrightarrow> tv_us a < 0"
  by (auto simp: tv_us_def tv_wf_def)

end
