(* ===== verification/Dmr_Homebrew.thy ===== *)
theory Dmr_Homebrew
  imports Dmr_Data Dmr_Frame Dmr_Packetq Dmr_Time "HOL-Library.Sublist"
begin

unbundle bit_operations_syntax

text \<open>
  \<open>src/dmr/protocol/homebrew.c\<close> and \<open>homebrew_io.c\<close>: the client side of the Homebrew IPSC
  protocol.  The operations take an environment that says what the
  outside world does during the call: the library functions, the allocator (whether the two allocations for a buffer of a given size succeed), the outcomes of
  \<open>socket_send\<close>, the clock.  They return the value of the C function, the new state and the
  frames handed to the socket; \<open>None\<close> is a call without defined result or one that has not
  returned.  Log output, the queues of raw frames (never used) and the socket object itself are
  left out; \<open>hb_sock\<close> says whether there is one.
\<close>

section \<open>State and environment\<close>

type_synonym dmr_homebrew_state = u8

abbreviation (input) DMR_HOMEBREW_AUTH_NONE :: dmr_homebrew_state where "DMR_HOMEBREW_AUTH_NONE \<equiv> 0"
abbreviation (input) DMR_HOMEBREW_AUTH_INIT :: dmr_homebrew_state where "DMR_HOMEBREW_AUTH_INIT \<equiv> 1"
abbreviation (input) DMR_HOMEBREW_AUTH_CONFIG :: dmr_homebrew_state where "DMR_HOMEBREW_AUTH_CONFIG \<equiv> 2"
abbreviation (input) DMR_HOMEBREW_AUTH_DONE :: dmr_homebrew_state where "DMR_HOMEBREW_AUTH_DONE \<equiv> 3"
abbreviation (input) DMR_HOMEBREW_AUTH_FAILED :: dmr_homebrew_state where "DMR_HOMEBREW_AUTH_FAILED \<equiv> 4"

abbreviation (input) DMR_HOMEBREW_PORT :: u16 where "DMR_HOMEBREW_PORT \<equiv> 62030"

text \<open>A C string is the list of its bytes before the zero; \<open>None\<close> is \<open>NULL\<close>.  A \<open>double\<close> is its bits.\<close>

record homebrew_config =
  cfg_call :: "u8 list option"
  cfg_repeater_id :: dmr_id
  cfg_rx_freq :: u16
  cfg_tx_freq :: u16
  cfg_tx_power :: u8
  cfg_color_code :: dmr_color_code
  cfg_latitude :: u64
  cfg_longitude :: u64
  cfg_altitude :: u16
  cfg_location :: "u8 list option"
  cfg_description :: "u8 list option"
  cfg_url :: "u8 list option"
  cfg_software_id :: "u8 list option"
  cfg_package_id :: "u8 list option"

record dmr_homebrew =
  hb_id :: "u8 list"
  hb_config :: homebrew_config
  hb_sock :: bool
  hb_peer_ip :: "u8 list"
  hb_peer_port :: u16
  hb_bind_ip :: "u8 list"
  hb_bind_port :: u16
  hb_state :: dmr_homebrew_state
  hb_secret :: "u8 list option"
  hb_nonce :: "u8 list"
  hb_rxq :: "dmr_packetq option"
  hb_txq :: "dmr_packetq option"
  hb_rrq :: "dmr_rawq option"
  hb_trq :: "dmr_rawq option"
  hb_last_ping :: timeval
  hb_last_pong :: timeval

text \<open>One call of \<open>socket_send\<close>: done, failed with \<open>EINVAL\<close> or \<open>EAGAIN\<close>, failed otherwise.\<close>

datatype send_result = Send_ok | Send_again | Send_failed

record hb_env =
  env_common :: common_ops
  env_realloc :: reallocator
  env_mem :: "u64 \<Rightarrow> bool \<times> bool"
  env_send :: "send_result list"
  env_now :: timeval
  env_double :: "nat \<Rightarrow> u64 \<Rightarrow> u8 list"
  env_software_id :: "u8 list"
  env_package_id :: "u8 list"

type_synonym hb_result = "(int \<times> dmr_homebrew \<times> u8 list list) option"
type_synonym hb_api_result = "(int \<times> dmr_homebrew option \<times> u8 list list) option"

text \<open>The bytes of a string literal.\<close>

definition bytes_of :: "string \<Rightarrow> u8 list" where
  "bytes_of s = map (\<lambda>ch. of_nat (of_char ch)) s"

definition homebrew_location :: "u8 list" where
  "homebrew_location = bytes_of ''Earth''"

definition homebrew_description :: "u8 list" where
  "homebrew_description = bytes_of ''dmrlib''"

definition homebrew_url :: "u8 list" where
  "homebrew_url = bytes_of ''https://github.com/pd0mz/dmrlib''"

section \<open>Sending\<close>

text \<open>The retry loop: \<open>None\<close> while it has not ended, otherwise whether the frame was sent.\<close>

fun send_loop :: "send_result list \<Rightarrow> bool option" where
  "send_loop [] = None"
| "send_loop (Send_ok # rs) = Some True"
| "send_loop (Send_again # rs) = send_loop rs"
| "send_loop (Send_failed # rs) = Some False"

definition hb_send_raw :: "hb_env \<Rightarrow> dmr_homebrew \<Rightarrow> dmr_raw option \<Rightarrow> hb_result" where
  "hb_send_raw env hb raw =
     (case raw of
        None \<Rightarrow> Some (-1, hb, [])
      | Some raw \<Rightarrow>
          if \<not> hb_sock hb then Some (-1, hb, [])
          else do { ok \<leftarrow> send_loop (env_send env);
                    Some (if ok then 0 else -1, hb, [raw_contents raw]) })"

definition dmr_homebrew_send_raw :: "hb_env \<Rightarrow> dmr_homebrew option \<Rightarrow> dmr_raw option \<Rightarrow> hb_api_result" where
  "dmr_homebrew_send_raw env homebrew raw = null_check [] (\<lambda>hb. hb_send_raw env hb raw) homebrew"

definition hb_add :: "hb_env \<Rightarrow> u8 list \<Rightarrow> dmr_raw option \<Rightarrow> (failure + dmr_raw) option" where
  "hb_add env bs raw = dmr_raw_add (env_common env) (env_realloc env) raw bs (of_nat (length bs))"

definition hb_addf :: "hb_env \<Rightarrow> u64 \<Rightarrow> u8 list \<Rightarrow> dmr_raw option \<Rightarrow> (failure + dmr_raw) option" where
  "hb_addf env len fmt_text raw = dmr_raw_addf (env_common env) (env_realloc env) raw len fmt_text"

definition hb_xuint32 :: "hb_env \<Rightarrow> u32 \<Rightarrow> dmr_raw option \<Rightarrow> (failure + dmr_raw) option" where
  "hb_xuint32 env x raw = dmr_raw_add_xuint32 (env_common env) (env_realloc env) raw x"

definition hb_uint8 :: "hb_env \<Rightarrow> u8 \<Rightarrow> dmr_raw option \<Rightarrow> (failure + dmr_raw) option" where
  "hb_uint8 env x raw = dmr_raw_add_uint8 (env_common env) (env_realloc env) raw x"

definition hb_uint24 :: "hb_env \<Rightarrow> u32 \<Rightarrow> dmr_raw option \<Rightarrow> (failure + dmr_raw) option" where
  "hb_uint24 env x raw = dmr_raw_add_uint24 (env_common env) (env_realloc env) raw x"

definition hb_uint32 :: "hb_env \<Rightarrow> u32 \<Rightarrow> dmr_raw option \<Rightarrow> (failure + dmr_raw) option" where
  "hb_uint32 env x raw = dmr_raw_add_uint32 (env_common env) (env_realloc env) raw x"

definition hb_new_raw :: "hb_env \<Rightarrow> u64 \<Rightarrow> dmr_raw option" where
  "hb_new_raw env len = dmr_raw_new (fst (env_mem env len)) (snd (env_mem env len)) len"

definition hb_send_buf :: "hb_env \<Rightarrow> dmr_homebrew \<Rightarrow> u8 list option \<Rightarrow> hb_result" where
  "hb_send_buf env hb buf =
     (case buf of
        None \<Rightarrow> Some (-1, hb, [])
      | Some buf \<Rightarrow>
          if length buf = 0 then Some (0, hb, [])
          else (case hb_new_raw env (of_nat (length buf)) of
                  None \<Rightarrow> Some (-1, hb, [])
                | Some raw \<Rightarrow> do {
                    raw \<leftarrow> raw_steps [hb_add env buf] raw;
                    hb_send_raw env hb (Some raw) }))"

definition dmr_homebrew_send_buf :: "hb_env \<Rightarrow> dmr_homebrew option \<Rightarrow> u8 list option \<Rightarrow> hb_api_result" where
  "dmr_homebrew_send_buf env homebrew buf = null_check [] (\<lambda>hb. hb_send_buf env hb buf) homebrew"

definition hb_auth :: "hb_env \<Rightarrow> bool \<Rightarrow> dmr_homebrew \<Rightarrow> u8 list option \<Rightarrow> hb_result" where
  "hb_auth env strdup hb secret =
     (case secret of
        None \<Rightarrow> Some (-1, hb, [])
      | Some secret \<Rightarrow>
          if cfg_repeater_id (hb_config hb) = 0 then Some (-1, hb, [])
          else if \<not> strdup then Some (-1, hb\<lparr>hb_secret := None\<rparr>, [])
          else let hb = hb\<lparr>hb_secret := Some secret, hb_state := DMR_HOMEBREW_AUTH_NONE\<rparr>
               in (case hb_new_raw env 12 of
                     None \<Rightarrow> Some (-1, hb, [])
                   | Some raw \<Rightarrow> do {
                       raw \<leftarrow> raw_steps [hb_add env (bytes_of ''RPTL''), hb_xuint32 env (cfg_repeater_id (hb_config hb))] raw;
                       hb_send_raw env hb (Some raw) }))"

definition dmr_homebrew_auth :: "hb_env \<Rightarrow> bool \<Rightarrow> dmr_homebrew option \<Rightarrow> u8 list option \<Rightarrow> hb_api_result" where
  "dmr_homebrew_auth env strdup homebrew secret = null_check [] (\<lambda>hb. hb_auth env strdup hb secret) homebrew"

definition hb_close :: "hb_env \<Rightarrow> dmr_homebrew \<Rightarrow> hb_result" where
  "hb_close env hb =
     (if hb_state hb = DMR_HOMEBREW_AUTH_NONE then Some (0, hb, [])
      else (case hb_new_raw env 12 of
              None \<Rightarrow> Some (-1, hb, [])
            | Some raw \<Rightarrow> do {
                raw \<leftarrow> raw_steps [hb_add env (bytes_of ''RPTC''), hb_xuint32 env (cfg_repeater_id (hb_config hb))] raw;
                hb_send_raw env hb (Some raw) }))"

definition dmr_homebrew_close :: "hb_env \<Rightarrow> dmr_homebrew option \<Rightarrow> hb_api_result" where
  "dmr_homebrew_close env homebrew = null_check [] (hb_close env) homebrew"

text \<open>\<open>printf\<close> conversions: \<open>%-<n>s\<close> and \<open>%0<n>u\<close>.\<close>

definition fmt_str :: "nat \<Rightarrow> u8 list \<Rightarrow> u8 list" where
  "fmt_str n s = s @ replicate (n - length s) 0x20"

fun dec_text :: "nat \<Rightarrow> u8 list" where
  "dec_text v = (if v < 10 then [of_nat (0x30 + v)] else dec_text (v div 10) @ [of_nat (0x30 + v mod 10)])"

declare dec_text.simps [simp del]

definition fmt_dec :: "nat \<Rightarrow> nat \<Rightarrow> u8 list" where
  "fmt_dec n v = replicate (n - length (dec_text v)) 0x30 @ dec_text v"

text \<open>The macro \<open>D\<close>: the configured text, or the default where there is none.\<close>

definition cfg_or :: "u8 list option \<Rightarrow> u8 list \<Rightarrow> u8 list" where
  "cfg_or field dflt = (case field of None \<Rightarrow> dflt | Some s \<Rightarrow> s)"

text \<open>Without a call sign the format directive would dereference \<open>NULL\<close>.\<close>

definition homebrew_send_config :: "hb_env \<Rightarrow> dmr_homebrew \<Rightarrow> hb_result" where
  "homebrew_send_config env hb =
     (case hb_new_raw env 302 of
        None \<Rightarrow> Some (-1, hb, [])
      | Some raw \<Rightarrow> do {
          let cfg = hb_config hb;
          call \<leftarrow> cfg_call cfg;
          raw \<leftarrow> raw_steps
            [hb_add env (bytes_of ''RPTC''),
             hb_addf env 8 (fmt_str 8 call),
             hb_addf env 8 (hex_pad 8 (unat (cfg_repeater_id cfg))),
             hb_addf env 9 (fmt_dec 9 (unat (cfg_rx_freq cfg))),
             hb_addf env 9 (fmt_dec 9 (unat (cfg_tx_freq cfg))),
             hb_addf env 2 (fmt_dec 2 (min (unat (cfg_tx_power cfg)) 99)),
             hb_addf env 2 (fmt_dec 2 (unat (cfg_color_code cfg))),
             hb_addf env 8 (env_double env 8 (cfg_latitude cfg)),
             hb_addf env 9 (env_double env 9 (cfg_longitude cfg)),
             hb_addf env 3 (fmt_dec 3 (min (unat (cfg_altitude cfg)) 999)),
             hb_addf env 20 (fmt_str 20 (cfg_or (cfg_location cfg) homebrew_location)),
             hb_addf env 20 (fmt_str 20 (cfg_or (cfg_description cfg) homebrew_description)),
             hb_addf env 124 (fmt_str 124 (cfg_or (cfg_url cfg) homebrew_url)),
             hb_addf env 40 (fmt_str 40 (cfg_or (cfg_software_id cfg) (env_software_id env))),
             hb_addf env 40 (fmt_str 40 (cfg_or (cfg_package_id cfg) (env_package_id env)))] raw;
          let hb = hb\<lparr>hb_state := DMR_HOMEBREW_AUTH_CONFIG\<rparr>;
          hb_send_raw env hb (Some raw) })"

text \<open>
  The digest is added in hexadecimal, and the length of the digest once more to the length of
  the frame.
\<close>

definition homebrew_send_key :: "hb_env \<Rightarrow> dmr_homebrew \<Rightarrow> hb_result" where
  "homebrew_send_key env hb =
     (case hb_new_raw env 76 of
        None \<Rightarrow> Some (-1, hb, [])
      | Some raw \<Rightarrow> do {
          secret \<leftarrow> hb_secret hb;
          let digest = sha256 (env_common env) (take 8 (hb_nonce hb) @ secret);
          raw \<leftarrow> raw_steps
            [hb_add env (bytes_of ''RPTK''),
             hb_xuint32 env (cfg_repeater_id (hb_config hb)),
             (\<lambda>raw. dmr_raw_add_hex (env_common env) (env_realloc env) raw digest 32)] raw;
          let raw = raw\<lparr>raw_len := raw_len raw + 32\<rparr>;
          let hb = hb\<lparr>hb_state := DMR_HOMEBREW_AUTH_INIT\<rparr>;
          hb_send_raw env hb (Some raw) })"

section \<open>Packets\<close>

definition hb_slot_info :: "homebrew_config \<Rightarrow> dmr_parsed_packet \<Rightarrow> u8" where
  "hb_slot_info cfg parsed =
     (let s = 0;
          s = (if cfg_rx_freq cfg \<noteq> cfg_tx_freq cfg then s OR ucast (pp_ts parsed) else s);
          s = (if pp_flco parsed = DMR_FLCO_PRIVATE then s OR 0x02 else s)
      in if pp_data_type parsed = DMR_DATA_TYPE_INVALID \<or> pp_data_type parsed = DMR_DATA_TYPE_VOICE
         then s OR 0x00 OR push_bit 4 (pp_voice_frame parsed)
         else if pp_data_type parsed = DMR_DATA_TYPE_VOICE_SYNC then s OR 0x04
         else s OR 0x08 OR push_bit 4 (ucast (pp_data_type parsed)))"

definition hb_send :: "hb_env \<Rightarrow> dmr_homebrew \<Rightarrow> dmr_parsed_packet option \<Rightarrow> hb_result" where
  "hb_send env hb parsed =
     (case parsed of
        None \<Rightarrow> Some (-1, hb, [])
      | Some parsed \<Rightarrow>
          (case hb_new_raw env 53 of
             None \<Rightarrow> Some (-1, hb, [])
           | Some raw \<Rightarrow> do {
               raw \<leftarrow> raw_steps
                 [hb_add env (bytes_of ''DMRD''),
                  hb_uint8 env (pp_sequence parsed),
                  hb_uint24 env (pp_src_id parsed),
                  hb_uint24 env (pp_dst_id parsed),
                  hb_uint32 env (pp_repeater_id parsed),
                  hb_uint8 env (hb_slot_info (hb_config hb) parsed),
                  hb_uint32 env (pp_stream_id parsed),
                  hb_add env (take DMR_PACKET_LEN (pp_packet parsed))] raw;
               hb_send_raw env hb (Some raw) }))"

definition dmr_homebrew_send :: "hb_env \<Rightarrow> dmr_homebrew option \<Rightarrow> dmr_parsed_packet option \<Rightarrow> hb_api_result" where
  "dmr_homebrew_send env homebrew parsed = null_check [] (\<lambda>hb. hb_send env hb parsed) homebrew"

text \<open>\<open>mem\<close> says whether the allocation of the packet succeeds; the packet starts out zeroed.\<close>

definition dmr_homebrew_parse_dmrd :: "common_ops \<Rightarrow> bool \<Rightarrow> dmr_raw option \<Rightarrow> failure + dmr_parsed_packet" where
  "dmr_homebrew_parse_dmrd c mem raw =
     (case raw of
        None \<Rightarrow> Inl (Errno DMR_EINVAL)
      | Some raw \<Rightarrow>
          if raw_len raw \<noteq> 53 then Inl (Errno DMR_EINVAL)
          else if \<not> mem then Inl (Errno DMR_ENOMEM)
          else let buf = raw_buf raw;
                   p = zero_parsed_packet\<lparr>
                     pp_sequence := buf ! 4,
                     pp_src_id := uint24 c (drop 5 buf),
                     pp_dst_id := uint24 c (drop 8 buf),
                     pp_repeater_id := uint32 c (drop 11 buf),
                     pp_ts := ucast (buf ! 15 AND 0x01),
                     pp_flco := ucast (drop_bit 1 (buf ! 15 AND 0x02))\<rparr>;
                   kind = drop_bit 2 (buf ! 15) AND 0x03;
                   p = (if kind = 0x00 then p\<lparr>pp_data_type := DMR_DATA_TYPE_VOICE, pp_voice_frame := drop_bit 4 (buf ! 15)\<rparr>
                        else if kind = 0x01 then p\<lparr>pp_data_type := DMR_DATA_TYPE_VOICE_SYNC\<rparr>
                        else if kind = 0x02 then p\<lparr>pp_data_type := ucast (drop_bit 4 (buf ! 15))\<rparr>
                        else p)
               in Inr (p\<lparr>pp_stream_id := uint32 c (drop 16 buf),
                         pp_packet := byte_copy c (pp_packet p) (drop 20 buf) DMR_PACKET_LEN\<rparr>))"

section \<open>Connections\<close>

text \<open>
  \<open>mems\<close>: the struct and the ident string; \<open>sock\<close>: whether the socket could be made; \<open>bind_ok\<close>:
  whether binding it succeeds; \<open>ip6any\<close>: the unspecified address of the library.
\<close>

definition dmr_homebrew_new ::
  "common_ops \<Rightarrow> u8 list \<Rightarrow> bool \<times> bool \<Rightarrow> bool \<Rightarrow> bool \<Rightarrow> dmr_id \<Rightarrow> u8 list \<Rightarrow> u16 \<Rightarrow> u8 list \<Rightarrow> u16 \<Rightarrow> dmr_homebrew option" where
  "dmr_homebrew_new c ip6any mems sock bind_ok repeater_id peer_ip peer_port bind_ip bind_port =
     (if \<not> fst mems \<or> \<not> snd mems then None
      else if byte_equal c peer_ip ip6any 16 then None
      else if \<not> sock then None
      else if (\<not> byte_equal c (byte_copy c (replicate 16 0) bind_ip 16) ip6any 16 \<or> bind_port \<noteq> 0) \<and> \<not> bind_ok then None
      else Some \<lparr>
        hb_id = take 23 (bytes_of ''homebrew['' @ dec_text (unat repeater_id) @ bytes_of '']''),
        hb_config = \<lparr>cfg_call = None, cfg_repeater_id = repeater_id, cfg_rx_freq = 0, cfg_tx_freq = 0, cfg_tx_power = 0,
          cfg_color_code = 0, cfg_latitude = 0, cfg_longitude = 0, cfg_altitude = 0, cfg_location = None,
          cfg_description = None, cfg_url = None, cfg_software_id = None, cfg_package_id = None\<rparr>,
        hb_sock = True,
        hb_peer_ip = byte_copy c (replicate 16 0) peer_ip 16,
        hb_peer_port = (if peer_port = 0 then DMR_HOMEBREW_PORT else peer_port),
        hb_bind_ip = byte_copy c (replicate 16 0) bind_ip 16,
        hb_bind_port = bind_port,
        hb_state = DMR_HOMEBREW_AUTH_NONE,
        hb_secret = None, hb_nonce = replicate 8 0,
        hb_rxq = None, hb_txq = None, hb_rrq = None, hb_trq = None,
        hb_last_ping = \<lparr>tv_sec = 0, tv_usec = 0\<rparr>, hb_last_pong = \<lparr>tv_sec = 0, tv_usec = 0\<rparr>\<rparr>)"

text \<open>
  Reading.  \<open>env\<close> covers the receive buffer and the frames sent in reply; \<open>mem\<close> is the
  allocation of a parsed packet.  \<open>recv\<close> is the datagram, \<open>None\<close> an error; the buffer has 128
  bytes.  The last component is what is stored through \<open>parsed_out\<close>, where anything is.
\<close>

type_synonym hb_read_result = "(int \<times> dmr_homebrew \<times> u8 list list \<times> dmr_parsed_packet option) option"

definition hb_reply :: "hb_result \<Rightarrow> hb_read_result" where
  "hb_reply r = map_option (\<lambda>(ret, hb, fs). (ret, hb, fs, None)) r"

text \<open>\<open>case 'M'\<close>\<close>

definition hb_read_master :: "hb_env \<Rightarrow> dmr_homebrew \<Rightarrow> u8 list \<Rightarrow> nat \<Rightarrow> hb_read_result" where
  "hb_read_master env hb buf len =
     (let c = env_common env in
      if len = 14 then
        if byte_cmp c (drop 3 buf) (bytes_of ''ACK'') 3 = 0 then
          if hb_state hb = DMR_HOMEBREW_AUTH_NONE then Some (0, hb, [], None)
          else if hb_state hb = DMR_HOMEBREW_AUTH_INIT then hb_reply (homebrew_send_config env hb)
          else if hb_state hb = DMR_HOMEBREW_AUTH_CONFIG then
            Some (0, hb\<lparr>hb_last_ping := env_now env, hb_last_pong := env_now env, hb_state := DMR_HOMEBREW_AUTH_DONE\<rparr>, [], None)
          else Some (0, hb, [], None)
        else if byte_cmp c (drop 3 buf) (bytes_of ''NAK'') 3 = 0 then
          Some (-1, hb\<lparr>hb_state := DMR_HOMEBREW_AUTH_NONE\<rparr>, [], None)
        else Some (0, hb, [], None)
      else if len = 22 then
        if byte_cmp c (drop 3 buf) (bytes_of ''ACK'') 3 = 0 \<and> hb_state hb = DMR_HOMEBREW_AUTH_NONE then
          hb_reply (homebrew_send_key env (hb\<lparr>hb_nonce := byte_copy c (hb_nonce hb) (drop 14 buf) 8\<rparr>))
        else Some (0, hb, [], None)
      else Some (0, hb, [], None))"

definition dmr_homebrew_read :: "hb_env \<Rightarrow> bool \<Rightarrow> dmr_homebrew \<Rightarrow> bool \<Rightarrow> u8 list option \<Rightarrow> hb_read_result" where
  "dmr_homebrew_read env mem hb want_parsed recv =
     (case hb_new_raw env 53 of
        None \<Rightarrow> Some (-1, hb, [], None)
      | Some raw \<Rightarrow>
          (case recv of
             None \<Rightarrow> Some (-1, hb, [], None)
           | Some data \<Rightarrow>
               let data = take 128 data; len = length data; buf = blit (raw_buf raw) 0 data
               in if len < 14 then Some (0, hb, [], None)
                  else if buf ! 0 = 0x44 then
                    if len = 53 \<and> want_parsed then
                      (case dmr_homebrew_parse_dmrd (env_common env) mem
                              (Some (raw\<lparr>raw_buf := buf, raw_len := of_nat len\<rparr>)) of
                         Inl e \<Rightarrow> Some (-1, hb, [], None)
                       | Inr parsed \<Rightarrow> Some (0, hb, [], Some parsed))
                    else Some (0, hb, [], None)
                  else if buf ! 0 = 0x4d then hb_read_master env hb buf len
                  else if buf ! 0 = 0x52 then
                    if len = 15 \<and> byte_cmp (env_common env) (drop 3 buf) (bytes_of ''PONG'') 4 = 0
                    then Some (0, hb\<lparr>hb_last_pong := env_now env\<rparr>, [], None)
                    else Some (0, hb, [], None)
                  else Some (0, hb, [], None)))"

section \<open>The I/O callbacks\<close>

definition homebrew_io_init :: "bool list \<Rightarrow> dmr_homebrew option \<Rightarrow> int \<times> dmr_homebrew option" where
  "homebrew_io_init mems homebrew =
     (case homebrew of
        None \<Rightarrow> (-1, None)
      | Some hb \<Rightarrow>
          if \<not> hb_sock hb then (-1, Some hb)
          else let hb = hb\<lparr>hb_rxq := dmr_packetq_new (mems ! 0)\<rparr>
               in if hb_rxq hb = None then (-1, Some hb)
          else let hb = hb\<lparr>hb_txq := dmr_packetq_new (mems ! 1)\<rparr>
               in if hb_txq hb = None then (-1, Some hb)
          else let hb = hb\<lparr>hb_rrq := dmr_rawq_new (mems ! 2) 32\<rparr>
               in if hb_rrq hb = None then (-1, Some hb)
          else let hb = hb\<lparr>hb_trq := dmr_rawq_new (mems ! 3) 32\<rparr>
               in if hb_trq hb = None then (-1, Some hb)
          else (0, Some hb))"

definition hb_ping_timer :: "hb_env \<Rightarrow> dmr_homebrew \<Rightarrow> hb_result" where
  "hb_ping_timer env hb =
     (if hb_state hb \<noteq> DMR_HOMEBREW_AUTH_DONE then Some (0, hb, [])
      else if dmr_time_since (env_now env) (hb_last_pong hb) > 10 then Some (-1, hb, [])
      else (case hb_new_raw env 15 of
              None \<Rightarrow> Some (-1, hb, [])
            | Some raw \<Rightarrow> do {
                raw \<leftarrow> raw_steps [hb_add env (bytes_of ''MSTPING''), hb_xuint32 env (cfg_repeater_id (hb_config hb))] raw;
                (ret, hb, fs) \<leftarrow> hb_send_raw env hb (Some raw);
                Some (0, hb\<lparr>hb_last_ping := env_now env\<rparr>, fs) }))"

definition homebrew_io_ping_timer :: "hb_env \<Rightarrow> dmr_homebrew option \<Rightarrow> hb_api_result" where
  "homebrew_io_ping_timer env homebrew = null_check [] (hb_ping_timer env) homebrew"

text \<open>\<open>mems\<close>: the pointer cell, the parsed packet, the queue entry.\<close>

definition hb_readable ::
  "hb_env \<Rightarrow> bool \<times> bool \<times> bool \<Rightarrow> dmr_homebrew \<Rightarrow> u8 list option \<Rightarrow> hb_result" where
  "hb_readable env mems hb recv =
     (case mems of (m_cell, m_parsed, m_entry) \<Rightarrow>
        if \<not> m_cell then Some (-1, hb, [])
        else do {
          (ret, hb, fs, parsed) \<leftarrow> dmr_homebrew_read env m_parsed hb True recv;
          Some (if ret = 0 \<and> parsed \<noteq> None
                then (case dmr_packetq_add m_entry (hb_rxq hb) parsed of
                        Inl e \<Rightarrow> (-1, hb, fs)
                      | Inr q \<Rightarrow> (0, hb\<lparr>hb_rxq := Some q\<rparr>, fs))
                else (ret, hb, fs)) })"

definition homebrew_io_readable ::
  "hb_env \<Rightarrow> bool \<times> bool \<times> bool \<Rightarrow> dmr_homebrew option \<Rightarrow> u8 list option \<Rightarrow> hb_api_result" where
  "homebrew_io_readable env mems homebrew recv = null_check [] (\<lambda>hb. hb_readable env mems hb recv) homebrew"

definition hb_io_close :: "hb_env \<Rightarrow> dmr_homebrew \<Rightarrow> hb_result" where
  "hb_io_close env hb = (if \<not> hb_sock hb then Some (0, hb, []) else hb_close env hb)"

definition homebrew_io_close :: "hb_env \<Rightarrow> dmr_homebrew option \<Rightarrow> hb_api_result" where
  "homebrew_io_close env homebrew = null_check [] (hb_io_close env) homebrew"

lemmas hb_api = dmr_homebrew_send_raw_def dmr_homebrew_send_buf_def dmr_homebrew_auth_def dmr_homebrew_close_def
  dmr_homebrew_send_def homebrew_io_ping_timer_def homebrew_io_readable_def homebrew_io_close_def

section \<open>Building frames\<close>

text \<open>The functions and the allocator behave as documented, and the number formats fill their width.\<close>

definition env_ok :: "hb_env \<Rightarrow> bool" where
  "env_ok env \<longleftrightarrow> common_ok (env_common env) \<and> realloc_ok (env_realloc env) \<and>
     (\<forall>n d. n \<le> length (env_double env n d))"

lemma hb_appends [intro]:
  assumes "env_ok env"
  shows "appends (hb_add env bs) bs" "appends (hb_uint8 env b) [b]" "appends (hb_uint24 env w) (le_bytes 3 w)"
    "appends (hb_uint32 env w) (le_bytes 4 w)" "appends (hb_xuint32 env w) (snprintf_hex 8 (unat w))"
    "unat len \<le> length txt \<Longrightarrow> unat len < 1000 \<Longrightarrow> appends (hb_addf env len txt) (take (unat len) txt)"
  using assms
  by (simp_all add: env_ok_def hb_add_def [abs_def] hb_uint8_def [abs_def] hb_uint24_def [abs_def] hb_uint32_def [abs_def]
    hb_xuint32_def [abs_def] hb_addf_def [abs_def] appends_writers appends_addf)

lemma hb_hex:
  "env_ok env \<Longrightarrow> length bs = 32 \<Longrightarrow>
   appends (\<lambda>raw. dmr_raw_add_hex (env_common env) (env_realloc env) raw bs 32) (hex_bytes (env_common env) bs)"
  by (simp add: env_ok_def appends_writers(6))

lemma hb_frame:
  assumes "hb_new_raw env n = Some r" "list_all2 appends wrs xss"
    and "length (concat xss) + 2 < unat (raw_round n)" "unat (raw_round n) \<le> 1024"
  shows "\<exists>r'. raw_steps wrs r = Some r' \<and> raw_clean r' \<and> raw_contents r' = concat xss \<and> raw_allocated r' = raw_round n"
  using assms unfolding hb_new_raw_def by (rule raw_frame)

section \<open>The packet round trip\<close>

definition dmrd_fields :: "homebrew_config \<Rightarrow> dmr_parsed_packet \<Rightarrow> u8 list list" where
  "dmrd_fields cfg p =
     [bytes_of ''DMRD'', [pp_sequence p], le_bytes 3 (pp_src_id p), le_bytes 3 (pp_dst_id p),
      le_bytes 4 (pp_repeater_id p), [hb_slot_info cfg p], le_bytes 4 (pp_stream_id p), pp_packet p]"

lemma homebrew_send_frame:
  assumes "env_ok env" "env_mem env 53 = (True, True)" "hb_sock hb" "send_loop (env_send env) = Some ok"
    and "length (pp_packet p) = 33"
  shows "hb_send env hb (Some p) =
     Some (if ok then 0 else -1, hb, [concat (dmrd_fields (hb_config hb) p)])"
proof -
  obtain r where r: "hb_new_raw env 53 = Some r" using assms(2) by (simp add: hb_new_raw_def dmr_raw_new_def Let_def)
  have n: "unat (raw_round 53) = 128" by code_simp
  have "length (concat (dmrd_fields (hb_config hb) p)) = 53" using assms(5) by (simp add: dmrd_fields_def bytes_of_def)
  then have "\<exists>r'. raw_steps
                 [hb_add env (bytes_of ''DMRD''), hb_uint8 env (pp_sequence p), hb_uint24 env (pp_src_id p),
                  hb_uint24 env (pp_dst_id p), hb_uint32 env (pp_repeater_id p),
                  hb_uint8 env (hb_slot_info (hb_config hb) p), hb_uint32 env (pp_stream_id p),
                  hb_add env (take DMR_PACKET_LEN (pp_packet p))] r = Some r' \<and> raw_clean r' \<and>
               raw_contents r' = concat (dmrd_fields (hb_config hb) p) \<and> raw_allocated r' = raw_round 53"
    using assms(1,5) n by (intro hb_frame [OF r]) (simp_all add: dmrd_fields_def hb_appends)
  then show ?thesis using assms(3,4) by (auto simp: hb_send_def r hb_send_raw_def)
qed

lemma slot_fields:
  fixes ts fl k v :: u8
  assumes "fits 1 ts" "fits 1 fl" "fits 2 k" "fits 4 v" and b: "b = ts OR push_bit 1 fl OR push_bit 2 k OR push_bit 4 v"
  shows "b AND 0x01 = ts" "drop_bit 1 (b AND 0x02) = fl" "drop_bit 2 b AND 0x03 = k" "drop_bit 4 b = v"
proof -
  have n: "(0x01 :: u8) = mask 1" "(0x02 :: u8) = push_bit 1 (mask 1)" "(0x03 :: u8) = mask 2"
    by (simp_all add: mask_eq_exp_minus_1)
  note d = assms(1-4) [THEN fits_bit]
  show "b AND 0x01 = ts" "drop_bit 1 (b AND 0x02) = fl" "drop_bit 2 b AND 0x03 = k" "drop_bit 4 b = v"
    unfolding n b by (rule bit_word_eqI; force simp: bit_simps dest: d)+
qed

text \<open>
  The packets a DMRD frame can carry: identifiers of 24 bits, one of the two time slots, a group
  or private call, and voice with its frame number, a voice sync or a data burst.
\<close>

definition dmrd_wf :: "dmr_parsed_packet \<Rightarrow> bool" where
  "dmrd_wf p \<longleftrightarrow> length (pp_packet p) = 33 \<and> fits 24 (pp_src_id p) \<and> fits 24 (pp_dst_id p) \<and>
     fits 1 (pp_ts p) \<and> fits 1 (pp_flco p) \<and> pp_color_code p = 0 \<and> \<not> pp_parsed p \<and> fits 4 (pp_voice_frame p) \<and>
     (pp_data_type p = DMR_DATA_TYPE_VOICE \<or>
      pp_voice_frame p = 0 \<and> (pp_data_type p = DMR_DATA_TYPE_VOICE_SYNC \<or> pp_data_type p < DMR_DATA_TYPE_INVALID))"

definition slot_kind :: "dmr_data_type \<Rightarrow> u8" where
  "slot_kind t = (if t = DMR_DATA_TYPE_VOICE then 0 else if t = DMR_DATA_TYPE_VOICE_SYNC then 1 else 2)"

definition slot_value :: "dmr_parsed_packet \<Rightarrow> u8" where
  "slot_value p = (if pp_data_type p = DMR_DATA_TYPE_VOICE then pp_voice_frame p
     else if pp_data_type p = DMR_DATA_TYPE_VOICE_SYNC then 0 else ucast (pp_data_type p))"

lemma fits_1: "fits (Suc 0) w \<longleftrightarrow> w = 0 \<or> w = 1" for w :: "'a::len word"
  by (auto simp: fits_def less_Suc_eq numeral_2_eq_2 unsigned_eq_0_iff) (metis One_nat_def unsigned_1 unsigned_word_eqI)

lemma fits_ucast: "fits k w \<Longrightarrow> fits k (ucast w :: u8)" for w :: u32
  unfolding fits_def unsigned_ucast_eq by (rule le_less_trans [OF take_bit_nat_less_eq_self])

lemma hb_slot_info_fields:
  assumes "dmrd_wf p"
  shows "hb_slot_info cfg p = (if cfg_rx_freq cfg \<noteq> cfg_tx_freq cfg then ucast (pp_ts p) else 0) OR
     push_bit 1 (ucast (pp_flco p)) OR push_bit 2 (slot_kind (pp_data_type p)) OR push_bit 4 (slot_value p)"
proof -
  have "pp_data_type p < 10 \<Longrightarrow> pp_data_type p \<noteq> 10" "pp_data_type p < 10 \<Longrightarrow> pp_data_type p \<noteq> 0xf0"
    "pp_data_type p < 10 \<Longrightarrow> pp_data_type p \<noteq> 0xf1" by auto
  with assms show ?thesis
    by (auto simp: dmrd_wf_def fits_1 hb_slot_info_def slot_kind_def slot_value_def Let_def or.assoc)
qed

lemma slot_value_fits: "dmrd_wf p \<Longrightarrow> fits 4 (slot_value p)"
  by (auto simp: dmrd_wf_def slot_value_def intro!: fits_ucast) (simp_all add: fits_def word_less_nat_alt)

lemma uint_le_bytes:
  assumes "common_le c"
  shows "fits 24 x \<Longrightarrow> uint24 c (le_bytes 3 x @ ys) = x" "uint32 c (le_bytes 4 x @ ys) = x"
proof -
  have l: "le_bytes 3 x = [ucast x, ucast (drop_bit 8 x), ucast (drop_bit 16 x)]"
    "le_bytes 4 x = [ucast x, ucast (drop_bit 8 x), ucast (drop_bit 16 x), ucast (drop_bit 24 x)]"
    by (simp_all add: le_bytes_def upt_rec)
  show "uint24 c (le_bytes 3 x @ ys) = x" if "fits 24 x"
  proof (rule bit_word_eqI)
    fix n
    show "bit (uint24 c (le_bytes 3 x @ ys)) n = bit x n"
      using assms fits_bit [OF that, of n] unfolding common_le_def l
      by (cases "n < 8"; cases "n < 16"; auto simp: bit_simps)
  qed
  show "uint32 c (le_bytes 4 x @ ys) = x"
  proof (rule bit_word_eqI)
    fix n assume "n < LENGTH(32)"
    then show "bit (uint32 c (le_bytes 4 x @ ys)) n = bit x n"
      using assms unfolding common_le_def l by (cases "n < 8"; cases "n < 16"; cases "n < 24"; auto simp: bit_simps)
  qed
qed

definition dmrd_received :: "homebrew_config \<Rightarrow> dmr_parsed_packet \<Rightarrow> dmr_parsed_packet" where
  "dmrd_received cfg p = (if cfg_rx_freq cfg \<noteq> cfg_tx_freq cfg then p else p\<lparr>pp_ts := DMR_TS1\<rparr>)"

lemma dmrd_data_type_cases:
  assumes "dmrd_wf p"
  obtains "pp_data_type p = DMR_DATA_TYPE_VOICE"
  | "pp_data_type p = DMR_DATA_TYPE_VOICE_SYNC" "pp_voice_frame p = 0"
  | "pp_data_type p \<noteq> DMR_DATA_TYPE_VOICE" "pp_data_type p \<noteq> DMR_DATA_TYPE_VOICE_SYNC" "pp_voice_frame p = 0"
    "ucast (ucast (pp_data_type p) :: u8) = pp_data_type p"
proof -
  have "ucast (ucast (pp_data_type p) :: u8) = pp_data_type p" if "pp_data_type p < 10"
  proof -
    have "fits 8 (pp_data_type p)" using that by (simp add: fits_def word_less_nat_alt)
    then show ?thesis by (intro bit_word_eqI) (auto simp: bit_simps dest: fits_bit)
  qed
  with assms that show thesis by (auto simp: dmrd_wf_def)
qed

lemma dmrd_parse:
  assumes ok: "common_ok c" "common_le c" and wf: "dmrd_wf p"
    and raw: "raw_len raw = 53" "raw_buf raw = concat (dmrd_fields cfg p) @ rest"
  shows "dmr_homebrew_parse_dmrd c True (Some raw) = Inr (dmrd_received cfg p)"
proof -
  let ?s = "hb_slot_info cfg p" and ?buf = "raw_buf raw"
  let ?ts = "if cfg_rx_freq cfg \<noteq> cfg_tx_freq cfg then ucast (pp_ts p) else 0 :: u8"
  have w: "length (pp_packet p) = 33" "fits 24 (pp_src_id p)" "fits 24 (pp_dst_id p)" "fits 1 (pp_ts p)" "fits 1 (pp_flco p)"
    "pp_color_code p = 0" "\<not> pp_parsed p" using wf by (simp_all add: dmrd_wf_def)
  have k: "fits 2 (slot_kind (pp_data_type p))" by (simp add: slot_kind_def fits_def)
  have "fits 1 ?ts" "fits 1 (ucast (pp_flco p) :: u8)" using w by (auto simp: fits_1)
  note f = slot_fields [OF this k slot_value_fits [OF wf] hb_slot_info_fields [OF wf]]
  have b: "?buf ! 4 = pp_sequence p" "?buf ! 15 = ?s"
    "uint24 c (drop 5 ?buf) = pp_src_id p" "uint24 c (drop 8 ?buf) = pp_dst_id p"
    "uint32 c (drop 11 ?buf) = pp_repeater_id p" "uint32 c (drop 16 ?buf) = pp_stream_id p"
    "take 33 (drop 20 ?buf) = pp_packet p" "33 \<le> length (drop 20 ?buf)"
    using w by (simp_all add: raw(2) dmrd_fields_def bytes_of_def uint_le_bytes [OF ok(2)] nth_append)
  have cp: "byte_copy c (replicate 33 0) (drop 20 ?buf) 33 = pp_packet p"
    using common_okD(1) [OF ok(1), of 33 "replicate 33 0" "drop 20 ?buf"] b(7,8) by simp
  have u: "ucast (ucast (pp_ts p) :: u8) = pp_ts p" "ucast (ucast (pp_flco p) :: u8) = pp_flco p"
    using w(4,5) by (auto simp: fits_1)
  from wf show ?thesis
    by (cases rule: dmrd_data_type_cases; cases p)
      (use f b cp u w raw(1) in \<open>simp_all add: dmr_homebrew_parse_dmrd_def dmrd_received_def zero_parsed_packet_def
         slot_kind_def slot_value_def Let_def\<close>)
qed

text \<open>What a datagram leaves in the receive buffer.\<close>

lemma recv_buffer:
  assumes "env_mem env 53 = (True, True)" "length data \<le> 128"
  shows "\<exists>raw. hb_new_raw env 53 = Some raw \<and> blit (raw_buf raw) 0 data = data @ replicate (128 - length data) 0"
proof -
  have "unat (raw_round 53) = 128" by code_simp
  with assms show ?thesis by (simp add: hb_new_raw_def dmr_raw_new_def Let_def blit_def)
qed

lemma read_dmrd:
  assumes env: "common_ok (env_common env)" "common_le (env_common env)" "env_mem env 53 = (True, True)" and wf: "dmrd_wf p"
  shows "dmr_homebrew_read env True hb True (Some (concat (dmrd_fields cfg p))) = Some (0, hb, [], Some (dmrd_received cfg p))"
proof -
  let ?d = "concat (dmrd_fields cfg p)"
  have l: "length ?d = 53" using wf by (simp add: dmrd_fields_def bytes_of_def dmrd_wf_def)
  obtain raw where raw: "hb_new_raw env 53 = Some raw" "blit (raw_buf raw) 0 ?d = ?d @ replicate (128 - length ?d) 0"
    using recv_buffer [OF env(3), of ?d] l by auto
  have "dmr_homebrew_parse_dmrd (env_common env) True
     (Some (raw\<lparr>raw_buf := ?d @ replicate (128 - length ?d) 0, raw_len := 53\<rparr>)) = Inr (dmrd_received cfg p)"
    by (rule dmrd_parse [OF env(1,2) wf]) simp_all
  moreover have "?d ! 0 = 0x44" by (simp add: dmrd_fields_def bytes_of_def)
  ultimately show ?thesis using l by (simp add: dmr_homebrew_read_def raw nth_append)
qed


text \<open>A connection between a client and a master on one machine, for the witnesses.\<close>

definition demo_env :: hb_env where
  "demo_env = \<lparr>env_common = std_common, env_realloc = std_realloc, env_mem = (\<lambda>n. (True, True)), env_send = [Send_again, Send_ok],
     env_now = \<lparr>tv_sec = 100, tv_usec = 0\<rparr>, env_double = (\<lambda>n d. replicate n 0x30),
     env_software_id = bytes_of ''dmrlib'', env_package_id = bytes_of ''dmrlib''\<rparr>"

definition demo_homebrew :: dmr_homebrew where
  "demo_homebrew = the (dmr_homebrew_new std_common (replicate 16 0) (True, True) True True 2042214
     (1 # replicate 15 0) 0 (replicate 16 0) 0)"

lemma demo_env_ok: "env_ok demo_env" "env_mem demo_env n = (True, True)" "send_loop (env_send demo_env) = Some True"
  "common_ok (env_common demo_env)" "common_le (env_common demo_env)"
  by (simp_all add: env_ok_def demo_env_def common_ok_std common_le_std realloc_ok_std)


section \<open>The login\<close>

definition login_frame :: "dmr_homebrew \<Rightarrow> u8 list" where
  "login_frame hb = bytes_of ''RPTL'' @ snprintf_hex 8 (unat (cfg_repeater_id (hb_config hb)))"

definition key_frame :: "common_ops \<Rightarrow> dmr_homebrew \<Rightarrow> u8 list \<Rightarrow> u8 list \<Rightarrow> u8 list" where
  "key_frame c hb nonce secret = bytes_of ''RPTK'' @ snprintf_hex 8 (unat (cfg_repeater_id (hb_config hb))) @
     hex_bytes c (sha256 c (nonce @ secret)) @ replicate 32 0"

definition config_fields :: "hb_env \<Rightarrow> homebrew_config \<Rightarrow> u8 list \<Rightarrow> (nat \<times> u8 list) list" where
  "config_fields env cfg call =
     [(8, fmt_str 8 call), (8, hex_pad 8 (unat (cfg_repeater_id cfg))),
      (9, fmt_dec 9 (unat (cfg_rx_freq cfg))), (9, fmt_dec 9 (unat (cfg_tx_freq cfg))),
      (2, fmt_dec 2 (min (unat (cfg_tx_power cfg)) 99)), (2, fmt_dec 2 (unat (cfg_color_code cfg))),
      (8, env_double env 8 (cfg_latitude cfg)), (9, env_double env 9 (cfg_longitude cfg)),
      (3, fmt_dec 3 (min (unat (cfg_altitude cfg)) 999)),
      (20, fmt_str 20 (cfg_or (cfg_location cfg) homebrew_location)),
      (20, fmt_str 20 (cfg_or (cfg_description cfg) homebrew_description)),
      (124, fmt_str 124 (cfg_or (cfg_url cfg) homebrew_url)),
      (40, fmt_str 40 (cfg_or (cfg_software_id cfg) (env_software_id env))),
      (40, fmt_str 40 (cfg_or (cfg_package_id cfg) (env_package_id env)))]"

definition config_frame :: "hb_env \<Rightarrow> homebrew_config \<Rightarrow> u8 list \<Rightarrow> u8 list" where
  "config_frame env cfg call = bytes_of ''RPTC'' @ concat (map (\<lambda>(n, s). take n s) (config_fields env cfg call))"

lemma fmt_lengths [simp]:
  "n \<le> length (fmt_str n s)" "n \<le> length (fmt_dec n v)" "n \<le> length (hex_pad n v)"
  by (simp_all add: fmt_str_def fmt_dec_def hex_pad_def)

lemma hb_new_raw_some: "env_mem env n = (True, True) \<Longrightarrow> \<exists>r. hb_new_raw env n = Some r"
  by (simp add: hb_new_raw_def dmr_raw_new_def Let_def)

lemma homebrew_auth_frame:
  assumes "env_ok env" "env_mem env 12 = (True, True)" "hb_sock hb" "send_loop (env_send env) = Some ok"
    and "cfg_repeater_id (hb_config hb) \<noteq> 0"
  shows "hb_auth env True hb (Some secret) =
     Some (if ok then 0 else -1, hb\<lparr>hb_secret := Some secret, hb_state := DMR_HOMEBREW_AUTH_NONE\<rparr>, [login_frame hb])"
proof -
  obtain r where r: "hb_new_raw env 12 = Some r" using hb_new_raw_some [OF assms(2)] by blast
  have n: "unat (raw_round 12) = 128" by code_simp
  have "\<exists>r'. raw_steps [hb_add env (bytes_of ''RPTL''), hb_xuint32 env (cfg_repeater_id (hb_config hb))] r = Some r' \<and>
      raw_clean r' \<and> raw_contents r' = concat [bytes_of ''RPTL'', snprintf_hex 8 (unat (cfg_repeater_id (hb_config hb)))] \<and>
      raw_allocated r' = raw_round 12"
    using assms(1) n by (intro hb_frame [OF r]) (simp_all add: hb_appends bytes_of_def)
  with assms(3-5) r show ?thesis by (auto simp: hb_auth_def hb_send_raw_def login_frame_def)
qed

lemma homebrew_config_frame:
  assumes "env_ok env" "env_mem env 302 = (True, True)" "hb_sock hb" "send_loop (env_send env) = Some ok"
    and "cfg_call (hb_config hb) = Some call"
  shows "homebrew_send_config env hb =
     Some (if ok then 0 else -1, hb\<lparr>hb_state := DMR_HOMEBREW_AUTH_CONFIG\<rparr>, [config_frame env (hb_config hb) call])"
proof -
  let ?fs = "config_fields env (hb_config hb) call"
  obtain r where r: "hb_new_raw env 302 = Some r" using hb_new_raw_some [OF assms(2)] by blast
  have n: "unat (raw_round 302) = 384" by code_simp
  have d: "n \<le> length (env_double env n v)" for n v using assms(1) by (simp add: env_ok_def)
  have a: "appends (hb_addf env (of_nat n) s) (take n s)" if "n < 1000" "n \<le> length s" for n s
    using hb_appends(6) [OF assms(1), of "of_nat n" s] that by (simp add: unat_of_nat take_bit_nat_eq_self)
  have f: "\<forall>(n, s) \<in> set ?fs. n < 1000 \<and> n \<le> length s" by (simp add: config_fields_def d)
  have l2: "list_all2 appends (hb_add env (bytes_of ''RPTC'') # map (\<lambda>(n, s). hb_addf env (of_nat n) s) ?fs)
      (bytes_of ''RPTC'' # map (\<lambda>(n, s). take n s) ?fs)"
    using a f by (auto simp: list_all2_map1 list_all2_map2 list_all2_same hb_appends(1) [OF assms(1)])
  have len: "length (concat (bytes_of ''RPTC'' # map (\<lambda>(n, s). take n s) ?fs)) + 2 < unat (raw_round 302)"
    using n d by (simp add: config_fields_def bytes_of_def min_absorb2)
  obtain r' where "raw_steps (hb_add env (bytes_of ''RPTC'') # map (\<lambda>(n, s). hb_addf env (of_nat n) s) ?fs) r = Some r'"
    "raw_contents r' = config_frame env (hb_config hb) call"
    using hb_frame [OF r l2 len] unfolding config_frame_def concat.simps n by auto
  with assms(3-5) r show ?thesis by (auto simp: homebrew_send_config_def config_fields_def hb_send_raw_def Let_def)
qed

lemma homebrew_key_frame:
  assumes "env_ok env" "env_mem env 76 = (True, True)" "hb_sock hb" "send_loop (env_send env) = Some ok"
    and "hb_secret hb = Some secret" "length (hb_nonce hb) = 8"
  shows "homebrew_send_key env hb =
     Some (if ok then 0 else -1, hb\<lparr>hb_state := DMR_HOMEBREW_AUTH_INIT\<rparr>, [key_frame (env_common env) hb (hb_nonce hb) secret])"
proof -
  let ?c = "env_common env" and ?id = "cfg_repeater_id (hb_config hb)"
  let ?d = "sha256 ?c (hb_nonce hb @ secret)"
  obtain r where r: "hb_new_raw env 76 = Some r" using hb_new_raw_some [OF assms(2)] by blast
  have n: "unat (raw_round 76) = 128" by code_simp
  have d: "length ?d = 32" using assms(1) by (simp add: env_ok_def common_okD)
  have "\<exists>r'. raw_steps [hb_add env (bytes_of ''RPTK''), hb_xuint32 env ?id,
             (\<lambda>raw. dmr_raw_add_hex ?c (env_realloc env) raw ?d 32)] r = Some r' \<and> raw_clean r' \<and>
      raw_contents r' = concat [bytes_of ''RPTK'', snprintf_hex 8 (unat ?id), hex_bytes ?c ?d] \<and>
      raw_allocated r' = raw_round 76"
    using assms(1) n d by (intro hb_frame [OF r]) (simp_all add: hb_appends hb_hex bytes_of_def)
  then obtain r' where r': "raw_steps [hb_add env (bytes_of ''RPTK''), hb_xuint32 env ?id,
             (\<lambda>raw. dmr_raw_add_hex ?c (env_realloc env) raw ?d 32)] r = Some r'" "raw_clean r'"
      "raw_contents r' = bytes_of ''RPTK'' @ snprintf_hex 8 (unat ?id) @ hex_bytes ?c ?d" "raw_allocated r' = raw_round 76" by auto
  have "unat (raw_len r') = 76"
    using r'(2,3) d raw_len_contents [of r'] by (simp add: raw_clean_def bytes_of_def)
  then have "raw_contents (r'\<lparr>raw_len := raw_len r' + 32\<rparr>) = key_frame ?c hb (hb_nonce hb) secret"
    using clean_longer [OF r'(2), of 32] r'(3,4) n by (simp add: key_frame_def)
  with assms(3-6) r r'(1) show ?thesis by (simp add: homebrew_send_key_def hb_send_raw_def Let_def)
qed

text \<open>The answers of the master: an acknowledgement, with a nonce when it has 22 bytes.\<close>

definition is_mst :: "string \<Rightarrow> nat \<Rightarrow> u8 list \<Rightarrow> bool" where
  "is_mst what n m \<longleftrightarrow> length m = n \<and> m ! 0 = 0x4d \<and> take 3 (drop 3 m) = bytes_of what"

lemma read_master:
  assumes "env_mem env 53 = (True, True)" "14 \<le> length m" "length m \<le> 128" "m ! 0 = 0x4d"
  shows "dmr_homebrew_read env mem hb w (Some m) = hb_read_master env hb (m @ replicate (128 - length m) 0) (length m)"
proof -
  obtain raw where raw: "hb_new_raw env 53 = Some raw" "blit (raw_buf raw) 0 m = m @ replicate (128 - length m) 0"
    using recv_buffer [OF assms(1,3)] by blast
  have "(m @ replicate (128 - length m) 0) ! 0 = 0x4d" using assms(2,4) by (cases m) simp_all
  then show ?thesis using assms(2,3) by (simp add: dmr_homebrew_read_def raw(1) Let_def raw(2))
qed

lemma read_ack:
  assumes "env_ok env" "env_mem env 53 = (True, True)"
  shows "is_mst ''ACK'' 14 m \<Longrightarrow> hb_state hb = DMR_HOMEBREW_AUTH_INIT \<Longrightarrow>
      dmr_homebrew_read env mem hb w (Some m) = hb_reply (homebrew_send_config env hb)"
    and "is_mst ''ACK'' 14 m \<Longrightarrow> hb_state hb = DMR_HOMEBREW_AUTH_CONFIG \<Longrightarrow>
      dmr_homebrew_read env mem hb w (Some m) =
      Some (0, hb\<lparr>hb_last_ping := env_now env, hb_last_pong := env_now env, hb_state := DMR_HOMEBREW_AUTH_DONE\<rparr>, [], None)"
    and "is_mst ''ACK'' 22 m \<Longrightarrow> hb_state hb = DMR_HOMEBREW_AUTH_NONE \<Longrightarrow> length (hb_nonce hb) = 8 \<Longrightarrow>
      dmr_homebrew_read env mem hb w (Some m) = hb_reply (homebrew_send_key env (hb\<lparr>hb_nonce := drop 14 m\<rparr>))"
proof -
  have c: "common_ok (env_common env)" using assms(1) by (simp add: env_ok_def)
  have ack: "byte_cmp (env_common env) (drop 3 (m @ replicate (128 - length m) 0)) (bytes_of ''ACK'') 3 = 0" if "is_mst ''ACK'' n m" "14 \<le> n" for n
    using that common_okD(3) [OF c, of 3 "drop 3 (m @ replicate (128 - length m) 0)" "bytes_of ''ACK''"]
    by (simp add: is_mst_def bytes_of_def)
  show "dmr_homebrew_read env mem hb w (Some m) = hb_reply (homebrew_send_config env hb)"
    if "is_mst ''ACK'' 14 m" "hb_state hb = DMR_HOMEBREW_AUTH_INIT"
    using that read_master [OF assms(2), of m] ack [of 14] by (simp add: is_mst_def hb_read_master_def)
  show "dmr_homebrew_read env mem hb w (Some m) =
      Some (0, hb\<lparr>hb_last_ping := env_now env, hb_last_pong := env_now env, hb_state := DMR_HOMEBREW_AUTH_DONE\<rparr>, [], None)"
    if "is_mst ''ACK'' 14 m" "hb_state hb = DMR_HOMEBREW_AUTH_CONFIG"
    using that read_master [OF assms(2), of m] ack [of 14] by (simp add: is_mst_def hb_read_master_def)
  show "dmr_homebrew_read env mem hb w (Some m) = hb_reply (homebrew_send_key env (hb\<lparr>hb_nonce := drop 14 m\<rparr>))"
    if "is_mst ''ACK'' 22 m" "hb_state hb = DMR_HOMEBREW_AUTH_NONE" "length (hb_nonce hb) = 8"
    using that read_master [OF assms(2), of m] ack [of 22]
      common_okD(1) [OF c, of 8 "hb_nonce hb" "drop 14 (m @ replicate (128 - length m) 0)"]
    by (simp add: is_mst_def hb_read_master_def)
qed

lemma length_config_frame:
  assumes "env_ok env" shows "length (config_frame env cfg call) = 306"
proof -
  have "n \<le> length (env_double env n v)" for n v using assms by (simp add: env_ok_def)
  then show ?thesis by (simp add: config_frame_def config_fields_def bytes_of_def min_absorb2)
qed

lemma length_key_frame: "env_ok env \<Longrightarrow> length (key_frame (env_common env) hb nonce secret) = 108"
  by (simp add: key_frame_def bytes_of_def env_ok_def common_okD)

text \<open>The connection after each step of the login.\<close>

definition login_state :: "nat \<Rightarrow> hb_env \<Rightarrow> u8 list \<Rightarrow> u8 list \<Rightarrow> dmr_homebrew \<Rightarrow> dmr_homebrew" where
  "login_state n env secret nonce hb =
     (let hb = hb\<lparr>hb_secret := Some secret, hb_state := DMR_HOMEBREW_AUTH_NONE\<rparr>
      in if n = 1 then hb
         else let hb = hb\<lparr>hb_nonce := nonce\<rparr>
              in if n = 2 then hb\<lparr>hb_state := DMR_HOMEBREW_AUTH_INIT\<rparr>
                 else if n = 3 then hb\<lparr>hb_state := DMR_HOMEBREW_AUTH_CONFIG\<rparr>
                 else hb\<lparr>hb_last_ping := env_now env, hb_last_pong := env_now env, hb_state := DMR_HOMEBREW_AUTH_DONE\<rparr>)"

lemma login_steps:
  assumes env: "env_ok env" "\<forall>n. env_mem env n = (True, True)" "send_loop (env_send env) = Some True"
    and hb: "hb_sock hb" "cfg_repeater_id (hb_config hb) \<noteq> 0" "cfg_call (hb_config hb) = Some call" "length (hb_nonce hb) = 8"
    and acks: "is_mst ''ACK'' 22 m1" "is_mst ''ACK'' 14 m2" "is_mst ''ACK'' 14 m3"
    and st: "\<forall>n. st n = login_state n env secret (drop 14 m1) hb"
  shows "dmr_homebrew_auth env True (Some hb) (Some secret) = Some (0, Some (st 1), [login_frame hb])"
    "dmr_homebrew_read env mem (st 1) w (Some m1) = Some (0, st 2, [key_frame (env_common env) hb (drop 14 m1) secret], None)"
    "dmr_homebrew_read env mem (st 2) w (Some m2) = Some (0, st 3, [config_frame env (hb_config hb) call], None)"
    "dmr_homebrew_read env mem (st 3) w (Some m3) = Some (0, st 4, [], None)"
proof -
  note d = st [rule_format] login_state_def Let_def
  show "dmr_homebrew_auth env True (Some hb) (Some secret) = Some (0, Some (st 1), [login_frame hb])"
    using homebrew_auth_frame [OF env(1) env(2)[rule_format] hb(1) env(3) hb(2)] by (simp add: d hb_api)
  have key: "key_frame c ((st 1)\<lparr>hb_nonce := n\<rparr>) = key_frame c hb" for c n by (rule ext)+ (simp add: key_frame_def d)
  have "homebrew_send_key env ((st 1)\<lparr>hb_nonce := drop 14 m1\<rparr>) = Some (0, st 2, [key_frame (env_common env) hb (drop 14 m1) secret])"
    using homebrew_key_frame [OF env(1) env(2)[rule_format] _ env(3), of "(st 1)\<lparr>hb_nonce := drop 14 m1\<rparr>" secret] hb(1) acks(1)
    unfolding key by (simp add: is_mst_def d)
  then show "dmr_homebrew_read env mem (st 1) w (Some m1) =
      Some (0, st 2, [key_frame (env_common env) hb (drop 14 m1) secret], None)"
    using read_ack(3) [OF env(1) env(2)[rule_format] acks(1), of "st 1"] hb(4) by (simp add: hb_reply_def d)
  show "dmr_homebrew_read env mem (st 2) w (Some m2) = Some (0, st 3, [config_frame env (hb_config hb) call], None)"
    using read_ack(1) [OF env(1) env(2)[rule_format] acks(2), of "st 2"] homebrew_config_frame [OF env(1) env(2)[rule_format] _ env(3), of "st 2" call] hb(1,3)
    by (simp add: hb_reply_def d)
  show "dmr_homebrew_read env mem (st 3) w (Some m3) = Some (0, st 4, [], None)"
    using read_ack(2) [OF env(1) env(2)[rule_format] acks(3), of "st 3"] by (simp add: d)
qed

text \<open>
  C10. The login completes: from any state of a configured connection, \<open>dmr_homebrew_auth\<close>
  followed by the three acknowledgements of the master (the first one carrying the nonce) ends
  in the state \<open>DMR_HOMEBREW_AUTH_DONE\<close> with both ping times set, whatever the retries of the
  socket, and the frames sent on the way are the login, the hexadecimal digest of nonce and
  secret, and the configuration.  The digest frame is 108 bytes long: \<open>homebrew_send_key\<close> counts
  the digest once more, so 32 zero bytes follow the 76 bytes of the frame.
\<close>

theorem homebrew_login_completes:
  assumes env: "env_ok env" "\<forall>n. env_mem env n = (True, True)" "send_loop (env_send env) = Some True"
    and hb: "hb_sock hb" "cfg_repeater_id (hb_config hb) \<noteq> 0" "cfg_call (hb_config hb) = Some call" "length (hb_nonce hb) = 8"
    and acks: "is_mst ''ACK'' 22 m1" "is_mst ''ACK'' 14 m2" "is_mst ''ACK'' 14 m3"
  shows "\<exists>hb1 hb2 hb3 hb4 key config.
    dmr_homebrew_auth env True (Some hb) (Some secret) = Some (0, Some hb1, [login_frame hb]) \<and>
    dmr_homebrew_read env True hb1 True (Some m1) = Some (0, hb2, [key], None) \<and>
    dmr_homebrew_read env True hb2 True (Some m2) = Some (0, hb3, [config], None) \<and>
    dmr_homebrew_read env True hb3 True (Some m3) = Some (0, hb4, [], None) \<and>
    key = key_frame (env_common env) hb (drop 14 m1) secret \<and> length key = 108 \<and>
    config = config_frame env (hb_config hb) call \<and> length config = 306 \<and>
    hb_state hb4 = DMR_HOMEBREW_AUTH_DONE \<and> hb_last_pong hb4 = env_now env \<and> hb_last_ping hb4 = env_now env \<and>
    hb_config hb4 = hb_config hb"
proof -
  define st where "st n = login_state n env secret (drop 14 m1) hb" for n
  note l = login_steps [OF assms, of st secret]
  show ?thesis
    by (intro exI conjI, rule l(1), simp add: st_def, rule l(2), simp add: st_def, rule l(3), simp add: st_def,
        rule l(4), simp add: st_def)
      (simp_all add: length_key_frame [OF env(1)] length_config_frame [OF env(1)] st_def login_state_def)
qed

theorem homebrew_login_completes_witness:
  "\<exists>hb1 hb2 hb3 hb4 key config.
    dmr_homebrew_auth demo_env True (Some (demo_homebrew\<lparr>hb_config := (hb_config demo_homebrew)\<lparr>cfg_call := Some (bytes_of ''PD0MZ'')\<rparr>\<rparr>))
      (Some (bytes_of ''secret'')) = Some (0, Some hb1, [login_frame demo_homebrew]) \<and>
    dmr_homebrew_read demo_env True hb1 True (Some (bytes_of ''MSTACK001f2966'' @ [1, 2, 3, 4, 5, 6, 7, 8])) = Some (0, hb2, [key], None) \<and>
    dmr_homebrew_read demo_env True hb2 True (Some (bytes_of ''MSTACK001f2966'')) = Some (0, hb3, [config], None) \<and>
    dmr_homebrew_read demo_env True hb3 True (Some (bytes_of ''MSTACK001f2966'')) = Some (0, hb4, [], None) \<and>
    hb_state hb4 = DMR_HOMEBREW_AUTH_DONE"
proof -
  let ?hb = "demo_homebrew\<lparr>hb_config := (hb_config demo_homebrew)\<lparr>cfg_call := Some (bytes_of ''PD0MZ'')\<rparr>\<rparr>"
  have "hb_sock ?hb" "cfg_repeater_id (hb_config ?hb) \<noteq> 0" "cfg_call (hb_config ?hb) = Some (bytes_of ''PD0MZ'')" "length (hb_nonce ?hb) = 8"
    by (simp_all add: demo_homebrew_def dmr_homebrew_new_def std_common_def Cons_replicate_eq)
  note l = homebrew_login_completes [OF demo_env_ok(1) allI [OF demo_env_ok(2)] demo_env_ok(3) this, of "bytes_of ''MSTACK001f2966'' @ [1, 2, 3, 4, 5, 6, 7, 8]"
      "bytes_of ''MSTACK001f2966''" "bytes_of ''MSTACK001f2966''" "bytes_of ''secret''"]
  have "login_frame ?hb = login_frame demo_homebrew" by (simp add: login_frame_def)
  with l show ?thesis by (auto simp: is_mst_def bytes_of_def)
qed

section \<open>Reachable connections\<close>

text \<open>
  What happens on a connection, in order: a call of \<open>dmr_homebrew_auth\<close> with a secret, a datagram
  received, a frame handed to the socket.  A reachable connection is one made by
  \<open>dmr_homebrew_new\<close> and changed by the operations of the protocol and by the user filling in the
  configuration; every call has an environment of its own.
\<close>

datatype hb_event = Auth "u8 list" | Rx "u8 list" | Tx "u8 list"

inductive hb_reach :: "common_ops \<Rightarrow> dmr_homebrew \<Rightarrow> hb_event list \<Rightarrow> bool" for c :: common_ops where
  new: "dmr_homebrew_new c ip6any mems sock bind_ok repeater_id peer_ip peer_port bind_ip bind_port = Some hb \<Longrightarrow>
    16 \<le> length peer_ip \<Longrightarrow> 16 \<le> length bind_ip \<Longrightarrow> hb_reach c hb []"
| configure: "hb_reach c hb tr \<Longrightarrow> hb_reach c (hb\<lparr>hb_config := cfg\<rparr>) tr"
| io_init: "hb_reach c hb tr \<Longrightarrow> homebrew_io_init mems (Some hb) = (ret, Some hb') \<Longrightarrow> hb_reach c hb' tr"
| auth: "hb_reach c hb tr \<Longrightarrow> env_ok env \<Longrightarrow> env_common env = c \<Longrightarrow>
    dmr_homebrew_auth env strdup (Some hb) (Some secret) = Some (ret, Some hb', fs) \<Longrightarrow> hb_reach c hb' (tr @ Auth secret # map Tx fs)"
| readable: "hb_reach c hb tr \<Longrightarrow> env_ok env \<Longrightarrow> env_common env = c \<Longrightarrow>
    homebrew_io_readable env rmems (Some hb) (Some m) = Some (ret, Some hb', fs) \<Longrightarrow> hb_reach c hb' (tr @ Rx m # map Tx fs)"
| read_error: "hb_reach c hb tr \<Longrightarrow> env_ok env \<Longrightarrow> env_common env = c \<Longrightarrow>
    homebrew_io_readable env rmems (Some hb) None = Some (ret, Some hb', fs) \<Longrightarrow> hb_reach c hb' (tr @ map Tx fs)"
| ping: "hb_reach c hb tr \<Longrightarrow> env_ok env \<Longrightarrow> env_common env = c \<Longrightarrow>
    homebrew_io_ping_timer env (Some hb) = Some (ret, Some hb', fs) \<Longrightarrow> hb_reach c hb' (tr @ map Tx fs)"
| send: "hb_reach c hb tr \<Longrightarrow> env_ok env \<Longrightarrow> env_common env = c \<Longrightarrow>
    dmr_homebrew_send env (Some hb) parsed = Some (ret, Some hb', fs) \<Longrightarrow> hb_reach c hb' (tr @ map Tx fs)"
| send_buf: "hb_reach c hb tr \<Longrightarrow> env_ok env \<Longrightarrow> env_common env = c \<Longrightarrow>
    dmr_homebrew_send_buf env (Some hb) buf = Some (ret, Some hb', fs) \<Longrightarrow> hb_reach c hb' (tr @ map Tx fs)"
| close: "hb_reach c hb tr \<Longrightarrow> env_ok env \<Longrightarrow> env_common env = c \<Longrightarrow>
    homebrew_io_close env (Some hb) = Some (ret, Some hb', fs) \<Longrightarrow> hb_reach c hb' (tr @ map Tx fs)"

text \<open>What the operations that only send leave alone.\<close>

definition hb_same :: "dmr_homebrew \<Rightarrow> dmr_homebrew \<Rightarrow> bool" where
  "hb_same hb hb' \<longleftrightarrow> hb_sock hb' = hb_sock hb \<and> hb_nonce hb' = hb_nonce hb \<and> hb_secret hb' = hb_secret hb"

lemma send_raw_same: "hb_send_raw env hb raw = Some (ret, hb', fs) \<Longrightarrow> hb' = hb"
  by (auto simp: hb_send_raw_def bind_eq_Some_conv split: option.splits if_splits)

lemma hb_same_refl [simp]: "hb_same hb hb" by (simp add: hb_same_def)

lemma send_only_same:
  "hb_send env hb parsed = Some (ret, hb', fs) \<Longrightarrow> hb' = hb"
  "hb_send_buf env hb buf = Some (ret, hb', fs) \<Longrightarrow> hb' = hb"
  "hb_io_close env hb = Some (ret, hb', fs) \<Longrightarrow> hb' = hb"
  "hb_ping_timer env hb = Some (ret, hb', fs) \<Longrightarrow> hb_same hb hb' \<and> hb_state hb' = hb_state hb"
     apply (auto simp: hb_send_def bind_eq_Some_conv dest: send_raw_same split: option.splits)[1]
    apply (auto simp: hb_send_buf_def bind_eq_Some_conv dest: send_raw_same split: option.splits if_splits)[1]
   apply (auto simp: hb_io_close_def hb_close_def bind_eq_Some_conv dest: send_raw_same split: option.splits if_splits)[1]
  by (auto simp: hb_ping_timer_def bind_eq_Some_conv hb_same_def dest!: send_raw_same split: option.splits if_splits)

lemma io_init_same: "homebrew_io_init mems (Some hb) = (ret, Some hb') \<Longrightarrow> hb_same hb hb' \<and> hb_state hb' = hb_state hb"
  by (auto simp: homebrew_io_init_def Let_def hb_same_def split: if_splits)

lemma hb_new_raw_none: "hb_new_raw env n = Some r \<Longrightarrow> env_mem env n = (True, True)"
  by (cases "env_mem env n") (auto simp: hb_new_raw_def dmr_raw_new_def Let_def split: if_splits)

lemma send_raw_loop:
  "hb_send_raw env hb (Some raw) = Some res \<Longrightarrow> hb_sock hb \<Longrightarrow> \<exists>ok. send_loop (env_send env) = Some ok"
  by (auto simp: hb_send_raw_def bind_eq_Some_conv)

lemma send_key_cases:
  assumes "homebrew_send_key env hb = Some (ret, hb', fs)" "env_ok env" "hb_sock hb" "length (hb_nonce hb) = 8"
  shows "hb' = hb \<or> (\<exists>s. hb_secret hb = Some s \<and> hb' = hb\<lparr>hb_state := DMR_HOMEBREW_AUTH_INIT\<rparr> \<and>
    fs = [key_frame (env_common env) hb (hb_nonce hb) s])"
proof (cases "hb_new_raw env 76")
  case None
  then show ?thesis using assms(1) by (simp add: homebrew_send_key_def)
next
  case (Some raw)
  obtain s ok where s: "hb_secret hb = Some s" and ok: "send_loop (env_send env) = Some ok"
    using assms(1,3) Some by (auto simp: homebrew_send_key_def bind_eq_Some_conv Let_def dest!: send_raw_loop)
  from homebrew_key_frame [OF assms(2) hb_new_raw_none [OF Some] assms(3) ok s assms(4)] assms(1) s show ?thesis by auto
qed

lemma send_config_cases:
  assumes "homebrew_send_config env hb = Some (ret, hb', fs)" "env_ok env" "hb_sock hb"
  shows "hb' = hb \<or> (\<exists>call. hb' = hb\<lparr>hb_state := DMR_HOMEBREW_AUTH_CONFIG\<rparr> \<and> fs = [config_frame env (hb_config hb) call])"
proof (cases "hb_new_raw env 302")
  case None
  then show ?thesis using assms(1) by (simp add: homebrew_send_config_def)
next
  case (Some raw)
  obtain call ok where s: "cfg_call (hb_config hb) = Some call" and ok: "send_loop (env_send env) = Some ok"
    using assms(1,3) Some by (auto simp: homebrew_send_config_def bind_eq_Some_conv Let_def dest!: send_raw_loop)
  from homebrew_config_frame [OF assms(2) hb_new_raw_none [OF Some] assms(3) ok s] assms(1) show ?thesis by auto
qed

lemma auth_cases:
  assumes "hb_auth env strdup hb (Some secret) = Some (ret, hb', fs)"
  shows "hb_sock hb' = hb_sock hb \<and> hb_nonce hb' = hb_nonce hb \<and> hb_secret hb' \<in> {hb_secret hb, None, Some secret} \<and>
    hb_state hb' \<in> {hb_state hb, DMR_HOMEBREW_AUTH_NONE}"
  using assms by (auto simp: hb_auth_def bind_eq_Some_conv Let_def dest!: send_raw_same split: option.splits if_splits)

lemma read_ignored:
  assumes r: "dmr_homebrew_read env mem hb w recv = Some (ret, hb', fs, parsed)"
    and no: "\<nexists>m. recv = Some m \<and> env_mem env 53 = (True, True) \<and> 14 \<le> length m \<and> length m \<le> 128 \<and> m ! 0 = 0x4d"
  shows "hb_same hb hb' \<and> hb_state hb' = hb_state hb"
proof (cases "hb_new_raw env 53")
  case None
  with r show ?thesis by (auto simp: dmr_homebrew_read_def)
next
  case (Some raw)
  show ?thesis
  proof (cases recv)
    case None
    with r Some show ?thesis by (simp add: dmr_homebrew_read_def)
  next
    case (Some m)
    let ?d = "take 128 m"
    have b: "blit (raw_buf raw) 0 ?d ! 0 = m ! 0" if "14 \<le> length ?d" using that by (cases m) (simp_all add: blit_def)
    have "length ?d = 128" if "14 \<le> length ?d" "m ! 0 = 0x4d"
      using that no Some hb_new_raw_none [OF \<open>hb_new_raw env 53 = Some raw\<close>] by fastforce
    with r \<open>hb_new_raw env 53 = Some raw\<close> Some b show ?thesis
      by (auto simp: dmr_homebrew_read_def hb_read_master_def Let_def hb_same_def not_less split: if_splits sum.splits)
  qed
qed

lemma read_cases:
  assumes r: "dmr_homebrew_read env mem hb w recv = Some (ret, hb', fs, parsed)"
    and env: "env_ok env" and hb: "hb_sock hb" "length (hb_nonce hb) = 8"
  obtains (same) "hb_same hb hb'" "hb_state hb' \<in> {hb_state hb, DMR_HOMEBREW_AUTH_NONE}"
  | (nonce) m where "hb_state hb' \<in> {hb_state hb}" "recv = Some m" "hb' = hb\<lparr>hb_nonce := drop 14 m\<rparr>" "length (drop 14 m) = 8"
  | (key) m s where "recv = Some m" "is_mst ''ACK'' 22 m" "hb_secret hb = Some s"
      "hb' = hb\<lparr>hb_nonce := drop 14 m, hb_state := DMR_HOMEBREW_AUTH_INIT\<rparr>"
      "fs = [key_frame (env_common env) hb (drop 14 m) s]" "hb_state hb = DMR_HOMEBREW_AUTH_NONE"
  | (config) m call where "recv = Some m" "is_mst ''ACK'' 14 m" "hb_state hb = DMR_HOMEBREW_AUTH_INIT"
      "hb' = hb\<lparr>hb_state := DMR_HOMEBREW_AUTH_CONFIG\<rparr>" "fs = [config_frame env (hb_config hb) call]"
  | (finish) m where "recv = Some m" "is_mst ''ACK'' 14 m" "hb_state hb = DMR_HOMEBREW_AUTH_CONFIG" "hb_same hb hb'"
      "hb_state hb' = DMR_HOMEBREW_AUTH_DONE"
proof (cases "\<exists>m. recv = Some m \<and> env_mem env 53 = (True, True) \<and> 14 \<le> length m \<and> length m \<le> 128 \<and> m ! 0 = 0x4d")
  case False
  from read_ignored [OF r this] show thesis using same by simp
next
  case True
  then obtain m where m: "recv = Some m" "env_mem env 53 = (True, True)" "14 \<le> length m" "length m \<le> 128" "m ! 0 = 0x4d" by blast
  let ?buf = "m @ replicate (128 - length m) 0"
  have c: "common_ok (env_common env)" using env by (simp add: env_ok_def)
  have ack: "byte_cmp (env_common env) (drop 3 ?buf) (bytes_of ''ACK'') 3 = 0 \<longleftrightarrow> is_mst ''ACK'' (length m) m"
    using m common_okD(3) [OF c, of 3 "drop 3 ?buf" "bytes_of ''ACK''"] by (simp add: is_mst_def bytes_of_def)
  have cp: "byte_copy (env_common env) (hb_nonce hb) (drop 14 ?buf) 8 = drop 14 m" if "length m = 22"
    using that hb(2) common_okD(1) [OF c, of 8 "hb_nonce hb" "drop 14 ?buf"] by simp
  note h = r [unfolded m(1) read_master [OF m(2-5)] hb_read_master_def Let_def ack]
  consider "length m = 22" "is_mst ''ACK'' 22 m" "hb_state hb = DMR_HOMEBREW_AUTH_NONE"
    | "length m = 14" "is_mst ''ACK'' 14 m" "hb_state hb = DMR_HOMEBREW_AUTH_INIT"
    | "length m = 14" "is_mst ''ACK'' 14 m" "hb_state hb = DMR_HOMEBREW_AUTH_CONFIG"
    | "hb_same hb hb'" "hb_state hb' \<in> {hb_state hb, DMR_HOMEBREW_AUTH_NONE}"
    using h by (auto simp: hb_same_def split: if_splits)
  then show thesis
  proof cases
    case 1
    then have k: "homebrew_send_key env (hb\<lparr>hb_nonce := drop 14 m\<rparr>) = Some (ret, hb', fs)"
      using h cp by (auto simp: hb_reply_def)
    have kf: "key_frame (env_common env) (hb\<lparr>hb_nonce := drop 14 m\<rparr>) = key_frame (env_common env) hb"
      by (rule ext)+ (simp add: key_frame_def)
    show thesis using send_key_cases [OF k env] 1 hb(1) nonce [OF _ m(1)] key [OF m(1) 1(2)] by (auto simp: kf)
  next
    case 2
    then have k: "homebrew_send_config env hb = Some (ret, hb', fs)" using h by (auto simp: hb_reply_def)
    show thesis using send_config_cases [OF k env hb(1)] config [OF m(1) 2(2,3)] same by auto
  next
    case 3
    then show thesis using h finish [OF m(1) 3(2,3)] by (auto simp: hb_same_def)
  next
    case 4
    then show thesis by (rule same)
  qed
qed

text \<open>
  The events that lead to each state of the login, and the invariant: the state is never ahead
  of the handshake that the trace contains.
\<close>

inductive handshake :: "common_ops \<Rightarrow> dmr_homebrew_state \<Rightarrow> hb_event list \<Rightarrow> bool" for c :: common_ops where
  none: "handshake c DMR_HOMEBREW_AUTH_NONE []"
| key: "is_mst ''ACK'' 22 m \<Longrightarrow> handshake c DMR_HOMEBREW_AUTH_INIT [Auth s, Rx m, Tx (key_frame c hb (drop 14 m) s)]"
| config: "handshake c DMR_HOMEBREW_AUTH_INIT hs \<Longrightarrow> is_mst ''ACK'' 14 m \<Longrightarrow> env_ok env \<Longrightarrow> env_common env = c \<Longrightarrow>
    handshake c DMR_HOMEBREW_AUTH_CONFIG (hs @ [Rx m, Tx (config_frame env cfg call)])"
| acked: "handshake c DMR_HOMEBREW_AUTH_CONFIG hs \<Longrightarrow> is_mst ''ACK'' 14 m \<Longrightarrow>
    handshake c DMR_HOMEBREW_AUTH_DONE (hs @ [Rx m])"

inductive_cases handshakeE:
  "handshake c DMR_HOMEBREW_AUTH_INIT hs" "handshake c DMR_HOMEBREW_AUTH_CONFIG hs" "handshake c DMR_HOMEBREW_AUTH_DONE hs"

definition hb_inv :: "common_ops \<Rightarrow> dmr_homebrew \<Rightarrow> hb_event list \<Rightarrow> bool" where
  "hb_inv c hb tr \<longleftrightarrow> hb_sock hb \<and> length (hb_nonce hb) = 8 \<and> (\<forall>s. hb_secret hb = Some s \<longrightarrow> Auth s \<in> set tr) \<and>
     (\<exists>hs. handshake c (hb_state hb) hs \<and> subseq hs tr)"

lemma hb_inv_keep:
  assumes "hb_inv c hb tr" "hb_sock hb' = hb_sock hb" "length (hb_nonce hb') = 8"
    "\<forall>s. hb_secret hb' = Some s \<longrightarrow> Auth s \<in> set (tr @ es)" "hb_state hb' \<in> {hb_state hb, DMR_HOMEBREW_AUTH_NONE}"
  shows "hb_inv c hb' (tr @ es)"
  using assms subseq_rev_drop_many handshake.none list_emb_Nil unfolding hb_inv_def by (metis insertE singletonD)

lemma hb_inv_same:
  "hb_inv c hb tr \<Longrightarrow> hb_same hb hb' \<Longrightarrow> hb_state hb' \<in> {hb_state hb, DMR_HOMEBREW_AUTH_NONE} \<Longrightarrow> hb_inv c hb' (tr @ es)"
  by (rule hb_inv_keep) (auto simp: hb_inv_def hb_same_def)

lemma hb_inv_advance:
  assumes "hb_inv c hb tr" "hb_sock hb'" "length (hb_nonce hb') = 8" "hb_secret hb' = hb_secret hb"
    "handshake c (hb_state hb') (hs @ es)" "subseq hs tr"
  shows "hb_inv c hb' (tr @ es)"
  using assms list_emb_append_mono [OF assms(6) subseq_order.order_refl] unfolding hb_inv_def by auto

lemma read_keeps_inv:
  assumes inv: "hb_inv c hb tr" and env: "env_ok env" "env_common env = c"
    and r: "dmr_homebrew_read env mem hb w recv = Some (ret, hb', fs, parsed)"
  shows "hb_inv c hb' (tr @ (case recv of None \<Rightarrow> [] | Some m \<Rightarrow> [Rx m]) @ map Tx fs)"
proof -
  have hb: "hb_sock hb" "length (hb_nonce hb) = 8" using inv by (simp_all add: hb_inv_def)
  obtain hs where hs: "handshake c (hb_state hb) hs" "subseq hs tr" using inv by (auto simp: hb_inv_def)
  from r env(1) hb show ?thesis
  proof (cases rule: read_cases)
    case same
    then show ?thesis by (rule hb_inv_same [OF inv])
  next
    case (nonce m)
    then show ?thesis using inv by (intro hb_inv_keep [OF inv]) (auto simp: hb_inv_def)
  next
    case (key m s)
    then have "Auth s \<in> set tr" using inv by (simp add: hb_inv_def)
    with key show ?thesis using hb handshake.key [OF key(2), of c s hb] env(2)
      by (intro hb_inv_advance [OF inv, where hs = "[Auth s]"]) (auto simp: is_mst_def subseq_singleton_left)
  next
    case (config m call)
    then show ?thesis using hb hs handshake.config [OF _ config(2) env, of hs "hb_config hb" call] 
      by (intro hb_inv_advance [OF inv, where hs = hs]) auto
  next
    case (finish m)
    then have "hb_inv c hb' (tr @ [Rx m])" using hb hs handshake.acked [OF _ finish(2), of c hs] 
      by (intro hb_inv_advance [OF inv, where hs = hs]) (auto simp: hb_same_def)
    with finish show ?thesis using hb_inv_same [of c hb' "tr @ [Rx m]" hb' "map Tx fs"] by simp
  qed
qed

lemma readable_read:
  assumes "hb_readable env rmems hb recv = Some (ret, hb', fs)"
  shows "hb' = hb \<and> fs = [] \<or> (\<exists>mem ret1 hb1 parsed. dmr_homebrew_read env mem hb True recv = Some (ret1, hb1, fs, parsed) \<and>
    hb_same hb1 hb' \<and> hb_state hb' = hb_state hb1)"
  using assms by (cases rmems) (auto simp: hb_readable_def bind_eq_Some_conv hb_same_def split: if_splits sum.splits; blast)

lemma readable_keeps_inv:
  assumes "hb_inv c hb tr" "env_ok env" "env_common env = c" "hb_readable env rmems hb recv = Some (ret, hb', fs)"
  shows "hb_inv c hb' (tr @ (case recv of None \<Rightarrow> [] | Some m \<Rightarrow> [Rx m]) @ map Tx fs)"
proof -
  from readable_read [OF assms(4)] consider "hb' = hb"
    | mem ret1 hb1 parsed where "dmr_homebrew_read env mem hb True recv = Some (ret1, hb1, fs, parsed)"
        "hb_same hb1 hb'" "hb_state hb' = hb_state hb1" by blast
  then show ?thesis
  proof cases
    case 1
    with assms(1) show ?thesis by (simp add: hb_inv_same)
  next
    case 2
    from hb_inv_same [OF read_keeps_inv [OF assms(1-3) 2(1)] 2(2), of "[]"] 2(3) show ?thesis by simp
  qed
qed

lemma reach_inv: "hb_reach c hb tr \<Longrightarrow> hb_inv c hb tr"
proof (induction rule: hb_reach.induct)
  case (new ip6any mems sock bind_ok repeater_id peer_ip peer_port bind_ip bind_port hb)
  then show ?case using handshake.none
    by (auto simp: dmr_homebrew_new_def hb_inv_def split: if_splits intro!: exI [of _ "[]"])
next
  case (configure hb tr cfg)
  then show ?case by (simp add: hb_inv_def)
next
  case (io_init hb tr mems ret hb')
  then show ?case using hb_inv_same [of c hb tr hb' "[]"] io_init_same by auto
next
  case (auth hb tr env strdup secret ret hb' fs)
  then show ?case using auth_cases [OF auth.hyps(4) [unfolded hb_api null_check_simps]] by (intro hb_inv_keep) (auto simp: hb_inv_def)
next
  case (readable hb tr env rmems m ret hb' fs)
  from readable_keeps_inv [OF readable.IH readable.hyps(2,3) readable.hyps(4) [unfolded hb_api null_check_simps]] show ?case by simp
next
  case (read_error hb tr env rmems ret hb' fs)
  from readable_keeps_inv [OF read_error.IH read_error.hyps(2,3) read_error.hyps(4) [unfolded hb_api null_check_simps]] show ?case by simp
next
  case (ping hb tr env ret hb' fs)
  then show ?case using send_only_same(4) [OF ping.hyps(4) [unfolded hb_api null_check_simps]] hb_inv_same by blast
next
  case (send hb tr env parsed ret hb' fs)
  then show ?case using send_only_same(1) [OF send.hyps(4) [unfolded hb_api null_check_simps]] hb_inv_same hb_same_refl by blast
next
  case (send_buf hb tr env buf ret hb' fs)
  then show ?case using send_only_same(2) [OF send_buf.hyps(4) [unfolded hb_api null_check_simps]] hb_inv_same hb_same_refl by blast
next
  case (close hb tr env ret hb' fs)
  then show ?case using send_only_same(3) [OF close.hyps(4) [unfolded hb_api null_check_simps]] hb_inv_same hb_same_refl by blast
qed

text \<open>
  C9. A connection that is logged in has completed the handshake: in every reachable state
  \<open>DMR_HOMEBREW_AUTH_DONE\<close> the history contains, in this order, a call of \<open>dmr_homebrew_auth\<close>
  with some secret, an acknowledgement with a nonce, the key frame computed from that nonce and
  that secret, a second acknowledgement, a configuration frame and a third acknowledgement.
  The declared state \<open>DMR_HOMEBREW_AUTH_FAILED\<close> is never entered.
\<close>

theorem homebrew_done_implies_handshake:
  assumes "hb_reach c hb tr"
  shows "hb_state hb \<noteq> DMR_HOMEBREW_AUTH_FAILED \<and>
    (hb_state hb = DMR_HOMEBREW_AUTH_DONE \<longrightarrow>
      (\<exists>secret m1 hb0 m2 env cfg call m3. is_mst ''ACK'' 22 m1 \<and> is_mst ''ACK'' 14 m2 \<and> is_mst ''ACK'' 14 m3 \<and>
        subseq [Auth secret, Rx m1, Tx (key_frame c hb0 (drop 14 m1) secret), Rx m2, Tx (config_frame env cfg call), Rx m3] tr))"
proof -
  obtain hs where hs: "handshake c (hb_state hb) hs" "subseq hs tr" using reach_inv [OF assms] by (auto simp: hb_inv_def)
  have "hb_state hb \<noteq> DMR_HOMEBREW_AUTH_FAILED" using hs(1) by (cases rule: handshake.cases) auto
  moreover have "\<exists>secret m1 hb0 m2 env cfg call m3. is_mst ''ACK'' 22 m1 \<and> is_mst ''ACK'' 14 m2 \<and> is_mst ''ACK'' 14 m3 \<and>
        hs = [Auth secret, Rx m1, Tx (key_frame c hb0 (drop 14 m1) secret), Rx m2, Tx (config_frame env cfg call), Rx m3]"
    if "hb_state hb = DMR_HOMEBREW_AUTH_DONE"
    using hs(1) that by (auto elim!: handshakeE) blast+
  ultimately show ?thesis using hs(2) by blast
qed

definition demo_call :: dmr_homebrew where
  "demo_call = demo_homebrew\<lparr>hb_config := (hb_config demo_homebrew)\<lparr>cfg_call := Some (bytes_of ''PD0MZ'')\<rparr>\<rparr>"

definition demo_nonce_ack :: "u8 list" where
  "demo_nonce_ack = bytes_of ''MSTACK001f2966'' @ [1, 2, 3, 4, 5, 6, 7, 8]"

definition demo_ack :: "u8 list" where
  "demo_ack = bytes_of ''MSTACK001f2966''"

lemma readable_of_read:
  "dmr_homebrew_read env True hb True recv = Some (ret, hb', fs, None) \<Longrightarrow>
   homebrew_io_readable env (True, True, True) (Some hb) recv = Some (ret, Some hb', fs)"
  by (simp add: homebrew_io_readable_def hb_readable_def)

theorem homebrew_done_implies_handshake_witness:
  "\<exists>hb tr. hb_reach std_common hb tr \<and> hb_state hb = DMR_HOMEBREW_AUTH_DONE \<and>
     (\<exists>secret m1 hb0 m2 env cfg call m3. is_mst ''ACK'' 22 m1 \<and> is_mst ''ACK'' 14 m2 \<and> is_mst ''ACK'' 14 m3 \<and>
        subseq [Auth secret, Rx m1, Tx (key_frame std_common hb0 (drop 14 m1) secret), Rx m2, Tx (config_frame env cfg call), Rx m3] tr)"
proof -
  let ?s = "bytes_of ''secret''"
  define st where "st n = login_state n demo_env ?s (drop 14 demo_nonce_ack) demo_call" for n
  have c: "env_common demo_env = std_common" by (simp add: demo_env_def)
  have "hb_sock demo_call" "cfg_repeater_id (hb_config demo_call) \<noteq> 0" "cfg_call (hb_config demo_call) = Some (bytes_of ''PD0MZ'')"
    "length (hb_nonce demo_call) = 8"
    by (simp_all add: demo_call_def demo_homebrew_def dmr_homebrew_new_def std_common_def Cons_replicate_eq)
  moreover have "is_mst ''ACK'' 22 demo_nonce_ack" "is_mst ''ACK'' 14 demo_ack"
    by (simp_all add: is_mst_def demo_nonce_ack_def demo_ack_def bytes_of_def)
  ultimately have l: "dmr_homebrew_auth demo_env True (Some demo_call) (Some ?s) = Some (0, Some (st 1), [login_frame demo_call])"
    "dmr_homebrew_read demo_env True (st 1) True (Some demo_nonce_ack) = Some (0, st 2, [key_frame std_common demo_call (drop 14 demo_nonce_ack) ?s], None)"
    "dmr_homebrew_read demo_env True (st 2) True (Some demo_ack) = Some (0, st 3, [config_frame demo_env (hb_config demo_call) (bytes_of ''PD0MZ'')], None)"
    "dmr_homebrew_read demo_env True (st 3) True (Some demo_ack) = Some (0, st 4, [], None)"
    using login_steps [OF demo_env_ok(1) allI [OF demo_env_ok(2)] demo_env_ok(3), of demo_call "bytes_of ''PD0MZ''" demo_nonce_ack demo_ack demo_ack st ?s] st_def c by auto
  have "dmr_homebrew_new std_common (replicate 16 0) (True, True) True True 2042214 (1 # replicate 15 0) 0 (replicate 16 0) 0 =
      Some demo_homebrew" by (simp add: demo_homebrew_def dmr_homebrew_new_def std_common_def Cons_replicate_eq)
  then have "hb_reach std_common demo_homebrew []" by (rule hb_reach.new) simp_all
  then have "hb_reach std_common demo_call []" unfolding demo_call_def by (rule hb_reach.configure)
  note r = hb_reach.auth [OF this demo_env_ok(1) c l(1)]
  note r = hb_reach.readable [OF r demo_env_ok(1) c readable_of_read [OF l(2)]]
  note r = hb_reach.readable [OF r demo_env_ok(1) c readable_of_read [OF l(3)]]
  note r = hb_reach.readable [OF r demo_env_ok(1) c readable_of_read [OF l(4)]]
  have "hb_state (st 4) = DMR_HOMEBREW_AUTH_DONE" by (simp add: st_def login_state_def)
  with r homebrew_done_implies_handshake [OF r] show ?thesis by blast
qed

end
