(* ===== verification/Dmr_Mmdvm.thy ===== *)
theory Dmr_Mmdvm
  imports Dmr_Frame Dmr_Packetq
begin

unbundle bit_operations_syntax

text \<open>
  \<open>src/dmr/protocol/mmdvm.c\<close> and \<open>mmdvm_io.c\<close>: the serial protocol of a Multi Mode Digital Voice
  Modem.  The serial line is a list of what its next reads or writes do; the operations return
  the value of the C function, the new state, the bytes that reached the line and the rest of
  that list, and \<open>None\<close> for a call that is undefined or has not returned.  Log output is left out.
\<close>

section \<open>Constants and state\<close>

abbreviation (input) DMR_MMDVM_FRAME_START :: u8 where "DMR_MMDVM_FRAME_START \<equiv> 0xe0"
abbreviation (input) DMR_MMDVM_FRAME_MAX :: nat where "DMR_MMDVM_FRAME_MAX \<equiv> 255"
abbreviation (input) DMR_MMDVM_SET_MAX :: nat where "DMR_MMDVM_SET_MAX \<equiv> 15"

type_synonym dmr_mmdvm_command = u8
type_synonym dmr_mmdvm_reason = u8
type_synonym dmr_mmdvm_mode = u8
type_synonym dmr_mmdvm_state = u8
type_synonym dmr_mmdvm_model = u8

abbreviation (input) DMR_MMDVM_GET_VERSION :: dmr_mmdvm_command where "DMR_MMDVM_GET_VERSION \<equiv> 0x00"
abbreviation (input) DMR_MMDVM_GET_STATUS :: dmr_mmdvm_command where "DMR_MMDVM_GET_STATUS \<equiv> 0x01"
abbreviation (input) DMR_MMDVM_SET_CONFIG :: dmr_mmdvm_command where "DMR_MMDVM_SET_CONFIG \<equiv> 0x02"
abbreviation (input) DMR_MMDVM_SET_MODE :: dmr_mmdvm_command where "DMR_MMDVM_SET_MODE \<equiv> 0x03"
abbreviation (input) DMR_MMDVM_SET_RF_CONFIG :: dmr_mmdvm_command where "DMR_MMDVM_SET_RF_CONFIG \<equiv> 0x04"
abbreviation (input) DMR_MMDVM_DMR_DATA1 :: dmr_mmdvm_command where "DMR_MMDVM_DMR_DATA1 \<equiv> 0x18"
abbreviation (input) DMR_MMDVM_DMR_DATA2 :: dmr_mmdvm_command where "DMR_MMDVM_DMR_DATA2 \<equiv> 0x1a"
abbreviation (input) DMR_MMDVM_ACK :: dmr_mmdvm_command where "DMR_MMDVM_ACK \<equiv> 0x70"
abbreviation (input) DMR_MMDVM_NAK :: dmr_mmdvm_command where "DMR_MMDVM_NAK \<equiv> 0x7f"

abbreviation (input) DMR_MMDVM_MODE_DMR :: dmr_mmdvm_mode where "DMR_MMDVM_MODE_DMR \<equiv> 0x02"
abbreviation (input) DMR_MMDVM_STATE_DMR :: dmr_mmdvm_state where "DMR_MMDVM_STATE_DMR \<equiv> 0x02"
abbreviation (input) DMR_MMDVM_MODEL_G4KLX :: dmr_mmdvm_model where "DMR_MMDVM_MODEL_G4KLX \<equiv> 0"
abbreviation (input) DMR_MMDVM_MODEL_DVMEGA :: dmr_mmdvm_model where "DMR_MMDVM_MODEL_DVMEGA \<equiv> 1"

record dmr_mmdvm =
  mm_id :: "u8 list"
  mm_port :: "u8 list"
  mm_baud :: int
  mm_model :: dmr_mmdvm_model
  mm_color_code :: dmr_color_code
  mm_protocol_version :: int
  mm_description :: "u8 list option"
  mm_modes :: u8
  mm_status :: u8
  mm_buffer_size :: "u8 list"
  mm_rx_freq :: u32
  mm_tx_freq :: u32
  mm_rx_on :: bool
  mm_tx_on :: bool
  mm_sent :: u32
  mm_ack :: "bool list"
  mm_set :: "u8 list"
  mm_set_rf_config_sent :: bool
  mm_set_rf_config_recv :: bool
  mm_started :: bool
  mm_rxq :: "dmr_packetq option"
  mm_txq :: "dmr_packetq option"
  mm_frame :: "u8 list"
  mm_trq :: "dmr_rawq option"
  mm_pos :: u64

section \<open>Names\<close>

fun mm_name :: "(u8 \<times> string) list \<Rightarrow> u8 \<Rightarrow> string" where
  "mm_name [] x = ''unknown''"
| "mm_name ((y, name) # names) x = (if y = x then name else mm_name names x)"

definition mm_commands :: "(dmr_mmdvm_command \<times> string) list" where
  "mm_commands =
    [(0x00, ''get version''), (0x01, ''get status''), (0x02, ''set config''), (0x03, ''set mode''),
     (0x04, ''set rf config''), (0x10, ''D-STAR header''), (0x11, ''D-STAR data''), (0x12, ''D-STAR lost''),
     (0x13, ''D-STAR EOT''), (0x18, ''DMR data TS1''), (0x19, ''DMR lost TS1''), (0x1a, ''DMR data TS2''),
     (0x1b, ''DMR lost TS2''), (0x1c, ''DMR short LC''), (0x1d, ''DMR start''), (0x20, ''YSF data''),
     (0x21, ''YSF lost''), (0x70, ''ACK''), (0x7f, ''NAK''), (0xf0, ''DUMP''), (0xf1, ''DEBUG1''),
     (0xf2, ''DEBUG2''), (0xf3, ''DEBUG3''), (0xf4, ''DEBUG4''), (0xf5, ''DEBUG5'')]"

definition dmr_mmdvm_command_name :: "dmr_mmdvm_command \<Rightarrow> string" where
  "dmr_mmdvm_command_name command = mm_name mm_commands command"

definition mm_reasons :: "(dmr_mmdvm_reason \<times> string) list" where
  "mm_reasons =
    [(1, ''invalid command value''), (2, ''wrong mode''), (3, ''command too long''), (4, ''data incorrect''),
     (5, ''not enough buffer space'')]"

definition dmr_mmdvm_reason_name :: "dmr_mmdvm_reason \<Rightarrow> string" where
  "dmr_mmdvm_reason_name reason = mm_name mm_reasons reason"

definition mm_models :: "(dmr_mmdvm_model \<times> string) list" where
  "mm_models = [(DMR_MMDVM_MODEL_G4KLX, ''MMDVM (G4KLX)''), (DMR_MMDVM_MODEL_DVMEGA, ''DVMEGA'')]"

definition dmr_mmdvm_model_name :: "dmr_mmdvm_model \<Rightarrow> string" where
  "dmr_mmdvm_model_name model = mm_name mm_models model"

definition mm_states :: "(dmr_mmdvm_state \<times> string) list" where
  "mm_states = [(0, ''idle''), (1, ''D-STAR''), (2, ''DMR''), (3, ''System Fusion''), (0x63, ''calibration'')]"

definition dmr_mmdvm_state_name :: "dmr_mmdvm_state \<Rightarrow> string" where
  "dmr_mmdvm_state_name state = mm_name mm_states state"

section \<open>Sending\<close>

text \<open>
  One write to the serial line: it accepts some of the bytes (perhaps none), fails with \<open>EINVAL\<close> or
  \<open>EAGAIN\<close>, or fails otherwise.
\<close>

datatype write_result = Wrote nat | Write_again | Write_failed

record mm_env =
  mm_common :: common_ops
  mm_realloc :: reallocator
  mm_mem :: "u64 \<Rightarrow> bool \<times> bool"

type_synonym mm_out = "u8 list list \<times> write_result list"
type_synonym mm_result = "(int \<times> dmr_mmdvm \<times> mm_out) option"
type_synonym mm_api_result = "(int \<times> dmr_mmdvm option \<times> mm_out) option"

text \<open>
  The write loop: whether the function returns from inside it, the value of \<open>ret\<close> behind it, the
  bytes that were accepted and the rest of the line.
\<close>

fun mm_write_loop :: "u8 list \<Rightarrow> nat \<Rightarrow> nat \<Rightarrow> write_result list \<Rightarrow> (bool \<times> int \<times> u8 list \<times> write_result list) option" where
  "mm_write_loop buf pos retry [] = None"
| "mm_write_loop buf pos retry (w # ws) =
     (case w of
        Wrote n \<Rightarrow>
          let n = min n (length buf - pos)
          in if n > 0 then Some (False, 0, take (pos + n) buf, ws)
             else if retry + 1 > 16 then Some (True, -1, take pos buf, ws)
             else Some (False, 0, take pos buf, ws)
      | Write_again \<Rightarrow>
          if retry + 1 > 16 then Some (True, -1, take pos buf, ws) else mm_write_loop buf pos (retry + 1) ws
      | Write_failed \<Rightarrow>
          if retry + 1 > 16 then Some (True, -1, take pos buf, ws) else Some (False, -1, take pos buf, ws))"

definition mm_uint8s :: "mm_env \<Rightarrow> u8 list \<Rightarrow> (dmr_raw option \<Rightarrow> (failure + dmr_raw) option) list" where
  "mm_uint8s env bs = map (\<lambda>b raw. dmr_raw_add_uint8 (mm_common env) (mm_realloc env) raw b) bs"

definition mm_new_raw :: "mm_env \<Rightarrow> u64 \<Rightarrow> dmr_raw option" where
  "mm_new_raw env len = dmr_raw_new (fst (mm_mem env len)) (snd (mm_mem env len)) len"

text \<open>A frame of the given size, built by the given writers, for a function that sends it.\<close>

definition mm_command ::
  "mm_env \<Rightarrow> (dmr_mmdvm \<Rightarrow> dmr_raw \<Rightarrow> write_result list \<Rightarrow> mm_result) \<Rightarrow> u64 \<Rightarrow>
   (dmr_raw option \<Rightarrow> (failure + dmr_raw) option) list \<Rightarrow> dmr_mmdvm \<Rightarrow> write_result list \<Rightarrow> mm_result" where
  "mm_command env send len wrs mm ws =
     (case mm_new_raw env len of
        None \<Rightarrow> Some (-1, mm, [], ws)
      | Some raw \<Rightarrow> do { raw \<leftarrow> raw_steps wrs raw; send mm raw ws })"

text \<open>
  Every sixth frame with data for the second time slot sends two requests in turn; the first
  argument bounds that nesting, which is at most one deep.
\<close>

primrec mm_send_raw :: "nat \<Rightarrow> mm_env \<Rightarrow> dmr_mmdvm \<Rightarrow> dmr_raw \<Rightarrow> write_result list \<Rightarrow> mm_result" where
  "mm_send_raw 0 env mm raw ws = None"
| "mm_send_raw (Suc d) env mm raw ws = do {
     (early, ret, sent, ws) \<leftarrow> mm_write_loop (raw_contents raw) 0 0 ws;
     if early then Some (-1, mm, [sent], ws)
     else if raw_len raw > 3 \<and> raw_buf raw ! 2 = DMR_MMDVM_DMR_DATA2 then
       let mm = mm\<lparr>mm_sent := mm_sent mm + 1\<rparr>
       in if mm_sent mm mod 6 = 0 then do {
            (_, mm, out1, ws) \<leftarrow> mm_command env (mm_send_raw d env) 3
              (mm_uint8s env [DMR_MMDVM_FRAME_START, 3, DMR_MMDVM_GET_STATUS]) mm ws;
            (_, mm, out2, ws) \<leftarrow> mm_command env (mm_send_raw d env) 3
              (mm_uint8s env [DMR_MMDVM_FRAME_START, 3, DMR_MMDVM_GET_VERSION]) mm ws;
            Some (ret, mm, sent # out1 @ out2, ws) }
          else Some (ret, mm, [sent], ws)
     else Some (ret, mm, [sent], ws) }"

abbreviation mm_send :: "mm_env \<Rightarrow> dmr_mmdvm \<Rightarrow> dmr_raw \<Rightarrow> write_result list \<Rightarrow> mm_result" where
  "mm_send \<equiv> mm_send_raw 2"

definition dmr_mmdvm_send_raw :: "mm_env \<Rightarrow> dmr_mmdvm option \<Rightarrow> dmr_raw option \<Rightarrow> write_result list \<Rightarrow> mm_api_result" where
  "dmr_mmdvm_send_raw env mmdvm raw ws =
     null_check ([], ws) (\<lambda>mm. case raw of None \<Rightarrow> Some (-1, mm, [], ws) | Some raw \<Rightarrow> mm_send env mm raw ws) mmdvm"

definition mm_get_status :: "mm_env \<Rightarrow> write_result list \<Rightarrow> dmr_mmdvm \<Rightarrow> mm_result" where
  "mm_get_status env ws mm =
     mm_command env (mm_send env) 3 (mm_uint8s env [DMR_MMDVM_FRAME_START, 3, DMR_MMDVM_GET_STATUS]) mm ws"

definition dmr_mmdvm_get_status :: "mm_env \<Rightarrow> dmr_mmdvm option \<Rightarrow> write_result list \<Rightarrow> mm_api_result" where
  "dmr_mmdvm_get_status env mmdvm ws = null_check ([], ws) (mm_get_status env ws) mmdvm"

definition dmr_mmdvm_get_version :: "mm_env \<Rightarrow> dmr_mmdvm option \<Rightarrow> write_result list \<Rightarrow> mm_api_result" where
  "dmr_mmdvm_get_version env mmdvm ws =
     null_check ([], ws) (\<lambda>mm. mm_command env (mm_send env) 3
       (mm_uint8s env [DMR_MMDVM_FRAME_START, 3, DMR_MMDVM_GET_VERSION]) mm ws) mmdvm"

definition mm_set_config ::
  "mm_env \<Rightarrow> u8 \<Rightarrow> u8 \<Rightarrow> u8 \<Rightarrow> dmr_mmdvm_state \<Rightarrow> u8 \<Rightarrow> u8 \<Rightarrow> dmr_color_code \<Rightarrow> write_result list \<Rightarrow> dmr_mmdvm \<Rightarrow> mm_result" where
  "mm_set_config env invert mode delay_ms state rx_level tx_level color_code ws mm =
     mm_command env (mm_send env) 10 (mm_uint8s env [DMR_MMDVM_FRAME_START, 10, DMR_MMDVM_SET_CONFIG,
       invert, mode, delay_ms, state, rx_level, tx_level, color_code]) mm ws"

definition dmr_mmdvm_set_config ::
  "mm_env \<Rightarrow> dmr_mmdvm option \<Rightarrow> u8 \<Rightarrow> u8 \<Rightarrow> u8 \<Rightarrow> dmr_mmdvm_state \<Rightarrow> u8 \<Rightarrow> u8 \<Rightarrow> dmr_color_code \<Rightarrow>
   write_result list \<Rightarrow> mm_api_result" where
  "dmr_mmdvm_set_config env mmdvm invert mode delay_ms state rx_level tx_level color_code ws =
     null_check ([], ws) (mm_set_config env invert mode delay_ms state rx_level tx_level color_code ws) mmdvm"

definition mm_set_mode :: "mm_env \<Rightarrow> dmr_mmdvm_mode \<Rightarrow> write_result list \<Rightarrow> dmr_mmdvm \<Rightarrow> mm_result" where
  "mm_set_mode env mode ws mm =
     mm_command env (mm_send env) 4 (mm_uint8s env [DMR_MMDVM_FRAME_START, 4, DMR_MMDVM_SET_MODE, mode]) mm ws"

definition dmr_mmdvm_set_mode :: "mm_env \<Rightarrow> dmr_mmdvm option \<Rightarrow> dmr_mmdvm_mode \<Rightarrow> write_result list \<Rightarrow> mm_api_result" where
  "dmr_mmdvm_set_mode env mmdvm mode ws = null_check ([], ws) (mm_set_mode env mode ws) mmdvm"

definition mm_set_rf_config :: "mm_env \<Rightarrow> u32 \<Rightarrow> u32 \<Rightarrow> write_result list \<Rightarrow> dmr_mmdvm \<Rightarrow> mm_result" where
  "mm_set_rf_config env rx_freq tx_freq ws mm =
     (if mm_model mm \<noteq> DMR_MMDVM_MODEL_DVMEGA then Some (-1, mm, [], ws)
      else let mm = (if mm_rx_freq mm \<noteq> rx_freq \<or> mm_tx_freq mm \<noteq> tx_freq
             then mm\<lparr>mm_ack := (mm_ack mm)[unat DMR_MMDVM_SET_RF_CONFIG := False], mm_rx_freq := rx_freq, mm_tx_freq := tx_freq\<rparr>
             else mm)
           in mm_command env (mm_send env) 12
                (mm_uint8s env [DMR_MMDVM_FRAME_START, 12, DMR_MMDVM_SET_RF_CONFIG, 0] @
                 [\<lambda>raw. dmr_raw_add_uint32 (mm_common env) (mm_realloc env) raw rx_freq,
                  \<lambda>raw. dmr_raw_add_uint32 (mm_common env) (mm_realloc env) raw tx_freq]) mm ws)"

definition dmr_mmdvm_set_rf_config :: "mm_env \<Rightarrow> dmr_mmdvm option \<Rightarrow> u32 \<Rightarrow> u32 \<Rightarrow> write_result list \<Rightarrow> mm_api_result" where
  "dmr_mmdvm_set_rf_config env mmdvm rx_freq tx_freq ws =
     null_check ([], ws) (mm_set_rf_config env rx_freq tx_freq ws) mmdvm"

text \<open>
  Draining the queue of frames; every turn takes one off, so the number of frames bounds the
  turns.
\<close>

fun mm_write :: "nat \<Rightarrow> mm_env \<Rightarrow> int \<Rightarrow> dmr_mmdvm \<Rightarrow> write_result list \<Rightarrow> mm_result" where
  "mm_write n env ret mm ws =
     (if dmr_rawq_empty (mm_trq mm) then Some (ret, mm, [], ws)
      else case n of
             0 \<Rightarrow> None
           | Suc n \<Rightarrow>
               (case dmr_rawq_shift (mm_trq mm) of
                  (raw, q) \<Rightarrow>
                    let mm = mm\<lparr>mm_trq := q\<rparr>
                    in (case raw of
                          None \<Rightarrow> mm_write n env ret mm ws
                        | Some raw \<Rightarrow> do {
                            (ret, mm, out1, ws) \<leftarrow> mm_send env mm raw ws;
                            if ret = -1 then Some (ret, mm, out1, ws)
                            else do { (ret, mm, out2, ws) \<leftarrow> mm_write n env ret mm ws; Some (ret, mm, out1 @ out2, ws) } })))"

declare mm_write.simps [simp del]

definition dmr_mmdvm_write :: "mm_env \<Rightarrow> dmr_mmdvm option \<Rightarrow> write_result list \<Rightarrow> mm_api_result" where
  "dmr_mmdvm_write env mmdvm ws =
     null_check ([], ws) (\<lambda>mm. mm_write (unat (dmr_rawq_size (mm_trq mm))) env 0 mm ws) mmdvm"

definition mm_control :: "dmr_parsed_packet \<Rightarrow> u8" where
  "mm_control parsed =
     (let control = 0
      in case dmr_sync_pattern_decode (pp_packet parsed) of
           DMR_SYNC_PATTERN_BS_SOURCED_VOICE \<Rightarrow> control OR 0x20
         | DMR_SYNC_PATTERN_MS_SOURCED_VOICE \<Rightarrow> control OR 0x20
         | DMR_SYNC_PATTERN_BS_SOURCED_DATA \<Rightarrow> control OR 0x40 OR (ucast (pp_data_type parsed) AND 0x0f)
         | DMR_SYNC_PATTERN_MS_SOURCED_DATA \<Rightarrow> control OR 0x40 OR (ucast (pp_data_type parsed) AND 0x0f)
         | _ \<Rightarrow> control)"

text \<open>The time slot of the caller's packet is changed for a DVMEGA; the packet is returned, too.\<close>

definition mm_send_packet ::
  "mm_env \<Rightarrow> dmr_parsed_packet \<Rightarrow> write_result list \<Rightarrow> dmr_mmdvm \<Rightarrow> (int \<times> dmr_mmdvm \<times> mm_out \<times> dmr_parsed_packet) option" where
  "mm_send_packet env parsed ws mm =
     (let control = mm_control parsed;
          dvmega = (mm_model mm = DMR_MMDVM_MODEL_DVMEGA);
          parsed = (if dvmega then parsed\<lparr>pp_ts := DMR_TS2\<rparr> else parsed);
          control = (if dvmega \<and> pp_data_type parsed = DMR_DATA_TYPE_VOICE then control OR 0x20 else control)
      in do {
           (ret, mm, out, ws) \<leftarrow> mm_command env (mm_send env) 37
             (mm_uint8s env [DMR_MMDVM_FRAME_START, 37,
                if pp_ts parsed = DMR_TS1 then DMR_MMDVM_DMR_DATA1 else DMR_MMDVM_DMR_DATA2, control] @
              [\<lambda>raw. dmr_raw_add (mm_common env) (mm_realloc env) raw (take DMR_PACKET_LEN (pp_packet parsed)) (of_nat DMR_PACKET_LEN)]) mm ws;
           Some (ret, mm, (out, ws), parsed) })"

definition dmr_mmdvm_send ::
  "mm_env \<Rightarrow> dmr_mmdvm option \<Rightarrow> dmr_parsed_packet option \<Rightarrow> write_result list \<Rightarrow>
   (int \<times> dmr_mmdvm option \<times> mm_out \<times> dmr_parsed_packet option) option" where
  "dmr_mmdvm_send env mmdvm parsed ws =
     (case (mmdvm, parsed) of
        (Some mm, Some parsed) \<Rightarrow>
          map_option (\<lambda>(ret, mm, out, parsed). (ret, Some mm, out, Some parsed)) (mm_send_packet env parsed ws mm)
      | _ \<Rightarrow> Some (-1, mmdvm, ([], ws), parsed))"

section \<open>Parsing frames\<close>

text \<open>
  A version reply shorter than its header makes the length of the copy wrap around, and the
  copy needs the description to have been allocated; an acknowledgement of a command that is not
  a set command would be stored behind \<open>ack\<close>.  The first Boolean is the allocation of the
  description, the second one that of the packet.
\<close>

definition mm_parse_frame ::
  "common_ops \<Rightarrow> bool \<times> bool \<Rightarrow> u8 list \<Rightarrow> dmr_mmdvm \<Rightarrow> (int \<times> dmr_mmdvm \<times> dmr_parsed_packet option) option" where
  "mm_parse_frame c mems frame mm =
     (if frame ! 0 \<noteq> DMR_MMDVM_FRAME_START then Some (-1, mm, None)
      else let command = frame ! 2
      in if command = DMR_MMDVM_GET_VERSION then
           let len = unat (frame ! 1)
           in if len < 4 \<or> \<not> fst mems \<and> len \<noteq> 4 then None
              else Some (0, mm\<lparr>mm_protocol_version := uint (frame ! 3),
                               mm_description := (if fst mems then Some (byte_copy c (replicate (len - 3) 0) (drop 4 frame) (len - 4))
                                                  else None)\<rparr>, None)
         else if command = DMR_MMDVM_GET_STATUS then
           Some (0, mm\<lparr>mm_modes := frame ! 3, mm_status := frame ! 4, mm_tx_on := (frame ! 5 \<noteq> 0),
                       mm_buffer_size := byte_copy c (mm_buffer_size mm) (drop 6 frame) 4\<rparr>, None)
         else if command = DMR_MMDVM_DMR_DATA1 \<or> command = DMR_MMDVM_DMR_DATA2 then
           do { r \<leftarrow> dmr_packet_decode c (snd mems) (drop 4 frame);
                Some (case r of
                        Inl _ \<Rightarrow> (-1, mm, None)
                      | Inr parsed \<Rightarrow> (0, mm, Some (parsed\<lparr>pp_ts := (if frame ! 3 = 0x1a then 1 else 0)\<rparr>))) }
         else if command = DMR_MMDVM_ACK then
           do { ack \<leftarrow> c_write (mm_ack mm) (unat (mm_frame mm ! 3)) True;
                Some (0, mm\<lparr>mm_ack := ack\<rparr>, None) }
         else Some (0, mm, None))"

definition dmr_mmdvm_parse_frame ::
  "common_ops \<Rightarrow> bool \<times> bool \<Rightarrow> dmr_mmdvm option \<Rightarrow> u8 list option \<Rightarrow>
   (int \<times> dmr_mmdvm option \<times> dmr_parsed_packet option) option" where
  "dmr_mmdvm_parse_frame c mems mmdvm frame =
     null_check None (\<lambda>mm. case frame of None \<Rightarrow> Some (-1, mm, None) | Some frame \<Rightarrow> mm_parse_frame c mems frame mm) mmdvm"

section \<open>Reading\<close>

text \<open>
  One read from the serial line: bytes (perhaps none), failure with \<open>EAGAIN\<close> or \<open>EINTR\<close>, failure
  otherwise.  The read loop returns the bytes or the value to return; \<open>len\<close> bounds one read.
\<close>

datatype read_result = Got "u8 list" | Read_again | Read_failed

fun mm_read_loop :: "nat \<Rightarrow> nat \<Rightarrow> read_result list \<Rightarrow> ((int + u8 list) \<times> read_result list) option" where
  "mm_read_loop len retry [] = None"
| "mm_read_loop len retry (r # rs) =
     (case r of
        Got bs \<Rightarrow> Some (let bs = take len bs in if bs = [] then Inl 0 else Inr bs, rs)
      | Read_again \<Rightarrow> if retry + 1 > 16 then Some (Inl (-1), rs) else mm_read_loop len (retry + 1) rs
      | Read_failed \<Rightarrow> Some (Inl (-1), rs))"

text \<open>
  The loop that drops bytes before the start of a frame: \<open>memmove\<close> moves 255 bytes and reads one
  byte behind the array, \<open>behind\<close>.
\<close>

fun mm_resync :: "u8 \<Rightarrow> nat \<Rightarrow> u8 list \<Rightarrow> u8 list \<times> nat" where
  "mm_resync behind pos frame =
     (if frame ! 0 \<noteq> DMR_MMDVM_FRAME_START \<and> pos \<noteq> 0
      then mm_resync behind (pos - 1) (drop 1 frame @ [behind]) else (frame, pos))"

declare mm_resync.simps [simp del]

text \<open>
  Taking a frame of \<open>len\<close> bytes off the buffer: the loop copies \<open>len\<close> bytes, for a long frame from
  behind the array as well (\<open>behind\<close> is the memory there), and the rest is cleared.
\<close>

definition mm_shift :: "u8 list \<Rightarrow> nat \<Rightarrow> u8 list \<Rightarrow> u8 list option" where
  "mm_shift behind len frame = do {
     frame \<leftarrow> foldo (\<lambda>i frame. do { b \<leftarrow> c_read (frame @ behind) (i + len); c_write frame i b }) [0..<len] frame;
     Some (take len frame @ replicate (DMR_MMDVM_FRAME_MAX - len) 0) }"

text \<open>
  The body of \<open>dmr_mmdvm_read\<close> from \<open>read_again\<close> on; \<open>len\<close> is computed before, and a second read
  with the same \<open>len\<close> that goes beyond the array is undefined.
\<close>

function mm_read_from ::
  "bool \<Rightarrow> common_ops \<Rightarrow> bool \<times> bool \<Rightarrow> u8 list \<Rightarrow> nat \<Rightarrow> dmr_mmdvm \<Rightarrow> read_result list \<Rightarrow>
   (int \<times> dmr_mmdvm \<times> dmr_parsed_packet option \<times> read_result list) option" where
  "mm_read_from again c mems behind len mm rs = do {
     (r, rs) \<leftarrow> mm_read_loop len 0 rs;
     case r of
       Inl ret \<Rightarrow> Some (ret, mm, None, rs)
     | Inr bs \<Rightarrow>
         if unat (mm_pos mm) + length bs > DMR_MMDVM_FRAME_MAX then None
         else let (frame, pos) = mm_resync (hd behind) (unat (mm_pos mm) + length bs)
                    (blit (mm_frame mm) (unat (mm_pos mm)) bs);
                  mm = mm\<lparr>mm_frame := frame, mm_pos := of_nat pos\<rparr>
              in if pos < 3 then (if again then mm_read_from False c mems behind len mm rs else Some (0, mm, None, rs))
                 else if pos < unat (frame ! 1) then Some (0, mm, None, rs)
                 else do {
                   (ret, mm, parsed) \<leftarrow> mm_parse_frame c mems (mm_frame mm) mm;
                   let len = unat (mm_frame mm ! 1);
                   frame \<leftarrow> mm_shift behind len (mm_frame mm);
                   Some (ret, mm\<lparr>mm_frame := frame, mm_pos := (if pos \<ge> len then of_nat (pos - len) else 0)\<rparr>, parsed, rs) } }"

  by pat_completeness auto

termination
  by (relation "measure (\<lambda>(again, _). if again then 1 else 0)") simp_all

declare mm_read_from.simps [simp del]

definition dmr_mmdvm_read ::
  "common_ops \<Rightarrow> bool \<times> bool \<Rightarrow> u8 list \<Rightarrow> dmr_mmdvm \<Rightarrow> read_result list \<Rightarrow>
   (int \<times> dmr_mmdvm \<times> dmr_parsed_packet option \<times> read_result list) option" where
  "dmr_mmdvm_read c mems behind mm rs = mm_read_from True c mems behind (DMR_MMDVM_FRAME_MAX - unat (mm_pos mm)) mm rs"

section \<open>Connections\<close>

text \<open>
  \<open>mems\<close>: the struct, the ident, the queue, the port name, the serial struct; \<open>found\<close>: whether
  the serial port is known.  The ident is made from the text behind the last slash; without one
  the code would go on from a null pointer.
\<close>

fun mm_basename :: "u8 list \<Rightarrow> u8 list option" where
  "mm_basename [] = None"
| "mm_basename (ch # port) = (case mm_basename port of Some s \<Rightarrow> Some s | None \<Rightarrow> if ch = 0x2f then Some port else None)"

definition dmr_mmdvm_new ::
  "bool list \<Rightarrow> bool \<Rightarrow> u8 list \<Rightarrow> int \<Rightarrow> dmr_mmdvm_model \<Rightarrow> dmr_color_code \<Rightarrow> dmr_mmdvm option option" where
  "dmr_mmdvm_new mems found port baud model color_code =
     (if \<not> mems ! 0 \<or> \<not> mems ! 1 then Some None
      else do {
        base \<leftarrow> mm_basename port;
        Some (let trq = dmr_rawq_new (mems ! 2) 32
              in if trq = None then None
                 else if \<not> mems ! 3 then None
                 else if \<not> mems ! 4 then None
                 else if \<not> found then None
                 else Some \<lparr>
                   mm_id = take 63 (map (\<lambda>ch. of_nat (of_char ch)) ''mmdvm['' @ base @ [0x5d]), mm_port = port, mm_baud = baud,
                   mm_model = model, mm_color_code = color_code, mm_protocol_version = 0, mm_description = None,
                   mm_modes = 0, mm_status = 0, mm_buffer_size = replicate 4 0, mm_rx_freq = 0, mm_tx_freq = 0,
                   mm_rx_on = False, mm_tx_on = False, mm_sent = 0, mm_ack = replicate DMR_MMDVM_SET_MAX False,
                   mm_set = replicate DMR_MMDVM_SET_MAX 0, mm_set_rf_config_sent = False, mm_set_rf_config_recv = False,
                   mm_started = False, mm_rxq = None, mm_txq = None, mm_frame = replicate DMR_MMDVM_FRAME_MAX 0,
                   mm_trq = trq, mm_pos = 0\<rparr>) })"

text \<open>
  \<open>serial\<close>: whether opening the line and setting its six parameters all succeed.  On an error the
  modem is freed, so there is no state behind the pointer any more.
\<close>

definition mm_start :: "mm_env \<Rightarrow> bool list \<Rightarrow> write_result list \<Rightarrow> dmr_mmdvm \<Rightarrow> (int \<times> dmr_mmdvm option \<times> mm_out) option" where
  "mm_start env serial ws mm =
     (if mm_started mm then Some (0, Some mm, [], ws)
      else if \<not> list_all (\<lambda>i. serial ! i) [0..<7] then Some (-1, None, [], ws)
      else do {
        (ret, mm, out1, ws) \<leftarrow> mm_set_mode env DMR_MMDVM_MODE_DMR ws mm;
        if ret \<noteq> 0 then Some (-1, None, out1, ws)
        else do {
          (ret, mm, out2, ws) \<leftarrow> mm_set_config env 0 DMR_MMDVM_MODE_DMR 0 DMR_MMDVM_STATE_DMR 0 0 (mm_color_code mm) ws mm;
          if ret \<noteq> 0 then Some (-1, None, out1 @ out2, ws)
          else Some (0, Some (mm\<lparr>mm_started := True\<rparr>), out1 @ out2, ws) } })"

definition dmr_mmdvm_start :: "mm_env \<Rightarrow> bool list \<Rightarrow> dmr_mmdvm option \<Rightarrow> write_result list \<Rightarrow> mm_api_result" where
  "dmr_mmdvm_start env serial mmdvm ws =
     (case mmdvm of None \<Rightarrow> Some (-1, None, [], ws) | Some mm \<Rightarrow> mm_start env serial ws mm)"

definition dmr_mmdvm_close :: "dmr_mmdvm option \<Rightarrow> int \<times> dmr_mmdvm option" where
  "dmr_mmdvm_close mmdvm = (case mmdvm of None \<Rightarrow> (-1, None) | Some mm \<Rightarrow> (0, None))"

section \<open>The I/O callbacks\<close>

definition mmdvm_io_init ::
  "mm_env \<Rightarrow> bool \<times> bool \<Rightarrow> bool list \<Rightarrow> dmr_mmdvm option \<Rightarrow> write_result list \<Rightarrow> mm_api_result" where
  "mmdvm_io_init env mems serial mmdvm ws =
     (case mmdvm of
        None \<Rightarrow> Some (-1, None, [], ws)
      | Some mm \<Rightarrow>
          let mm = (if mm_rxq mm = None then mm\<lparr>mm_rxq := dmr_packetq_new (fst mems)\<rparr> else mm)
          in if mm_rxq mm = None then Some (-1, Some mm, [], ws)
             else let mm = (if mm_txq mm = None then mm\<lparr>mm_txq := dmr_packetq_new (snd mems)\<rparr> else mm)
                  in if mm_txq mm = None then Some (-1, Some mm, [], ws)
                     else if \<not> mm_started mm then dmr_mmdvm_start env serial (Some mm) ws
                     else Some (0, Some mm, [], ws))"

definition mmdvm_io_status_timer :: "mm_env \<Rightarrow> dmr_mmdvm option \<Rightarrow> write_result list \<Rightarrow> mm_api_result" where
  "mmdvm_io_status_timer env mmdvm ws =
     null_check ([], ws) (\<lambda>mm. do {
       (ret, mm, out1, ws) \<leftarrow> mm_get_status env ws mm;
       if ret = 0 \<and> (mm_rx_freq mm \<noteq> 0 \<or> mm_tx_freq mm \<noteq> 0) \<and> \<not> mm_ack mm ! unat DMR_MMDVM_SET_RF_CONFIG
       then do { (ret, mm, out2, ws) \<leftarrow> mm_set_rf_config env (mm_rx_freq mm) (mm_tx_freq mm) ws mm;
                 Some (ret, mm, out1 @ out2, ws) }
       else Some (ret, mm, out1, ws) }) mmdvm"

section \<open>Reading the line\<close>

text \<open>
  The well-formed modem, and what its buffer holds: bytes that begin with a frame start, in front
  of whatever earlier frames left behind.
\<close>

definition mm_wf :: "dmr_mmdvm \<Rightarrow> bool" where
  "mm_wf mm \<longleftrightarrow> length (mm_frame mm) = DMR_MMDVM_FRAME_MAX \<and> unat (mm_pos mm) \<le> DMR_MMDVM_FRAME_MAX \<and>
     length (mm_ack mm) = DMR_MMDVM_SET_MAX \<and> length (mm_buffer_size mm) = 4"

definition mm_holds :: "dmr_mmdvm \<Rightarrow> u8 list \<Rightarrow> bool" where
  "mm_holds mm bs \<longleftrightarrow> mm_wf mm \<and> unat (mm_pos mm) = length bs \<and> take (length bs) (mm_frame mm) = bs \<and>
     (bs \<noteq> [] \<longrightarrow> hd bs = DMR_MMDVM_FRAME_START)"

abbreviation mm_strip :: "u8 list \<Rightarrow> u8 list" where
  "mm_strip bs \<equiv> dropWhile (\<lambda>b. b \<noteq> DMR_MMDVM_FRAME_START) bs"

lemma mm_resync_bounds:
  "length (fst (mm_resync b pos frame)) = length frame \<or> length frame = 0"
  "snd (mm_resync b pos frame) \<le> pos"
proof (induction b pos frame rule: mm_resync.induct)
  case (1 b pos frame)
  { case 1 then show ?case using "1.IH" by (subst mm_resync.simps) (auto simp: Suc_leI) }
  { case 2 then show ?case using "1.IH" by (subst mm_resync.simps) (auto intro: order.trans) }
qed

lemma mm_resync_strip:
  assumes "pos \<le> length frame" "frame \<noteq> []"
  shows "\<exists>rest. mm_resync b pos frame = (mm_strip (take pos frame) @ rest, length (mm_strip (take pos frame)))"
  using assms
proof (induction b pos frame rule: mm_resync.induct)
  case (1 b pos frame)
  show ?case
  proof (cases "frame ! 0 \<noteq> DMR_MMDVM_FRAME_START \<and> pos \<noteq> 0")
    case True
    with "1.prems" obtain x xs n where f: "frame = x # xs" "x \<noteq> DMR_MMDVM_FRAME_START" "pos = Suc n" by (cases frame; cases pos) auto
    have t: "take n (xs @ [b]) = take n xs" using "1.prems" f by simp
    have "\<exists>rest. mm_resync b (pos - 1) (drop 1 frame @ [b]) = (mm_strip (take n xs) @ rest, length (mm_strip (take n xs)))"
      using "1.IH" [OF True] "1.prems" f t by (simp del: take_append)
    then show ?thesis using True f by (subst mm_resync.simps) simp
  next
    case False
    with "1.prems" have "mm_strip (take pos frame) = take pos frame" by (cases frame; cases pos) auto
    then show ?thesis using False "1.prems" by (subst mm_resync.simps) (auto intro!: exI [of _ "drop pos frame"])
  qed
qed

text \<open>One turn of reading.\<close>

definition mm_take_frame ::
  "common_ops \<Rightarrow> bool \<times> bool \<Rightarrow> u8 list \<Rightarrow> read_result list \<Rightarrow> dmr_mmdvm \<Rightarrow>
   (int \<times> dmr_mmdvm \<times> dmr_parsed_packet option \<times> read_result list) option" where
  "mm_take_frame c mems behind rs mm = do {
     (ret, mm, parsed) \<leftarrow> mm_parse_frame c mems (mm_frame mm) mm;
     let len = unat (mm_frame mm ! 1);
     frame \<leftarrow> mm_shift behind len (mm_frame mm);
     Some (ret, mm\<lparr>mm_frame := frame, mm_pos := (if len \<le> unat (mm_pos mm) then of_nat (unat (mm_pos mm) - len) else 0)\<rparr>, parsed, rs) }"

lemma mm_parse_frame_keeps:
  "mm_parse_frame c mems frame mm = Some (ret, mm', parsed) \<Longrightarrow>
   mm_frame mm' = mm_frame mm \<and> mm_pos mm' = mm_pos mm \<and> length (mm_ack mm') = length (mm_ack mm)"
  by (auto simp: mm_parse_frame_def Let_def bind_eq_Some_conv c_write_def split: if_splits sum.splits) (metis obj_sumE)+

lemma unat_small [simp]: "n \<le> 255 \<Longrightarrow> unat (of_nat n :: u64) = n"
  by (simp add: unat_of_nat take_bit_nat_eq_self)

lemma mm_take_frame_pos:
  "unat (mm_pos mm) = pos \<Longrightarrow>
   do { (ret, mm, parsed) \<leftarrow> mm_parse_frame c mems (mm_frame mm) mm;
        let len = unat (mm_frame mm ! 1);
        frame \<leftarrow> mm_shift behind len (mm_frame mm);
        Some (ret, mm\<lparr>mm_frame := frame, mm_pos := (if pos \<ge> len then of_nat (pos - len) else 0)\<rparr>, parsed, rs) } =
   mm_take_frame c mems behind rs mm"
  by (cases "mm_parse_frame c mems (mm_frame mm) mm") (auto simp: mm_take_frame_def Let_def dest!: mm_parse_frame_keeps)

lemma mm_read_step:
  assumes "mm_holds mm bs" "ch \<noteq> []" "length ch \<le> len" "length bs + length ch \<le> 255"
  shows "\<exists>f p mm'. mm' = mm\<lparr>mm_frame := f, mm_pos := p\<rparr> \<and> mm_holds mm' (mm_strip (bs @ ch)) \<and>
    mm_read_from again c mems behind len mm (Got ch # rs) =
      (if length (mm_strip (bs @ ch)) < 3 then if again then mm_read_from False c mems behind len mm' rs else Some (0, mm', None, rs)
       else if length (mm_strip (bs @ ch)) < unat (mm_strip (bs @ ch) ! 1) then Some (0, mm', None, rs)
       else mm_take_frame c mems behind rs mm')"
proof -
  let ?n = "length bs" and ?s = "mm_strip (bs @ ch)" and ?f = "blit (mm_frame mm) (length bs) ch"
  have mm: "length (mm_frame mm) = 255" "unat (mm_pos mm) = ?n" "take ?n (mm_frame mm) = bs"
    using assms(1) by (simp_all add: mm_holds_def mm_wf_def)
  have f: "length ?f = 255" "take (?n + length ch) ?f = bs @ ch" using mm assms(4) by (simp_all add: blit_def)
  obtain rest where r: "mm_resync (hd behind) (?n + length ch) ?f = (?s @ rest, length ?s)"
    using mm_resync_strip [of "?n + length ch" ?f "hd behind"] f assms(4) by fastforce
  then have l: "length (?s @ rest) = 255"
    using mm_resync_bounds(1) [of "hd behind" "?n + length ch" ?f] f(1) by (metis fst_conv zero_neq_numeral)
  let ?mm = "mm\<lparr>mm_frame := ?s @ rest, mm_pos := of_nat (length ?s)\<rparr>"
  have "?s \<noteq> [] \<longrightarrow> hd ?s = DMR_MMDVM_FRAME_START" using hd_dropWhile [of _ "bs @ ch"] by blast
  then have h: "mm_holds ?mm ?s" using assms(1) l by (simp add: mm_holds_def mm_wf_def)
  have "mm_read_loop len 0 (Got ch # rs) = Some (Inr ch, rs)" using assms(2,3) by simp
  then have "mm_read_from again c mems behind len mm (Got ch # rs) =
      (if length ?s < 3 then if again then mm_read_from False c mems behind len ?mm rs else Some (0, ?mm, None, rs)
       else if length ?s < unat (?s ! 1) then Some (0, ?mm, None, rs)
       else mm_take_frame c mems behind rs ?mm)"
    using assms(4) mm(2) l mm_take_frame_pos [of ?mm "length ?s" c mems behind rs]
    by (subst mm_read_from.simps) (simp add: r nth_append not_less)
  with h show ?thesis by blast
qed

text \<open>Decoding looks at the 33 bytes of a packet only.\<close>

lemma dmr_bit_diff_append: "7 \<le> length a \<Longrightarrow> dmr_bit_diff (a @ x) b = dmr_bit_diff a b"
  unfolding dmr_bit_diff_def by (intro fold_cong refl) (simp add: nth_append Let_def)

lemma packet_decode_append:
  assumes "common_ok c" "length packet = 33"
  shows "dmr_packet_decode c mem (packet @ x) = dmr_packet_decode c mem packet"
proof -
  have "dmr_bit_diff (drop 13 packet @ x) b = dmr_bit_diff (drop 13 packet) b" for b
    by (rule dmr_bit_diff_append) (simp add: assms(2))
  then have sync: "dmr_sync_pattern_decode (packet @ x) = dmr_sync_pattern_decode packet"
    using assms(2) by (simp add: dmr_sync_pattern_decode_def Let_def)
  have slot: "dmr_slot_type_decode (Some (packet @ x)) = dmr_slot_type_decode (Some packet)"
    using assms(2) by (simp add: dmr_slot_type_decode_def slot_type_bytes_def nth_append)
  have "pp_packet zero_parsed_packet = replicate 33 0" by (simp add: zero_parsed_packet_def)
  then have copy: "byte_copy c (pp_packet zero_parsed_packet) (packet @ x) 33 = byte_copy c (pp_packet zero_parsed_packet) packet 33"
    using common_okD(1) [OF assms(1), of 33 "replicate 33 0"] assms(2) by simp
  show ?thesis unfolding dmr_packet_decode_def sync slot Let_def copy ..
qed

definition mm_shift_byte :: "u8 list \<Rightarrow> nat \<Rightarrow> nat \<Rightarrow> u8 list \<Rightarrow> u8 list option" where
  "mm_shift_byte behind len i frame = do { b \<leftarrow> c_read (frame @ behind) (i + len); c_write frame i b }"

lemma mm_shift_byte_length: "mm_shift_byte behind len i fr = Some g \<Longrightarrow> length g = length fr"
  by (auto simp: mm_shift_byte_def bind_eq_Some_conv c_write_def split: if_splits)

lemma mm_shift_bytes_length: "foldo (mm_shift_byte behind len) is fr = Some g \<Longrightarrow> length g = length fr"
  by (induction "is" arbitrary: fr) (auto split: option.splits dest: mm_shift_byte_length)

lemma mm_shift_alt:
  "mm_shift behind len frame = map_option (\<lambda>frame. take len frame @ replicate (255 - len) 0) (foldo (mm_shift_byte behind len) [0..<len] frame)"
  unfolding mm_shift_def mm_shift_byte_def [abs_def] by (cases "foldo (\<lambda>i frame. do { b \<leftarrow> c_read (frame @ behind) (i + len); c_write frame i b }) [0..<len] frame") simp_all

lemma mm_shift_length:
  assumes "mm_shift behind len frame = Some f" "length frame = 255" "len \<le> 255"
  shows "length f = 255"
  using assms by (auto simp: mm_shift_alt dest: mm_shift_bytes_length)

lemma mm_shift_defined:
  assumes "length frame = 255" "2 * len \<le> 255 + length behind" "len \<le> 255"
  shows "\<exists>f. mm_shift behind len frame = Some f"
proof -
  have "\<forall>i\<in>set is. i < len \<Longrightarrow> length fr = 255 \<Longrightarrow> \<exists>g. foldo (mm_shift_byte behind len) is fr = Some g" for "is" fr
    using assms(2,3) by (induction "is" arbitrary: fr) (simp_all add: mm_shift_byte_def)
  from this [of "[0..<len]" frame] assms(1) show ?thesis by (auto simp: mm_shift_alt)
qed

text \<open>
  The chunks in which a frame with data arrives: nonempty, after bytes that are no frame start
  (noise), at most a buffer full; and the packet they carry.
\<close>

definition mm_data_frame :: "common_ops \<Rightarrow> u8 list \<Rightarrow> dmr_parsed_packet \<Rightarrow> bool" where
  "mm_data_frame c frame p \<longleftrightarrow> (\<exists>cmd control packet q. frame = [DMR_MMDVM_FRAME_START, 37, cmd, control] @ packet \<and>
     cmd \<in> {DMR_MMDVM_DMR_DATA1, DMR_MMDVM_DMR_DATA2} \<and> length packet = 33 \<and> dmr_packet_decode c True packet = Some (Inr q) \<and>
     p = q\<lparr>pp_ts := (if control = 0x1a then 1 else 0)\<rparr>)"

definition mm_data_chunks :: "common_ops \<Rightarrow> u8 list list \<Rightarrow> dmr_parsed_packet \<Rightarrow> bool" where
  "mm_data_chunks c chs p \<longleftrightarrow> [] \<notin> set chs \<and> (\<exists>noise frame. concat chs = noise @ frame \<and>
     DMR_MMDVM_FRAME_START \<notin> set noise \<and> length noise \<le> 218 \<and> mm_data_frame c frame p)"

lemma mm_take_data_frame:
  assumes "common_ok c" "mm_data_frame c frame p" "mm_holds mm frame"
  shows "\<exists>mm'. mm_take_frame c (m, True) behind rs mm = Some (0, mm', Some p, rs) \<and> mm_holds mm' []"
proof -
  obtain cmd control packet q where f: "frame = [DMR_MMDVM_FRAME_START, 37, cmd, control] @ packet" "length packet = 33"
    "cmd = DMR_MMDVM_DMR_DATA1 \<or> cmd = DMR_MMDVM_DMR_DATA2" "dmr_packet_decode c True packet = Some (Inr q)"
    "p = q\<lparr>pp_ts := (if control = 0x1a then 1 else 0)\<rparr>" using assms(2) by (auto simp: mm_data_frame_def)
  have wf: "mm_wf mm" "unat (mm_pos mm) = 37" "take 37 (mm_frame mm) = frame" using assms(3) f by (simp_all add: mm_holds_def)
  then obtain rest where m: "mm_frame mm = frame @ rest" by (metis append_take_drop_id)
  have "dmr_packet_decode c True (packet @ rest) = Some (Inr q)" using packet_decode_append [OF assms(1) f(2)] f(4) by simp
  then have "mm_parse_frame c (m, True) (mm_frame mm) mm = Some (0, mm, Some p)"
    using f by (auto simp: mm_parse_frame_def m nth_append)
  moreover obtain g where g: "mm_shift behind 37 (mm_frame mm) = Some g"
    using mm_shift_defined [of "mm_frame mm" 37 behind] wf(1) by (auto simp: mm_wf_def)
  moreover have "length g = 255" using mm_shift_length [OF g] wf(1) by (simp add: mm_wf_def)
  moreover have "unat (mm_frame mm ! 1) = 37" using f m by simp
  ultimately show ?thesis using wf by (simp add: mm_take_frame_def mm_holds_def mm_wf_def)
qed

lemma mm_strip_append: "mm_strip (mm_strip xs @ ys) = mm_strip (xs @ ys)"
  by (induction xs) auto

lemma mm_strip_prefix:
  assumes "fed @ rest = noise @ frame" "DMR_MMDVM_FRAME_START \<notin> set noise" "hd frame = DMR_MMDVM_FRAME_START" "frame \<noteq> []"
  shows "mm_strip fed = take (length fed - length noise) frame"
proof -
  have d: "mm_strip (noise @ ys) = mm_strip ys" for ys using assms(2) by (induction noise) auto
  have "fed = take (length fed) (noise @ frame)" using assms(1) by (metis append_eq_conv_conj)
  also have "\<dots> = take (length fed) noise @ take (length fed - length noise) frame" by simp
  finally have f: "fed = take (length fed) noise @ take (length fed - length noise) frame" .
  show ?thesis
  proof (cases "length noise < length fed")
    case True
    with f have "fed = noise @ take (length fed - length noise) frame" by simp
    then have "mm_strip fed = mm_strip (take (length fed - length noise) frame)" using d by metis
    also have "\<dots> = take (length fed - length noise) frame" using assms(3,4) True by (cases frame; cases "length fed - length noise") auto
    finally show ?thesis .
  next
    case False
    with f have "set fed \<subseteq> set noise" by (metis append_Nil2 diff_is_0_eq not_less set_take_subset take0)
    then show ?thesis using False assms(2) by auto
  qed
qed

lemma mm_read_chunk:
  assumes ok: "common_ok c" and fr: "mm_data_frame c frame p" and h: "mm_holds mm (mm_strip fed)"
    and cs: "fed @ ch @ concat chs = noise @ frame" "DMR_MMDVM_FRAME_START \<notin> set noise" "length (noise @ frame) \<le> 255" "ch \<noteq> []" "[] \<notin> set chs"
    and len: "255 - length fed \<le> len"
  shows "\<exists>mm'. (if chs = [] then mm_read_from again c (m, True) behind len mm (Got ch # rs) = Some (0, mm', Some p, rs) \<and> mm_holds mm' []
      else mm_holds mm' (mm_strip (fed @ ch)) \<and>
        mm_read_from again c (m, True) behind len mm (Got ch # rs) =
          (if again \<and> length (mm_strip (fed @ ch)) < 3 then mm_read_from False c (m, True) behind len mm' rs else Some (0, mm', None, rs)))"
proof -
  let ?s = "mm_strip (fed @ ch)"
  obtain x y pk where f: "frame = [DMR_MMDVM_FRAME_START, 37, x, y] @ pk" "length frame = 37"
    using fr by (auto simp: mm_data_frame_def)
  have tot: "length fed + (length ch + length (concat chs)) = length noise + 37"
    using arg_cong [OF cs(1), of length] f(2) by simp
  have s: "?s = take (length (fed @ ch) - length noise) frame"
    by (rule mm_strip_prefix [of _ "concat chs"]) (use cs f in simp_all)
  have "length (mm_strip fed) \<le> length fed" by (rule length_dropWhile_le)
  then have "length ch \<le> len" "length (mm_strip fed) + length ch \<le> 255" using len tot cs(3) f(2) by simp_all
  then obtain mm' where mm': "mm_holds mm' ?s" "mm_read_from again c (m, True) behind len mm (Got ch # rs) =
      (if length ?s < 3 then if again then mm_read_from False c (m, True) behind len mm' rs else Some (0, mm', None, rs)
       else if length ?s < unat (?s ! 1) then Some (0, mm', None, rs)
       else mm_take_frame c (m, True) behind rs mm')"
    using mm_read_step [OF h cs(4), of len again c "(m, True)" behind rs] unfolding mm_strip_append by blast
  show ?thesis
  proof (cases "chs = []")
    case True
    then have "?s = frame" using s tot f(2) by simp
    with mm_take_data_frame [OF ok fr, of mm' m behind rs] mm' f True show ?thesis by auto
  next
    case False
    then have "0 < length (concat chs)" using cs(5) by (cases chs) auto
    then have "length fed + length ch - length noise < 37" using tot by linarith
    then have l: "length ?s < 37" unfolding s by simp
    have "?s ! 1 = 37" if "3 \<le> length ?s"
    proof -
      have "?s ! 1 = frame ! 1" using that unfolding s by (intro nth_take) auto
      then show ?thesis using f(1) by simp
    qed
    with mm' l False show ?thesis by (intro exI [of _ mm']) auto
  qed
qed

text \<open>Serving the line until nothing is left to read, as the I/O loop does; the packets in order.\<close>

fun mm_pump :: "nat \<Rightarrow> common_ops \<Rightarrow> bool \<times> bool \<Rightarrow> u8 list \<Rightarrow> dmr_mmdvm \<Rightarrow> read_result list \<Rightarrow>
    (dmr_mmdvm \<times> dmr_parsed_packet list) option" where
  "mm_pump n c mems behind mm rs =
     (if rs = [] then Some (mm, [])
      else case n of
             0 \<Rightarrow> None
           | Suc n \<Rightarrow> do {
               (ret, mm, p, rs) \<leftarrow> dmr_mmdvm_read c mems behind mm rs;
               (mm, ps) \<leftarrow> mm_pump n c mems behind mm rs;
               Some (mm, case p of None \<Rightarrow> ps | Some p \<Rightarrow> p # ps) })"

declare mm_pump.simps [simp del]

lemma mm_pump_Nil [simp]: "mm_pump n c mems behind mm [] = Some (mm, [])"
  by (subst mm_pump.simps) simp

lemma mm_pump_Cons: "dmr_mmdvm_read c mems behind mm (r # rs) = Some (ret, mm', p, rs') \<Longrightarrow>
  mm_pump (Suc n) c mems behind mm (r # rs) =
    map_option (\<lambda>(mm, ps). (mm, case p of None \<Rightarrow> ps | Some p \<Rightarrow> p # ps)) (mm_pump n c mems behind mm' rs')"
  by (subst mm_pump.simps) (cases "mm_pump n c mems behind mm' rs'"; auto)

text \<open>One call of \<open>dmr_mmdvm_read\<close> consumes one or two chunks.\<close>

lemma mm_read_chunks:
  assumes ok: "common_ok c" and fr: "mm_data_frame c frame p"
    and noise: "DMR_MMDVM_FRAME_START \<notin> set noise" "length (noise @ frame) \<le> 255"
    and h: "mm_holds mm (mm_strip fed)" and chs: "fed @ concat chs = noise @ frame" "[] \<notin> set chs" "chs \<noteq> []"
  shows "\<exists>mm' chs' p'. dmr_mmdvm_read c (m, True) behind mm (map Got chs @ rs) = Some (0, mm', p', map Got chs' @ rs) \<and>
    length chs' < length chs \<and>
    (if chs' = [] then p' = Some p \<and> mm_holds mm' []
     else p' = None \<and> [] \<notin> set chs' \<and> (\<exists>fed'. mm_holds mm' (mm_strip fed') \<and> fed' @ concat chs' = noise @ frame))"
proof -
  obtain ch cs where cs: "chs = ch # cs" using chs(3) by (cases chs) auto
  let ?len = "255 - unat (mm_pos mm)"
  have "unat (mm_pos mm) \<le> length fed" using h by (simp add: mm_holds_def length_dropWhile_le)
  then have len: "255 - length fed \<le> ?len" "255 - length (fed @ ch) \<le> ?len" by simp_all
  have f: "fed @ ch @ concat cs = noise @ frame" "ch \<noteq> []" "[] \<notin> set cs" using chs cs by auto
  from mm_read_chunk [OF ok fr h f(1) noise f(2,3) len(1), of True m behind "map Got cs @ rs"]
  obtain mm1 where m1: "if cs = [] then dmr_mmdvm_read c (m, True) behind mm (Got ch # map Got cs @ rs) = Some (0, mm1, Some p, map Got cs @ rs) \<and> mm_holds mm1 []
      else mm_holds mm1 (mm_strip (fed @ ch)) \<and>
        dmr_mmdvm_read c (m, True) behind mm (Got ch # map Got cs @ rs) =
          (if length (mm_strip (fed @ ch)) < 3 then mm_read_from False c (m, True) behind ?len mm1 (map Got cs @ rs) else Some (0, mm1, None, map Got cs @ rs))"
    unfolding dmr_mmdvm_read_def simp_thms by auto
  show ?thesis
  proof (cases "cs = [] \<or> 3 \<le> length (mm_strip (fed @ ch))")
    case True
    with m1 f show ?thesis by (intro exI [of _ mm1] exI [of _ cs] exI [of _ "if cs = [] then Some p else None"]) (auto simp: cs intro!: exI [of _ "fed @ ch"])
  next
    case False
    then obtain ch2 cs2 where cs2: "cs = ch2 # cs2" by (cases cs) auto
    with m1 False have h1: "mm_holds mm1 (mm_strip (fed @ ch))"
      "dmr_mmdvm_read c (m, True) behind mm (Got ch # map Got cs @ rs) = mm_read_from False c (m, True) behind ?len mm1 (Got ch2 # map Got cs2 @ rs)"
      by simp_all
    have f2: "(fed @ ch) @ ch2 @ concat cs2 = noise @ frame" "ch2 \<noteq> []" "[] \<notin> set cs2" using f cs2 by auto
    from mm_read_chunk [OF ok fr h1(1) f2(1) noise f2(2,3) len(2), of False m behind "map Got cs2 @ rs"]
    obtain mm2 where m2: "if cs2 = [] then mm_read_from False c (m, True) behind ?len mm1 (Got ch2 # map Got cs2 @ rs) = Some (0, mm2, Some p, map Got cs2 @ rs) \<and> mm_holds mm2 []
      else mm_holds mm2 (mm_strip ((fed @ ch) @ ch2)) \<and>
        mm_read_from False c (m, True) behind ?len mm1 (Got ch2 # map Got cs2 @ rs) = Some (0, mm2, None, map Got cs2 @ rs)"
      unfolding simp_thms if_False by blast
    with h1(2) f2 show ?thesis
      by (intro exI [of _ mm2] exI [of _ cs2] exI [of _ "if cs2 = [] then Some p else None"]) (auto simp: cs cs2 intro!: exI [of _ "(fed @ ch) @ ch2"])
  qed
qed

lemma mm_pump_frame:
  assumes ok: "common_ok c" and fr: "mm_data_frame c frame p"
    and noise: "DMR_MMDVM_FRAME_START \<notin> set noise" "length (noise @ frame) \<le> 255"
    and "mm_holds mm (mm_strip fed)" "fed @ concat chs = noise @ frame" "[] \<notin> set chs" "chs \<noteq> []" "length chs \<le> n"
  shows "\<exists>mm' k. k \<le> length chs \<and> mm_holds mm' [] \<and> mm_pump n c (m, True) behind mm (map Got chs @ rs) =
    map_option (\<lambda>(mm, ps). (mm, p # ps)) (mm_pump (n - k) c (m, True) behind mm' rs)"
  using assms(5-)
proof (induction chs arbitrary: mm fed n rule: length_induct)
  case (1 chs)
  from mm_read_chunks [OF ok fr noise "1.prems"(1-4), of m behind rs]
  obtain mm1 chs' p' where r: "dmr_mmdvm_read c (m, True) behind mm (map Got chs @ rs) = Some (0, mm1, p', map Got chs' @ rs)"
    "length chs' < length chs" "if chs' = [] then p' = Some p \<and> mm_holds mm1 []
     else p' = None \<and> [] \<notin> set chs' \<and> (\<exists>fed'. mm_holds mm1 (mm_strip fed') \<and> fed' @ concat chs' = noise @ frame)" by blast
  obtain n' where n: "n = Suc n'" using "1.prems"(4,5) by (cases n) auto
  obtain x xs where "chs = x # xs" using "1.prems"(4) by (cases chs) auto
  then have pump: "mm_pump n c (m, True) behind mm (map Got chs @ rs) =
      map_option (\<lambda>(mm, ps). (mm, case p' of None \<Rightarrow> ps | Some p \<Rightarrow> p # ps)) (mm_pump n' c (m, True) behind mm1 (map Got chs' @ rs))"
    using mm_pump_Cons r(1) n by simp
  show ?case
  proof (cases "chs' = []")
    case True
    with r(2,3) pump n show ?thesis by (intro exI [of _ mm1] exI [of _ 1]) (simp add: Suc_le_eq)
  next
    case False
    with r(3) obtain fed' where f: "p' = None" "[] \<notin> set chs'" "mm_holds mm1 (mm_strip fed')" "fed' @ concat chs' = noise @ frame"
      by auto
    have "length chs' \<le> n'" using r(2) "1.prems"(5) n by simp
    from "1.IH" [rule_format, OF r(2) f(3,4,2) False this] obtain mm' k where "k \<le> length chs'" "mm_holds mm' []"
      "mm_pump n' c (m, True) behind mm1 (map Got chs' @ rs) = map_option (\<lambda>(mm, ps). (mm, p # ps)) (mm_pump (n' - k) c (m, True) behind mm' rs)"
      by blast
    with r(2) f(1) pump n show ?thesis
      by (intro exI [of _ mm'] exI [of _ "Suc k"]) (simp add: option.map_comp comp_def case_prod_unfold)
  qed
qed


text \<open>A modem and a packet for the witnesses.\<close>

definition demo_mmdvm :: dmr_mmdvm where
  "demo_mmdvm = the (the (dmr_mmdvm_new (replicate 5 True) True [0x2f, 0x74] 115200 DMR_MMDVM_MODEL_G4KLX 1))"

definition demo_voice :: "u8 list" where
  "demo_voice = replicate 13 0x11 @ [0x57, 0x55, 0xfd, 0x7d, 0xf7, 0x5f, 0x70] @ replicate 13 0x22"

lemma demo_mmdvm_wf: "mm_wf demo_mmdvm" "mm_pos demo_mmdvm = 0" "mm_trq demo_mmdvm \<noteq> None"
  by (simp_all add: demo_mmdvm_def dmr_mmdvm_new_def mm_wf_def dmr_rawq_new_def eval_nat_numeral)

lemma demo_voice_decodes: "case dmr_packet_decode std_common True demo_voice of Some (Inr q) \<Rightarrow> True | _ \<Rightarrow> False"
  by code_simp


section \<open>Bounds\<close>

lemma mm_parse_frame_wf:
  assumes "common_ok c" "mm_wf mm" "length frame = 255" "mm_parse_frame c mems frame mm = Some (ret, mm', parsed)"
  shows "mm_wf mm'"
proof -
  have "length (byte_copy c (mm_buffer_size mm) (drop 6 frame) 4) = 4"
    using assms(2,3) by (simp add: mm_wf_def common_okD(1) [OF assms(1)])
  with mm_parse_frame_keeps [OF assms(4)] assms(2,4) show ?thesis
    by (auto simp: mm_wf_def mm_parse_frame_def Let_def bind_eq_Some_conv split: if_splits sum.splits) (metis obj_sumE)+
qed

lemma u8_less: "unat b < 256" for b :: u8
  using unsigned_less [of b] by simp

lemma mm_take_frame_wf:
  assumes "common_ok c" "mm_wf mm" "mm_take_frame c mems behind rs mm = Some (ret, mm', p, rs')"
  shows "mm_wf mm'" "rs' = rs"
proof -
  obtain ret1 mm1 p1 where m1: "mm_parse_frame c mems (mm_frame mm) mm = Some (ret1, mm1, p1)"
    using assms(3) by (cases "mm_parse_frame c mems (mm_frame mm) mm") (auto simp: mm_take_frame_def)
  let ?n = "unat (mm_frame mm1 ! 1)"
  obtain f where m2: "mm_shift behind ?n (mm_frame mm1) = Some f"
    using assms(3) m1 by (cases "mm_shift behind ?n (mm_frame mm1)") (auto simp: mm_take_frame_def Let_def)
  define q :: u64 where "q = (if ?n \<le> unat (mm_pos mm1) then of_nat (unat (mm_pos mm1) - ?n) else 0)"
  have "mm_take_frame c mems behind rs mm = Some (ret1, mm1\<lparr>mm_frame := f, mm_pos := q\<rparr>, p1, rs)"
    unfolding mm_take_frame_def q_def by (simp only: m1 m2 bind.bind_lunit prod.case Let_def)
  with assms(3) have m3: "mm' = mm1\<lparr>mm_frame := f, mm_pos := q\<rparr>" "rs' = rs" by simp_all
  have w: "mm_wf mm1" using mm_parse_frame_wf [OF assms(1,2) _ m1] assms(2) by (simp add: mm_wf_def)
  have "unat (mm_frame mm1 ! 1) < 256" by (rule u8_less)
  then have "length f = 255" using mm_shift_length [OF m2] w by (simp add: mm_wf_def)
  moreover have "unat (of_nat (unat (mm_pos mm1) - ?n) :: u64) \<le> 255"
    by (rule ord_eq_le_trans [OF unat_small]) (use w in \<open>simp_all only: mm_wf_def, linarith+\<close>)
  then have "unat q \<le> 255" unfolding q_def by (simp only: split: if_split) (simp add: unsigned_0)
  ultimately show "mm_wf mm'" using w by (simp add: m3(1) mm_wf_def)
  show "rs' = rs" by (rule m3(2))
qed

lemma mm_read_loop_bounds:
  "mm_read_loop len retry rs = Some (r, rs') \<Longrightarrow> retry \<le> 16 \<Longrightarrow>
   (\<exists>k. 0 < k \<and> k + retry \<le> 17 \<and> rs' = drop k rs) \<and> (\<forall>bs. r = Inr bs \<longrightarrow> bs \<noteq> [] \<and> length bs \<le> len)"
proof (induction len retry rs rule: mm_read_loop.induct)
  case (2 len retry x rs)
  show ?case
  proof (cases x)
    case Read_again
    show ?thesis
    proof (cases "retry = 16")
      case True
      with "2.prems" Read_again show ?thesis by (auto intro!: exI [of _ 1])
    next
      case False
      with "2" Read_again obtain k where "0 < k" "k + Suc retry \<le> 17" "rs' = drop k rs" "\<forall>bs. r = Inr bs \<longrightarrow> bs \<noteq> [] \<and> length bs \<le> len"
        by (auto split: if_splits)
      then show ?thesis by (auto intro!: exI [of _ "Suc k"])
    qed
  qed (use "2.prems" in \<open>auto simp: Let_def intro!: exI [of _ 1] split: if_splits\<close>)
qed simp

lemma mm_read_from_bounds:
  assumes ok: "common_ok c" and wf: "mm_wf mm" and r: "mm_read_from again c mems behind len mm rs = Some (ret, mm', p, rs')"
  shows "mm_wf mm' \<and> (\<exists>k. 0 < k \<and> k \<le> (if again then 34 else 17) \<and> rs' = drop k rs)"
  using assms
proof (induction again c mems behind len mm rs rule: mm_read_from.induct)
  case (1 again c mems behind len mm rs)
  obtain x rs1 where l: "mm_read_loop len 0 rs = Some (x, rs1)"
    using "1.prems"(3) by (subst (asm) mm_read_from.simps) (auto simp: bind_eq_Some_conv)
  from mm_read_loop_bounds [OF l] obtain k where k: "0 < k" "k \<le> 17" "rs1 = drop k rs" by auto
  show ?case
  proof (cases x)
    case (Inl v)
    with l "1.prems" k show ?thesis by (subst (asm) mm_read_from.simps) auto
  next
    case (Inr bs)
    let ?n = "unat (mm_pos mm) + length bs" and ?f = "blit (mm_frame mm) (unat (mm_pos mm)) bs"
    have fit: "?n \<le> 255" using l Inr "1.prems"(3) by (subst (asm) mm_read_from.simps) (auto split: if_splits)
    have l1: "length ?f = 255" using fit "1.prems"(2) by (simp add: mm_wf_def)
    obtain frame pos where q: "mm_resync (hd behind) ?n ?f = (frame, pos)" by fastforce
    have f: "length frame = 255" "pos \<le> 255"
      using mm_resync_bounds [of "hd behind" ?n ?f] q fit l1 by auto
    let ?mm = "mm\<lparr>mm_frame := frame, mm_pos := of_nat pos\<rparr>"
    have w: "mm_wf ?mm" using "1.prems"(2) f by (simp add: mm_wf_def)
    have e: "mm_read_from again c mems behind len mm rs =
        (if pos < 3 then if again then mm_read_from False c mems behind len ?mm rs1 else Some (0, ?mm, None, rs1)
         else if pos < unat (frame ! 1) then Some (0, ?mm, None, rs1) else mm_take_frame c mems behind rs1 ?mm)"
      using l Inr fit q f mm_take_frame_pos [of ?mm pos c mems behind rs1] by (subst mm_read_from.simps) simp
    consider "pos < 3" again "mm_read_from False c mems behind len ?mm rs1 = Some (ret, mm', p, rs')"
      | "mm' = ?mm" "rs' = rs1" | "mm_take_frame c mems behind rs1 ?mm = Some (ret, mm', p, rs')"
      using "1.prems"(3) e by (auto split: if_splits)
    then show ?thesis
    proof cases
      case 1
      then obtain j where "mm_wf mm'" "0 < j" "j \<le> 17" "rs' = drop j rs1"
        using "1.IH" [OF l refl Inr _ q [symmetric] refl refl] w fit "1.prems"(1) by auto
      with k 1(2) show ?thesis by (auto intro!: exI [of _ "j + k"])
    next
      case 2
      with w k show ?thesis by auto
    next
      case 3
      with mm_take_frame_wf [OF "1.prems"(1) w 3] k show ?thesis by auto
    qed
  qed
qed



text \<open>
  Two calls that leave the bounds.  The second read of one call still asks for the number of bytes
  that were free before the first one; and a frame that claims to be empty in a full buffer is
  never taken off it, so that no byte is read from then on.
\<close>

lemma mmdvm_second_read_overflows:
  assumes "mm_wf mm" "mm_pos mm = 0" "254 \<le> length bs" "length bs \<le> 255"
  shows "dmr_mmdvm_read c mems behind mm (Got [DMR_MMDVM_FRAME_START, x] # Got bs # rs) = None"
proof -
  have h: "mm_holds mm []" using assms(1,2) by (simp add: mm_holds_def)
  from mm_read_step [OF h, of "[DMR_MMDVM_FRAME_START, x]" 255 True c mems behind "Got bs # rs"]
  obtain mm1 where m: "mm_holds mm1 [DMR_MMDVM_FRAME_START, x]"
    "mm_read_from True c mems behind 255 mm (Got [DMR_MMDVM_FRAME_START, x] # Got bs # rs) = mm_read_from False c mems behind 255 mm1 (Got bs # rs)"
    by auto
  have "mm_read_from False c mems behind 255 mm1 (Got bs # rs) = None"
    using m(1) assms(3,4) by (subst mm_read_from.simps) (auto simp: mm_holds_def Let_def)
  with m(2) assms(2) show ?thesis by (simp add: dmr_mmdvm_read_def)
qed

text \<open>
  C19. A zero length byte can silence the modem for good: when the receive buffer is filled by 255
  bytes that begin a frame of length zero (with a command that is not a version reply, data or an
  acknowledgement), the call succeeds, and every later call of \<open>dmr_mmdvm_read\<close> that returns
  delivers nothing and changes nothing, whatever the serial line does.
\<close>

theorem mmdvm_zero_length_wedges:
  assumes "common_ok c" "mm_wf mm" "mm_pos mm = 0" "length bs = 255" "bs ! 0 = DMR_MMDVM_FRAME_START" "bs ! 1 = 0"
    and "bs ! 2 \<notin> {DMR_MMDVM_GET_VERSION, DMR_MMDVM_DMR_DATA1, DMR_MMDVM_DMR_DATA2, DMR_MMDVM_ACK}"
  shows "\<exists>mm'. dmr_mmdvm_read c mems behind mm [Got bs] = Some (0, mm', None, []) \<and>
    (\<forall>mems behind rs ret mm'' p rs'. dmr_mmdvm_read c mems behind mm' rs = Some (ret, mm'', p, rs') \<longrightarrow>
       ret \<le> 0 \<and> mm'' = mm' \<and> p = None)"
proof -
  have h: "mm_holds mm []" using assms(2,3) by (simp add: mm_holds_def)
  have bs: "mm_strip bs = bs" "bs \<noteq> []" using assms(4,5) by (cases bs; auto)+
  from mm_read_step [OF h, of bs 255 True c mems behind "[]"] assms(4,6) bs
  obtain mm1 where m: "mm_holds mm1 bs" "mm_read_from True c mems behind 255 mm [Got bs] = mm_take_frame c mems behind [] mm1" by auto
  have f: "mm_frame mm1 = bs" "unat (mm_pos mm1) = 255" using m(1) assms(4) by (auto simp: mm_holds_def mm_wf_def)
  obtain mm2 where p: "mm_parse_frame c mems bs mm1 = Some (0, mm2, None)"
    using assms(5,7) that by (cases "bs ! 2 = DMR_MMDVM_GET_STATUS") (simp_all add: mm_parse_frame_def Let_def)
  have k: "mm_frame mm2 = bs" "unat (mm_pos mm2) = 255" using mm_parse_frame_keeps [OF p] f by simp_all
  let ?mm = "mm2\<lparr>mm_frame := replicate 255 0, mm_pos := 255\<rparr>"
  have "mm_take_frame c mems behind [] mm1 = Some (0, ?mm, None, [])"
    using p f k assms(6) by (simp add: mm_take_frame_def mm_shift_def Let_def)
  moreover have "ret \<le> 0 \<and> mm'' = ?mm \<and> p = None" if r: "dmr_mmdvm_read c mems behind ?mm rs = Some (ret, mm'', p, rs')"
    for mems behind rs ret mm'' p rs'
  proof -
    obtain x rs1 where l: "mm_read_loop 0 0 rs = Some (x, rs1)"
      using r unfolding dmr_mmdvm_read_def by (subst (asm) mm_read_from.simps) (auto simp: bind_eq_Some_conv)
    have "mm_read_loop 0 n rs = Some (x, rs1) \<Longrightarrow> x = Inl 0 \<or> x = Inl (-1)" for n
      by (induction "0 :: nat" n rs rule: mm_read_loop.induct) (auto split: read_result.splits if_splits)
    from this [OF l] l r show ?thesis unfolding dmr_mmdvm_read_def by (subst (asm) mm_read_from.simps) auto
  qed
  ultimately show ?thesis using m(2) assms(3) by (intro exI [of _ ?mm]) (auto simp: dmr_mmdvm_read_def)
qed

theorem mmdvm_zero_length_wedges_witness:
  "\<exists>mm'. dmr_mmdvm_read std_common (True, True) [] demo_mmdvm [Got ([0xe0, 0, 1] @ replicate 252 0x55)] = Some (0, mm', None, []) \<and>
    (\<forall>mems behind rs ret mm'' p rs'. dmr_mmdvm_read std_common mems behind mm' rs = Some (ret, mm'', p, rs') \<longrightarrow>
       ret \<le> 0 \<and> mm'' = mm' \<and> p = None)"
  by (rule mmdvm_zero_length_wedges [OF common_ok_std demo_mmdvm_wf(1,2)]) simp_all

section \<open>Writing the line\<close>

definition mm_env_ok :: "mm_env \<Rightarrow> bool" where
  "mm_env_ok env \<longleftrightarrow> common_ok (mm_common env) \<and> realloc_ok (mm_realloc env)"

lemma take_min_length [simp]: "take (min (length xs) n) xs = take n xs"
  by (simp add: min_def)

lemma mm_write_loop_returns:
  assumes "retry \<le> 16" "17 \<le> length ws + retry"
  shows "\<exists>early ret sent k. mm_write_loop buf pos retry ws = Some (early, ret, sent, drop k ws) \<and> k + retry \<le> 17 \<and>
    take (length sent) buf = sent \<and> (ret = 0 \<or> ret = -1)"
  using assms
proof (induction buf pos retry ws rule: mm_write_loop.induct)
  case (2 buf pos retry w ws)
  show ?case
  proof (cases w)
    case Write_again
    show ?thesis
    proof (cases "retry = 16")
      case True
      with Write_again show ?thesis by (auto intro!: exI [of _ 1])
    next
      case False
      with "2" Write_again obtain early ret sent k where "mm_write_loop buf pos (Suc retry) ws = Some (early, ret, sent, drop k ws)"
        "k + Suc retry \<le> 17" "take (length sent) buf = sent" "ret = 0 \<or> ret = -1" by auto
      with Write_again False "2.prems" show ?thesis by (auto intro!: exI [of _ "Suc k"])
    qed
  qed (use "2.prems" in \<open>auto simp: Let_def intro!: exI [of _ 1]\<close>)
qed simp

lemma mm_uint8s_append: "mm_env_ok env \<Longrightarrow> list_all2 appends (mm_uint8s env bs) (map (\<lambda>b. [b]) bs)"
  by (auto simp: mm_uint8s_def mm_env_ok_def list_all2_map1 list_all2_map2 list_all2_same appends_writers)

lemma mm_command_cases:
  assumes "list_all2 appends wrs xss" "length (concat xss) + 2 < unat (raw_round len)" "unat (raw_round len) \<le> 1024"
  shows "mm_command env send len wrs mm ws = Some (-1, mm, [], ws) \<and> mm_mem env len \<noteq> (True, True) \<or>
    (\<exists>raw. raw_clean raw \<and> raw_contents raw = concat xss \<and> mm_command env send len wrs mm ws = send mm raw ws)"
proof (cases "mm_new_raw env len")
  case None
  then show ?thesis by (auto simp: mm_command_def mm_new_raw_def dmr_raw_new_def Let_def)
next
  case (Some raw)
  from raw_frame [OF Some [unfolded mm_new_raw_def] assms] obtain r where "raw_steps wrs raw = Some r" "raw_clean r"
    "raw_contents r = concat xss" by blast
  with Some show ?thesis by (auto simp: mm_command_def)
qed

lemma mm_request_cases:
  assumes "mm_env_ok env"
  shows "mm_command env send 3 (mm_uint8s env [a, b, d]) mm ws = Some (-1, mm, [], ws) \<or>
    (\<exists>raw. raw_clean raw \<and> raw_contents raw = [a, b, d] \<and> mm_command env send 3 (mm_uint8s env [a, b, d]) mm ws = send mm raw ws)"
proof -
  have "unat (raw_round 3) = 128" by code_simp
  then show ?thesis using mm_command_cases [OF mm_uint8s_append [OF assms, of "[a, b, d]"], of 3 env send mm ws] by auto
qed

text \<open>Frames of at most three bytes do not nest; so two levels are enough.\<close>

lemma mm_send_short:
  assumes "raw_clean raw" "length (raw_contents raw) \<le> 3"
  shows "mm_send_raw (Suc d) env mm raw ws =
    map_option (\<lambda>(early, ret, sent, ws). (if early then -1 else ret, mm, [sent], ws)) (mm_write_loop (raw_contents raw) 0 0 ws)"
proof -
  have "\<not> raw_len raw > 3"
    using assms raw_len_contents [of raw] by (simp add: raw_clean_def word_less_nat_alt)
  then show ?thesis by (cases "mm_write_loop (raw_contents raw) 0 0 ws") auto
qed

lemma mm_request_depth:
  assumes "mm_env_ok env"
  shows "mm_command env (mm_send_raw (Suc d) env) 3 (mm_uint8s env [a, b, e]) mm ws = mm_command env (mm_send_raw 1 env) 3 (mm_uint8s env [a, b, e]) mm ws"
proof -
  have "unat (raw_round 3) = 128" by code_simp
  then have "raw_steps (mm_uint8s env [a, b, e]) raw = Some r \<Longrightarrow> mm_new_raw env 3 = Some raw \<Longrightarrow>
      raw_clean r \<and> length (raw_contents r) \<le> 3" for raw r
    using raw_frame [OF _ mm_uint8s_append [OF assms, of "[a, b, e]"], of "fst (mm_mem env 3)" "snd (mm_mem env 3)" 3 raw]
    by (auto simp: mm_new_raw_def)
  then have "raw_steps (mm_uint8s env [a, b, e]) raw = Some r \<Longrightarrow> mm_new_raw env 3 = Some raw \<Longrightarrow>
      mm_send_raw (Suc d) env mm r ws = mm_send_raw (Suc 0) env mm r ws" for raw r
    by (simp add: mm_send_short del: mm_send_raw.simps)
  then show ?thesis unfolding One_nat_def by (auto simp: mm_command_def simp del: mm_send_raw.simps intro!: Option.bind_cong split: option.splits)
qed

lemma mm_send_depth:
  assumes "mm_env_ok env"
  shows "mm_send_raw (Suc (Suc d)) env mm raw ws = mm_send env mm raw ws"
  unfolding numeral_2_eq_2 mm_send_raw.simps(2) mm_request_depth [OF assms, where d = d] mm_request_depth [OF assms, where d = 0] ..

lemma mm_request_returns:
  assumes "mm_env_ok env" "17 \<le> length ws"
  shows "\<exists>ret out k. mm_command env (mm_send_raw (Suc d) env) 3 (mm_uint8s env [a, b, e]) mm ws = Some (ret, mm, out, drop k ws) \<and>
    k \<le> 17 \<and> length out \<le> 1"
proof -
  from mm_request_cases [OF assms(1), of "mm_send_raw (Suc d) env" a b e mm ws] consider
      "mm_command env (mm_send_raw (Suc d) env) 3 (mm_uint8s env [a, b, e]) mm ws = Some (-1, mm, [], ws)"
    | raw where "raw_clean raw" "raw_contents raw = [a, b, e]"
      "mm_command env (mm_send_raw (Suc d) env) 3 (mm_uint8s env [a, b, e]) mm ws = mm_send_raw (Suc d) env mm raw ws" by blast
  then show ?thesis
  proof cases
    case 1
    then show ?thesis by (auto intro!: exI [of _ 0])
  next
    case 2
    from mm_write_loop_returns [of 0 ws "[a, b, e]" 0] assms(2) obtain early ret sent k where
      "mm_write_loop [a, b, e] 0 0 ws = Some (early, ret, sent, drop k ws)" "k \<le> 17" by auto
    with mm_send_short [OF 2(1), of d env mm ws] 2 show ?thesis by (auto intro!: exI [of _ k])
  qed
qed

lemma mm_send_written:
  assumes "mm_env_ok env" "51 \<le> length ws"
    and w: "mm_write_loop (raw_contents raw) 0 0 ws = Some (early, ret, sent, drop k ws)" "k \<le> 17"
  shows "\<exists>mm' out k. mm_send env mm raw ws = Some (if early then -1 else ret, mm', sent # out, drop k ws) \<and> k \<le> 51 \<and> length out \<le> 2"
proof -
  let ?mm = "mm\<lparr>mm_sent := mm_sent mm + 1\<rparr>"
  have "17 \<le> length (drop k ws)" using assms(2) w(2) by simp
  from mm_request_returns [OF assms(1) this, of 0 DMR_MMDVM_FRAME_START 3 DMR_MMDVM_GET_STATUS ?mm]
  obtain r1 o1 k1 where q1: "mm_command env (mm_send_raw (Suc 0) env) 3 (mm_uint8s env [DMR_MMDVM_FRAME_START, 3, DMR_MMDVM_GET_STATUS])
      ?mm (drop k ws) = Some (r1, ?mm, o1, drop (k1 + k) ws)" "k1 \<le> 17" "length o1 \<le> 1" by auto
  have "17 \<le> length (drop (k1 + k) ws)" using assms(2) w(2) q1(2) by simp
  from mm_request_returns [OF assms(1) this, of 0 DMR_MMDVM_FRAME_START 3 DMR_MMDVM_GET_VERSION ?mm]
  obtain r2 o2 k2 where q2: "mm_command env (mm_send_raw (Suc 0) env) 3 (mm_uint8s env [DMR_MMDVM_FRAME_START, 3, DMR_MMDVM_GET_VERSION])
      ?mm (drop (k1 + k) ws) = Some (r2, ?mm, o2, drop (k2 + (k1 + k)) ws)" "k2 \<le> 17" "length o2 \<le> 1" by auto
  have e: "mm_send env mm raw ws = (if early then Some (-1, mm, [sent], drop k ws)
     else if raw_len raw > 3 \<and> raw_buf raw ! 2 = DMR_MMDVM_DMR_DATA2 then
       if mm_sent ?mm mod 6 = 0 then Some (ret, ?mm, sent # o1 @ o2, drop (k2 + (k1 + k)) ws)
       else Some (ret, ?mm, [sent], drop k ws)
     else Some (ret, mm, [sent], drop k ws))"
    unfolding numeral_2_eq_2 mm_send_raw.simps(2) [of "Suc 0"] w(1) Let_def by (simp add: q1 q2 del: mm_send_raw.simps)
  show ?thesis
    unfolding e using w(2-) q1(2-) q2(2-)
    by (auto intro: exI [of _ k] exI [of _ "k2 + (k1 + k)"])
qed

lemma mm_send_returns:
  assumes "mm_env_ok env" "51 \<le> length ws"
  shows "\<exists>ret mm' sent out k. mm_send env mm raw ws = Some (ret, mm', sent # out, drop k ws) \<and> k \<le> 51 \<and>
    (ret = 0 \<or> ret = -1) \<and> take (length sent) (raw_contents raw) = sent \<and> length out \<le> 2"
proof -
  from mm_write_loop_returns [of 0 ws "raw_contents raw" 0] assms(2) obtain early ret sent k where
    w: "mm_write_loop (raw_contents raw) 0 0 ws = Some (early, ret, sent, drop k ws)" "k \<le> 17"
      "take (length sent) (raw_contents raw) = sent" "ret = 0 \<or> ret = -1" by auto
  from mm_send_written [OF assms w(1,2), of mm] w(3,4) show ?thesis by force
qed

text \<open>
  Sending returns: whatever the serial line does, \<open>dmr_mmdvm_send_raw\<close> returns 0 or -1 after at
  most 51 writes (17 for the frame and 17 for each of the two requests that every sixth frame
  triggers), and what it put on the line first is a prefix of the frame.
\<close>

theorem mmdvm_send_returns:
  assumes "mm_env_ok env" "51 \<le> length ws"
  shows "\<exists>ret mm' sent out k. dmr_mmdvm_send_raw env (Some mm) (Some raw) ws = Some (ret, Some mm', (sent # out, drop k ws)) \<and>
    k \<le> 51 \<and> (ret = 0 \<or> ret = -1) \<and> take (length sent) (raw_contents raw) = sent \<and> length out \<le> 2"
  using mm_send_returns [OF assms, of mm raw] by (simp add: dmr_mmdvm_send_raw_def)

definition demo_mm_env :: mm_env where
  "demo_mm_env = \<lparr>mm_common = std_common, mm_realloc = std_realloc, mm_mem = (\<lambda>n. (True, True))\<rparr>"

lemma demo_mm_env_ok: "mm_env_ok demo_mm_env"
  by (simp add: mm_env_ok_def demo_mm_env_def common_ok_std realloc_ok_std)

theorem mmdvm_send_returns_witness:
  "\<exists>ret mm' sent out k. dmr_mmdvm_send_raw demo_mm_env (Some demo_mmdvm)
      (Some \<lparr>raw_buf = [0xe0, 4, 0x1a, 2], raw_allocated = 4, raw_len = 4\<rparr>) (replicate 20 Write_again @ replicate 40 (Wrote 3)) =
      Some (ret, Some mm', (sent # out, drop k (replicate 20 Write_again @ replicate 40 (Wrote 3)))) \<and> k \<le> 51"
  using mmdvm_send_returns [OF demo_mm_env_ok, of "replicate 20 Write_again @ replicate 40 (Wrote 3)" demo_mmdvm
      "\<lparr>raw_buf = [0xe0, 4, 0x1a, 2], raw_allocated = 4, raw_len = 4\<rparr>"] by fastforce

text \<open>A write that accepts only a part of the frame ends the loop: the rest is never sent.\<close>

lemma mmdvm_short_write_truncates:
  assumes "0 < n" "n < length (raw_contents raw)" "raw_len raw \<le> 3 \<or> raw_buf raw ! 2 \<noteq> DMR_MMDVM_DMR_DATA2"
  shows "dmr_mmdvm_send_raw env (Some mm) (Some raw) (Wrote n # ws) = Some (0, Some mm, ([take n (raw_contents raw)], ws))"
  using assms by (auto simp: dmr_mmdvm_send_raw_def numeral_2_eq_2 Let_def)

lemma mm_control_bits: "bit (mm_control p) 5 \<or> bit (mm_control p) 6 \<or> mm_control p = 0"
  by (auto simp: mm_control_def Let_def bit_or_iff split: dmr_sync_pattern.split)

lemma mm_control_not_slot: "mm_control p \<noteq> 0x1a" "mm_control p OR 0x20 \<noteq> 0x1a"
proof -
  have b: "\<not> bit (0x1a :: u8) 5" "\<not> bit (0x1a :: u8) 6" "(0x1a :: u8) \<noteq> 0" by code_simp+
  then show "mm_control p \<noteq> 0x1a" using mm_control_bits [of p] by metis
  have "bit (mm_control p OR 0x20) 5" by (simp add: bit_or_iff)
  then show "mm_control p OR 0x20 \<noteq> 0x1a" using b(1) by metis
qed

text \<open>The frame that carries a packet to the modem.\<close>

lemma mm_send_packet_frame:
  assumes "mm_env_ok env" "mm_mem env 37 = (True, True)" "length (pp_packet p) = 33" "37 \<le> n" "50 \<le> length ws"
  shows "\<exists>mm' control out k p'. mm_send_packet env p (Wrote n # ws) mm =
      Some (0, mm', (([DMR_MMDVM_FRAME_START, 37, if mm_model mm = DMR_MMDVM_MODEL_DVMEGA \<or> pp_ts p \<noteq> DMR_TS1 then DMR_MMDVM_DMR_DATA2
        else DMR_MMDVM_DMR_DATA1, control] @ pp_packet p) # out, drop k (Wrote n # ws)), p') \<and> control \<noteq> 0x1a"
proof -
  define q where "q = (if mm_model mm = DMR_MMDVM_MODEL_DVMEGA then p\<lparr>pp_ts := DMR_TS2\<rparr> else p)"
  define control where "control = (if mm_model mm = DMR_MMDVM_MODEL_DVMEGA \<and> pp_data_type q = DMR_DATA_TYPE_VOICE
    then mm_control p OR 0x20 else mm_control p)"
  define hd4 :: "u8 list" where "hd4 = [DMR_MMDVM_FRAME_START, 37, if pp_ts q = DMR_TS1 then DMR_MMDVM_DMR_DATA1 else DMR_MMDVM_DMR_DATA2, control]"
  let ?wrs = "mm_uint8s env hd4 @ [\<lambda>raw. dmr_raw_add (mm_common env) (mm_realloc env) raw (take DMR_PACKET_LEN (pp_packet q)) (of_nat DMR_PACKET_LEN)]"
  have pk: "pp_packet q = pp_packet p" "take 33 (pp_packet p) = pp_packet p" using assms(3) by (simp_all add: q_def)
  have "list_all2 appends ?wrs (map (\<lambda>b. [b]) hd4 @ [pp_packet p])"
    using mm_uint8s_append [OF assms(1)] appends_writers(1) [of "mm_common env" "mm_realloc env" "pp_packet p"] assms(1,3)
    by (auto simp: mm_env_ok_def pk intro!: list_all2_appendI)
  moreover have n37: "unat (raw_round 37) = 128" by code_simp
  ultimately obtain raw where r: "raw_contents raw = hd4 @ pp_packet p"
    "mm_command env (mm_send env) 37 ?wrs mm (Wrote n # ws) = mm_send env mm raw (Wrote n # ws)"
    using mm_command_cases [of ?wrs "map (\<lambda>b. [b]) hd4 @ [pp_packet p]" 37 env "mm_send env" mm "Wrote n # ws"] assms(2,3)
    by (auto simp: hd4_def)
  have "mm_write_loop (raw_contents raw) 0 0 (Wrote n # ws) = Some (False, 0, raw_contents raw, drop 1 (Wrote n # ws))"
    using assms(3,4) by (simp add: r(1) hd4_def min_def Let_def)
  from mm_send_written [OF assms(1) _ this, of mm] assms(5) obtain mm' out k where
    "mm_send env mm raw (Wrote n # ws) = Some (0, mm', (hd4 @ pp_packet p) # out, drop k (Wrote n # ws))" by (auto simp: r(1))
  then have "mm_send_packet env p (Wrote n # ws) mm = Some (0, mm', ((hd4 @ pp_packet p) # out, drop k (Wrote n # ws)), q)"
    using r(2) unfolding mm_send_packet_def Let_def q_def [symmetric] control_def [symmetric] hd4_def by simp
  moreover have "hd4 = [DMR_MMDVM_FRAME_START, 37, if mm_model mm = DMR_MMDVM_MODEL_DVMEGA \<or> pp_ts p \<noteq> DMR_TS1 then DMR_MMDVM_DMR_DATA2
        else DMR_MMDVM_DMR_DATA1, control]" by (simp add: hd4_def q_def)
  moreover have "control \<noteq> 0x1a" using mm_control_not_slot by (simp add: control_def)
  ultimately show ?thesis by blast
qed

lemma mm_parse_data_frame:
  assumes "common_ok c" "length packet = 33" "dmr_packet_decode c True packet = Some (Inr q)"
    and "cmd = DMR_MMDVM_DMR_DATA1 \<or> cmd = DMR_MMDVM_DMR_DATA2"
  shows "mm_parse_frame c (m, True) (([DMR_MMDVM_FRAME_START, 37, cmd, control] @ packet) @ rest) mm =
    Some (0, mm, Some (q\<lparr>pp_ts := (if control = 0x1a then 1 else 0)\<rparr>))"
  using packet_decode_append [OF assms(1,2), of True rest] assms(3,4) by (auto simp: mm_parse_frame_def)

text \<open>
  The packet survives the modem frame and its time slot does not: \<open>dmr_mmdvm_send\<close> puts one frame
  of 37 bytes on the line, whose command byte names the slot (always the second one for a
  DVMEGA), and parsing this frame at the other end delivers the decoded packet, but with the first
  time slot in every case, because \<open>dmr_mmdvm_parse_frame\<close> looks for the command in the byte of the
  control flags.
\<close>

theorem mmdvm_loses_time_slot:
  assumes "mm_env_ok env" "mm_mem env 37 = (True, True)" "37 \<le> n" "50 \<le> length ws"
    and "common_ok c" "length (pp_packet p) = 33" "dmr_packet_decode c True (pp_packet p) = Some (Inr q)"
  shows "\<exists>mm' frame out ws' p'. dmr_mmdvm_send env (Some mm) (Some p) (Wrote n # ws) = Some (0, Some mm', (frame # out, ws'), Some p') \<and>
    length frame = 37 \<and>
    frame ! 2 = (if mm_model mm = DMR_MMDVM_MODEL_DVMEGA \<or> pp_ts p \<noteq> DMR_TS1 then DMR_MMDVM_DMR_DATA2 else DMR_MMDVM_DMR_DATA1) \<and>
    drop 4 frame = pp_packet p \<and>
    dmr_mmdvm_parse_frame c (m, True) (Some peer) (Some (frame @ rest)) = Some (0, Some peer, Some (q\<lparr>pp_ts := DMR_TS1\<rparr>))"
proof -
  let ?cmd = "if mm_model mm = DMR_MMDVM_MODEL_DVMEGA \<or> pp_ts p \<noteq> DMR_TS1 then DMR_MMDVM_DMR_DATA2 else DMR_MMDVM_DMR_DATA1"
  obtain mm' control out k p' where s: "mm_send_packet env p (Wrote n # ws) mm =
      Some (0, mm', (([DMR_MMDVM_FRAME_START, 37, ?cmd, control] @ pp_packet p) # out, drop k (Wrote n # ws)), p')" "control \<noteq> 0x1a"
    using mm_send_packet_frame [OF assms(1,2,6,3,4), of mm] by blast
  let ?frame = "[DMR_MMDVM_FRAME_START, 37, ?cmd, control] @ pp_packet p"
  have "dmr_mmdvm_send env (Some mm) (Some p) (Wrote n # ws) = Some (0, Some mm', (?frame # out, drop k (Wrote n # ws)), Some p')"
    using s(1) unfolding dmr_mmdvm_send_def by simp
  moreover have "dmr_mmdvm_parse_frame c (m, True) (Some peer) (Some (?frame @ rest)) = Some (0, Some peer, Some (q\<lparr>pp_ts := DMR_TS1\<rparr>))"
    using mm_parse_data_frame [OF assms(5,6,7), of ?cmd m control rest peer] s(2) by (simp add: dmr_mmdvm_parse_frame_def)
  moreover have "length ?frame = 37" "?frame ! 2 = ?cmd" "drop 4 ?frame = pp_packet p" using assms(6) by simp_all
  ultimately show ?thesis by blast
qed

theorem mmdvm_loses_time_slot_witness:
  "\<exists>mm' frame out ws' p' q. dmr_mmdvm_send demo_mm_env (Some demo_mmdvm) (Some (zero_parsed_packet\<lparr>pp_packet := demo_voice, pp_ts := DMR_TS2\<rparr>))
      (replicate 51 (Wrote 37)) = Some (0, Some mm', (frame # out, ws'), Some p') \<and>
    frame ! 2 = DMR_MMDVM_DMR_DATA2 \<and>
    dmr_mmdvm_parse_frame std_common (True, True) (Some demo_mmdvm) (Some (frame @ replicate 218 0)) = Some (0, Some demo_mmdvm, Some q) \<and>
    pp_ts q = DMR_TS1"
proof -
  obtain q where q: "dmr_packet_decode std_common True demo_voice = Some (Inr q)"
    using demo_voice_decodes by (auto split: option.splits sum.splits)
  have m: "mm_mem demo_mm_env 37 = (True, True)" by (simp add: demo_mm_env_def)
  have r: "replicate 51 (Wrote 37) = Wrote 37 # replicate 50 (Wrote 37)" by (simp add: eval_nat_numeral)
  have "length (pp_packet (zero_parsed_packet\<lparr>pp_packet := demo_voice, pp_ts := DMR_TS2\<rparr>)) = 33" by (simp add: demo_voice_def)
  from mmdvm_loses_time_slot [OF demo_mm_env_ok m _ _ common_ok_std this, of 37 "replicate 50 (Wrote 37)" q demo_mmdvm True demo_mmdvm
      "replicate 218 0"] q
  show ?thesis unfolding r by fastforce
qed

end
