(* ===== verification/Dmr_Log.thy ===== *)
theory Dmr_Log
  imports Dmr_Prelude
begin

text \<open>
  \<open>src/dmr/error.c\<close> and \<open>src/dmr/log.c\<close>: the error of the calling thread and the log.  Texts are
  strings; a C buffer is the list of all its characters, so that its text ends at the first NUL.
  The text that a format and its arguments give is an argument of the model.
\<close>

section \<open>Buffers\<close>

definition NUL :: char where
  "NUL = CHR 0x00"

definition c_text :: "string \<Rightarrow> string" where
  "c_text buf = takeWhile (\<lambda>ch. ch \<noteq> NUL) buf"

text \<open>\<open>strcpy\<close> into a buffer and \<open>vsnprintf\<close> with a size of at least one.\<close>

definition strcpy :: "string \<Rightarrow> string \<Rightarrow> string option" where
  "strcpy buf text = (if length text < length buf then Some (blit buf 0 (text @ [NUL])) else None)"

definition vsnprintf :: "string \<Rightarrow> nat \<Rightarrow> string \<Rightarrow> string" where
  "vsnprintf buf n text = blit buf 0 (take (n - 1) text @ [NUL])"

lemma c_text_of [simp]: "NUL \<notin> set text \<Longrightarrow> c_text (text @ NUL # rest) = text"
  by (auto simp: c_text_def takeWhile_append2 takeWhile_tail)

lemma c_text_blit: "NUL \<notin> set text \<Longrightarrow> c_text (blit buf 0 (text @ [NUL])) = text"
  by (simp add: blit_def)

lemma NUL_take: "NUL \<notin> set text \<Longrightarrow> NUL \<notin> set (take n text)"
  by (meson in_set_takeD)

section \<open>Priorities\<close>

datatype dmr_log_priority =
    DMR_LOG_PRIORITY_TRACE
  | DMR_LOG_PRIORITY_DEBUG
  | DMR_LOG_PRIORITY_INFO
  | DMR_LOG_PRIORITY_WARN
  | DMR_LOG_PRIORITY_ERROR
  | DMR_LOG_PRIORITY_CRITICAL

fun prio_num :: "dmr_log_priority \<Rightarrow> int" where
  "prio_num DMR_LOG_PRIORITY_TRACE = 1"
| "prio_num DMR_LOG_PRIORITY_DEBUG = 2"
| "prio_num DMR_LOG_PRIORITY_INFO = 3"
| "prio_num DMR_LOG_PRIORITY_WARN = 4"
| "prio_num DMR_LOG_PRIORITY_ERROR = 5"
| "prio_num DMR_LOG_PRIORITY_CRITICAL = 6"

definition DMR_LOG_PRIORITIES :: int where
  "DMR_LOG_PRIORITIES = 7"

instantiation dmr_log_priority :: linorder
begin

definition less_eq_dmr_log_priority :: "dmr_log_priority \<Rightarrow> dmr_log_priority \<Rightarrow> bool" where
  "less_eq_dmr_log_priority a b \<longleftrightarrow> prio_num a \<le> prio_num b"

definition less_dmr_log_priority :: "dmr_log_priority \<Rightarrow> dmr_log_priority \<Rightarrow> bool" where
  "less_dmr_log_priority a b \<longleftrightarrow> prio_num a < prio_num b"

instance
proof
  fix a b :: dmr_log_priority
  show "a \<le> b \<Longrightarrow> b \<le> a \<Longrightarrow> a = b"
    by (cases a; cases b) (simp_all add: less_eq_dmr_log_priority_def)
qed (auto simp: less_eq_dmr_log_priority_def less_dmr_log_priority_def)

end

section \<open>Errors\<close>

definition DMR_ERR_MAX_STRLEN :: nat where
  "DMR_ERR_MAX_STRLEN = 128"

fun errno_num :: "dmr_errno \<Rightarrow> int" where
  "errno_num DMR_ENOMEM = 0x01"
| "errno_num DMR_EINVAL = 0x02"
| "errno_num DMR_EWRITE = 0x11"
| "errno_num DMR_EREAD = 0x12"
| "errno_num DMR_ARG = 0x21"
| "errno_num DMR_UNSUPPORTED = 0x7f"
| "errno_num DMR_LASTERROR = 0xff"

record dmr_error_t =
  err_no :: int
  err_msg :: string
  err_priority :: int

definition dmr_error_enomem :: string where "dmr_error_enomem = ''out of memory''"
definition dmr_error_einval :: string where "dmr_error_einval = ''invalid argument''"
definition dmr_error_ewrite :: string where "dmr_error_ewrite = ''write failed''"
definition dmr_error_eread :: string where "dmr_error_eread = ''read failed''"
definition dmr_error_unsupported :: string where "dmr_error_unsupported = ''not supported''"
definition dmr_error_unknown :: string where "dmr_error_unknown = ''unkonwn error''"

lemmas error_texts = dmr_error_enomem_def dmr_error_einval_def dmr_error_ewrite_def dmr_error_eread_def
  dmr_error_unsupported_def dmr_error_unknown_def

text \<open>The state of a thread that has had no error.\<close>

definition error_init :: dmr_error_t where
  "error_init = \<lparr>err_no = 0, err_msg = replicate DMR_ERR_MAX_STRLEN NUL, err_priority = 0\<rparr>"

definition dmr_error_set_msg :: "string \<Rightarrow> dmr_log_priority \<Rightarrow> dmr_error_t \<Rightarrow> (int \<times> dmr_error_t) option" where
  "dmr_error_set_msg msg priority err =
     (let err = err\<lparr>err_priority := prio_num priority\<rparr>
      in map_option (\<lambda>buf. (-1, err\<lparr>err_msg := buf\<rparr>)) (strcpy (err_msg err) msg))"

fun dmr_error :: "dmr_errno \<Rightarrow> dmr_error_t \<Rightarrow> (int \<times> dmr_error_t) option" where
  "dmr_error e err =
     (let err = err\<lparr>err_no := errno_num e\<rparr>
      in case e of
           DMR_ENOMEM \<Rightarrow> dmr_error_set_msg dmr_error_enomem DMR_LOG_PRIORITY_CRITICAL err
         | DMR_EINVAL \<Rightarrow> dmr_error_set_msg dmr_error_einval DMR_LOG_PRIORITY_ERROR err
         | DMR_EWRITE \<Rightarrow> dmr_error_set_msg dmr_error_ewrite DMR_LOG_PRIORITY_ERROR err
         | DMR_EREAD \<Rightarrow> dmr_error_set_msg dmr_error_eread DMR_LOG_PRIORITY_ERROR err
         | DMR_UNSUPPORTED \<Rightarrow> dmr_error_set_msg dmr_error_unsupported DMR_LOG_PRIORITY_ERROR err
         | DMR_LASTERROR \<Rightarrow> Some (-1, err)
         | _ \<Rightarrow> dmr_error_set_msg dmr_error_unknown DMR_LOG_PRIORITY_ERROR err)"

text \<open>\<open>text\<close>: what the format gives, \<open>None\<close> when there is no format.\<close>

definition dmr_error_set :: "string option \<Rightarrow> dmr_error_t \<Rightarrow> int \<times> dmr_error_t" where
  "dmr_error_set text err =
     (case text of
        None \<Rightarrow> (-1, err)
      | Some text \<Rightarrow> (-1, err\<lparr>err_msg := vsnprintf (err_msg err) DMR_ERR_MAX_STRLEN text\<rparr>))"

definition dmr_error_get :: "dmr_error_t \<Rightarrow> string" where
  "dmr_error_get err = (if length (c_text (err_msg err)) = 0 then ''no error'' else c_text (err_msg err))"

definition dmr_error_clear :: "dmr_error_t \<Rightarrow> dmr_error_t" where
  "dmr_error_clear err = err\<lparr>err_msg := blit (err_msg err) 0 (replicate DMR_ERR_MAX_STRLEN NUL)\<rparr>"

text \<open>What a thread does with its error, and the text that is last.\<close>

datatype error_op = Op_error dmr_errno | Op_set "string option" | Op_clear

fun error_step :: "error_op \<Rightarrow> dmr_error_t \<Rightarrow> dmr_error_t option" where
  "error_step (Op_error e) err = map_option snd (dmr_error e err)"
| "error_step (Op_set text) err = Some (snd (dmr_error_set text err))"
| "error_step Op_clear err = Some (dmr_error_clear err)"

fun errno_text :: "dmr_errno \<Rightarrow> string" where
  "errno_text DMR_ENOMEM = ''out of memory''"
| "errno_text DMR_EINVAL = ''invalid argument''"
| "errno_text DMR_EWRITE = ''write failed''"
| "errno_text DMR_EREAD = ''read failed''"
| "errno_text DMR_UNSUPPORTED = ''not supported''"
| "errno_text _ = ''unkonwn error''"

fun last_text :: "string \<Rightarrow> error_op list \<Rightarrow> string" where
  "last_text t [] = t"
| "last_text t (Op_error e # ops) = last_text (if e = DMR_LASTERROR then t else errno_text e) ops"
| "last_text t (Op_set None # ops) = last_text t ops"
| "last_text t (Op_set (Some text) # ops) = last_text (take 127 text) ops"
| "last_text t (Op_clear # ops) = last_text [] ops"

definition error_wf :: "dmr_error_t \<Rightarrow> bool" where
  "error_wf err \<longleftrightarrow> length (err_msg err) = DMR_ERR_MAX_STRLEN \<and> NUL \<in> set (err_msg err)"

definition op_ok :: "error_op \<Rightarrow> bool" where
  "op_ok oper \<longleftrightarrow> (case oper of Op_set (Some text) \<Rightarrow> NUL \<notin> set text | _ \<Rightarrow> True)"

lemma set_msg_text:
  assumes "length (err_msg err) = DMR_ERR_MAX_STRLEN" "length msg < 128" "NUL \<notin> set msg"
  shows "\<exists>err'. dmr_error_set_msg msg p err = Some (-1, err') \<and> error_wf err' \<and> c_text (err_msg err') = msg"
  using assms c_text_blit [OF assms(3)]
  by (auto simp: dmr_error_set_msg_def strcpy_def error_wf_def DMR_ERR_MAX_STRLEN_def) (auto simp: blit_def)

lemma errno_text_ok: "length (errno_text e) < 128" "NUL \<notin> set (errno_text e)"
  by (cases e; simp add: NUL_def)+

lemma error_text:
  assumes "error_wf err"
  shows "\<exists>err'. dmr_error e err = Some (-1, err') \<and> error_wf err' \<and>
    c_text (err_msg err') = (if e = DMR_LASTERROR then c_text (err_msg err) else errno_text e)"
proof (cases "e = DMR_LASTERROR")
  case False
  then obtain p where "dmr_error e err = dmr_error_set_msg (errno_text e) p (err\<lparr>err_no := errno_num e\<rparr>)"
    by (cases e) (simp_all add: Let_def error_texts)
  then show ?thesis using set_msg_text [OF _ errno_text_ok] False assms by (simp add: error_wf_def)
qed (use assms in \<open>simp add: error_wf_def\<close>)

lemma error_step_text:
  assumes "error_wf err" "op_ok oper"
  shows "\<exists>err'. error_step oper err = Some err' \<and> error_wf err' \<and>
    last_text (c_text (err_msg err')) [] = last_text (c_text (err_msg err)) [oper]"
proof (cases oper)
  case (Op_error e)
  then show ?thesis using error_text [OF assms(1), of e] by auto
next
  case (Op_set m)
  show ?thesis
  proof (cases m)
    case (Some t)
    then have "NUL \<notin> set (take 127 t)" using assms(2) Op_set by (auto simp: op_ok_def dest: in_set_takeD)
    then show ?thesis using Op_set Some assms(1) c_text_blit
      by (auto simp: dmr_error_set_def vsnprintf_def error_wf_def DMR_ERR_MAX_STRLEN_def) (auto simp: blit_def)
  qed (use Op_set assms in \<open>simp add: dmr_error_set_def\<close>)
next
  case Op_clear
  have "blit (err_msg err) 0 (replicate 128 NUL) = replicate 128 NUL"
    using assms(1) by (simp add: blit_def error_wf_def DMR_ERR_MAX_STRLEN_def)
  then show ?thesis using Op_clear
    by (simp add: dmr_error_clear_def error_wf_def DMR_ERR_MAX_STRLEN_def c_text_def)
qed

lemma error_steps:
  assumes "error_wf err" "\<forall>oper \<in> set ops. op_ok oper"
  shows "\<exists>err'. foldo error_step ops err = Some err' \<and> error_wf err' \<and>
    c_text (err_msg err') = last_text (c_text (err_msg err)) ops"
  using assms
proof (induction ops arbitrary: err)
  case (Cons oper ops)
  then obtain err1 where 1: "error_step oper err = Some err1" "error_wf err1"
    "c_text (err_msg err1) = last_text (c_text (err_msg err)) [oper]"
    using error_step_text [of err oper] by auto
  have "last_text t (oper # ops) = last_text (last_text t [oper]) ops" for t
    by (cases "(t, oper # ops)" rule: last_text.cases) simp_all
  then show ?case using Cons.IH [OF 1(2)] Cons.prems(2) 1 by simp
qed simp

text \<open>
  Whatever a thread does with its error, every call is defined: the message always fits the
  buffer and ends in a NUL.  \<open>dmr_error_get\<close> returns the text of the last error that was reported,
  the first 127 characters of the last message that was set, whichever came last, or "no error"
  when that is empty or was cleared; \<open>DMR_LASTERROR\<close> keeps the message, and the other error codes
  without a text give "unkonwn error".
\<close>

theorem dmr_error_get_returns_last_text:
  assumes "\<forall>oper \<in> set ops. op_ok oper"
  shows "\<exists>err. foldo error_step ops error_init = Some err \<and> length (err_msg err) = 128 \<and> NUL \<in> set (err_msg err) \<and>
    dmr_error_get err = (if last_text [] ops = [] then ''no error'' else last_text [] ops)"
proof -
  have init: "error_wf error_init" "c_text (err_msg error_init) = []"
    by (simp_all add: error_wf_def error_init_def c_text_def DMR_ERR_MAX_STRLEN_def)
  from error_steps [OF init(1) assms] init(2) obtain err where
    "foldo error_step ops error_init = Some err" "error_wf err" "c_text (err_msg err) = last_text [] ops"
    by auto
  then show ?thesis unfolding dmr_error_get_def error_wf_def DMR_ERR_MAX_STRLEN_def by simp
qed

theorem dmr_error_get_returns_last_text_witness:
  "\<exists>err. foldo error_step [Op_error DMR_EINVAL, Op_set (Some ''bad slot''), Op_error DMR_LASTERROR] error_init = Some err \<and>
    dmr_error_get err = ''bad slot''"
  using dmr_error_get_returns_last_text [of "[Op_error DMR_EINVAL, Op_set (Some ''bad slot''), Op_error DMR_LASTERROR]"]
  by (auto simp: op_ok_def NUL_def)

section \<open>The log\<close>

text \<open>
  The static variables of \<open>log.c\<close>.  A callback is a number, with 0 for \<open>NULL\<close> and 1 for
  \<open>log_stderr\<close>; \<open>log_out\<close> has what the callbacks were given, in order.
\<close>

record dmr_log_state =
  log_color :: bool
  log_priority :: dmr_log_priority
  log_prefix :: string
  log_cb :: nat
  log_mem :: nat
  log_out :: "(nat \<times> nat \<times> dmr_log_priority \<times> string) list"

definition log_init :: dmr_log_state where
  "log_init = \<lparr>log_color = True, log_priority = DMR_LOG_PRIORITY_INFO, log_prefix = [], log_cb = 1, log_mem = 0, log_out = []\<rparr>"

definition dmr_log_color_set :: "bool \<Rightarrow> dmr_log_state \<Rightarrow> dmr_log_state" where
  "dmr_log_color_set enabled lg = lg\<lparr>log_color := enabled\<rparr>"

definition dmr_log_prefix_set :: "string \<Rightarrow> dmr_log_state \<Rightarrow> dmr_log_state" where
  "dmr_log_prefix_set prefix lg = lg\<lparr>log_prefix := prefix\<rparr>"

definition dmr_log_priority_reset :: "dmr_log_state \<Rightarrow> dmr_log_state" where
  "dmr_log_priority_reset lg = lg\<lparr>log_priority := DMR_LOG_PRIORITY_INFO\<rparr>"

definition dmr_log_cb :: "nat \<Rightarrow> nat \<Rightarrow> dmr_log_state \<Rightarrow> dmr_log_state" where
  "dmr_log_cb cb mem lg = lg\<lparr>log_cb := cb, log_mem := mem\<rparr>"

definition dmr_log_cb_get :: "dmr_log_state \<Rightarrow> nat \<times> nat" where
  "dmr_log_cb_get lg = (log_cb lg, log_mem lg)"

definition DMR_LOG_MESSAGE_MAX :: nat where
  "DMR_LOG_MESSAGE_MAX = 1024"

text \<open>
  The end of the message: \<open>msg[len--] = 0\<close> writes behind the character that was tested, and the
  second one over the line feed.
\<close>

definition log_trim :: "string \<Rightarrow> string" where
  "log_trim msg =
     (let len = length (c_text msg)
      in if len > 0 \<and> msg ! (len - 1) = CHR 0x0A
         then let msg = msg[len := NUL]; len = len - 1
              in if len > 0 \<and> msg ! (len - 1) = CHR 0x0D then msg[len := NUL] else msg
         else msg)"

text \<open>
  \<open>buf\<close>: the block that \<open>malloc\<close> returns, with unknown contents, or \<open>None\<close>; \<open>fmt_text\<close>: what the
  format gives.
\<close>

definition dmr_log_messagev :: "string option \<Rightarrow> dmr_log_priority \<Rightarrow> string \<Rightarrow> dmr_log_state \<Rightarrow> dmr_log_state" where
  "dmr_log_messagev buf priority fmt_text lg =
     (if log_cb lg = 0 then lg
      else if priority < log_priority lg then lg
      else case buf of
             None \<Rightarrow> lg
           | Some buf \<Rightarrow>
               lg\<lparr>log_out := log_out lg @ [(log_cb lg, log_mem lg, priority,
                 c_text (log_trim (vsnprintf buf (DMR_LOG_MESSAGE_MAX - 1) fmt_text)))]\<rparr>)"

text \<open>The functions for any and for one priority.\<close>

definition dmr_log_message :: "string option \<Rightarrow> dmr_log_priority \<Rightarrow> string \<Rightarrow> dmr_log_state \<Rightarrow> dmr_log_state" where
  "dmr_log_message buf priority fmt_text = dmr_log_messagev buf priority fmt_text"

definition dmr_log :: "string option \<Rightarrow> string \<Rightarrow> dmr_log_state \<Rightarrow> dmr_log_state" where
  "dmr_log buf fmt_text lg = dmr_log_messagev buf (log_priority lg) fmt_text lg"

definition dmr_log_trace :: "string option \<Rightarrow> string \<Rightarrow> dmr_log_state \<Rightarrow> dmr_log_state" where
  "dmr_log_trace buf fmt_text = dmr_log_messagev buf DMR_LOG_PRIORITY_TRACE fmt_text"

definition dmr_log_debug :: "string option \<Rightarrow> string \<Rightarrow> dmr_log_state \<Rightarrow> dmr_log_state" where
  "dmr_log_debug buf fmt_text = dmr_log_messagev buf DMR_LOG_PRIORITY_DEBUG fmt_text"

definition dmr_log_info :: "string option \<Rightarrow> string \<Rightarrow> dmr_log_state \<Rightarrow> dmr_log_state" where
  "dmr_log_info buf fmt_text = dmr_log_messagev buf DMR_LOG_PRIORITY_INFO fmt_text"

definition dmr_log_warn :: "string option \<Rightarrow> string \<Rightarrow> dmr_log_state \<Rightarrow> dmr_log_state" where
  "dmr_log_warn buf fmt_text = dmr_log_messagev buf DMR_LOG_PRIORITY_WARN fmt_text"

definition dmr_log_error :: "string option \<Rightarrow> string \<Rightarrow> dmr_log_state \<Rightarrow> dmr_log_state" where
  "dmr_log_error buf fmt_text = dmr_log_messagev buf DMR_LOG_PRIORITY_ERROR fmt_text"

definition dmr_log_critical :: "string option \<Rightarrow> string \<Rightarrow> dmr_log_state \<Rightarrow> dmr_log_state" where
  "dmr_log_critical buf fmt_text = dmr_log_messagev buf DMR_LOG_PRIORITY_CRITICAL fmt_text"

fun prio_name :: "dmr_log_priority \<Rightarrow> string" where
  "prio_name DMR_LOG_PRIORITY_TRACE = ''trace''"
| "prio_name DMR_LOG_PRIORITY_DEBUG = ''debug''"
| "prio_name DMR_LOG_PRIORITY_INFO = ''info''"
| "prio_name DMR_LOG_PRIORITY_WARN = ''warn''"
| "prio_name DMR_LOG_PRIORITY_ERROR = ''error''"
| "prio_name DMR_LOG_PRIORITY_CRITICAL = ''critical''"

text \<open>
  \<open>least\<close>: the lowest priority that the build allows, trace with \<open>DMR_TRACE\<close>, debug with
  \<open>DMR_DEBUG\<close>, info otherwise.
\<close>

definition dmr_log_priority_set :: "dmr_log_priority \<Rightarrow> string option \<Rightarrow> dmr_log_priority \<Rightarrow> dmr_log_state \<Rightarrow> dmr_log_state" where
  "dmr_log_priority_set least buf priority lg =
     (let old_priority = log_priority lg
      in if priority = old_priority then lg
         else let lg = lg\<lparr>log_priority := min DMR_LOG_PRIORITY_CRITICAL (max priority least)\<rparr>
              in dmr_log_debug buf (''log: priority changed '' @ prio_name old_priority @ '' -> '' @ prio_name (log_priority lg)) lg)"

text \<open>\<open>log_stderr\<close>: the line that is printed, \<open>stamp\<close> being the formatted time.\<close>

fun prio_tag :: "dmr_log_priority \<Rightarrow> string" where
  "prio_tag DMR_LOG_PRIORITY_TRACE = ''TRACE''"
| "prio_tag DMR_LOG_PRIORITY_DEBUG = ''DEBUG''"
| "prio_tag DMR_LOG_PRIORITY_INFO = ''INFO ''"
| "prio_tag DMR_LOG_PRIORITY_WARN = ''WARN ''"
| "prio_tag DMR_LOG_PRIORITY_ERROR = ''ERROR''"
| "prio_tag DMR_LOG_PRIORITY_CRITICAL = ''FATAL''"

fun prio_color :: "dmr_log_priority \<Rightarrow> char" where
  "prio_color DMR_LOG_PRIORITY_TRACE = CHR ''6''"
| "prio_color DMR_LOG_PRIORITY_DEBUG = CHR ''4''"
| "prio_color DMR_LOG_PRIORITY_INFO = CHR ''7''"
| "prio_color _ = CHR ''1''"

definition log_stderr :: "dmr_log_state \<Rightarrow> string \<Rightarrow> dmr_log_priority \<Rightarrow> string \<Rightarrow> string" where
  "log_stderr lg stamp priority msg =
     (let tag = (if log_color lg
                 then [CHR 0x1b] @ ''[1;3'' @ [prio_color priority] @ ''m'' @ prio_tag priority @ [CHR 0x1b] @ ''[0m''
                 else prio_tag priority)
      in log_prefix lg @ stamp @ '' ['' @ tag @ ''] '' @ msg @ [CHR 0x0A])"

text \<open>What is left of a message: a line feed stays, unless a carriage return is in front of it.\<close>

definition log_kept :: "string \<Rightarrow> string" where
  "log_kept t = (if 2 \<le> length t \<and> last t = CHR 0x0A \<and> t ! (length t - 2) = CHR 0x0D then butlast t else t)"

lemma log_trim_text:
  assumes "NUL \<notin> set t"
  shows "c_text (log_trim (t @ NUL # rest)) = log_kept t"
proof -
  let ?n = "length t"
  have same: "(t @ NUL # rest)[?n := NUL] = t @ NUL # rest" by (simp add: list_update_append)
  have cut: "c_text ((t @ NUL # rest)[?n - 1 := NUL]) = butlast t" if "t \<noteq> []"
  proof -
    have "(t @ NUL # rest)[?n - 1 := NUL] = butlast t @ NUL # NUL # rest"
      using that by (cases t rule: rev_cases) (simp_all add: list_update_append)
    moreover have "NUL \<notin> set (butlast t)" using assms by (blast dest: in_set_butlastD)
    ultimately show ?thesis by simp
  qed
  show ?thesis
  proof (cases "?n > 0 \<and> last t = CHR 0x0A")
    case True
    then have "t ! (?n - Suc 0) = CHR 0x0A" by (auto simp: last_conv_nth)
    with True have "log_trim (t @ NUL # rest) =
      (if ?n - 1 > 0 \<and> t ! (?n - 2) = CHR 0x0D then (t @ NUL # rest)[?n - 1 := NUL] else t @ NUL # rest)"
      using assms same by (simp add: log_trim_def nth_append Let_def numeral_2_eq_2)
    then show ?thesis using True cut assms by (auto simp: log_kept_def)
  next
    case False
    then have "log_trim (t @ NUL # rest) = t @ NUL # rest"
      using assms by (auto simp: log_trim_def nth_append last_conv_nth Let_def)
    then show ?thesis using False assms by (auto simp: log_kept_def)
  qed
qed

text \<open>
  The log callback is given exactly the messages whose priority is at least the current one,
  cut off after 1022 characters.  The line feed at the end of a message, which the code means to
  remove, stays; from a carriage return and a line feed it removes the line feed.
\<close>

theorem dmr_log_messagev_delivers:
  assumes "NUL \<notin> set fmt_text" and "length buf = DMR_LOG_MESSAGE_MAX" and "log_cb lg \<noteq> 0"
  shows "log_out (dmr_log_messagev (Some buf) priority fmt_text lg) = log_out lg @
    (if priority < log_priority lg then []
     else [(log_cb lg, log_mem lg, priority,
       let t = take 1022 fmt_text in
       if 2 \<le> length t \<and> last t = CHR 0x0A \<and> t ! (length t - 2) = CHR 0x0D then butlast t else t)])"
proof -
  have "vsnprintf buf (DMR_LOG_MESSAGE_MAX - 1) fmt_text =
      take 1022 fmt_text @ NUL # drop (Suc (length (take 1022 fmt_text))) buf"
    by (simp add: vsnprintf_def blit_def DMR_LOG_MESSAGE_MAX_def)
  then show ?thesis
    using log_trim_text [OF NUL_take [OF assms(1)]] assms(3)
    by (simp add: dmr_log_messagev_def log_kept_def Let_def)
qed

theorem dmr_log_messagev_delivers_witness:
  "log_out (dmr_log_messagev (Some (replicate 1024 NUL)) DMR_LOG_PRIORITY_WARN [CHR ''x'', CHR 0x0D, CHR 0x0A] log_init) =
    [(1, 0, DMR_LOG_PRIORITY_WARN, [CHR ''x'', CHR 0x0D])]"
  by (subst dmr_log_messagev_delivers)
    (simp_all add: NUL_def DMR_LOG_MESSAGE_MAX_def log_init_def less_dmr_log_priority_def)

end
