(* ===== verification/Dmr_Io.thy ===== *)
theory Dmr_Io
  imports Dmr_Time
begin

text \<open>
  \<open>src/dmr/io.c\<close>: the event loop.  Clients register callbacks for file descriptors, signals,
  timers and the end of the loop; \<open>dmr_io_loop\<close> waits with \<open>select\<close> and calls them.

  Callbacks are a parameter of the model: they change the whole state, through the functions
  of this file or otherwise.  Entries and timers carry their address, the serial number of
  their allocation.  An address that is in no list has been freed, and a function that reads
  or unlinks such an entry has no defined result (\<open>None\<close>).  What \<open>select\<close> and the clock answer
  is an argument of the loop.
\<close>

section \<open>State\<close>

datatype dmr_handle_type =
    DMR_HANDLE_UNKNOWN
  | DMR_HANDLE_TCP
  | DMR_HANDLE_UDP
  | DMR_HANDLE_TTY
  | DMR_HANDLE_FILE
  | DMR_HANDLE_SERIAL

datatype dmr_request_type =
    DMR_REQUEST_UNKNOWN
  | DMR_REQUEST_SIGNAL
  | DMR_REQUEST_CONNECT
  | DMR_REQUEST_READ
  | DMR_REQUEST_WRITE
  | DMR_REQUEST_ERROR
  | DMR_REQUEST_TIMER
  | DMR_REQUEST_CLOSE

text \<open>Function pointers and \<open>userdata\<close> pointers are numbers.\<close>

record dmr_io_entry =
  ent_addr :: nat
  ent_handle :: dmr_handle_type
  ent_fd :: int
  ent_cb :: nat
  ent_userdata :: nat
  ent_once :: bool

record dmr_io_timer =
  tim_addr :: nat
  tim_timeout :: timeval
  tim_wallclock :: timeval
  tim_cb :: nat
  tim_userdata :: nat
  tim_once :: bool

record dmr_io =
  io_entry :: "dmr_request_type \<Rightarrow> dmr_io_entry list"
  io_timer :: "dmr_io_timer list"
  io_default :: timeval
  io_entries :: int
  io_maxfd :: int
  io_wallclock :: timeval
  io_readers :: "int set"
  io_writers :: "int set"
  io_errors :: "int set"
  io_closed :: bool

record io_sig =
  sig_io :: nat
  sig_sig :: int

text \<open>
  The loops by address, the static list \<open>io_sig_head\<close>, the signals that have \<open>io_sig_handle\<close>
  installed, the next address of the allocator, and the state of the client.
\<close>

record 'w io_sys =
  sys_io :: "nat \<Rightarrow> dmr_io option"
  sys_sigs :: "io_sig list"
  sys_installed :: "int set"
  sys_brk :: nat
  sys_world :: 'w

text \<open>The callbacks: function pointer, loop, user data and, for the first kind, the descriptor.\<close>

record 'w io_cbs =
  cb_fd :: "nat \<Rightarrow> nat \<Rightarrow> nat \<Rightarrow> int \<Rightarrow> 'w io_sys \<Rightarrow> (int \<times> 'w io_sys) option"
  cb_plain :: "nat \<Rightarrow> nat \<Rightarrow> nat \<Rightarrow> 'w io_sys \<Rightarrow> (int \<times> 'w io_sys) option"

definition put_io :: "nat \<Rightarrow> dmr_io \<Rightarrow> 'w io_sys \<Rightarrow> 'w io_sys" where
  "put_io q io s = s\<lparr>sys_io := (sys_io s)(q \<mapsto> io)\<rparr>"

definition io_alloc :: "'w io_sys \<Rightarrow> 'w io_sys" where
  "io_alloc s = s\<lparr>sys_brk := Suc (sys_brk s)\<rparr>"

text \<open>
  The check of \<open>io == NULL\<close> at the start of the functions of the interface, and the access
  through the pointer.
\<close>

definition io_api ::
  "(nat \<Rightarrow> dmr_io \<Rightarrow> 'w io_sys \<Rightarrow> (int \<times> 'w io_sys) option) \<Rightarrow> nat option \<Rightarrow> 'w io_sys \<Rightarrow> (int \<times> 'w io_sys) option"
  where
  "io_api f p s =
     (case p of
        None \<Rightarrow> Some (-1, s)
      | Some q \<Rightarrow> (case sys_io s q of None \<Rightarrow> None | Some io \<Rightarrow> f q io s))"

section \<open>Lists and descriptor sets\<close>

definition entry_at :: "('e \<Rightarrow> nat) \<Rightarrow> nat \<Rightarrow> 'e list \<Rightarrow> 'e option" where
  "entry_at adr a xs = find (\<lambda>e. adr e = a) xs"

fun first_of :: "('e \<Rightarrow> nat) \<Rightarrow> 'e list \<Rightarrow> nat option" where
  "first_of adr [] = None"
| "first_of adr (e # es) = Some (adr e)"

fun next_of :: "('e \<Rightarrow> nat) \<Rightarrow> nat \<Rightarrow> 'e list \<Rightarrow> nat option" where
  "next_of adr a [] = None"
| "next_of adr a (e # es) = (if adr e = a then first_of adr es else next_of adr a es)"

text \<open>
  \<open>DMR_LIST_FOREACH_SAFE\<close>: the next pointer is read before the body runs; the list may be
  changed by the body.
\<close>

partial_function (option) foreach_safe ::
  "('s \<Rightarrow> 'e list option) \<Rightarrow> ('e \<Rightarrow> nat) \<Rightarrow> ('e \<Rightarrow> 's \<Rightarrow> 's option) \<Rightarrow> nat option \<Rightarrow> 's \<Rightarrow> 's option" where
  "foreach_safe lst adr body var s =
     (case var of
        None \<Rightarrow> Some s
      | Some a \<Rightarrow> do {
          xs \<leftarrow> lst s;
          e \<leftarrow> entry_at adr a xs;
          s' \<leftarrow> body e s;
          foreach_safe lst adr body (next_of adr a xs) s' })"

lemma foreach_safe_eqs [code]:
  "foreach_safe lst adr body None s = Some s"
  "foreach_safe lst adr body (Some a) s = do {
     xs \<leftarrow> lst s;
     e \<leftarrow> entry_at adr a xs;
     s' \<leftarrow> body e s;
     foreach_safe lst adr body (next_of adr a xs) s' }"
  by (subst foreach_safe.simps, simp)+

definition FD_SETSIZE :: int where
  "FD_SETSIZE = 1024"

definition FD_SET :: "int \<Rightarrow> int set \<Rightarrow> int set option" where
  "FD_SET fd S = (if 0 \<le> fd \<and> fd < FD_SETSIZE then Some (insert fd S) else None)"

definition FD_CLR :: "int \<Rightarrow> int set \<Rightarrow> int set option" where
  "FD_CLR fd S = (if 0 \<le> fd \<and> fd < FD_SETSIZE then Some (S - {fd}) else None)"

definition FD_ISSET :: "int \<Rightarrow> int set \<Rightarrow> bool option" where
  "FD_ISSET fd S = (if 0 \<le> fd \<and> fd < FD_SETSIZE then Some (fd \<in> S) else None)"

definition clr_readers :: "int \<Rightarrow> dmr_io \<Rightarrow> dmr_io option" where
  "clr_readers fd io = map_option (\<lambda>S. io\<lparr>io_readers := S\<rparr>) (FD_CLR fd (io_readers io))"

definition clr_writers :: "int \<Rightarrow> dmr_io \<Rightarrow> dmr_io option" where
  "clr_writers fd io = map_option (\<lambda>S. io\<lparr>io_writers := S\<rparr>) (FD_CLR fd (io_writers io))"

definition clr_errors :: "int \<Rightarrow> dmr_io \<Rightarrow> dmr_io option" where
  "clr_errors fd io = map_option (\<lambda>S. io\<lparr>io_errors := S\<rparr>) (FD_CLR fd (io_errors io))"

text \<open>\<open>DMR_LIST_INSERT_HEAD\<close>, and \<open>DMR_LIST_REMOVE\<close> with \<open>dmr_free\<close>.\<close>

definition io_insert :: "dmr_request_type \<Rightarrow> dmr_io_entry \<Rightarrow> dmr_io \<Rightarrow> dmr_io" where
  "io_insert t e io = io\<lparr>io_entry := (io_entry io)(t := e # io_entry io t)\<rparr>"

definition io_unlink :: "dmr_request_type \<Rightarrow> nat \<Rightarrow> dmr_io \<Rightarrow> dmr_io" where
  "io_unlink t a io = io\<lparr>io_entry := (io_entry io)(t := filter (\<lambda>e. ent_addr e \<noteq> a) (io_entry io t))\<rparr>"

definition tim_unlink :: "nat \<Rightarrow> dmr_io \<Rightarrow> dmr_io" where
  "tim_unlink a io = io\<lparr>io_timer := filter (\<lambda>t. tim_addr t \<noteq> a) (io_timer io)\<rparr>"

definition io_count_up :: "dmr_io \<Rightarrow> dmr_io" where
  "io_count_up io = io\<lparr>io_entries := io_entries io + 1\<rparr>"

definition io_count_down :: "dmr_io \<Rightarrow> dmr_io" where
  "io_count_down io = io\<lparr>io_entries := io_entries io - 1\<rparr>"

section \<open>Making and freeing a loop\<close>

text \<open>\<open>mems\<close>: whether each of the ten allocations succeeds, in order.\<close>

definition dmr_io_new :: "bool list \<Rightarrow> timeval \<Rightarrow> 'w io_sys \<Rightarrow> nat option \<times> 'w io_sys" where
  "dmr_io_new mems now s =
     (if \<not> mems ! 0 then (None, s)
      else if \<exists>i < 8. \<not> mems ! (1 + i) then (None, s)
      else if \<not> mems ! 9 then (None, s)
      else (Some (sys_brk s),
            io_alloc (put_io (sys_brk s)
              \<lparr>io_entry = (\<lambda>_. []), io_timer = [], io_default = \<lparr>tv_sec = 1, tv_usec = 0\<rparr>, io_entries = 0,
               io_maxfd = 0, io_wallclock = now, io_readers = {}, io_writers = {}, io_errors = {},
               io_closed = False\<rparr> s)))"

definition dmr_io_close :: "nat option \<Rightarrow> 'w io_sys \<Rightarrow> (int \<times> 'w io_sys) option" where
  "dmr_io_close = io_api (\<lambda>q io s. Some (0, put_io q (io\<lparr>io_closed := True\<rparr>) s))"

definition dmr_io_free :: "nat option \<Rightarrow> 'w io_sys \<Rightarrow> (int \<times> 'w io_sys) option" where
  "dmr_io_free p s =
     (case p of
        None \<Rightarrow> Some (0, s)
      | Some q \<Rightarrow> (case sys_io s q of
                     None \<Rightarrow> None
                   | Some io \<Rightarrow> Some (0, s\<lparr>sys_io := (sys_io s)(q := None)\<rparr>)))"

section \<open>Registration\<close>

definition new_entry :: "'w io_sys \<Rightarrow> int \<Rightarrow> nat \<Rightarrow> nat \<Rightarrow> bool \<Rightarrow> dmr_io_entry" where
  "new_entry s fd cb userdata once =
     \<lparr>ent_addr = sys_brk s, ent_handle = DMR_HANDLE_UNKNOWN, ent_fd = fd, ent_cb = cb,
      ent_userdata = userdata, ent_once = once\<rparr>"

definition dmr_io_reg_read ::
  "bool \<Rightarrow> nat option \<Rightarrow> int \<Rightarrow> nat \<Rightarrow> nat \<Rightarrow> bool \<Rightarrow> 'w io_sys \<Rightarrow> (int \<times> 'w io_sys) option" where
  "dmr_io_reg_read mem p fd cb userdata once = io_api (\<lambda>q io s.
     if \<not> mem then Some (-1, s)
     else do {
       let io = io_count_up (io_insert DMR_REQUEST_READ (new_entry s fd cb userdata once) io);
       S \<leftarrow> FD_SET fd (io_readers io);
       Some (0, io_alloc (put_io q (io\<lparr>io_readers := S, io_maxfd := max (io_maxfd io) fd\<rparr>) s)) }) p"

definition dmr_io_reg_write ::
  "bool \<Rightarrow> nat option \<Rightarrow> int \<Rightarrow> nat \<Rightarrow> nat \<Rightarrow> bool \<Rightarrow> 'w io_sys \<Rightarrow> (int \<times> 'w io_sys) option" where
  "dmr_io_reg_write mem p fd cb userdata once = io_api (\<lambda>q io s.
     if \<not> mem then Some (-1, s)
     else do {
       let io = io_count_up (io_insert DMR_REQUEST_WRITE (new_entry s fd cb userdata once) io);
       S \<leftarrow> FD_SET fd (io_writers io);
       Some (0, io_alloc (put_io q (io\<lparr>io_writers := S, io_maxfd := max (io_maxfd io) fd\<rparr>) s)) }) p"

definition dmr_io_reg_error ::
  "bool \<Rightarrow> nat option \<Rightarrow> int \<Rightarrow> nat \<Rightarrow> nat \<Rightarrow> bool \<Rightarrow> 'w io_sys \<Rightarrow> (int \<times> 'w io_sys) option" where
  "dmr_io_reg_error mem p fd cb userdata once = io_api (\<lambda>q io s.
     if \<not> mem then Some (-1, s)
     else do {
       let io = io_count_up (io_insert DMR_REQUEST_ERROR (new_entry s fd cb userdata once) io);
       S \<leftarrow> FD_SET fd (io_errors io);
       Some (0, io_alloc (put_io q (io\<lparr>io_errors := S, io_maxfd := max (io_maxfd io) fd\<rparr>) s)) }) p"

definition dmr_io_reg_close ::
  "bool \<Rightarrow> nat option \<Rightarrow> nat \<Rightarrow> nat \<Rightarrow> 'w io_sys \<Rightarrow> (int \<times> 'w io_sys) option" where
  "dmr_io_reg_close mem p cb userdata = io_api (\<lambda>q io s.
     if \<not> mem then Some (-1, s)
     else Some (0, io_alloc (put_io q (io_insert DMR_REQUEST_CLOSE (new_entry s 0 cb userdata True) io) s))) p"

definition dmr_io_reg_timer ::
  "bool \<Rightarrow> nat option \<Rightarrow> timeval \<Rightarrow> nat \<Rightarrow> nat \<Rightarrow> bool \<Rightarrow> 'w io_sys \<Rightarrow> (int \<times> 'w io_sys) option" where
  "dmr_io_reg_timer mem p timeout cb userdata once = io_api (\<lambda>q io s.
     if \<not> mem then Some (-1, s)
     else let t = \<lparr>tim_addr = sys_brk s, tim_timeout = timeout, tim_wallclock = timeradd (io_wallclock io) timeout,
                   tim_cb = cb, tim_userdata = userdata, tim_once = once\<rparr>
          in Some (0, io_alloc (put_io q (io_count_up (io\<lparr>io_timer := t # io_timer io\<rparr>)) s))) p"

text \<open>\<open>io_sig_add\<close>: the return value, \<open>*reg\<close> and the list.\<close>

definition io_sig_add :: "bool \<Rightarrow> nat \<Rightarrow> int \<Rightarrow> 'w io_sys \<Rightarrow> int \<times> bool \<times> 'w io_sys" where
  "io_sig_add mem q sig s =
     (let found = \<exists>g \<in> set (sys_sigs s). sig_io g = q \<and> sig_sig g = sig
      in if \<not> found
         then if \<not> mem then (-1, False, s)
              else (0, True, s\<lparr>sys_sigs := \<lparr>sig_io = q, sig_sig = sig\<rparr> # sys_sigs s\<rparr>)
         else (0, False, s))"

definition dmr_io_reg_signal ::
  "bool \<times> bool \<Rightarrow> nat option \<Rightarrow> int \<Rightarrow> nat \<Rightarrow> nat \<Rightarrow> bool \<Rightarrow> 'w io_sys \<Rightarrow> (int \<times> 'w io_sys) option" where
  "dmr_io_reg_signal mems p sig cb userdata once = io_api (\<lambda>q io s.
     if \<not> fst mems then Some (-1, s)
     else case io_sig_add (snd mems) q sig s of
            (ret, reg, s) \<Rightarrow>
              if ret \<noteq> 0 then Some (-1, s)
              else let s = (if reg then s\<lparr>sys_installed := insert sig (sys_installed s)\<rparr> else s);
                       io = io_count_up (io_insert DMR_REQUEST_SIGNAL (new_entry s sig cb userdata once) io)
                   in Some (0, io_alloc (put_io q io s))) p"

text \<open>The first entry of the list with this descriptor and callback.\<close>

definition find_cb :: "dmr_request_type \<Rightarrow> int \<Rightarrow> nat \<Rightarrow> dmr_io \<Rightarrow> dmr_io_entry option" where
  "find_cb t fd cb io = find (\<lambda>e. ent_fd e = fd \<and> ent_cb e = cb) (io_entry io t)"

definition dmr_io_del_read :: "nat option \<Rightarrow> int \<Rightarrow> nat \<Rightarrow> 'w io_sys \<Rightarrow> (int \<times> 'w io_sys) option" where
  "dmr_io_del_read p fd cb = io_api (\<lambda>q io s.
     case find_cb DMR_REQUEST_READ fd cb io of
       None \<Rightarrow> Some (1, s)
     | Some e \<Rightarrow> do {
         io \<leftarrow> clr_readers fd (io_count_down (io_unlink DMR_REQUEST_READ (ent_addr e) io));
         Some (0, put_io q io s) }) p"

definition dmr_io_del_write :: "nat option \<Rightarrow> int \<Rightarrow> nat \<Rightarrow> 'w io_sys \<Rightarrow> (int \<times> 'w io_sys) option" where
  "dmr_io_del_write p fd cb = io_api (\<lambda>q io s.
     case find_cb DMR_REQUEST_WRITE fd cb io of
       None \<Rightarrow> Some (1, s)
     | Some e \<Rightarrow> do {
         io \<leftarrow> clr_writers fd (io_count_down (io_unlink DMR_REQUEST_WRITE (ent_addr e) io));
         Some (0, put_io q io s) }) p"

definition dmr_io_del_error :: "nat option \<Rightarrow> int \<Rightarrow> nat \<Rightarrow> 'w io_sys \<Rightarrow> (int \<times> 'w io_sys) option" where
  "dmr_io_del_error p fd cb = io_api (\<lambda>q io s.
     case find_cb DMR_REQUEST_ERROR fd cb io of
       None \<Rightarrow> Some (1, s)
     | Some e \<Rightarrow> do {
         io \<leftarrow> clr_errors fd (io_count_down (io_unlink DMR_REQUEST_ERROR (ent_addr e) io));
         Some (0, put_io q io s) }) p"

definition dmr_io_del_timer :: "nat option \<Rightarrow> nat \<Rightarrow> 'w io_sys \<Rightarrow> (int \<times> 'w io_sys) option" where
  "dmr_io_del_timer p cb = io_api (\<lambda>q io s.
     case find (\<lambda>t. tim_cb t = cb) (io_timer io) of
       None \<Rightarrow> Some (0, s)
     | Some t \<Rightarrow> Some (0, put_io q (io_count_down (tim_unlink (tim_addr t) io)) s)) p"

section \<open>Dispatch\<close>

text \<open>
  What every handler does with an entry that matches: call it, then read \<open>entry->once\<close>, and
  unlink and free the entry when it is set.  The callback may have freed the entry.
\<close>

definition io_run_entry ::
  "'w io_cbs \<Rightarrow> dmr_request_type \<Rightarrow> (int \<Rightarrow> dmr_io \<Rightarrow> dmr_io option) \<Rightarrow> nat \<Rightarrow> int \<Rightarrow> dmr_io_entry \<Rightarrow>
   'w io_sys \<Rightarrow> 'w io_sys option" where
  "io_run_entry cbs t clr q fd entry s = do {
     (ret, s) \<leftarrow> cb_fd cbs (ent_cb entry) q (ent_userdata entry) fd s;
     io \<leftarrow> sys_io s q;
     entry \<leftarrow> entry_at ent_addr (ent_addr entry) (io_entry io t);
     if ent_once entry
     then do { io \<leftarrow> clr fd (io_count_down (io_unlink t (ent_addr entry) io)); Some (put_io q io s) }
     else Some s }"

definition entries_of :: "dmr_request_type \<Rightarrow> nat \<Rightarrow> 'w io_sys \<Rightarrow> dmr_io_entry list option" where
  "entries_of t q s = map_option (\<lambda>io. io_entry io t) (sys_io s q)"

definition timers_of :: "nat \<Rightarrow> 'w io_sys \<Rightarrow> dmr_io_timer list option" where
  "timers_of q s = map_option io_timer (sys_io s q)"

definition io_handle_readable :: "'w io_cbs \<Rightarrow> nat \<Rightarrow> int \<Rightarrow> 'w io_sys \<Rightarrow> (int \<times> 'w io_sys) option" where
  "io_handle_readable cbs q fd s = do {
     xs \<leftarrow> entries_of DMR_REQUEST_READ q s;
     s \<leftarrow> foreach_safe (entries_of DMR_REQUEST_READ q) ent_addr
       (\<lambda>entry s. if ent_fd entry = fd then io_run_entry cbs DMR_REQUEST_READ clr_readers q fd entry s else Some s)
       (first_of ent_addr xs) s;
     Some (0, s) }"

text \<open>The other handlers return after the first entry that matches.\<close>

definition io_handle_first ::
  "'w io_cbs \<Rightarrow> dmr_request_type \<Rightarrow> (int \<Rightarrow> dmr_io \<Rightarrow> dmr_io option) \<Rightarrow> nat \<Rightarrow> int \<Rightarrow> 'w io_sys \<Rightarrow>
   (int \<times> 'w io_sys) option" where
  "io_handle_first cbs t clr q fd s = do {
     xs \<leftarrow> entries_of t q s;
     case find (\<lambda>entry. ent_fd entry = fd) xs of
       None \<Rightarrow> Some (0, s)
     | Some entry \<Rightarrow> do { s \<leftarrow> io_run_entry cbs t clr q fd entry s; Some (1, s) } }"

definition io_handle_writable :: "'w io_cbs \<Rightarrow> nat \<Rightarrow> int \<Rightarrow> 'w io_sys \<Rightarrow> (int \<times> 'w io_sys) option" where
  "io_handle_writable cbs q fd = io_handle_first cbs DMR_REQUEST_WRITE clr_writers q fd"

definition io_handle_error :: "'w io_cbs \<Rightarrow> nat \<Rightarrow> int \<Rightarrow> 'w io_sys \<Rightarrow> (int \<times> 'w io_sys) option" where
  "io_handle_error cbs q fd = io_handle_first cbs DMR_REQUEST_ERROR clr_writers q fd"

definition io_handle_signal :: "'w io_cbs \<Rightarrow> nat \<Rightarrow> int \<Rightarrow> 'w io_sys \<Rightarrow> (int \<times> 'w io_sys) option" where
  "io_handle_signal cbs q sig = io_handle_first cbs DMR_REQUEST_SIGNAL (\<lambda>_ io. Some io) q sig"

definition io_handle_close :: "'w io_cbs \<Rightarrow> nat \<Rightarrow> 'w io_sys \<Rightarrow> (int \<times> 'w io_sys) option" where
  "io_handle_close cbs q s = do {
     xs \<leftarrow> entries_of DMR_REQUEST_CLOSE q s;
     s \<leftarrow> foreach_safe (entries_of DMR_REQUEST_CLOSE q) ent_addr
       (\<lambda>entry s. do {
          (ret, s) \<leftarrow> cb_plain cbs (ent_cb entry) q (ent_userdata entry) s;
          io \<leftarrow> sys_io s q;
          entry \<leftarrow> entry_at ent_addr (ent_addr entry) (io_entry io DMR_REQUEST_CLOSE);
          Some (put_io q (io_unlink DMR_REQUEST_CLOSE (ent_addr entry) io) s) })
       (first_of ent_addr xs) s;
     Some (0, s) }"

text \<open>Entries of \<open>io_sig_head\<close> are never removed, so the list can only grow in front of the cursor.\<close>

fun io_sig_walk :: "'w io_cbs \<Rightarrow> int \<Rightarrow> io_sig list \<Rightarrow> 'w io_sys \<Rightarrow> 'w io_sys option" where
  "io_sig_walk cbs sig [] s = Some s"
| "io_sig_walk cbs sig (g # gs) s =
     (if sig_sig g = sig
      then (case io_handle_signal cbs (sig_io g) sig s of
              None \<Rightarrow> None
            | Some (ret, s) \<Rightarrow> if ret \<noteq> 0 then Some s else io_sig_walk cbs sig gs s)
      else io_sig_walk cbs sig gs s)"

definition io_sig_handle :: "'w io_cbs \<Rightarrow> int \<Rightarrow> 'w io_sys \<Rightarrow> 'w io_sys option" where
  "io_sig_handle cbs sig s = io_sig_walk cbs sig (sys_sigs s) s"

section \<open>Timers\<close>

text \<open>The loop of \<open>io_timeout\<close>: the number of timers seen and \<open>*timeout\<close>.\<close>

fun io_timeout_loop :: "timeval \<Rightarrow> dmr_io_timer list \<Rightarrow> int \<Rightarrow> timeval \<Rightarrow> int \<times> timeval" where
  "io_timeout_loop now [] timers timeout = (timers, timeout)"
| "io_timeout_loop now (t # ts) timers timeout =
     (let delta = timersub (tim_wallclock t) now
      in if tv_sec delta < 0 \<or> tv_usec delta < 0 then (1, \<lparr>tv_sec = 0, tv_usec = 0\<rparr>)
         else io_timeout_loop now ts (timers + 1) (if \<not> timer_less timeout delta then delta else timeout))"

definition io_timeout :: "dmr_io \<Rightarrow> int \<times> timeval" where
  "io_timeout io =
     (if io_timer io = [] then (0, io_default io)
      else io_timeout_loop (io_wallclock io) (io_timer io) 0 (io_default io))"

definition tim_update :: "nat \<Rightarrow> timeval \<Rightarrow> dmr_io \<Rightarrow> dmr_io" where
  "tim_update a tv io =
     io\<lparr>io_timer := map (\<lambda>t. if tim_addr t = a then t\<lparr>tim_wallclock := tv\<rparr> else t) (io_timer io)\<rparr>"

definition io_run_timer :: "'w io_cbs \<Rightarrow> nat \<Rightarrow> dmr_io_timer \<Rightarrow> 'w io_sys \<Rightarrow> 'w io_sys option" where
  "io_run_timer cbs q timer s = do {
     io \<leftarrow> sys_io s q;
     if \<not> timer_less (tim_wallclock timer) (io_wallclock io) then Some s
     else do {
       (ret, s) \<leftarrow> cb_plain cbs (tim_cb timer) q (tim_userdata timer) s;
       io \<leftarrow> sys_io s q;
       timer \<leftarrow> entry_at tim_addr (tim_addr timer) (io_timer io);
       if tim_once timer
       then Some (put_io q (io_count_down (tim_unlink (tim_addr timer) io)) s)
       else Some (put_io q (tim_update (tim_addr timer) (timeradd (io_wallclock io) (tim_timeout timer)) io) s) } }"

definition io_handle_timers :: "'w io_cbs \<Rightarrow> nat \<Rightarrow> timeval \<Rightarrow> 'w io_sys \<Rightarrow> 'w io_sys option" where
  "io_handle_timers cbs q now s = do {
     io \<leftarrow> sys_io s q;
     let s = put_io q (io\<lparr>io_wallclock := now\<rparr>) s;
     foreach_safe (timers_of q) tim_addr (io_run_timer cbs q) (first_of tim_addr (io_timer io)) s }"

section \<open>The loop\<close>

text \<open>
  What happens in one turn of the loop: the clock at its start and after \<open>select\<close>, the calls of
  \<open>select\<close> that fail with \<open>EAGAIN\<close> or, because a signal is handled, with \<open>EINTR\<close>, and the answer
  to the last call, which may depend on the timeout that it is given.  When \<open>select\<close> fails with
  another error, the sets are as they were.
\<close>

datatype sel_answer = Sel_ready "int set" "int set" "int set" | Sel_error | Sel_never

record io_turn =
  turn_now :: timeval
  turn_retries :: "int option list"
  turn_select :: "timeval option \<Rightarrow> sel_answer"
  turn_after :: timeval

definition select_fds :: "int \<Rightarrow> sel_answer \<Rightarrow> int set \<times> int set \<times> int set \<Rightarrow> (int set \<times> int set \<times> int set) option"
  where
  "select_fds n ans sets =
     (case (ans, sets) of
        (Sel_ready R W E, (r, w, e)) \<Rightarrow>
          Some (Set.filter (\<lambda>i. i \<in> R \<and> i < n) r, Set.filter (\<lambda>i. i \<in> W \<and> i < n) w,
                Set.filter (\<lambda>i. i \<in> E \<and> i < n) e)
      | (Sel_error, _) \<Rightarrow> Some sets
      | (Sel_never, _) \<Rightarrow> None)"

definition io_select_args :: "dmr_io \<Rightarrow> timeval option" where
  "io_select_args io = (case io_timeout io of (n, timeout) \<Rightarrow> if n \<noteq> 0 then Some timeout else None)"

fun io_wait ::
  "'w io_cbs \<Rightarrow> nat \<Rightarrow> (timeval option \<Rightarrow> sel_answer) \<Rightarrow> int set \<times> int set \<times> int set \<Rightarrow> int option list \<Rightarrow>
   'w io_sys \<Rightarrow> ((int set \<times> int set \<times> int set) \<times> 'w io_sys) option" where
  "io_wait cbs q ans sets [] s =
     (case sys_io s q of
        None \<Rightarrow> None
      | Some io \<Rightarrow> map_option (\<lambda>sets. (sets, s)) (select_fds (io_maxfd io + 1) (ans (io_select_args io)) sets))"
| "io_wait cbs q ans sets (None # rs) s = io_wait cbs q ans sets rs s"
| "io_wait cbs q ans sets (Some sig # rs) s =
     (case io_sig_handle cbs sig s of None \<Rightarrow> None | Some s \<Rightarrow> io_wait cbs q ans sets rs s)"

text \<open>The \<open>for\<close> loop over the descriptors; \<open>io->maxfd\<close> is read again in every turn.\<close>

function io_dispatch ::
  "'w io_cbs \<Rightarrow> nat \<Rightarrow> int set \<times> int set \<times> int set \<Rightarrow> int \<Rightarrow> 'w io_sys \<Rightarrow> 'w io_sys option" where
  "io_dispatch cbs q sets i s =
     (case sets of (rfds, wfds, efds) \<Rightarrow>
        case sys_io s q of
          None \<Rightarrow> None
        | Some io \<Rightarrow>
            if \<not> i < io_maxfd io + 1 then Some s
            else if \<not> (0 \<le> i \<and> i < FD_SETSIZE) then None
            else do {
              is_e \<leftarrow> FD_ISSET i efds;
              s \<leftarrow> (if is_e then map_option snd (io_handle_error cbs q i s) else Some s);
              is_r \<leftarrow> FD_ISSET i rfds;
              s \<leftarrow> (if is_r then map_option snd (io_handle_readable cbs q i s) else Some s);
              is_w \<leftarrow> FD_ISSET i wfds;
              s \<leftarrow> (if is_w then map_option snd (io_handle_writable cbs q i s) else Some s);
              io_dispatch cbs q sets (i + 1) s })"
  by pat_completeness auto
termination by (relation "measure (\<lambda>(cbs, q, sets, i, s). nat (FD_SETSIZE - i))") (auto simp: FD_SETSIZE_def)

declare io_dispatch.simps [simp del]

definition io_step :: "'w io_cbs \<Rightarrow> nat \<Rightarrow> io_turn \<Rightarrow> 'w io_sys \<Rightarrow> 'w io_sys option" where
  "io_step cbs q turn s = do {
     io \<leftarrow> sys_io s q;
     let sets = (io_readers io, io_writers io, io_errors io);
     let s = put_io q (io\<lparr>io_wallclock := turn_now turn\<rparr>) s;
     (sets, s) \<leftarrow> io_wait cbs q (turn_select turn) sets (turn_retries turn) s;
     s \<leftarrow> io_handle_timers cbs q (turn_after turn) s;
     io_dispatch cbs q sets 0 s }"

partial_function (option) io_loop_from ::
  "'w io_cbs \<Rightarrow> nat \<Rightarrow> (nat \<Rightarrow> io_turn) \<Rightarrow> nat \<Rightarrow> 'w io_sys \<Rightarrow> 'w io_sys option" where
  "io_loop_from cbs q env k s = do {
     io \<leftarrow> sys_io s q;
     if io_entries io > 0 \<and> \<not> io_closed io
     then do { s \<leftarrow> io_step cbs q (env k) s; io_loop_from cbs q env (Suc k) s }
     else Some s }"

definition dmr_io_loop ::
  "'w io_cbs \<Rightarrow> (nat \<Rightarrow> io_turn) \<Rightarrow> nat option \<Rightarrow> 'w io_sys \<Rightarrow> (int \<times> 'w io_sys) option" where
  "dmr_io_loop cbs env = io_api (\<lambda>q io s. do {
     s \<leftarrow> io_loop_from cbs q env 0 (put_io q (io\<lparr>io_closed := False\<rparr>) s);
     io_handle_close cbs q s })"

section \<open>Protocols\<close>

text \<open>The part of \<open>dmr_protocol\<close> of \<open>include/dmr/protocol.h\<close> that the loop uses.\<close>

record 'w dmr_protocol =
  init_io :: "(nat \<Rightarrow> nat \<Rightarrow> 'w io_sys \<Rightarrow> (int \<times> 'w io_sys) option) option"
  register_io :: "(nat \<Rightarrow> nat \<Rightarrow> 'w io_sys \<Rightarrow> (int \<times> 'w io_sys) option) option"

definition dmr_io_add_protocol ::
  "nat option \<Rightarrow> 'w dmr_protocol \<Rightarrow> nat \<Rightarrow> 'w io_sys \<Rightarrow> (int \<times> 'w io_sys) option" where
  "dmr_io_add_protocol p protocol inst s =
     (case p of
        None \<Rightarrow> Some (-1, s)
      | Some q \<Rightarrow>
          (case (init_io protocol, register_io protocol) of
             (Some init, Some register) \<Rightarrow> do {
               (ret, s) \<leftarrow> init q inst s;
               if ret = 0 then register q inst s else Some (ret, s) }
           | _ \<Rightarrow> Some (-1, s)))"

section \<open>The invariant\<close>

text \<open>
  Lists hold entries at distinct allocated addresses, the newest first; the counter is the number
  of entries outside the list of close callbacks; descriptors that are watched for reading or
  writing have an entry; all descriptors lie between 0 and \<open>maxfd\<close>, which is below the size of a
  descriptor set.
\<close>

definition newest_first :: "nat list \<Rightarrow> nat \<Rightarrow> bool" where
  "newest_first xs b \<longleftrightarrow> sorted_wrt (>) xs \<and> (\<forall>x \<in> set xs. x < b)"

definition io_count :: "dmr_io \<Rightarrow> int" where
  "io_count io = int (length (io_entry io DMR_REQUEST_SIGNAL) + length (io_entry io DMR_REQUEST_READ) +
     length (io_entry io DMR_REQUEST_WRITE) + length (io_entry io DMR_REQUEST_ERROR) + length (io_timer io))"

definition fds_in :: "int set \<Rightarrow> int \<Rightarrow> bool" where
  "fds_in S n \<longleftrightarrow> (\<forall>fd \<in> S. 0 \<le> fd \<and> fd \<le> n)"

definition io_fds :: "dmr_request_type \<Rightarrow> dmr_io \<Rightarrow> int set" where
  "io_fds t io = ent_fd ` set (io_entry io t)"

definition io_inv :: "nat \<Rightarrow> dmr_io \<Rightarrow> bool" where
  "io_inv b io \<longleftrightarrow>
     (\<forall>t. newest_first (map ent_addr (io_entry io t)) b) \<and>
     newest_first (map tim_addr (io_timer io)) b \<and>
     io_entries io = io_count io \<and>
     io_readers io \<subseteq> io_fds DMR_REQUEST_READ io \<and>
     io_writers io \<subseteq> io_fds DMR_REQUEST_WRITE io \<and>
     fds_in (io_errors io) (io_maxfd io) \<and>
     (\<forall>t \<in> {DMR_REQUEST_READ, DMR_REQUEST_WRITE, DMR_REQUEST_ERROR}. fds_in (io_fds t io) (io_maxfd io)) \<and>
     0 \<le> io_maxfd io \<and> io_maxfd io < FD_SETSIZE"

text \<open>
  All loops; and every signal that a loop has an entry for is in the list of the dispatcher, which
  is installed for it.
\<close>

definition sig_listed :: "'w io_sys \<Rightarrow> nat \<Rightarrow> int \<Rightarrow> bool" where
  "sig_listed s q sig \<longleftrightarrow> sig \<in> sys_installed s \<and> (\<exists>g \<in> set (sys_sigs s). sig_io g = q \<and> sig_sig g = sig)"

definition sys_inv :: "'w io_sys \<Rightarrow> bool" where
  "sys_inv s \<longleftrightarrow>
     (\<forall>q io. sys_io s q = Some io \<longrightarrow> q < sys_brk s \<and> io_inv (sys_brk s) io \<and>
        (\<forall>sig \<in> io_fds DMR_REQUEST_SIGNAL io. sig_listed s q sig)) \<and>
     (\<forall>g \<in> set (sys_sigs s). sig_sig g \<in> sys_installed s)"

lemma newest_firstI [simp]: "newest_first [] b"
  by (simp add: newest_first_def)

lemma newest_first_Cons: "newest_first xs b \<Longrightarrow> newest_first (b # xs) (Suc b)"
  by (auto simp: newest_first_def)

lemma newest_first_mono: "newest_first xs b \<Longrightarrow> b \<le> b' \<Longrightarrow> newest_first xs b'"
  by (auto simp: newest_first_def intro: less_le_trans)

lemma newest_first_filter: "newest_first (map f xs) b \<Longrightarrow> newest_first (map f (filter P xs)) b"
  by (auto simp: newest_first_def sorted_wrt_map intro: sorted_wrt_filter)

lemma newest_first_distinct: "newest_first xs b \<Longrightarrow> distinct xs"
  unfolding newest_first_def by (induction xs) auto

lemma length_unlink:
  assumes "newest_first (map f xs) b" "a \<in> f ` set xs"
  shows "Suc (length (filter (\<lambda>e. f e \<noteq> a) xs)) = length xs"
proof -
  have "distinct (map f xs)" by (rule newest_first_distinct [OF assms(1)])
  then show ?thesis using assms(2)
  proof (induction xs)
    case (Cons x xs)
    show ?case
    proof (cases "f x = a")
      case True
      with Cons.prems(1) have "\<forall>y \<in> set xs. f y \<noteq> a" by (metis distinct.simps(2) image_eqI list.map(2) set_map)
      then have "filter (\<lambda>e. f e \<noteq> a) xs = xs" by (simp add: filter_id_conv)
      with True show ?thesis by simp
    qed (use Cons in auto)
  qed simp
qed

lemma entry_atD: "entry_at adr a xs = Some e \<Longrightarrow> e \<in> set xs \<and> adr e = a"
  by (auto simp: entry_at_def find_Some_iff)

lemma io_inv_mono: "io_inv b io \<Longrightarrow> b \<le> b' \<Longrightarrow> io_inv b' io"
  unfolding io_inv_def by (meson newest_first_mono)

lemma sys_inv_put_io:
  assumes "sys_inv s" "q < sys_brk s" "io_inv (sys_brk s) io" "\<forall>sig \<in> io_fds DMR_REQUEST_SIGNAL io. sig_listed s q sig"
  shows "sys_inv (put_io q io s)"
  using assms by (auto simp: sys_inv_def put_io_def sig_listed_def)

lemma sys_inv_alloc: "sys_inv s \<Longrightarrow> sys_inv (io_alloc s)"
  unfolding sys_inv_def io_alloc_def sig_listed_def by (auto intro: io_inv_mono [OF _ le_SucI [OF le_refl]] less_SucI)

lemma sys_invD:
  assumes "sys_inv s" "sys_io s q = Some io"
  shows "q < sys_brk s" "io_inv (sys_brk s) io" "\<forall>sig \<in> io_fds DMR_REQUEST_SIGNAL io. sig_listed s q sig"
  using assms by (auto simp: sys_inv_def)

text \<open>
  An address is never given out twice: what has an old address was there before.
\<close>

definition io_evolves :: "'w io_sys \<Rightarrow> 'w io_sys \<Rightarrow> bool" where
  "io_evolves s s' \<longleftrightarrow> sys_brk s \<le> sys_brk s' \<and>
     (\<forall>q io' t e. sys_io s' q = Some io' \<longrightarrow> e \<in> set (io_entry io' t) \<longrightarrow> ent_addr e < sys_brk s \<longrightarrow>
        (\<exists>io. sys_io s q = Some io \<and> e \<in> set (io_entry io t)))"

lemma io_evolves_refl: "io_evolves s s"
  by (auto simp: io_evolves_def)

lemma io_evolves_trans: "io_evolves s s' \<Longrightarrow> io_evolves s' s'' \<Longrightarrow> io_evolves s s''"
  unfolding io_evolves_def by (meson le_trans less_le_trans)

lemma io_evolvesD:
  "io_evolves s s' \<Longrightarrow> sys_io s' q = Some io' \<Longrightarrow> e \<in> set (io_entry io' t) \<Longrightarrow> ent_addr e < sys_brk s \<Longrightarrow>
   sys_io s q = Some io \<Longrightarrow> e \<in> set (io_entry io t)"
  unfolding io_evolves_def by fastforce

definition io_keeps :: "('w io_sys \<Rightarrow> (int \<times> 'w io_sys) option) \<Rightarrow> bool" where
  "io_keeps f \<longleftrightarrow> (\<forall>s r s'. sys_inv s \<longrightarrow> f s = Some (r, s') \<longrightarrow> sys_inv s' \<and> io_evolves s s')"

lemma io_keepsD:
  assumes "io_keeps f" "sys_inv s" "f s = Some (r, s')"
  shows "sys_inv s'" "io_evolves s s'"
  using assms unfolding io_keeps_def by blast+

lemma keeps_api:
  assumes "\<And>q io s r s'. sys_inv s \<Longrightarrow> sys_io s q = Some io \<Longrightarrow> f q io s = Some (r, s') \<Longrightarrow>
    sys_inv s' \<and> io_evolves s s'"
  shows "io_keeps (io_api f p)"
  unfolding io_keeps_def io_api_def using assms by (auto simp: io_evolves_refl split: option.splits)

lemma put_alloc: "put_io q io (io_alloc s) = io_alloc (put_io q io s)"
  by (cases s) (simp add: put_io_def io_alloc_def)

text \<open>A change of one loop, and one that links a new entry.\<close>

lemma keeps_put:
  assumes "sys_inv s" "sys_io s q = Some io" "io_inv (sys_brk s) io'"
    and "\<And>t. set (io_entry io' t) \<subseteq> set (io_entry io t)"
  shows "sys_inv (put_io q io' s) \<and> io_evolves s (put_io q io' s)"
proof
  have "io_fds DMR_REQUEST_SIGNAL io' \<subseteq> io_fds DMR_REQUEST_SIGNAL io" unfolding io_fds_def using assms(4) by blast
  then show "sys_inv (put_io q io' s)" using sys_invD [OF assms(1,2)] assms(1,3) by (intro sys_inv_put_io) auto
  show "io_evolves s (put_io q io' s)"
    unfolding io_evolves_def put_io_def using assms(2,4) by (auto split: if_splits)
qed

lemma keeps_link:
  assumes "sys_inv s" "sys_io s q = Some io" "io_inv (Suc (sys_brk s)) io'"
    and "\<And>t. set (io_entry io' t) \<subseteq> insert (new_entry s fd cb u once) (set (io_entry io t))"
    and "\<And>sig. sig \<in> io_fds DMR_REQUEST_SIGNAL io' \<Longrightarrow> sig_listed s q sig"
  shows "sys_inv (io_alloc (put_io q io' s)) \<and> io_evolves s (io_alloc (put_io q io' s))"
proof
  have "sys_inv (put_io q io' (io_alloc s))"
    using sys_invD [OF assms(1,2)] assms(3,5) sys_inv_alloc [OF assms(1)]
    by (intro sys_inv_put_io) (auto simp: io_alloc_def sig_listed_def)
  then show "sys_inv (io_alloc (put_io q io' s))" by (simp only: put_alloc)
  show "io_evolves s (io_alloc (put_io q io' s))"
    unfolding io_evolves_def put_io_def io_alloc_def using assms(2,4)
    by (fastforce simp: new_entry_def split: if_splits)
qed

lemma io_fds_simps [simp]:
  "io_fds t (io\<lparr>io_readers := S\<rparr>) = io_fds t io" "io_fds t (io\<lparr>io_writers := S\<rparr>) = io_fds t io"
  "io_fds t (io\<lparr>io_errors := S\<rparr>) = io_fds t io" "io_fds t (io\<lparr>io_maxfd := n\<rparr>) = io_fds t io"
  "io_fds t (io_count_up io) = io_fds t io" "io_fds t (io_count_down io) = io_fds t io"
  "io_fds t (io\<lparr>io_closed := b\<rparr>) = io_fds t io" "io_fds t (io\<lparr>io_wallclock := tv\<rparr>) = io_fds t io"
  "io_fds t (io\<lparr>io_timer := ts\<rparr>) = io_fds t io"
  by (simp_all add: io_fds_def io_count_up_def io_count_down_def)

lemma io_fds_insert: "io_fds t' (io_insert t e io) = (if t' = t then insert (ent_fd e) (io_fds t io) else io_fds t' io)"
  by (simp add: io_fds_def io_insert_def)

lemma io_fds_unlink: "io_fds t' (io_unlink t a io) \<subseteq> io_fds t' io"
  by (auto simp: io_fds_def io_unlink_def)

lemma io_fds_unlink_other: "t' \<noteq> t \<Longrightarrow> io_fds t' (io_unlink t a io) = io_fds t' io"
  by (simp add: io_fds_def io_unlink_def)

lemma io_fds_unlink_rest:
  assumes "newest_first (map ent_addr (io_entry io t)) b" "e \<in> set (io_entry io t)"
  shows "io_fds t io - {ent_fd e} \<subseteq> io_fds t (io_unlink t (ent_addr e) io)"
  using newest_first_distinct [OF assms(1)] assms(2)
  by (auto simp: io_fds_def io_unlink_def distinct_map inj_on_def)

text \<open>Linking and unlinking in a list that the counter counts.\<close>

definition counted :: "dmr_request_type \<Rightarrow> bool" where
  "counted t \<longleftrightarrow> t \<in> {DMR_REQUEST_SIGNAL, DMR_REQUEST_READ, DMR_REQUEST_WRITE, DMR_REQUEST_ERROR}"

lemma io_count_link: "counted t \<Longrightarrow> io_count (io_insert t e io) = io_count io + 1"
  by (auto simp: counted_def io_count_def io_insert_def)

lemma io_count_unlink:
  assumes "counted t" "newest_first (map ent_addr (io_entry io t)) b" "e \<in> set (io_entry io t)"
  shows "io_count (io_unlink t (ent_addr e) io) = io_count io - 1"
proof -
  have "Suc (length (filter (\<lambda>x. ent_addr x \<noteq> ent_addr e) (io_entry io t))) = length (io_entry io t)"
    by (rule length_unlink [OF assms(2)]) (use assms(3) in simp)
  then show ?thesis using assms(1) unfolding counted_def io_count_def io_unlink_def by auto
qed

lemma io_invD:
  assumes "io_inv b io"
  shows "newest_first (map ent_addr (io_entry io t)) b" "newest_first (map tim_addr (io_timer io)) b"
    "io_entries io = io_count io"
    "io_readers io \<subseteq> io_fds DMR_REQUEST_READ io" "io_writers io \<subseteq> io_fds DMR_REQUEST_WRITE io"
    "fds_in (io_errors io) (io_maxfd io)" "fds_in (io_fds DMR_REQUEST_READ io) (io_maxfd io)"
    "fds_in (io_fds DMR_REQUEST_WRITE io) (io_maxfd io)" "fds_in (io_fds DMR_REQUEST_ERROR io) (io_maxfd io)"
    "0 \<le> io_maxfd io" "io_maxfd io < FD_SETSIZE"
  using assms unfolding io_inv_def by blast+

lemma fds_in_max: "fds_in S n \<Longrightarrow> fds_in S (max n m)"
  by (auto simp: fds_in_def)

lemma fds_in_mono: "fds_in S n \<Longrightarrow> T \<subseteq> S \<Longrightarrow> fds_in T n"
  by (auto simp: fds_in_def)

lemma fds_in_insert_max: "fds_in S n \<Longrightarrow> 0 \<le> fd \<Longrightarrow> fds_in (insert fd S) (max n fd)"
  by (auto simp: fds_in_def)

text \<open>
  Linking a new entry of a descriptor, and unlinking one.  Only the sets of the descriptors
  differ between the kinds of requests.
\<close>

lemma io_inv_link:
  assumes inv: "io_inv b io" and "ent_addr e = b" and t: "counted t"
    and fd: "t \<noteq> DMR_REQUEST_SIGNAL \<Longrightarrow> 0 \<le> ent_fd e \<and> ent_fd e < FD_SETSIZE"
    and m: "m = (if t = DMR_REQUEST_SIGNAL then io_maxfd io else max (io_maxfd io) (ent_fd e))"
    and "R = io_readers io \<or> t = DMR_REQUEST_READ \<and> R = insert (ent_fd e) (io_readers io)"
    and "W = io_writers io \<or> t = DMR_REQUEST_WRITE \<and> W = insert (ent_fd e) (io_writers io)"
    and "E = io_errors io \<or> t = DMR_REQUEST_ERROR \<and> E = insert (ent_fd e) (io_errors io)"
  shows "io_inv (Suc b) ((io_count_up (io_insert t e io))\<lparr>io_readers := R, io_writers := W, io_errors := E, io_maxfd := m\<rparr>)"
proof -
  note I = io_invD [OF inv]
  let ?io = "io_insert t e io"
  have nf: "newest_first (map ent_addr (io_entry ?io t')) (Suc b)" for t'
    using newest_first_Cons [OF I(1) [of t]] newest_first_mono [OF I(1) [of t']] assms(2)
    by (simp add: io_insert_def)
  have nt: "newest_first (map tim_addr (io_timer io)) (Suc b)" by (rule newest_first_mono [OF I(2)]) simp
  have cnt: "io_count ?io = io_entries io + 1" using io_count_link [OF t] I(3) by simp
  have fds: "fds_in (io_fds t' ?io) m" if "t' \<in> {DMR_REQUEST_READ, DMR_REQUEST_WRITE, DMR_REQUEST_ERROR}" for t'
    using that I(7-9) fd m by (auto simp: io_fds_insert intro: fds_in_max fds_in_insert_max)
  have err: "fds_in E m"
    using assms(8) I(6) fd m by (auto intro: fds_in_max fds_in_insert_max)
  have m_ok: "0 \<le> m" "m < FD_SETSIZE" using I(10,11) fd m by auto
  have RW: "R \<subseteq> io_fds DMR_REQUEST_READ ?io" "W \<subseteq> io_fds DMR_REQUEST_WRITE ?io"
    using assms(6,7) I(4,5) by (auto simp: io_fds_insert)
  let ?io' = "(io_count_up ?io)\<lparr>io_readers := R, io_writers := W, io_errors := E, io_maxfd := m\<rparr>"
  have eqs: "io_entry ?io' = io_entry ?io" "io_timer ?io' = io_timer io" "io_count ?io' = io_count ?io"
    "io_entries ?io' = io_entries io + 1" "\<And>t. io_fds t ?io' = io_fds t ?io" "io_readers ?io' = R"
    "io_writers ?io' = W" "io_errors ?io' = E" "io_maxfd ?io' = m"
    by (simp_all add: io_count_up_def io_insert_def io_count_def io_fds_def)
  show ?thesis unfolding io_inv_def eqs cnt using nf nt fds err m_ok RW by blast
qed

lemma io_inv_unlink:
  assumes inv: "io_inv b io" and e: "e \<in> set (io_entry io t)" and t: "counted t"
    and "R \<subseteq> io_readers io" and "t = DMR_REQUEST_READ \<Longrightarrow> ent_fd e \<notin> R"
    and "W \<subseteq> io_writers io" and "t = DMR_REQUEST_WRITE \<Longrightarrow> ent_fd e \<notin> W"
    and "E \<subseteq> io_errors io"
  shows "io_inv b ((io_count_down (io_unlink t (ent_addr e) io))\<lparr>io_readers := R, io_writers := W, io_errors := E\<rparr>)"
proof -
  note I = io_invD [OF inv]
  let ?io = "io_unlink t (ent_addr e) io"
  let ?io' = "(io_count_down ?io)\<lparr>io_readers := R, io_writers := W, io_errors := E\<rparr>"
  have nf: "newest_first (map ent_addr (io_entry ?io t')) b" for t'
    using I(1) [of t'] newest_first_filter [OF I(1) [of t]] by (simp add: io_unlink_def)
  have rest: "io_fds t io - {ent_fd e} \<subseteq> io_fds t ?io" by (rule io_fds_unlink_rest [OF I(1) e])
  have sets: "R \<subseteq> io_fds DMR_REQUEST_READ ?io" "W \<subseteq> io_fds DMR_REQUEST_WRITE ?io"
    using rest I(4) assms(4,5) io_fds_unlink_other [of DMR_REQUEST_READ t]
    apply (cases "t = DMR_REQUEST_READ", blast, blast)
    using rest I(5) assms(6,7) io_fds_unlink_other [of DMR_REQUEST_WRITE t]
    apply (cases "t = DMR_REQUEST_WRITE", blast, blast)
    done
  have fds: "fds_in (io_fds t' ?io) (io_maxfd io)"
    if "t' \<in> {DMR_REQUEST_READ, DMR_REQUEST_WRITE, DMR_REQUEST_ERROR}" for t'
    using that I(7-9) fds_in_mono [OF _ io_fds_unlink] by blast
  have err: "fds_in E (io_maxfd io)" by (rule fds_in_mono [OF I(6) assms(8)])
  have cnt: "io_count ?io = io_entries io - 1" using io_count_unlink [OF t I(1) e] I(3) by simp
  have eqs: "io_entry ?io' = io_entry ?io" "io_timer ?io' = io_timer io" "io_count ?io' = io_count ?io"
    "io_entries ?io' = io_entries io - 1" "\<And>t. io_fds t ?io' = io_fds t ?io" "io_readers ?io' = R"
    "io_writers ?io' = W" "io_errors ?io' = E" "io_maxfd ?io' = io_maxfd io"
    by (simp_all add: io_count_down_def io_unlink_def io_count_def io_fds_def)
  show ?thesis unfolding io_inv_def eqs cnt using nf I(2,10,11) fds err sets by blast
qed

text \<open>Timers, the list of close callbacks, and the fields that the invariant does not mention.\<close>

lemma io_inv_timers:
  assumes "io_inv b io" "newest_first (map tim_addr ts) b'" "b \<le> b'"
    "n = io_entries io + (int (length ts) - int (length (io_timer io)))"
  shows "io_inv b' (io\<lparr>io_timer := ts, io_entries := n\<rparr>)"
  using io_inv_mono [OF assms(1,3)] assms(2,4) by (auto simp: io_inv_def io_count_def io_fds_def)

lemma io_inv_close_list:
  assumes "io_inv b io" "newest_first (map ent_addr es) b'" "b \<le> b'"
  shows "io_inv b' (io\<lparr>io_entry := (io_entry io)(DMR_REQUEST_CLOSE := es)\<rparr>)"
  using io_inv_mono [OF assms(1,3)] assms(2) by (auto simp: io_inv_def io_count_def io_fds_def)

lemma io_inv_other [simp]:
  "io_inv b (io\<lparr>io_closed := c\<rparr>) = io_inv b io" "io_inv b (io\<lparr>io_wallclock := tv\<rparr>) = io_inv b io"
  by (simp_all add: io_inv_def io_count_def io_fds_def)

lemma io_inv_tim_unlink:
  assumes "io_inv b io" "t \<in> set (io_timer io)"
  shows "io_inv b (io_count_down (tim_unlink (tim_addr t) io))"
proof -
  note I = io_invD [OF assms(1)]
  have "Suc (length (filter (\<lambda>x. tim_addr x \<noteq> tim_addr t) (io_timer io))) = length (io_timer io)"
    by (rule length_unlink [OF I(2)]) (use assms(2) in simp)
  then show ?thesis
    using io_inv_timers [OF assms(1) newest_first_filter [where P = "\<lambda>x. tim_addr x \<noteq> tim_addr t", OF I(2)] le_refl,
        where n = "io_entries io - 1"]
    by (simp add: io_count_down_def tim_unlink_def)
qed

lemma map_tim_update [simp]: "map tim_addr (io_timer (tim_update a tv io)) = map tim_addr (io_timer io)"
  by (simp add: tim_update_def)

lemma io_inv_tim_update: "io_inv b io \<Longrightarrow> io_inv b (tim_update a tv io)"
  using io_inv_timers [of b io "io_timer (tim_update a tv io)" b "io_entries io"] io_invD(2) [of b io]
  by (simp only: map_tim_update) (simp add: tim_update_def)

section \<open>The interface keeps the invariant\<close>

lemma FD_SET_Some [simp]: "FD_SET fd S = Some S' \<longleftrightarrow> 0 \<le> fd \<and> fd < FD_SETSIZE \<and> S' = insert fd S"
  by (auto simp: FD_SET_def)

lemma clr_Some:
  "clr_readers fd io = Some io' \<Longrightarrow> io' = io\<lparr>io_readers := io_readers io - {fd}\<rparr>"
  "clr_writers fd io = Some io' \<Longrightarrow> io' = io\<lparr>io_writers := io_writers io - {fd}\<rparr>"
  "clr_errors fd io = Some io' \<Longrightarrow> io' = io\<lparr>io_errors := io_errors io - {fd}\<rparr>"
  by (auto simp: clr_readers_def clr_writers_def clr_errors_def FD_CLR_def split: if_splits)

lemma clr_frame:
  assumes "clr \<in> {clr_readers, clr_writers, clr_errors, \<lambda>_ io. Some io}" "clr fd io = Some io'"
  shows "io' = io\<lparr>io_readers := io_readers io', io_writers := io_writers io', io_errors := io_errors io'\<rparr>"
  using assms by (cases io) (auto simp: clr_readers_def clr_writers_def clr_errors_def)

lemma keeps_reg_fd:
  assumes inv: "sys_inv s" and q: "sys_io s q = Some io"
    and t: "t \<in> {DMR_REQUEST_READ, DMR_REQUEST_WRITE, DMR_REQUEST_ERROR}" and fd: "0 \<le> fd" "fd < FD_SETSIZE"
    and io': "io' = (io_count_up (io_insert t (new_entry s fd cb u once) io))
      \<lparr>io_readers := R, io_writers := W, io_errors := E, io_maxfd := max (io_maxfd io) fd\<rparr>"
    and "R = io_readers io \<or> t = DMR_REQUEST_READ \<and> R = insert fd (io_readers io)"
    and "W = io_writers io \<or> t = DMR_REQUEST_WRITE \<and> W = insert fd (io_writers io)"
    and "E = io_errors io \<or> t = DMR_REQUEST_ERROR \<and> E = insert fd (io_errors io)"
  shows "sys_inv (io_alloc (put_io q io' s)) \<and> io_evolves s (io_alloc (put_io q io' s))"
proof (rule keeps_link [OF inv q])
  let ?e = "new_entry s fd cb u once"
  have e: "ent_addr ?e = sys_brk s" "ent_fd ?e = fd" by (simp_all add: new_entry_def)
  have c: "counted t" using t by (auto simp: counted_def)
  show "io_inv (Suc (sys_brk s)) io'"
    unfolding io' using t fd assms(7-9) by (intro io_inv_link [OF sys_invD(2) [OF inv q] e(1) c]) (auto simp: e)
  show "set (io_entry io' t') \<subseteq> insert ?e (set (io_entry io t'))" for t'
    by (auto simp: io' io_count_up_def io_insert_def)
  show "sig_listed s q sig" if "sig \<in> io_fds DMR_REQUEST_SIGNAL io'" for sig
    using that t sys_invD(3) [OF inv q] by (auto simp: io' io_fds_insert)
qed

lemma reg_read_keeps: "io_keeps (dmr_io_reg_read mem p fd cb u once)"
  unfolding dmr_io_reg_read_def
proof (rule keeps_api)
  fix q io s r s'
  assume inv: "sys_inv s" "sys_io s q = Some io"
    and step: "(if \<not> mem then Some (-1, s) else do {
       let io = io_count_up (io_insert DMR_REQUEST_READ (new_entry s fd cb u once) io);
       S \<leftarrow> FD_SET fd (io_readers io);
       Some (0, io_alloc (put_io q (io\<lparr>io_readers := S, io_maxfd := max (io_maxfd io) fd\<rparr>) s)) }) = Some (r, s')"
  show "sys_inv s' \<and> io_evolves s s'"
  proof (cases mem)
    case True
    let ?io = "io_count_up (io_insert DMR_REQUEST_READ (new_entry s fd cb u once) io)"
    from step True have fd: "0 \<le> fd" "fd < FD_SETSIZE"
      and s': "s' = io_alloc (put_io q (?io\<lparr>io_readers := insert fd (io_readers ?io), io_maxfd := max (io_maxfd ?io) fd\<rparr>) s)"
      by (auto simp: Let_def bind_eq_Some_conv)
    show ?thesis unfolding s'
      by (rule keeps_reg_fd [OF inv _ fd, where t = DMR_REQUEST_READ and R = "insert fd (io_readers io)" and
            W = "io_writers io" and E = "io_errors io"])
        (cases io; simp add: io_count_up_def io_insert_def)+
  qed (use inv step in \<open>simp add: io_evolves_refl\<close>)
qed

lemma reg_write_keeps: "io_keeps (dmr_io_reg_write mem p fd cb u once)"
  unfolding dmr_io_reg_write_def
proof (rule keeps_api)
  fix q io s r s'
  assume inv: "sys_inv s" "sys_io s q = Some io"
    and step: "(if \<not> mem then Some (-1, s) else do {
       let io = io_count_up (io_insert DMR_REQUEST_WRITE (new_entry s fd cb u once) io);
       S \<leftarrow> FD_SET fd (io_writers io);
       Some (0, io_alloc (put_io q (io\<lparr>io_writers := S, io_maxfd := max (io_maxfd io) fd\<rparr>) s)) }) = Some (r, s')"
  show "sys_inv s' \<and> io_evolves s s'"
  proof (cases mem)
    case True
    let ?io = "io_count_up (io_insert DMR_REQUEST_WRITE (new_entry s fd cb u once) io)"
    from step True have fd: "0 \<le> fd" "fd < FD_SETSIZE"
      and s': "s' = io_alloc (put_io q (?io\<lparr>io_writers := insert fd (io_writers ?io), io_maxfd := max (io_maxfd ?io) fd\<rparr>) s)"
      by (auto simp: Let_def bind_eq_Some_conv)
    show ?thesis unfolding s'
      by (rule keeps_reg_fd [OF inv _ fd, where t = DMR_REQUEST_WRITE and R = "io_readers io" and
            W = "insert fd (io_writers io)" and E = "io_errors io"])
        (cases io; simp add: io_count_up_def io_insert_def)+
  qed (use inv step in \<open>simp add: io_evolves_refl\<close>)
qed

lemma reg_error_keeps: "io_keeps (dmr_io_reg_error mem p fd cb u once)"
  unfolding dmr_io_reg_error_def
proof (rule keeps_api)
  fix q io s r s'
  assume inv: "sys_inv s" "sys_io s q = Some io"
    and step: "(if \<not> mem then Some (-1, s) else do {
       let io = io_count_up (io_insert DMR_REQUEST_ERROR (new_entry s fd cb u once) io);
       S \<leftarrow> FD_SET fd (io_errors io);
       Some (0, io_alloc (put_io q (io\<lparr>io_errors := S, io_maxfd := max (io_maxfd io) fd\<rparr>) s)) }) = Some (r, s')"
  show "sys_inv s' \<and> io_evolves s s'"
  proof (cases mem)
    case True
    let ?io = "io_count_up (io_insert DMR_REQUEST_ERROR (new_entry s fd cb u once) io)"
    from step True have fd: "0 \<le> fd" "fd < FD_SETSIZE"
      and s': "s' = io_alloc (put_io q (?io\<lparr>io_errors := insert fd (io_errors ?io), io_maxfd := max (io_maxfd ?io) fd\<rparr>) s)"
      by (auto simp: Let_def bind_eq_Some_conv)
    show ?thesis unfolding s'
      by (rule keeps_reg_fd [OF inv _ fd, where t = DMR_REQUEST_ERROR and R = "io_readers io" and
            W = "io_writers io" and E = "insert fd (io_errors io)"])
        (cases io; simp add: io_count_up_def io_insert_def)+
  qed (use inv step in \<open>simp add: io_evolves_refl\<close>)
qed

lemma keeps_unlink:
  assumes inv: "sys_inv s" "sys_io s q = Some io" and e: "e \<in> set (io_entry io t)" and t: "counted t"
    and clr: "clr fd (io_count_down (io_unlink t (ent_addr e) io)) = Some io'" and "ent_fd e = fd"
    and "t = DMR_REQUEST_READ \<and> clr = clr_readers \<or> t = DMR_REQUEST_WRITE \<and> clr = clr_writers \<or>
      t = DMR_REQUEST_ERROR \<and> clr \<in> {clr_errors, clr_writers} \<or> t = DMR_REQUEST_SIGNAL \<and> clr = (\<lambda>_ io. Some io)"
  shows "sys_inv (put_io q io' s) \<and> io_evolves s (put_io q io' s)"
proof (rule keeps_put [OF inv])
  let ?io = "io_count_down (io_unlink t (ent_addr e) io)"
  obtain R W E where io': "io' = ?io\<lparr>io_readers := R, io_writers := W, io_errors := E\<rparr>"
    and "R \<subseteq> io_readers io" "t = DMR_REQUEST_READ \<Longrightarrow> fd \<notin> R" "W \<subseteq> io_writers io"
    "t = DMR_REQUEST_WRITE \<Longrightarrow> fd \<notin> W" "E \<subseteq> io_errors io"
  proof
    have fields: "io_readers ?io = io_readers io" "io_writers ?io = io_writers io" "io_errors ?io = io_errors io"
      by (simp_all add: io_count_down_def io_unlink_def)
    show "io' = ?io\<lparr>io_readers := io_readers io', io_writers := io_writers io', io_errors := io_errors io'\<rparr>"
      using assms(7) clr clr_frame by auto
    show "io_readers io' \<subseteq> io_readers io" "t = DMR_REQUEST_READ \<Longrightarrow> fd \<notin> io_readers io'" "io_writers io' \<subseteq> io_writers io"
      "t = DMR_REQUEST_WRITE \<Longrightarrow> fd \<notin> io_writers io'" "io_errors io' \<subseteq> io_errors io"
      using assms(7) clr fields by (auto dest: clr_Some)
  qed
  then show "io_inv (sys_brk s) io'"
    unfolding io' using assms(6) by (intro io_inv_unlink [OF sys_invD(2) [OF inv] e t]) auto
  show "set (io_entry io' t') \<subseteq> set (io_entry io t')" for t'
    by (auto simp: io' io_count_down_def io_unlink_def)
qed

lemma find_cbD: "find_cb t fd cb io = Some e \<Longrightarrow> e \<in> set (io_entry io t) \<and> ent_fd e = fd"
  by (auto simp: find_cb_def find_Some_iff)

lemma keeps_del:
  assumes "t = DMR_REQUEST_READ \<and> clr = clr_readers \<or> t = DMR_REQUEST_WRITE \<and> clr = clr_writers \<or>
    t = DMR_REQUEST_ERROR \<and> clr = clr_errors"
  shows "io_keeps (io_api (\<lambda>q io s. case find_cb t fd cb io of
       None \<Rightarrow> Some (1, s)
     | Some e \<Rightarrow> clr fd (io_count_down (io_unlink t (ent_addr e) io)) \<bind> (\<lambda>io. Some (0, put_io q io s))) p)"
proof (rule keeps_api, clarsimp simp: io_evolves_refl bind_eq_Some_conv split: option.splits)
  fix q io s e io'
  assume "sys_inv s" "sys_io s q = Some io" "find_cb t fd cb io = Some e"
    "clr fd (io_count_down (io_unlink t (ent_addr e) io)) = Some io'"
  then show "sys_inv (put_io q io' s) \<and> io_evolves s (put_io q io' s)"
    using assms by (intro keeps_unlink [where clr = clr and t = t and e = e and fd = fd]) (auto simp: counted_def dest: find_cbD)
qed

lemma del_fd_keeps:
  "io_keeps (dmr_io_del_read p fd cb)" "io_keeps (dmr_io_del_write p fd cb)" "io_keeps (dmr_io_del_error p fd cb)"
  unfolding dmr_io_del_read_def dmr_io_del_write_def dmr_io_del_error_def by (rule keeps_del; simp)+

lemma reg_close_keeps: "io_keeps (dmr_io_reg_close mem p cb u)"
  unfolding dmr_io_reg_close_def
proof (rule keeps_api, clarsimp simp: io_evolves_refl split: if_splits)
  fix q io and s :: "'w io_sys"
  assume inv: "sys_inv s" "sys_io s q = Some io"
  let ?e = "new_entry s 0 cb u True"
  let ?io = "io_insert DMR_REQUEST_CLOSE ?e io"
  have "newest_first (map ent_addr (?e # io_entry io DMR_REQUEST_CLOSE)) (Suc (sys_brk s))"
    using newest_first_Cons [OF io_invD(1) [OF sys_invD(2) [OF inv]]] by (simp add: new_entry_def)
  then have "io_inv (Suc (sys_brk s)) ?io"
    unfolding io_insert_def by (intro io_inv_close_list [OF sys_invD(2) [OF inv]]) simp_all
  then show "sys_inv (io_alloc (put_io q ?io s)) \<and> io_evolves s (io_alloc (put_io q ?io s))"
    using sys_invD(3) [OF inv] by (intro keeps_link [OF inv]) (auto simp: io_insert_def io_fds_def)
qed

lemma io_close_keeps: "io_keeps (dmr_io_close p)"
  unfolding dmr_io_close_def by (rule keeps_api, clarsimp, rule keeps_put) (auto dest: sys_invD)

lemma io_free_keeps: "io_keeps (dmr_io_free p)"
  unfolding io_keeps_def dmr_io_free_def
  by (auto simp: io_evolves_def sys_inv_def sig_listed_def split: option.splits if_splits)

lemma reg_timer_keeps: "io_keeps (dmr_io_reg_timer mem p tv cb u once)"
  unfolding dmr_io_reg_timer_def
proof (rule keeps_api, clarsimp simp: io_evolves_refl Let_def split: if_splits)
  fix q io and s :: "'w io_sys"
  assume inv: "sys_inv s" "sys_io s q = Some io"
  let ?t = "\<lparr>tim_addr = sys_brk s, tim_timeout = tv, tim_wallclock = timeradd (io_wallclock io) tv, tim_cb = cb,
    tim_userdata = u, tim_once = once\<rparr>"
  let ?io = "io_count_up (io\<lparr>io_timer := ?t # io_timer io\<rparr>)"
  have "newest_first (map tim_addr (?t # io_timer io)) (Suc (sys_brk s))"
    using newest_first_Cons [OF io_invD(2) [OF sys_invD(2) [OF inv]]] by simp
  then have "io_inv (Suc (sys_brk s)) ?io"
    using io_inv_timers [OF sys_invD(2) [OF inv], where b' = "Suc (sys_brk s)" and ts = "?t # io_timer io" and
        n = "io_entries io + 1"]
    by (simp add: io_count_up_def)
  then show "sys_inv (io_alloc (put_io q ?io s)) \<and> io_evolves s (io_alloc (put_io q ?io s))"
    using sys_invD(3) [OF inv] by (intro keeps_link [OF inv]) (auto simp: io_count_up_def io_fds_def)
qed

lemma del_timer_keeps: "io_keeps (dmr_io_del_timer p cb)"
  unfolding dmr_io_del_timer_def
proof (rule keeps_api, clarsimp simp: io_evolves_refl split: option.splits)
  fix q io t and s :: "'w io_sys"
  assume inv: "sys_inv s" "sys_io s q = Some io" and t: "find (\<lambda>t. tim_cb t = cb) (io_timer io) = Some t"
  show "sys_inv (put_io q (io_count_down (tim_unlink (tim_addr t) io)) s) \<and>
    io_evolves s (put_io q (io_count_down (tim_unlink (tim_addr t) io)) s)"
    using t by (intro keeps_put [OF inv] io_inv_tim_unlink [OF sys_invD(2) [OF inv]])
      (auto simp: find_Some_iff io_count_down_def tim_unlink_def)
qed

lemma io_sig_add_inv:
  assumes "sys_inv s" "io_sig_add mem q sig s = (0, reg, s1)"
    and s2: "s2 = (if reg then s1\<lparr>sys_installed := insert sig (sys_installed s1)\<rparr> else s1)"
  shows "sys_inv s2" "sig_listed s2 q sig" "sys_io s2 = sys_io s" "sys_brk s2 = sys_brk s"
  using assms(1,2) unfolding s2
  by (auto simp: io_sig_add_def Let_def sys_inv_def sig_listed_def split: if_splits)

lemma reg_signal_keeps: "io_keeps (dmr_io_reg_signal mems p sig cb u once)"
  unfolding dmr_io_reg_signal_def
proof (rule keeps_api)
  fix q io s r s'
  assume inv: "sys_inv s" and q: "sys_io s q = Some io"
    and step: "(if \<not> fst mems then Some (-1, s)
     else case io_sig_add (snd mems) q sig s of
            (ret, reg, s) \<Rightarrow>
              if ret \<noteq> 0 then Some (-1, s)
              else let s = (if reg then s\<lparr>sys_installed := insert sig (sys_installed s)\<rparr> else s);
                       io = io_count_up (io_insert DMR_REQUEST_SIGNAL (new_entry s sig cb u once) io)
                   in Some (0, io_alloc (put_io q io s))) = Some (r, s')"
  obtain ret reg s1 where add: "io_sig_add (snd mems) q sig s = (ret, reg, s1)" by (metis surj_pair)
  define s2 where "s2 = (if reg then s1\<lparr>sys_installed := insert sig (sys_installed s1)\<rparr> else s1)"
  let ?e = "new_entry s2 sig cb u once"
  let ?io = "io_count_up (io_insert DMR_REQUEST_SIGNAL ?e io)"
  show "sys_inv s' \<and> io_evolves s s'"
  proof (cases "fst mems \<and> ret = 0")
    case True
    then have s': "s' = io_alloc (put_io q ?io s2)" using step add by (simp add: s2_def Let_def)
    note I = io_sig_add_inv [OF inv add [unfolded True [THEN conjunct2]] s2_def]
    have q2: "sys_io s2 q = Some io" using q I(3) by simp
    have "io_inv (Suc (sys_brk s2)) ?io"
      using io_inv_link [OF sys_invD(2) [OF I(1) q2], of ?e DMR_REQUEST_SIGNAL "io_maxfd io" "io_readers io" "io_writers io"
          "io_errors io"]
      by (cases io) (simp add: new_entry_def counted_def io_count_up_def io_insert_def)
    then have "sys_inv s' \<and> io_evolves s2 s'" unfolding s'
      using sys_invD(3) [OF I(1) q2] I(2)
      by (intro keeps_link [OF I(1) q2, where fd = sig and cb = cb and u = u and once = once])
        (auto simp: io_count_up_def io_insert_def io_fds_def new_entry_def)
    then show ?thesis using I(3,4) by (auto simp: io_evolves_def)
  next
    case False
    then have "s' = s" using step add by (auto simp: io_sig_add_def Let_def split: if_splits)
    then show ?thesis using inv by (simp add: io_evolves_refl)
  qed
qed

lemma io_new_keeps:
  assumes "sys_inv s" "dmr_io_new mems now s = (p, s')"
  shows "sys_inv s' \<and> io_evolves s s'"
proof (cases "s' = s")
  case False
  let ?io = "\<lparr>io_entry = (\<lambda>_. []), io_timer = [], io_default = \<lparr>tv_sec = 1, tv_usec = 0\<rparr>, io_entries = 0,
    io_maxfd = 0, io_wallclock = now, io_readers = {}, io_writers = {}, io_errors = {}, io_closed = False\<rparr>"
  from False assms(2) have s': "s' = io_alloc (put_io (sys_brk s) ?io s)"
    by (auto simp: dmr_io_new_def split: if_splits)
  have "io_inv b ?io" for b by (simp add: io_inv_def io_fds_def io_count_def fds_in_def FD_SETSIZE_def)
  then have "sys_inv (put_io (sys_brk s) ?io (io_alloc s))"
    by (intro sys_inv_put_io sys_inv_alloc [OF assms(1)]) (simp_all add: io_alloc_def io_fds_def)
  then show ?thesis unfolding s' put_alloc by (simp add: io_evolves_def io_alloc_def put_io_def)
qed (use assms io_evolves_refl in simp)

section \<open>Programs over the interface\<close>

text \<open>
  A client that uses nothing but the interface: its callbacks compute on the client's state and
  call the functions above, each call depending on the results of the earlier ones.  A new loop is
  reported by its address plus one, and 0 when there is none.
\<close>

datatype io_call =
    Call_new "bool list" timeval
  | Call_close "nat option"
  | Call_free "nat option"
  | Call_reg_signal "bool \<times> bool" "nat option" int nat nat bool
  | Call_reg_read bool "nat option" int nat nat bool
  | Call_reg_write bool "nat option" int nat nat bool
  | Call_reg_error bool "nat option" int nat nat bool
  | Call_reg_close bool "nat option" nat nat
  | Call_reg_timer bool "nat option" timeval nat nat bool
  | Call_del_read "nat option" int nat
  | Call_del_write "nat option" int nat
  | Call_del_error "nat option" int nat
  | Call_del_timer "nat option" nat

fun run_call :: "io_call \<Rightarrow> 'w io_sys \<Rightarrow> (int \<times> 'w io_sys) option" where
  "run_call (Call_new mems now) s =
     (case dmr_io_new mems now s of (None, s) \<Rightarrow> Some (0, s) | (Some q, s) \<Rightarrow> Some (int q + 1, s))"
| "run_call (Call_close p) s = dmr_io_close p s"
| "run_call (Call_free p) s = dmr_io_free p s"
| "run_call (Call_reg_signal mems p sig cb u once) s = dmr_io_reg_signal mems p sig cb u once s"
| "run_call (Call_reg_read mem p fd cb u once) s = dmr_io_reg_read mem p fd cb u once s"
| "run_call (Call_reg_write mem p fd cb u once) s = dmr_io_reg_write mem p fd cb u once s"
| "run_call (Call_reg_error mem p fd cb u once) s = dmr_io_reg_error mem p fd cb u once s"
| "run_call (Call_reg_close mem p cb u) s = dmr_io_reg_close mem p cb u s"
| "run_call (Call_reg_timer mem p tv cb u once) s = dmr_io_reg_timer mem p tv cb u once s"
| "run_call (Call_del_read p fd cb) s = dmr_io_del_read p fd cb s"
| "run_call (Call_del_write p fd cb) s = dmr_io_del_write p fd cb s"
| "run_call (Call_del_error p fd cb) s = dmr_io_del_error p fd cb s"
| "run_call (Call_del_timer p cb) s = dmr_io_del_timer p cb s"

datatype 'w io_prog = Ret int 'w | Call io_call "int \<Rightarrow> 'w io_prog"

primrec run_prog :: "'w io_prog \<Rightarrow> 'w io_sys \<Rightarrow> (int \<times> 'w io_sys) option" where
  "run_prog (Ret r w) s = Some (r, s\<lparr>sys_world := w\<rparr>)"
| "run_prog (Call c k) s = (case run_call c s of None \<Rightarrow> None | Some (r, s) \<Rightarrow> run_prog (k r) s)"

text \<open>A client: what its callbacks do, from the arguments and the client's state.\<close>

record 'w io_client =
  cl_fd :: "nat \<Rightarrow> nat \<Rightarrow> nat \<Rightarrow> int \<Rightarrow> 'w \<Rightarrow> 'w io_prog"
  cl_plain :: "nat \<Rightarrow> nat \<Rightarrow> nat \<Rightarrow> 'w \<Rightarrow> 'w io_prog"

definition client_cbs :: "'w io_client \<Rightarrow> 'w io_cbs" where
  "client_cbs cl =
     \<lparr>cb_fd = (\<lambda>cb q u fd s. run_prog (cl_fd cl cb q u fd (sys_world s)) s),
      cb_plain = (\<lambda>cb q u s. run_prog (cl_plain cl cb q u (sys_world s)) s)\<rparr>"

lemma run_call_keeps: "io_keeps (run_call c)"
proof (cases c)
  case (Call_new mems now)
  have "sys_inv s' \<and> io_evolves s s'" if "sys_inv s" "run_call c s = Some (r, s')" for s s' :: "'a io_sys" and r
  proof -
    obtain p s1 where new: "dmr_io_new mems now s = (p, s1)" by (metis surj_pair)
    then have "s1 = s'" using that(2) Call_new by (cases p) auto
    then show ?thesis using io_new_keeps [OF that(1) new] by simp
  qed
  then show ?thesis unfolding io_keeps_def by blast
qed (use io_close_keeps io_free_keeps reg_signal_keeps reg_read_keeps reg_write_keeps reg_error_keeps reg_close_keeps
    reg_timer_keeps del_fd_keeps del_timer_keeps in \<open>simp_all add: io_keeps_def\<close>)

lemma io_keeps_world: "sys_inv (s\<lparr>sys_world := w\<rparr>) = sys_inv s" "io_evolves s (s\<lparr>sys_world := w\<rparr>)"
  by (auto simp: sys_inv_def sig_listed_def io_evolves_def)

lemma run_prog_keeps: "io_keeps (run_prog c)"
proof (induction c)
  case (Ret r w)
  then show ?case by (simp add: io_keeps_def io_keeps_world)
next
  case (Call c k)
  show ?case unfolding io_keeps_def
  proof (intro allI impI)
    fix s r s'
    assume inv: "sys_inv s" and run: "run_prog (Call c k) s = Some (r, s')"
    then obtain r1 s1 where 1: "run_call c s = Some (r1, s1)" and 2: "run_prog (k r1) s1 = Some (r, s')"
      by (auto split: option.splits)
    note first = io_keepsD [OF run_call_keeps inv 1]
    have "io_keeps (run_prog (k r1))" by (rule Call) simp
    from io_keepsD [OF this first(1) 2] first(2) show "sys_inv s' \<and> io_evolves s s'"
      using io_evolves_trans by blast
  qed
qed

section \<open>The loop keeps the invariant\<close>

lemma foreach_keeps:
  fixes lst :: "'w io_sys \<Rightarrow> 'e list option"
  assumes body: "\<And>e s s' xs. sys_inv s \<Longrightarrow> lst s = Some xs \<Longrightarrow> e \<in> set xs \<Longrightarrow> body e s = Some s' \<Longrightarrow>
    sys_inv s' \<and> io_evolves s s'"
    and "sys_inv s" "foreach_safe lst adr body var s = Some s'"
  shows "sys_inv s' \<and> io_evolves s s'"
proof -
  have "(\<forall>e s s' xs. sys_inv s \<longrightarrow> lst s = Some xs \<longrightarrow> e \<in> set xs \<longrightarrow> body e s = Some s' \<longrightarrow>
      sys_inv s' \<and> io_evolves s s') \<longrightarrow> sys_inv s \<longrightarrow> sys_inv s' \<and> io_evolves s s'"
  proof (rule foreach_safe.raw_induct [OF _ assms(3)])
    fix rec :: "('w io_sys \<Rightarrow> 'e list option) \<Rightarrow> ('e \<Rightarrow> nat) \<Rightarrow> ('e \<Rightarrow> 'w io_sys \<Rightarrow> 'w io_sys option) \<Rightarrow>
      nat option \<Rightarrow> 'w io_sys \<Rightarrow> 'w io_sys option"
      and lst :: "'w io_sys \<Rightarrow> 'e list option" and adr body var and s s' :: "'w io_sys"
    assume IH: "\<And>lst adr body var s y. rec lst adr body var s = Some y \<Longrightarrow>
        (\<forall>e s s' xs. sys_inv s \<longrightarrow> lst s = Some xs \<longrightarrow> e \<in> set xs \<longrightarrow> body e s = Some s' \<longrightarrow>
          sys_inv s' \<and> io_evolves s s') \<longrightarrow> sys_inv s \<longrightarrow> sys_inv y \<and> io_evolves s y"
      and run: "(case var of None \<Rightarrow> Some s | Some a \<Rightarrow> lst s \<bind> (\<lambda>xs. entry_at adr a xs \<bind> (\<lambda>e.
        body e s \<bind> rec lst adr body (next_of adr a xs)))) = Some s'"
    show "(\<forall>e s s' xs. sys_inv s \<longrightarrow> lst s = Some xs \<longrightarrow> e \<in> set xs \<longrightarrow> body e s = Some s' \<longrightarrow>
        sys_inv s' \<and> io_evolves s s') \<longrightarrow> sys_inv s \<longrightarrow> sys_inv s' \<and> io_evolves s s'"
    proof (intro impI)
      assume body: "\<forall>e s s' xs. sys_inv s \<longrightarrow> lst s = Some xs \<longrightarrow> e \<in> set xs \<longrightarrow> body e s = Some s' \<longrightarrow>
        sys_inv s' \<and> io_evolves s s'" and inv: "sys_inv s"
      show "sys_inv s' \<and> io_evolves s s'"
      proof (cases var)
        case None
        then show ?thesis using run inv by (simp add: io_evolves_refl)
      next
        case (Some a)
        then obtain xs e s1 where "lst s = Some xs" "entry_at adr a xs = Some e" and b: "body e s = Some s1"
          and rest: "rec lst adr body (next_of adr a xs) s1 = Some s'"
          using run by (auto simp: bind_eq_Some_conv)
        then have "sys_inv s1 \<and> io_evolves s s1" using body inv entry_atD by metis
        then show ?thesis using IH [OF rest] body io_evolves_trans by blast
      qed
    qed
  qed
  then show ?thesis using body assms(2) by blast
qed

lemma handled:
  "(if b then map_option snd (f s) else Some s) = Some s' \<Longrightarrow> s' = s \<or> (\<exists>r. f s = Some (r, s'))"
  by (auto split: if_splits)

lemma io_dispatch_turn:
  assumes run: "io_dispatch cbs q sets i s = Some s'" and sets: "sets = (rfds, wfds, efds)"
    and io: "sys_io s q = Some io" and i: "i < io_maxfd io + 1"
  obtains s1 s2 s3 where "i < FD_SETSIZE" "s1 = s \<or> (\<exists>r. io_handle_error cbs q i s = Some (r, s1))"
    "s2 = s1 \<or> (\<exists>r. io_handle_readable cbs q i s1 = Some (r, s2))"
    "s3 = s2 \<or> (\<exists>r. io_handle_writable cbs q i s2 = Some (r, s3))" "io_dispatch cbs q sets (i + 1) s3 = Some s'"
proof -
  have range: "0 \<le> i \<and> i < FD_SETSIZE"
    using run io i by (subst (asm) io_dispatch.simps) (simp add: sets split: if_splits)
  then have "do {
      s \<leftarrow> (if i \<in> efds then map_option snd (io_handle_error cbs q i s) else Some s);
      s \<leftarrow> (if i \<in> rfds then map_option snd (io_handle_readable cbs q i s) else Some s);
      s \<leftarrow> (if i \<in> wfds then map_option snd (io_handle_writable cbs q i s) else Some s);
      io_dispatch cbs q sets (i + 1) s } = Some s'"
    using run io i by (subst (asm) io_dispatch.simps) (simp add: sets FD_ISSET_def)
  then obtain s1 s2 s3 where
    a: "(if i \<in> efds then map_option snd (io_handle_error cbs q i s) else Some s) = Some s1" and
    b: "(if i \<in> rfds then map_option snd (io_handle_readable cbs q i s1) else Some s1) = Some s2" and
    c: "(if i \<in> wfds then map_option snd (io_handle_writable cbs q i s2) else Some s2) = Some s3" and
    d: "io_dispatch cbs q sets (i + 1) s3 = Some s'"
    unfolding bind_eq_Some_conv by blast
  show thesis by (rule that [OF conjunct2 [OF range] handled [where f = "io_handle_error cbs q i", OF a]
        handled [where f = "io_handle_readable cbs q i", OF b] handled [where f = "io_handle_writable cbs q i", OF c] d])
qed

text \<open>
  The contract of the callbacks: each keeps the invariant and leaves the entries that stay as they
  were.
\<close>

locale io_callbacks =
  fixes cbs :: "'w io_cbs"
  assumes fd_keeps: "io_keeps (cb_fd cbs c q u fd)"
    and plain_keeps: "io_keeps (cb_plain cbs c q u)"
begin

lemma run_entry_keeps:
  assumes inv: "sys_inv s" and e: "entries_of t q s = Some xs" "e \<in> set xs" "ent_fd e = fd" and t: "counted t"
    and clr: "t = DMR_REQUEST_READ \<and> clr = clr_readers \<or> t = DMR_REQUEST_WRITE \<and> clr = clr_writers \<or>
      t = DMR_REQUEST_ERROR \<and> clr \<in> {clr_errors, clr_writers} \<or> t = DMR_REQUEST_SIGNAL \<and> clr = (\<lambda>_ io. Some io)"
    and run: "io_run_entry cbs t clr q fd e s = Some s'"
  shows "sys_inv s' \<and> io_evolves s s'"
proof -
  obtain ret s1 io1 e1 where call: "cb_fd cbs (ent_cb e) q (ent_userdata e) fd s = Some (ret, s1)"
    and io1: "sys_io s1 q = Some io1" and e1: "entry_at ent_addr (ent_addr e) (io_entry io1 t) = Some e1"
    and rest: "(if ent_once e1 then do { io \<leftarrow> clr fd (io_count_down (io_unlink t (ent_addr e1) io1)); Some (put_io q io s1) }
      else Some s1) = Some s'"
    using run by (auto simp: io_run_entry_def bind_eq_Some_conv)
  obtain io where io: "sys_io s q = Some io" "e \<in> set (io_entry io t)" using e by (auto simp: entries_of_def)
  note first = io_keepsD [OF fd_keeps inv call]
  have nf: "newest_first (map ent_addr (io_entry io t)) (sys_brk s)" by (rule io_invD(1) [OF sys_invD(2) [OF inv io(1)]])
  then have "ent_addr e < sys_brk s" using io(2) by (simp add: newest_first_def)
  then have "e1 \<in> set (io_entry io t)" and "ent_addr e1 = ent_addr e"
    using entry_atD [OF e1] io_evolvesD [OF first(2) io1 _ _ io(1)] by auto
  then have same: "e1 = e"
    using io(2) newest_first_distinct [OF nf] by (auto simp: distinct_map inj_on_def)
  have "sys_inv s' \<and> io_evolves s1 s'"
  proof (cases "ent_once e1")
    case True
    then obtain io' where "clr fd (io_count_down (io_unlink t (ent_addr e1) io1)) = Some io'" "s' = put_io q io' s1"
      using rest by (auto simp: bind_eq_Some_conv)
    then show ?thesis
      using keeps_unlink [OF first(1) io1 _ t _ _ clr, of e1 fd io'] entry_atD [OF e1] same e(3) by simp
  qed (use rest first io_evolves_refl in auto)
  then show ?thesis using io_evolves_trans [OF first(2)] by blast
qed

lemma readable_keeps: "io_keeps (io_handle_readable cbs q fd)"
  unfolding io_keeps_def io_handle_readable_def
proof (clarsimp simp only: bind_eq_Some_conv option.inject prod.inject)
  fix s s' xs
  assume "sys_inv s" "foreach_safe (entries_of DMR_REQUEST_READ q) ent_addr
       (\<lambda>entry s. if ent_fd entry = fd then io_run_entry cbs DMR_REQUEST_READ clr_readers q fd entry s else Some s)
       (first_of ent_addr xs) s = Some s'"
  then show "sys_inv s' \<and> io_evolves s s'"
    by (rule foreach_keeps [rotated 1])
      (auto simp: io_evolves_refl counted_def split: if_splits dest: run_entry_keeps)
qed

lemma first_keeps:
  assumes "counted t"
    and "t = DMR_REQUEST_READ \<and> clr = clr_readers \<or> t = DMR_REQUEST_WRITE \<and> clr = clr_writers \<or>
      t = DMR_REQUEST_ERROR \<and> clr \<in> {clr_errors, clr_writers} \<or> t = DMR_REQUEST_SIGNAL \<and> clr = (\<lambda>_ io. Some io)"
  shows "io_keeps (io_handle_first cbs t clr q fd)"
  unfolding io_keeps_def io_handle_first_def
proof (intro allI impI)
  fix s r s'
  assume inv: "sys_inv s" and "entries_of t q s \<bind> (\<lambda>xs. case find (\<lambda>entry. ent_fd entry = fd) xs of
       None \<Rightarrow> Some (0, s)
     | Some entry \<Rightarrow> io_run_entry cbs t clr q fd entry s \<bind> (\<lambda>s. Some (1, s))) = Some (r, s')"
  then obtain xs where xs: "entries_of t q s = Some xs" and rest: "(case find (\<lambda>entry. ent_fd entry = fd) xs of
       None \<Rightarrow> Some (0, s)
     | Some entry \<Rightarrow> io_run_entry cbs t clr q fd entry s \<bind> (\<lambda>s. Some (1, s))) = Some (r, s')"
    by (auto simp: bind_eq_Some_conv)
  show "sys_inv s' \<and> io_evolves s s'"
  proof (cases "find (\<lambda>entry. ent_fd entry = fd) xs")
    case None
    then show ?thesis using rest inv by (simp add: io_evolves_refl)
  next
    case (Some e)
    then have "io_run_entry cbs t clr q fd e s = Some s'" using rest by (auto simp: bind_eq_Some_conv)
    moreover have "e \<in> set xs" "ent_fd e = fd" using Some by (auto simp: find_Some_iff)
    ultimately show ?thesis using run_entry_keeps [OF inv xs _ _ assms] by blast
  qed
qed

lemma handlers_keep:
  "io_keeps (io_handle_writable cbs q fd)" "io_keeps (io_handle_error cbs q fd)" "io_keeps (io_handle_signal cbs q fd)"
  unfolding io_handle_writable_def io_handle_error_def io_handle_signal_def
  by (rule first_keeps; simp add: counted_def)+

lemma close_entry_keeps:
  assumes inv: "sys_inv s" and call: "cb_plain cbs c q u s = Some (r, s1)" and io: "sys_io s1 q = Some io"
  shows "sys_inv (put_io q (io_unlink DMR_REQUEST_CLOSE a io) s1) \<and> io_evolves s (put_io q (io_unlink DMR_REQUEST_CLOSE a io) s1)"
proof -
  note first = io_keepsD [OF plain_keeps inv call]
  have "io_inv (sys_brk s1) (io_unlink DMR_REQUEST_CLOSE a io)"
    unfolding io_unlink_def
    by (rule io_inv_close_list [OF sys_invD(2) [OF first(1) io] newest_first_filter [OF io_invD(1)] le_refl],
        rule sys_invD(2) [OF first(1) io])
  then have "sys_inv (put_io q (io_unlink DMR_REQUEST_CLOSE a io) s1) \<and> io_evolves s1 (put_io q (io_unlink DMR_REQUEST_CLOSE a io) s1)"
    by (rule keeps_put [OF first(1) io]) (auto simp: io_unlink_def)
  then show ?thesis using io_evolves_trans [OF first(2)] by blast
qed

lemma close_keeps: "io_keeps (io_handle_close cbs q)"
  unfolding io_keeps_def io_handle_close_def
proof (clarsimp simp only: bind_eq_Some_conv option.inject prod.inject)
  fix s s' xs
  assume "sys_inv s" "foreach_safe (entries_of DMR_REQUEST_CLOSE q) ent_addr
       (\<lambda>entry s. do {
          (ret, s) \<leftarrow> cb_plain cbs (ent_cb entry) q (ent_userdata entry) s;
          io \<leftarrow> sys_io s q;
          entry \<leftarrow> entry_at ent_addr (ent_addr entry) (io_entry io DMR_REQUEST_CLOSE);
          Some (put_io q (io_unlink DMR_REQUEST_CLOSE (ent_addr entry) io) s) })
       (first_of ent_addr xs) s = Some s'"
  then show "sys_inv s' \<and> io_evolves s s'"
    by (rule foreach_keeps [rotated 1]) (clarsimp simp: bind_eq_Some_conv, rule close_entry_keeps)
qed

lemma run_timer_keeps:
  assumes inv: "sys_inv s" and run: "io_run_timer cbs q timer s = Some s'"
  shows "sys_inv s' \<and> io_evolves s s'"
proof -
  obtain io where io: "sys_io s q = Some io" using run by (auto simp: io_run_timer_def bind_eq_Some_conv)
  show ?thesis
  proof (cases "timer_less (tim_wallclock timer) (io_wallclock io)")
    case True
    then obtain ret s1 io1 t1 where call: "cb_plain cbs (tim_cb timer) q (tim_userdata timer) s = Some (ret, s1)"
      and io1: "sys_io s1 q = Some io1" and t1: "entry_at tim_addr (tim_addr timer) (io_timer io1) = Some t1"
      and s': "s' = put_io q (if tim_once t1 then io_count_down (tim_unlink (tim_addr t1) io1)
        else tim_update (tim_addr t1) (timeradd (io_wallclock io1) (tim_timeout t1)) io1) s1"
      using run io by (auto simp: io_run_timer_def bind_eq_Some_conv split: if_splits)
    note first = io_keepsD [OF plain_keeps inv call]
    note I = sys_invD(2) [OF first(1) io1]
    have "t1 \<in> set (io_timer io1)" using entry_atD [OF t1] by simp
    then have "sys_inv s' \<and> io_evolves s1 s'" unfolding s'
      using io_inv_tim_unlink [OF I] io_inv_tim_update [OF I]
      by (intro keeps_put [OF first(1) io1], simp) (auto simp: io_count_down_def tim_unlink_def tim_update_def)
    then show ?thesis using io_evolves_trans [OF first(2)] by blast
  qed (use run io inv io_evolves_refl in \<open>auto simp: io_run_timer_def\<close>)
qed

lemma keeps_wallclock:
  "sys_inv s \<Longrightarrow> sys_io s q = Some io \<Longrightarrow>
   sys_inv (put_io q (io\<lparr>io_wallclock := tv\<rparr>) s) \<and> io_evolves s (put_io q (io\<lparr>io_wallclock := tv\<rparr>) s)"
  by (rule keeps_put) (auto dest: sys_invD)

lemma timers_keep:
  assumes inv: "sys_inv s" and run: "io_handle_timers cbs q now s = Some s'"
  shows "sys_inv s' \<and> io_evolves s s'"
proof -
  obtain io where io: "sys_io s q = Some io"
    and rest: "foreach_safe (timers_of q) tim_addr (io_run_timer cbs q) (first_of tim_addr (io_timer io))
      (put_io q (io\<lparr>io_wallclock := now\<rparr>) s) = Some s'"
    using run by (auto simp: io_handle_timers_def bind_eq_Some_conv)
  note first = keeps_wallclock [OF inv io, of now]
  have "sys_inv s' \<and> io_evolves (put_io q (io\<lparr>io_wallclock := now\<rparr>) s) s'"
    by (rule foreach_keeps [OF _ _ rest]) (use run_timer_keeps first in blast)+
  then show ?thesis using first io_evolves_trans by blast
qed

lemma sig_walk_keeps:
  "sys_inv s \<Longrightarrow> io_sig_walk cbs sig gs s = Some s' \<Longrightarrow> sys_inv s' \<and> io_evolves s s'"
proof (induction gs arbitrary: s)
  case (Cons g gs)
  show ?case
  proof (cases "sig_sig g = sig")
    case True
    then obtain r s1 where call: "io_handle_signal cbs (sig_io g) sig s = Some (r, s1)"
      and rest: "s' = s1 \<or> io_sig_walk cbs sig gs s1 = Some s'"
      using Cons.prems(2) by (auto split: option.splits if_splits)
    note first = io_keepsD [OF handlers_keep(3) Cons.prems(1) call]
    show ?thesis using rest Cons.IH [OF first(1)] first io_evolves_trans [OF first(2)] by blast
  qed (use Cons in simp)
qed (simp add: io_evolves_refl)

lemma wait_keeps:
  "sys_inv s \<Longrightarrow> io_wait cbs q ans sets rs s = Some (sets', s') \<Longrightarrow> sys_inv s' \<and> io_evolves s s'"
proof (induction rs arbitrary: s)
  case (Cons r rs)
  show ?case
  proof (cases r)
    case (Some sig)
    then obtain s1 where call: "io_sig_handle cbs sig s = Some s1"
      and rest: "io_wait cbs q ans sets rs s1 = Some (sets', s')"
      using Cons.prems(2) by (auto split: option.splits)
    have first: "sys_inv s1 \<and> io_evolves s s1"
      using sig_walk_keeps [OF Cons.prems(1)] call by (simp add: io_sig_handle_def)
    then show ?thesis using Cons.IH [OF _ rest] io_evolves_trans by blast
  qed (use Cons in simp)
qed (auto simp: io_evolves_refl split: option.splits)

lemma dispatch_keeps:
  "sys_inv s \<Longrightarrow> io_dispatch cbs q sets i s = Some s' \<Longrightarrow> sys_inv s' \<and> io_evolves s s'"
proof (induction "nat (FD_SETSIZE - i)" arbitrary: i s rule: less_induct)
  case less
  obtain rfds wfds efds where sets: "sets = (rfds, wfds, efds)" by (metis surj_pair)
  obtain io where io: "sys_io s q = Some io"
    using less.prems(2) by (subst (asm) io_dispatch.simps) (auto simp: sets split: option.splits)
  show ?case
  proof (cases "i < io_maxfd io + 1")
    case False
    then show ?thesis using less.prems io by (subst (asm) io_dispatch.simps) (simp add: sets io_evolves_refl)
  next
    case True
    obtain s1 s2 s3 where i: "i < FD_SETSIZE"
      and 1: "s1 = s \<or> (\<exists>r. io_handle_error cbs q i s = Some (r, s1))"
      and 2: "s2 = s1 \<or> (\<exists>r. io_handle_readable cbs q i s1 = Some (r, s2))"
      and 3: "s3 = s2 \<or> (\<exists>r. io_handle_writable cbs q i s2 = Some (r, s3))"
      and rest: "io_dispatch cbs q sets (i + 1) s3 = Some s'"
      by (rule io_dispatch_turn [OF less.prems(2) sets io True])
    have a: "sys_inv s1 \<and> io_evolves s s1"
      using 1 less.prems(1) io_keepsD [OF handlers_keep(2)] io_evolves_refl by blast
    then have b: "sys_inv s2 \<and> io_evolves s1 s2" using 2 io_keepsD [OF readable_keeps] io_evolves_refl by blast
    then have c: "sys_inv s3 \<and> io_evolves s2 s3" using 3 io_keepsD [OF handlers_keep(1)] io_evolves_refl by blast
    then have "sys_inv s' \<and> io_evolves s3 s'" using less.hyps [OF _ _ rest] i by simp
    then show ?thesis using a b c io_evolves_trans by blast
  qed
qed

lemma step_keeps:
  assumes inv: "sys_inv s" and run: "io_step cbs q turn s = Some s'"
  shows "sys_inv s' \<and> io_evolves s s'"
proof -
  obtain io sets sets' s1 s2 where io: "sys_io s q = Some io"
    and 1: "io_wait cbs q (turn_select turn) sets (turn_retries turn) (put_io q (io\<lparr>io_wallclock := turn_now turn\<rparr>) s) =
      Some (sets', s1)"
    and 2: "io_handle_timers cbs q (turn_after turn) s1 = Some s2" and 3: "io_dispatch cbs q sets' 0 s2 = Some s'"
    using run by (auto simp: io_step_def bind_eq_Some_conv Let_def)
  note a = keeps_wallclock [OF inv io, of "turn_now turn"]
  note b = wait_keeps [OF a [THEN conjunct1] 1]
  note c = timers_keep [OF b [THEN conjunct1] 2]
  show ?thesis using a b c dispatch_keeps [OF c [THEN conjunct1] 3] io_evolves_trans by blast
qed

end

text \<open>The state after a number of turns, all of which the loop enters.\<close>

definition io_running :: "nat \<Rightarrow> 'w io_sys \<Rightarrow> bool" where
  "io_running q s \<longleftrightarrow> (case sys_io s q of None \<Rightarrow> False | Some io \<Rightarrow> io_entries io > 0 \<and> \<not> io_closed io)"

fun io_turns :: "'w io_cbs \<Rightarrow> nat \<Rightarrow> (nat \<Rightarrow> io_turn) \<Rightarrow> nat \<Rightarrow> nat \<Rightarrow> 'w io_sys \<Rightarrow> 'w io_sys option" where
  "io_turns cbs q env k 0 s = Some s"
| "io_turns cbs q env k (Suc n) s =
     (if io_running q s then do { s \<leftarrow> io_step cbs q (env k) s; io_turns cbs q env (Suc k) n s } else None)"

lemma io_loop_from_turns:
  "io_loop_from cbs q env k s = Some s' \<longleftrightarrow>
   (\<exists>n. io_turns cbs q env k n s = Some s' \<and> \<not> io_running q s' \<and> sys_io s' q \<noteq> None)"
proof
  assume "io_loop_from cbs q env k s = Some s'"
  then show "\<exists>n. io_turns cbs q env k n s = Some s' \<and> \<not> io_running q s' \<and> sys_io s' q \<noteq> None"
  proof (rule io_loop_from.raw_induct [rotated])
    fix rec :: "'a io_cbs \<Rightarrow> nat \<Rightarrow> (nat \<Rightarrow> io_turn) \<Rightarrow> nat \<Rightarrow> 'a io_sys \<Rightarrow> 'a io_sys option"
      and cbs q env k and s s' :: "'a io_sys"
    assume IH: "\<And>cbs q env k s y. rec cbs q env k s = Some y \<Longrightarrow>
        \<exists>n. io_turns cbs q env k n s = Some y \<and> \<not> io_running q y \<and> sys_io y q \<noteq> None"
      and run: "sys_io s q \<bind> (\<lambda>io. if 0 < io_entries io \<and> \<not> io_closed io
        then io_step cbs q (env k) s \<bind> rec cbs q env (Suc k) else Some s) = Some s'"
    then obtain io where io: "sys_io s q = Some io" by (auto simp: bind_eq_Some_conv)
    show "\<exists>n. io_turns cbs q env k n s = Some s' \<and> \<not> io_running q s' \<and> sys_io s' q \<noteq> None"
    proof (cases "io_running q s")
      case True
      then obtain s1 where "io_step cbs q (env k) s = Some s1" "rec cbs q env (Suc k) s1 = Some s'"
        using run io by (auto simp: io_running_def bind_eq_Some_conv)
      then obtain n where "io_turns cbs q env k (Suc n) s = Some s' \<and> \<not> io_running q s' \<and> sys_io s' q \<noteq> None"
        using IH True by fastforce
      then show ?thesis ..
    next
      case False
      then have "io_turns cbs q env k 0 s = Some s' \<and> \<not> io_running q s' \<and> sys_io s' q \<noteq> None"
        using run io by (auto simp: io_running_def split: if_splits)
      then show ?thesis ..
    qed
  qed
next
  assume "\<exists>n. io_turns cbs q env k n s = Some s' \<and> \<not> io_running q s' \<and> sys_io s' q \<noteq> None"
  then obtain n where "io_turns cbs q env k n s = Some s'" "\<not> io_running q s'" "sys_io s' q \<noteq> None" by blast
  then show "io_loop_from cbs q env k s = Some s'"
  proof (induction n arbitrary: k s)
    case 0
    then show ?case by (subst io_loop_from.simps) (auto simp: io_running_def)
  next
    case (Suc n)
    then obtain s1 where "io_running q s" "io_step cbs q (env k) s = Some s1" "io_turns cbs q env (Suc k) n s1 = Some s'"
      by (auto simp: bind_eq_Some_conv split: if_splits)
    then show ?case using Suc.IH [of "Suc k" s1] Suc.prems
      by (subst io_loop_from.simps) (auto simp: io_running_def split: option.splits)
  qed
qed

section \<open>Clients of the interface\<close>

interpretation client: io_callbacks "client_cbs cl" for cl :: "'w io_client"
proof
  show "io_keeps (cb_fd (client_cbs cl) c q u fd)" for c q u fd
    using run_prog_keeps unfolding io_keeps_def client_cbs_def by auto
  show "io_keeps (cb_plain (client_cbs cl) c q u)" for c q u
    using run_prog_keeps unfolding io_keeps_def client_cbs_def by auto
qed

text \<open>
  The states that a client can reach: it calls the interface, runs the loop turn by turn, and
  signals arrive.
\<close>

definition sys_init :: "'w \<Rightarrow> 'w io_sys" where
  "sys_init w = \<lparr>sys_io = (\<lambda>_. None), sys_sigs = [], sys_installed = {}, sys_brk = 0, sys_world = w\<rparr>"

inductive io_reach :: "'w io_client \<Rightarrow> 'w io_sys \<Rightarrow> bool" for cl where
  init: "io_reach cl (sys_init w)"
| program: "io_reach cl s \<Longrightarrow> run_prog pr s = Some (r, s') \<Longrightarrow> io_reach cl s'"
| signal: "io_reach cl s \<Longrightarrow> io_sig_handle (client_cbs cl) sig s = Some s' \<Longrightarrow> io_reach cl s'"
| turn: "io_reach cl s \<Longrightarrow> io_step (client_cbs cl) q turn s = Some s' \<Longrightarrow> io_reach cl s'"
| closing: "io_reach cl s \<Longrightarrow> io_handle_close (client_cbs cl) q s = Some (r, s') \<Longrightarrow> io_reach cl s'"

lemma io_reach_inv: "io_reach cl s \<Longrightarrow> sys_inv s"
proof (induction rule: io_reach.induct)
  case (init w)
  show ?case by (simp add: sys_inv_def sys_init_def)
next
  case (program s pr r s')
  then show ?case using io_keepsD [OF run_prog_keeps] by blast
next
  case (signal s sig s')
  then show ?case using client.sig_walk_keeps unfolding io_sig_handle_def by blast
next
  case (turn s q turn s')
  then show ?case using client.step_keeps by blast
next
  case (closing s q r s')
  then show ?case using io_keepsD [OF client.close_keeps] by blast
qed

lemma io_reach_turns: "io_reach cl s \<Longrightarrow> io_turns (client_cbs cl) q env k n s = Some s' \<Longrightarrow> io_reach cl s'"
proof (induction n arbitrary: k s)
  case (Suc n)
  then show ?case by (auto simp: bind_eq_Some_conv split: if_splits intro: io_reach.turn)
qed simp

lemma dmr_io_loop_turns:
  assumes "sys_io s q = Some io"
  shows "dmr_io_loop cbs env (Some q) s = Some (r, s') \<longleftrightarrow>
    (\<exists>n s1. io_turns cbs q env 0 n (put_io q (io\<lparr>io_closed := False\<rparr>) s) = Some s1 \<and> \<not> io_running q s1 \<and>
      sys_io s1 q \<noteq> None \<and> io_handle_close cbs q s1 = Some (r, s'))"
  using assms by (auto simp: dmr_io_loop_def io_api_def bind_eq_Some_conv io_loop_from_turns)

text \<open>
  C12. In every state that a client of the interface can reach, whatever its callbacks do and
  whatever the clock, \<open>select\<close> and signals answer, each loop is consistent: \<open>entries\<close> is the number
  of registered callbacks other than close callbacks, no callback is in a list twice, every
  descriptor watched for reading or writing has a callback, all descriptors are between 0 and
  \<open>maxfd\<close>, which is a valid descriptor, and each signal with a callback is dispatched to the loop.
\<close>

theorem io_loop_consistent:
  assumes "io_reach cl s" and "sys_io s q = Some io"
  shows "io_entries io = int (length (io_entry io DMR_REQUEST_SIGNAL) + length (io_entry io DMR_REQUEST_READ) +
      length (io_entry io DMR_REQUEST_WRITE) + length (io_entry io DMR_REQUEST_ERROR) + length (io_timer io)) \<and>
    (\<forall>t. distinct (map ent_addr (io_entry io t))) \<and>
    (\<forall>fd \<in> io_readers io. \<exists>e \<in> set (io_entry io DMR_REQUEST_READ). ent_fd e = fd) \<and>
    (\<forall>fd \<in> io_writers io. \<exists>e \<in> set (io_entry io DMR_REQUEST_WRITE). ent_fd e = fd) \<and>
    (\<forall>fd \<in> io_readers io \<union> io_writers io \<union> io_errors io. 0 \<le> fd \<and> fd \<le> io_maxfd io) \<and> io_maxfd io < 1024 \<and>
    (\<forall>e \<in> set (io_entry io DMR_REQUEST_SIGNAL). ent_fd e \<in> sys_installed s \<and>
      (\<exists>g \<in> set (sys_sigs s). sig_io g = q \<and> sig_sig g = ent_fd e))"
proof (intro conjI)
  note inv = sys_invD [OF io_reach_inv [OF assms(1)] assms(2)]
  note I = io_invD [OF inv(2)]
  show "io_entries io = int (length (io_entry io DMR_REQUEST_SIGNAL) + length (io_entry io DMR_REQUEST_READ) +
      length (io_entry io DMR_REQUEST_WRITE) + length (io_entry io DMR_REQUEST_ERROR) + length (io_timer io))"
    using I(3) by (simp add: io_count_def)
  show "\<forall>t. distinct (map ent_addr (io_entry io t))" using newest_first_distinct [OF I(1)] by blast
  show "\<forall>fd \<in> io_readers io. \<exists>e \<in> set (io_entry io DMR_REQUEST_READ). ent_fd e = fd"
    "\<forall>fd \<in> io_writers io. \<exists>e \<in> set (io_entry io DMR_REQUEST_WRITE). ent_fd e = fd"
    using I(4,5) by (auto simp: io_fds_def)
  show "\<forall>fd \<in> io_readers io \<union> io_writers io \<union> io_errors io. 0 \<le> fd \<and> fd \<le> io_maxfd io" "io_maxfd io < 1024"
    using I(4-8,11) by (auto simp: fds_in_def FD_SETSIZE_def)
  show "\<forall>e \<in> set (io_entry io DMR_REQUEST_SIGNAL). ent_fd e \<in> sys_installed s \<and>
      (\<exists>g \<in> set (sys_sigs s). sig_io g = q \<and> sig_sig g = ent_fd e)"
    using inv(3) by (simp add: sig_listed_def io_fds_def)
qed

text \<open>A client that changes only its own state, by \<open>f\<close> and \<open>g\<close>.\<close>

definition quiet :: "(nat \<Rightarrow> nat \<Rightarrow> int \<Rightarrow> 'w \<Rightarrow> 'w) \<Rightarrow> (nat \<Rightarrow> nat \<Rightarrow> 'w \<Rightarrow> 'w) \<Rightarrow> 'w io_client" where
  "quiet f g = \<lparr>cl_fd = (\<lambda>cb q u fd w. Ret 0 (f cb u fd w)), cl_plain = (\<lambda>cb q u w. Ret 0 (g cb u w))\<rparr>"

text \<open>A loop, a descriptor that is read and an interrupt that ends the loop.\<close>

definition sample_setup :: "nat io_prog" where
  "sample_setup = Call (Call_new (replicate 10 True) \<lparr>tv_sec = 0, tv_usec = 0\<rparr>)
     (\<lambda>_. Call (Call_reg_signal (True, True) (Some 0) 2 7 0 True)
     (\<lambda>_. Call (Call_reg_read True (Some 0) 3 8 0 False) (\<lambda>_. Ret 0 0)))"

definition sample_state :: "nat io_sys" where
  "sample_state = snd (the (run_prog sample_setup (sys_init 0)))"

lemma sample_run: "run_prog sample_setup (sys_init 0) = Some (0, sample_state)"
proof -
  have "map_option fst (run_prog sample_setup (sys_init 0)) = Some 0" by code_simp
  then show ?thesis by (auto simp: sample_state_def)
qed

text \<open>On an interrupt the loop is closed; reading counts.\<close>

definition sample_client :: "nat io_client" where
  "sample_client = \<lparr>cl_fd = (\<lambda>cb q u fd w. if cb = 7 then Call (Call_close (Some q)) (\<lambda>r. Ret r w) else Ret 0 (w + 1)),
    cl_plain = (\<lambda>cb q u w. Ret 0 w)\<rparr>"

theorem io_loop_consistent_witness:
  "\<exists>io. sys_io sample_state 0 = Some io \<and> io_entries io = 2 \<and> length (io_entry io DMR_REQUEST_READ) = 1 \<and>
    distinct (map ent_addr (io_entry io DMR_REQUEST_READ))"
proof -
  have "case sys_io sample_state 0 of None \<Rightarrow> False
    | Some io \<Rightarrow> io_entries io = 2 \<and> length (io_entry io DMR_REQUEST_READ) = 1" by code_simp
  then obtain io where io: "sys_io sample_state 0 = Some io" "io_entries io = 2" "length (io_entry io DMR_REQUEST_READ) = 1"
    by (auto split: option.splits)
  have "io_reach sample_client sample_state" by (rule io_reach.program [OF io_reach.init sample_run])
  from io_loop_consistent [OF this io(1)] io show ?thesis by blast
qed

text \<open>
  A loop that returns has left the turns because it was closed or because no callback is left,
  and has then called the close callbacks.
\<close>

lemma io_count_zero:
  "io_count io \<le> 0 \<longleftrightarrow> (\<forall>t. counted t \<longrightarrow> io_entry io t = []) \<and> io_timer io = []"
  unfolding io_count_def of_nat_le_0_iff counted_def by auto

text \<open>
  C13. \<open>dmr_io_loop\<close> on a reachable loop returns exactly when, after some number of turns, the loop
  has been closed or no callback for a signal, a descriptor or a timer is left, and the close
  callbacks then return; its value is 0 and its final state is theirs.
\<close>

theorem dmr_io_loop_returns_iff:
  assumes "io_reach cl (put_io q (io\<lparr>io_closed := False\<rparr>) s)" and "sys_io s q = Some io"
  shows "dmr_io_loop (client_cbs cl) env (Some q) s = Some (r, s') \<longleftrightarrow>
    (\<exists>n s1 io1. io_turns (client_cbs cl) q env 0 n (put_io q (io\<lparr>io_closed := False\<rparr>) s) = Some s1 \<and>
      sys_io s1 q = Some io1 \<and>
      (io_closed io1 \<or> (\<forall>t. counted t \<longrightarrow> io_entry io1 t = []) \<and> io_timer io1 = []) \<and>
      r = 0 \<and> io_handle_close (client_cbs cl) q s1 = Some (0, s'))"
proof -
  have "\<not> io_running q s1 \<and> sys_io s1 q \<noteq> None \<and> io_handle_close (client_cbs cl) q s1 = Some (r, s') \<longleftrightarrow>
    (\<exists>io1. sys_io s1 q = Some io1 \<and> (io_closed io1 \<or> (\<forall>t. counted t \<longrightarrow> io_entry io1 t = []) \<and> io_timer io1 = []) \<and>
      r = 0 \<and> io_handle_close (client_cbs cl) q s1 = Some (0, s'))"
    if "io_turns (client_cbs cl) q env 0 n (put_io q (io\<lparr>io_closed := False\<rparr>) s) = Some s1" for n s1
  proof -
    have "sys_inv s1" by (rule io_reach_inv [OF io_reach_turns [OF assms(1) that]])
    then have "io_entries io1 = io_count io1" if "sys_io s1 q = Some io1" for io1
      using that sys_invD(2) io_invD(3) by blast
    moreover have "r = 0" if "io_handle_close (client_cbs cl) q s1 = Some (r, s')"
      using that by (auto simp: io_handle_close_def bind_eq_Some_conv)
    ultimately show ?thesis
      by (cases "sys_io s1 q") (auto simp: io_running_def io_count_zero [symmetric])
  qed
  then show ?thesis unfolding dmr_io_loop_turns [OF assms(2)] by blast
qed

text \<open>A turn in which \<open>select\<close> is interrupted and then reports nothing.\<close>

definition sample_turn :: io_turn where
  "sample_turn = \<lparr>turn_now = \<lparr>tv_sec = 1, tv_usec = 0\<rparr>, turn_retries = [Some 2],
     turn_select = (\<lambda>_. Sel_ready {} {} {}), turn_after = \<lparr>tv_sec = 1, tv_usec = 500\<rparr>\<rparr>"

theorem dmr_io_loop_returns_iff_witness:
  "\<exists>s'. dmr_io_loop (client_cbs sample_client) (\<lambda>_. sample_turn) (Some 0) sample_state = Some (0, s')"
proof -
  have "case sys_io sample_state 0 of None \<Rightarrow> False
    | Some io \<Rightarrow> case io_turns (client_cbs sample_client) 0 (\<lambda>_. sample_turn) 0 (Suc 0)
          (put_io 0 (io\<lparr>io_closed := False\<rparr>) sample_state) of
        None \<Rightarrow> False
      | Some s1 \<Rightarrow> case sys_io s1 0 of None \<Rightarrow> False
          | Some io1 \<Rightarrow> io_closed io1 \<and> \<not> io_closed io \<and>
              (case io_handle_close (client_cbs sample_client) 0 s1 of None \<Rightarrow> False | Some (r, s') \<Rightarrow> r = 0)"
    by code_simp
  then obtain io s1 io1 s' where io: "sys_io sample_state 0 = Some io" "\<not> io_closed io"
    and s1: "io_turns (client_cbs sample_client) 0 (\<lambda>_. sample_turn) 0 (Suc 0)
      (put_io 0 (io\<lparr>io_closed := False\<rparr>) sample_state) = Some s1"
    and io1: "sys_io s1 0 = Some io1" "io_closed io1" "io_handle_close (client_cbs sample_client) 0 s1 = Some (0, s')"
    by (auto split: option.splits)
  have "put_io 0 (io\<lparr>io_closed := False\<rparr>) sample_state = sample_state"
    using io by (cases io; cases sample_state) (auto simp: put_io_def fun_upd_idem)
  moreover have "io_reach sample_client sample_state" by (rule io_reach.program [OF io_reach.init sample_run])
  ultimately have "io_reach sample_client (put_io 0 (io\<lparr>io_closed := False\<rparr>) sample_state)" by simp
  from dmr_io_loop_returns_iff [OF this io(1), of "\<lambda>_. sample_turn" 0 s'] s1 io1 show ?thesis by blast
qed

section \<open>Timeouts and timers\<close>

abbreviation tim_left :: "timeval \<Rightarrow> dmr_io_timer \<Rightarrow> int" where
  "tim_left now t \<equiv> tv_us (tim_wallclock t) - tv_us now"

lemma io_timeout_loop_min:
  assumes "tv_wf now" "\<forall>t \<in> set ts. tv_wf (tim_wallclock t)" "tv_wf tmo" "0 \<le> tv_us tmo"
  shows "tv_us (snd (io_timeout_loop now ts n tmo)) = max 0 (Min (insert (tv_us tmo) (tim_left now ` set ts)))"
  using assms(2-4)
proof (induction ts arbitrary: n tmo)
  case (Cons t ts)
  let ?d = "timersub (tim_wallclock t) now"
  have wf: "tv_wf ?d" and us: "tv_us ?d = tim_left now t" using Cons.prems(1) assms(1) by auto
  let ?M = "Min (insert (tv_us tmo) (tim_left now ` set (t # ts)))"
  have M: "?M = Min (insert (min (tv_us tmo) (tim_left now t)) (tim_left now ` set ts))"
    by (cases "ts = []") (simp_all add: min.assoc)
  show ?case
  proof (cases "tv_us ?d < 0")
    case True
    then have "?M < 0" unfolding M us by (auto simp: Min_less_iff)
    then show ?thesis using True tv_negative [OF wf] by (simp add: Let_def tv_us_def)
  next
    case False
    let ?tmo = "if \<not> timer_less tmo ?d then ?d else tmo"
    have "tv_us ?tmo = min (tv_us tmo) (tim_left now t)" "tv_wf ?tmo"
      using timer_less_us [OF Cons.prems(2) wf] us wf Cons.prems(2) by auto
    moreover have "io_timeout_loop now (t # ts) n tmo = io_timeout_loop now ts (n + 1) ?tmo"
      using False tv_negative [OF wf] by (simp add: Let_def)
    ultimately show ?thesis
      using Cons.IH [of ?tmo "n + 1"] Cons.prems False us M by auto
  qed
qed simp

lemma io_timeout_loop_pos: "0 \<le> n \<Longrightarrow> 0 < n \<or> ts \<noteq> [] \<Longrightarrow> 0 < fst (io_timeout_loop now ts n tmo)"
  by (induction ts arbitrary: n tmo) (auto simp: Let_def)

text \<open>
  Without timers \<open>select\<close> is called without a timeout.  With timers it is given the time until
  the earliest of them, in microseconds from the clock at the start of the turn, but no more than
  the loop's default timeout, and 0 when a timer has expired.
\<close>

theorem io_timeout_is_next_deadline:
  assumes "tv_wf (io_default io)" and "0 \<le> tv_us (io_default io)" and "tv_wf (io_wallclock io)"
    and "\<forall>t \<in> set (io_timer io). tv_wf (tim_wallclock t)"
  shows "map_option tv_us (io_select_args io) =
    (if io_timer io = [] then None
     else Some (max 0 (Min (insert (tv_us (io_default io))
       ((\<lambda>t. tv_us (tim_wallclock t) - tv_us (io_wallclock io)) ` set (io_timer io))))))"
proof (cases "io_timer io = []")
  case False
  then show ?thesis
    using io_timeout_loop_min [OF assms(3,4,1,2), of 0] io_timeout_loop_pos [of 0 "io_timer io" "io_wallclock io" "io_default io"]
    by (auto simp: io_select_args_def io_timeout_def split: prod.splits)
qed (simp add: io_select_args_def io_timeout_def)

theorem io_timeout_is_next_deadline_witness:
  "map_option tv_us (io_select_args
     \<lparr>io_entry = (\<lambda>_. []),
      io_timer = [\<lparr>tim_addr = 0, tim_timeout = \<lparr>tv_sec = 5, tv_usec = 0\<rparr>, tim_wallclock = \<lparr>tv_sec = 7, tv_usec = 250000\<rparr>,
        tim_cb = 0, tim_userdata = 0, tim_once = False\<rparr>],
      io_default = \<lparr>tv_sec = 1, tv_usec = 0\<rparr>, io_entries = 1, io_maxfd = 0,
      io_wallclock = \<lparr>tv_sec = 6, tv_usec = 500000\<rparr>, io_readers = {}, io_writers = {}, io_errors = {}, io_closed = False\<rparr>) =
   Some 750000"
  by (subst io_timeout_is_next_deadline) (simp_all add: tv_wf_def tv_us_def)

text \<open>
  \<open>DMR_LIST_FOREACH_SAFE\<close> over a list of which the body removes at most the current element:
  \<open>I xs ys s\<close> relates the elements that stay, those still to come and the state.
\<close>

lemma next_of_here: "distinct (map adr (xs @ e # ys)) \<Longrightarrow> next_of adr (adr e) (xs @ e # ys) = first_of adr ys"
  by (induction xs) auto

lemma entry_at_here: "distinct (map adr (xs @ e # ys)) \<Longrightarrow> entry_at adr (adr e) (xs @ e # ys) = Some e"
  unfolding entry_at_def by (induction xs) auto

lemma distinct_other: "distinct (map adr (xs @ e # ys)) \<Longrightarrow> \<forall>t \<in> set xs \<union> set ys. adr t \<noteq> adr e"
  by (auto simp: image_iff)

lemma change_one:
  assumes "distinct (map adr (xs @ e # ys))"
  shows "filter (\<lambda>t. adr t \<noteq> adr e) (xs @ e # ys) = xs @ ys"
    and "map (\<lambda>t. if adr t = adr e then h t else t) (xs @ e # ys) = xs @ h e # ys"
  using distinct_other [OF assms] by (simp_all add: filter_id_conv map_idI)

lemma foreach_suffix:
  assumes step: "\<And>e xs ys s. I xs (e # ys) s \<Longrightarrow> lst s = Some (xs @ e # ys) \<and> distinct (map adr (xs @ e # ys)) \<and>
    (\<exists>s' xs'. body e s = Some s' \<and> I xs' ys s')"
  shows "I xs ys s \<Longrightarrow> \<exists>s' xs'. foreach_safe lst adr body (first_of adr ys) s = Some s' \<and> I xs' [] s'"
proof (induction ys arbitrary: xs s)
  case Nil
  then show ?case by (subst foreach_safe.simps) auto
next
  case (Cons e ys)
  from step [OF Cons.prems] obtain s1 xs1 where *: "lst s = Some (xs @ e # ys)" "distinct (map adr (xs @ e # ys))"
    "body e s = Some s1" "I xs1 ys s1" by blast
  have "foreach_safe lst adr body (first_of adr (e # ys)) s = foreach_safe lst adr body (first_of adr ys) s1"
    using *(1,3) next_of_here [OF *(2)] entry_at_here [OF *(2)] by (subst foreach_safe.simps) simp
  then show ?case using Cons.IH [OF *(4)] by simp
qed

lemma client_quiet [simp]:
  "cb_fd (client_cbs (quiet f g)) cb q u fd s = Some (0, s\<lparr>sys_world := f cb u fd (sys_world s)\<rparr>)"
  "cb_plain (client_cbs (quiet f g)) cb q u s = Some (0, s\<lparr>sys_world := g cb u (sys_world s)\<rparr>)"
  by (simp_all add: client_cbs_def quiet_def)

text \<open>What \<open>io_handle_timers\<close> does with a timer, and how the client's state changes.\<close>

definition tim_expired :: "timeval \<Rightarrow> dmr_io_timer \<Rightarrow> bool" where
  "tim_expired now t \<longleftrightarrow> timer_less (tim_wallclock t) now"

definition tim_after :: "timeval \<Rightarrow> dmr_io_timer \<Rightarrow> dmr_io_timer list" where
  "tim_after now t = (if \<not> tim_expired now t then [t]
     else if tim_once t then [] else [t\<lparr>tim_wallclock := timeradd now (tim_timeout t)\<rparr>])"

definition timers_handled ::
  "(nat \<Rightarrow> nat \<Rightarrow> 'w \<Rightarrow> 'w) \<Rightarrow> timeval \<Rightarrow> dmr_io_timer list \<Rightarrow> dmr_io_timer list \<Rightarrow> nat \<Rightarrow> dmr_io \<Rightarrow> 'w io_sys \<Rightarrow> 'w io_sys"
  where
  "timers_handled g now ps ys q io s =
     (put_io q (io\<lparr>io_timer := concat (map (tim_after now) ps) @ ys, io_wallclock := now,
        io_entries := io_entries io - int (length (filter (\<lambda>t. tim_expired now t \<and> tim_once t) ps))\<rparr>) s)
     \<lparr>sys_world := fold (\<lambda>t. g (tim_cb t) (tim_userdata t)) (filter (tim_expired now) ps) (sys_world s)\<rparr>"

lemma tim_after_addr: "set (map tim_addr (tim_after now t)) \<subseteq> {tim_addr t}"
  by (simp add: tim_after_def)

lemma distinct_tim_after:
  "distinct (map tim_addr (ps @ ys)) \<Longrightarrow> distinct (map tim_addr (concat (map (tim_after now) ps) @ ys)) \<and>
   tim_addr ` set (concat (map (tim_after now) ps)) \<subseteq> tim_addr ` set ps"
  by (induction ps) (auto simp: tim_after_def)

lemma timers_handled_fields [simp]:
  "sys_world (timers_handled g now ps ys q io s) =
     fold (\<lambda>t. g (tim_cb t) (tim_userdata t)) (filter (tim_expired now) ps) (sys_world s)"
  "sys_io (timers_handled g now ps ys q io s) q =
     Some (io\<lparr>io_timer := concat (map (tim_after now) ps) @ ys, io_wallclock := now,
        io_entries := io_entries io - int (length (filter (\<lambda>t. tim_expired now t \<and> tim_once t) ps))\<rparr>)"
  by (simp_all add: timers_handled_def put_io_def)

lemma timers_handled_step:
  assumes "distinct (map tim_addr (ps @ e # ys))"
  shows "io_run_timer (client_cbs (quiet f g)) q e (timers_handled g now ps (e # ys) q io s) =
    Some (timers_handled g now (ps @ [e]) ys q io s)"
proof (cases "tim_expired now e")
  case False
  then show ?thesis
    by (simp add: io_run_timer_def tim_expired_def [symmetric]) (simp add: timers_handled_def tim_after_def)
next
  case True
  let ?xs = "concat (map (tim_after now) ps)"
  have d: "distinct (map tim_addr (?xs @ e # ys))" using distinct_tim_after [OF assms] by blast
  note gone = change_one(1) [OF d]
  have upd: "map (\<lambda>t. if tim_addr t = tim_addr e then t\<lparr>tim_wallclock := tv\<rparr> else t) (?xs @ e # ys) =
      ?xs @ e\<lparr>tim_wallclock := tv\<rparr> # ys" for tv
    by (rule change_one(2) [OF d])
  show ?thesis
    using True entry_at_here [OF d]
    by (cases "tim_once e"; cases s; cases io; simp add: io_run_timer_def tim_expired_def [symmetric] tim_unlink_def tim_update_def
        io_count_down_def gone upd del: map_append list.map filter_append filter.simps; simp add: timers_handled_def tim_after_def put_io_def algebra_simps)
qed

text \<open>
  C14. With callbacks that change only the client's state, \<open>io_handle_timers\<close> calls exactly the
  timers whose time has passed, in the order of the list; it removes those that were registered to
  fire once, counts them off, and sets the others to fire again one timeout after the current time.
\<close>

theorem io_timers_fire_when_expired:
  assumes "sys_io s q = Some io" and "distinct (map tim_addr (io_timer io))"
  shows "io_handle_timers (client_cbs (quiet f g)) q now s =
    Some ((put_io q (io\<lparr>io_timer := concat (map (\<lambda>t.
               if \<not> timer_less (tim_wallclock t) now then [t]
               else if tim_once t then [] else [t\<lparr>tim_wallclock := timeradd now (tim_timeout t)\<rparr>]) (io_timer io)),
             io_wallclock := now,
             io_entries := io_entries io -
               int (length (filter (\<lambda>t. timer_less (tim_wallclock t) now \<and> tim_once t) (io_timer io)))\<rparr>) s)
          \<lparr>sys_world := fold (\<lambda>t. g (tim_cb t) (tim_userdata t))
             (filter (\<lambda>t. timer_less (tim_wallclock t) now) (io_timer io)) (sys_world s)\<rparr>)"
proof -
  let ?I = "\<lambda>xs ys s'. \<exists>ps. io_timer io = ps @ ys \<and> xs = concat (map (tim_after now) ps) \<and>
    s' = timers_handled g now ps ys q io s"
  have start: "?I [] (io_timer io) (put_io q (io\<lparr>io_wallclock := now\<rparr>) s)"
    by (intro exI [of _ "[]"]) (cases s; cases io; simp add: timers_handled_def put_io_def)
  have "\<exists>s' xs'. foreach_safe (timers_of q) tim_addr (io_run_timer (client_cbs (quiet f g)) q)
      (first_of tim_addr (io_timer io)) (put_io q (io\<lparr>io_wallclock := now\<rparr>) s) = Some s' \<and> ?I xs' [] s'"
  proof (rule foreach_suffix [where I = ?I, OF _ start])
    fix e xs ys s'
    assume "?I xs (e # ys) s'"
    then obtain ps where ps: "io_timer io = ps @ e # ys" "xs = concat (map (tim_after now) ps)"
      "s' = timers_handled g now ps (e # ys) q io s" by blast
    have d: "distinct (map tim_addr (ps @ e # ys))" using assms(2) ps(1) by simp
    have "timers_of q s' = Some (xs @ e # ys)" by (simp add: timers_of_def ps)
    moreover have "distinct (map tim_addr (xs @ e # ys))" using distinct_tim_after [OF d] ps(2) by blast
    moreover have "?I (concat (map (tim_after now) (ps @ [e]))) ys (timers_handled g now (ps @ [e]) ys q io s)"
      using ps(1) by (intro exI [of _ "ps @ [e]"]) simp
    ultimately show "timers_of q s' = Some (xs @ e # ys) \<and> distinct (map tim_addr (xs @ e # ys)) \<and>
      (\<exists>s'' xs'. io_run_timer (client_cbs (quiet f g)) q e s' = Some s'' \<and> ?I xs' ys s'')"
      using timers_handled_step [OF d] ps(3) by blast
  qed
  then show ?thesis
    using assms(1) by (auto simp: io_handle_timers_def timers_handled_def tim_after_def [abs_def] tim_expired_def [abs_def])
qed

text \<open>Two timers that have expired, one of them to fire once, and one that has not.\<close>

definition sample_timer :: "nat \<Rightarrow> int \<Rightarrow> bool \<Rightarrow> dmr_io_timer" where
  "sample_timer a due once = \<lparr>tim_addr = a, tim_timeout = \<lparr>tv_sec = 5, tv_usec = 0\<rparr>,
     tim_wallclock = \<lparr>tv_sec = due, tv_usec = 0\<rparr>, tim_cb = a, tim_userdata = 0, tim_once = once\<rparr>"

definition sample_timers :: "nat list io_sys" where
  "sample_timers = \<lparr>sys_io = [0 \<mapsto>
       \<lparr>io_entry = (\<lambda>_. []), io_timer = [sample_timer 3 9 True, sample_timer 2 20 False, sample_timer 1 8 False],
        io_default = \<lparr>tv_sec = 1, tv_usec = 0\<rparr>, io_entries = 3, io_maxfd = 0, io_wallclock = \<lparr>tv_sec = 9, tv_usec = 0\<rparr>,
        io_readers = {}, io_writers = {}, io_errors = {}, io_closed = False\<rparr>],
     sys_sigs = [], sys_installed = {}, sys_brk = 4, sys_world = []\<rparr>"

theorem io_timers_fire_when_expired_witness:
  "\<exists>s io. io_handle_timers (client_cbs (quiet (\<lambda>_ _ _ w. w) (\<lambda>cb _ w. w @ [cb]))) 0 \<lparr>tv_sec = 10, tv_usec = 0\<rparr> sample_timers = Some s \<and>
     sys_world s = [3, 1] \<and> sys_io s 0 = Some io \<and> io_entries io = 2 \<and>
     io_timer io = [sample_timer 2 20 False, sample_timer 1 15 False]"
  by (subst io_timers_fire_when_expired [where io = "the (sys_io sample_timers 0)"])
    (simp_all add: sample_timers_def sample_timer_def timer_less_def timeradd_def put_io_def Let_def)

section \<open>Readable descriptors\<close>

definition ent_after :: "int \<Rightarrow> dmr_io_entry \<Rightarrow> dmr_io_entry list" where
  "ent_after fd e = (if ent_fd e = fd \<and> ent_once e then [] else [e])"

definition readable_handled ::
  "(nat \<Rightarrow> nat \<Rightarrow> int \<Rightarrow> 'w \<Rightarrow> 'w) \<Rightarrow> int \<Rightarrow> dmr_io_entry list \<Rightarrow> dmr_io_entry list \<Rightarrow> nat \<Rightarrow> dmr_io \<Rightarrow> 'w io_sys \<Rightarrow> 'w io_sys"
  where
  "readable_handled f fd ps ys q io s =
     (put_io q (io\<lparr>io_entry := (io_entry io)(DMR_REQUEST_READ := concat (map (ent_after fd) ps) @ ys),
        io_entries := io_entries io - int (length (filter (\<lambda>e. ent_fd e = fd \<and> ent_once e) ps)),
        io_readers := (if \<exists>e \<in> set ps. ent_fd e = fd \<and> ent_once e then io_readers io - {fd} else io_readers io)\<rparr>) s)
     \<lparr>sys_world := fold (\<lambda>e. f (ent_cb e) (ent_userdata e) fd) (filter (\<lambda>e. ent_fd e = fd) ps) (sys_world s)\<rparr>"

lemma distinct_ent_after:
  "distinct (map ent_addr (ps @ ys)) \<Longrightarrow> distinct (map ent_addr (concat (map (ent_after fd) ps) @ ys)) \<and>
   ent_addr ` set (concat (map (ent_after fd) ps)) \<subseteq> ent_addr ` set ps"
  by (induction ps) (auto simp: ent_after_def)

lemma readable_handled_step:
  assumes "distinct (map ent_addr (ps @ e # ys))" and fd: "0 \<le> fd" "fd < FD_SETSIZE"
  shows "(if ent_fd e = fd then io_run_entry (client_cbs (quiet f g)) DMR_REQUEST_READ clr_readers q fd e
      (readable_handled f fd ps (e # ys) q io s) else Some (readable_handled f fd ps (e # ys) q io s)) =
    Some (readable_handled f fd (ps @ [e]) ys q io s)"
proof (cases "ent_fd e = fd")
  case False
  then show ?thesis by (simp add: readable_handled_def ent_after_def)
next
  case True
  have d: "distinct (map ent_addr (concat (map (ent_after fd) ps) @ e # ys))" using distinct_ent_after [OF assms(1)] by blast
  note gone = change_one(1) [OF d]
  show ?thesis
    using True entry_at_here [OF d] fd
    by (cases "ent_once e"; cases s; cases io; simp add: io_run_entry_def readable_handled_def put_io_def io_unlink_def
        io_count_down_def clr_readers_def FD_CLR_def gone del: map_append list.map filter_append filter.simps;
        auto simp: ent_after_def)
qed

text \<open>
  C15. With callbacks that change only the client's state, \<open>io_handle_readable\<close> calls every callback
  that is registered for the descriptor, the newest first, and no other; those registered to be
  called once are removed, and if there was one, the descriptor is no longer watched, even when other
  callbacks for it stay registered.
\<close>

theorem io_readable_calls_all:
  assumes "sys_io s q = Some io" and "distinct (map ent_addr (io_entry io DMR_REQUEST_READ))"
    and "0 \<le> fd" and "fd < FD_SETSIZE"
  shows "io_handle_readable (client_cbs (quiet f g)) q fd s =
    Some (0, (put_io q (io\<lparr>io_entry := (io_entry io)(DMR_REQUEST_READ :=
               concat (map (\<lambda>e. if ent_fd e = fd \<and> ent_once e then [] else [e]) (io_entry io DMR_REQUEST_READ))),
             io_entries := io_entries io -
               int (length (filter (\<lambda>e. ent_fd e = fd \<and> ent_once e) (io_entry io DMR_REQUEST_READ))),
             io_readers := (if \<exists>e \<in> set (io_entry io DMR_REQUEST_READ). ent_fd e = fd \<and> ent_once e
               then io_readers io - {fd} else io_readers io)\<rparr>) s)
          \<lparr>sys_world := fold (\<lambda>e. f (ent_cb e) (ent_userdata e) fd)
             (filter (\<lambda>e. ent_fd e = fd) (io_entry io DMR_REQUEST_READ)) (sys_world s)\<rparr>)"
proof -
  let ?es = "io_entry io DMR_REQUEST_READ"
  let ?body = "\<lambda>e s. if ent_fd e = fd then io_run_entry (client_cbs (quiet f g)) DMR_REQUEST_READ clr_readers q fd e s else Some s"
  let ?I = "\<lambda>xs ys s'. \<exists>ps. ?es = ps @ ys \<and> xs = concat (map (ent_after fd) ps) \<and> s' = readable_handled f fd ps ys q io s"
  have start: "?I [] ?es s"
    using assms(1) by (intro exI [of _ "[]"]) (cases s; cases io; simp add: readable_handled_def put_io_def fun_upd_idem)
  have "\<exists>s' xs'. foreach_safe (entries_of DMR_REQUEST_READ q) ent_addr ?body (first_of ent_addr ?es) s = Some s' \<and> ?I xs' [] s'"
  proof (rule foreach_suffix [where I = ?I, OF _ start])
    fix e xs ys s'
    assume "?I xs (e # ys) s'"
    then obtain ps where ps: "?es = ps @ e # ys" "xs = concat (map (ent_after fd) ps)"
      "s' = readable_handled f fd ps (e # ys) q io s" by blast
    have d: "distinct (map ent_addr (ps @ e # ys))" using assms(2) ps(1) by simp
    have "entries_of DMR_REQUEST_READ q s' = Some (xs @ e # ys)"
      by (simp add: entries_of_def ps readable_handled_def put_io_def)
    moreover have "distinct (map ent_addr (xs @ e # ys))" using distinct_ent_after [OF d] ps(2) by blast
    moreover have "?I (concat (map (ent_after fd) (ps @ [e]))) ys (readable_handled f fd (ps @ [e]) ys q io s)"
      using ps(1) by (intro exI [of _ "ps @ [e]"]) simp
    ultimately show "entries_of DMR_REQUEST_READ q s' = Some (xs @ e # ys) \<and> distinct (map ent_addr (xs @ e # ys)) \<and>
      (\<exists>s'' xs'. ?body e s' = Some s'' \<and> ?I xs' ys s'')"
      using readable_handled_step [OF d assms(3,4)] ps(3) by blast
  qed
  then show ?thesis
    using assms(1) by (auto simp: io_handle_readable_def entries_of_def readable_handled_def ent_after_def [abs_def])
qed

definition sample_entry :: "nat \<Rightarrow> int \<Rightarrow> bool \<Rightarrow> dmr_io_entry" where
  "sample_entry a fd once = \<lparr>ent_addr = a, ent_handle = DMR_HANDLE_UNKNOWN, ent_fd = fd, ent_cb = a,
     ent_userdata = 0, ent_once = once\<rparr>"

definition sample_readers :: "nat list io_sys" where
  "sample_readers = \<lparr>sys_io = [0 \<mapsto>
       \<lparr>io_entry = (\<lambda>_. [])(DMR_REQUEST_READ := [sample_entry 3 4 True, sample_entry 2 5 False, sample_entry 1 4 False]),
        io_timer = [], io_default = \<lparr>tv_sec = 1, tv_usec = 0\<rparr>, io_entries = 3, io_maxfd = 5,
        io_wallclock = \<lparr>tv_sec = 9, tv_usec = 0\<rparr>, io_readers = {4, 5}, io_writers = {}, io_errors = {}, io_closed = False\<rparr>],
     sys_sigs = [], sys_installed = {}, sys_brk = 4, sys_world = []\<rparr>"

theorem io_readable_calls_all_witness:
  "\<exists>s io. io_handle_readable (client_cbs (quiet (\<lambda>cb _ _ w. w @ [cb]) (\<lambda>_ _ w. w))) 0 4 sample_readers = Some (0, s) \<and>
     sys_world s = [3, 1] \<and> sys_io s 0 = Some io \<and> io_readers io = {5} \<and>
     io_entry io DMR_REQUEST_READ = [sample_entry 2 5 False, sample_entry 1 4 False]"
  by (subst io_readable_calls_all [where io = "the (sys_io sample_readers 0)"])
    (auto simp: sample_readers_def sample_entry_def put_io_def FD_SETSIZE_def)

text \<open>
  Removing an error callback that was registered to be called once clears the descriptor in the
  set of writers: a write callback for it stays registered and is not called any more, and the
  descriptor is still watched for errors.
\<close>

lemma io_error_once_stops_writes:
  assumes "sys_io s q = Some io" "distinct (map ent_addr (io_entry io DMR_REQUEST_ERROR))"
    and "find (\<lambda>e. ent_fd e = fd) (io_entry io DMR_REQUEST_ERROR) = Some e" "ent_once e" "0 \<le> fd" "fd < FD_SETSIZE"
  shows "\<exists>s' io'. io_handle_error (client_cbs (quiet f g)) q fd s = Some (1, s') \<and> sys_io s' q = Some io' \<and>
    io_writers io' = io_writers io - {fd} \<and> io_entry io' DMR_REQUEST_WRITE = io_entry io DMR_REQUEST_WRITE \<and>
    io_errors io' = io_errors io \<and> length (io_entry io' DMR_REQUEST_ERROR) < length (io_entry io DMR_REQUEST_ERROR)"
proof -
  have e: "e \<in> set (io_entry io DMR_REQUEST_ERROR)" using assms(3) by (auto simp: find_Some_iff)
  then obtain xs ys where es: "io_entry io DMR_REQUEST_ERROR = xs @ e # ys" by (auto dest: split_list)
  have d: "distinct (map ent_addr (xs @ e # ys))" using assms(2) es by simp
  have "length (filter (\<lambda>x. ent_addr x \<noteq> ent_addr e) (io_entry io DMR_REQUEST_ERROR)) < length (io_entry io DMR_REQUEST_ERROR)"
    using change_one(1) [OF d] es by simp
  then show ?thesis
    using assms(1,3-6) entry_at_here [OF d] es
    by (simp add: io_handle_error_def io_handle_first_def entries_of_def io_run_entry_def clr_writers_def FD_CLR_def
        io_unlink_def io_count_down_def put_io_def)
qed

end
