(* ===== verification/Dmr_List.thy ===== *)
theory Dmr_List
  imports Dmr_Queue Dmr_Io
begin

text \<open>
  The list macros of \<open>include/dmr/queue.h\<close> on an explicit store.  A list is a tail queue without
  the pointer to its end, so its operations are those of \<open>Dmr_Queue\<close> with that pointer left out.
  They are proved to implement the operations on lists with which \<open>Dmr_Io\<close> models the lists of
  entries and timers.
\<close>

section \<open>Definitions\<close>

record lst =
  lh_first :: "addr option"
  le_next :: "addr \<Rightarrow> addr option"
  le_prev :: "addr \<Rightarrow> slot"

fun lst_read :: "lst \<Rightarrow> slot \<Rightarrow> addr option" where
  "lst_read l First_slot = lh_first l"
| "lst_read l (Next_slot a) = le_next l a"

fun lst_write :: "slot \<Rightarrow> addr option \<Rightarrow> lst \<Rightarrow> lst" where
  "lst_write First_slot v l = l\<lparr>lh_first := v\<rparr>"
| "lst_write (Next_slot a) v l = l\<lparr>le_next := (le_next l)(a := v)\<rparr>"

definition lst_set_prev :: "addr \<Rightarrow> slot \<Rightarrow> lst \<Rightarrow> lst" where
  "lst_set_prev a s l = l\<lparr>le_prev := (le_prev l)(a := s)\<rparr>"

definition DMR_LIST_FIRST :: "lst \<Rightarrow> addr option" where
  "DMR_LIST_FIRST l = lh_first l"

definition DMR_LIST_NEXT :: "lst \<Rightarrow> addr \<Rightarrow> addr option" where
  "DMR_LIST_NEXT l elm = le_next l elm"

definition DMR_LIST_EMPTY :: "lst \<Rightarrow> bool" where
  "DMR_LIST_EMPTY l \<longleftrightarrow> DMR_LIST_FIRST l = None"

definition DMR_LIST_INIT :: "lst \<Rightarrow> lst" where
  "DMR_LIST_INIT l = l\<lparr>lh_first := None\<rparr>"

definition DMR_LIST_INSERT_AFTER :: "addr \<Rightarrow> addr \<Rightarrow> lst \<Rightarrow> lst" where
  "DMR_LIST_INSERT_AFTER listelm elm l =
     (let l = lst_write (Next_slot elm) (le_next l listelm) l;
          l = (case le_next l elm of Some n \<Rightarrow> lst_set_prev n (Next_slot elm) l | None \<Rightarrow> l);
          l = lst_write (Next_slot listelm) (Some elm) l
      in lst_set_prev elm (Next_slot listelm) l)"

definition DMR_LIST_INSERT_BEFORE :: "addr \<Rightarrow> addr \<Rightarrow> lst \<Rightarrow> lst" where
  "DMR_LIST_INSERT_BEFORE listelm elm l =
     (let l = lst_set_prev elm (le_prev l listelm) l;
          l = lst_write (Next_slot elm) (Some listelm) l;
          l = lst_write (le_prev l listelm) (Some elm) l
      in lst_set_prev listelm (Next_slot elm) l)"

definition DMR_LIST_INSERT_HEAD :: "addr \<Rightarrow> lst \<Rightarrow> lst" where
  "DMR_LIST_INSERT_HEAD elm l =
     (let l = lst_write (Next_slot elm) (lh_first l) l;
          l = (case lh_first l of Some f \<Rightarrow> lst_set_prev f (Next_slot elm) l | None \<Rightarrow> l);
          l = l\<lparr>lh_first := Some elm\<rparr>
      in lst_set_prev elm First_slot l)"

text \<open>The invalidation of the removed element is only compiled in for debugging.\<close>

definition DMR_LIST_REMOVE :: "addr \<Rightarrow> lst \<Rightarrow> lst" where
  "DMR_LIST_REMOVE elm l =
     (let l = (case le_next l elm of Some n \<Rightarrow> lst_set_prev n (le_prev l elm) l | None \<Rightarrow> l)
      in lst_write (le_prev l elm) (le_next l elm) l)"

section \<open>Lists and tail queues\<close>

definition with_last :: "slot \<Rightarrow> lst \<Rightarrow> tailq" where
  "with_last e l = \<lparr>tqh_first = lh_first l, tqh_last = e, tqe_next = le_next l, tqe_prev = le_prev l\<rparr>"

definition lst_rep :: "lst \<Rightarrow> addr list \<Rightarrow> bool" where
  "lst_rep l xs \<longleftrightarrow> (\<exists>e. tq_rep (with_last e l) xs)"

lemma write_with_last [simp]: "write_slot p v (with_last e l) = with_last e (lst_write p v l)"
  by (cases p) (simp_all add: with_last_def write_slot.simps)

lemma with_last_simps [simp]:
  "set_prev a p (with_last e l) = with_last e (lst_set_prev a p l)"
  "tqe_prev (with_last e l) = le_prev l" "(with_last e l)\<lparr>tqh_last := e'\<rparr> = with_last e' l"
  "(with_last e l)\<lparr>tqh_first := v\<rparr> = with_last e (l\<lparr>lh_first := v\<rparr>)"
  by (simp_all add: with_last_def set_prev_def lst_set_prev_def)

lemma read_with_last [simp]: "read_slot (with_last e l) p = lst_read l p"
  by (cases p) (simp_all add: with_last_def read_slot.simps del: read_slots)

lemma lst_reads: "lh_first l = lst_read l First_slot" "le_next l a = lst_read l (Next_slot a)"
  by simp_all

text \<open>Each list macro is the tail queue macro, for some pointer to the end.\<close>

lemma list_is_tailq:
  "\<exists>e'. with_last e' (DMR_LIST_INSERT_HEAD x l) = DMR_TAILQ_INSERT_HEAD x (with_last e l)"
  "\<exists>e'. with_last e' (DMR_LIST_INSERT_AFTER y x l) = DMR_TAILQ_INSERT_AFTER y x (with_last e l)"
  "\<exists>e'. with_last e' (DMR_LIST_INSERT_BEFORE y x l) = DMR_TAILQ_INSERT_BEFORE y x (with_last e l)"
  "\<exists>e'. with_last e' (DMR_LIST_REMOVE x l) = DMR_TAILQ_REMOVE x (with_last e l)"
  unfolding tailq_defs DMR_LIST_INSERT_HEAD_def DMR_LIST_INSERT_AFTER_def DMR_LIST_INSERT_BEFORE_def DMR_LIST_REMOVE_def
  by (auto split: option.splits)

lemma lst_init: "lst_rep (DMR_LIST_INIT l) []"
proof -
  have "with_last First_slot (DMR_LIST_INIT l) = DMR_TAILQ_INIT (with_last First_slot l)"
    by (simp add: tailq_defs DMR_LIST_INIT_def with_last_def)
  then show ?thesis using tq_init unfolding lst_rep_def by metis
qed

lemma lst_insert:
  assumes "lst_rep l (xs @ y # ys)" "x \<notin> set (xs @ y # ys)"
  shows "lst_rep (DMR_LIST_INSERT_AFTER y x l) (xs @ y # x # ys)" "lst_rep (DMR_LIST_INSERT_BEFORE y x l) (xs @ x # y # ys)"
  using assms tq_insert_after [OF _ assms(2)] tq_insert_before [OF _ assms(2)] list_is_tailq(2,3)
  unfolding lst_rep_def append_assoc append_Cons append_Nil by metis+

lemma lst_insert_head: "lst_rep l xs \<Longrightarrow> x \<notin> set xs \<Longrightarrow> lst_rep (DMR_LIST_INSERT_HEAD x l) (x # xs)"
  using tq_insert_head list_is_tailq(1) unfolding lst_rep_def by metis

lemma lst_remove:
  assumes "lst_rep l xs" "x \<in> set xs"
  shows "lst_rep (DMR_LIST_REMOVE x l) (filter (\<lambda>a. a \<noteq> x) xs)"
proof -
  obtain ys zs where xs: "xs = ys @ x # zs" using assms(2) by (auto dest: split_list)
  obtain e where e: "tq_rep (with_last e l) (ys @ x # zs)" using assms(1) xs by (auto simp: lst_rep_def)
  then have "filter (\<lambda>a. a \<noteq> x) ys = ys" "filter (\<lambda>a. a \<noteq> x) zs = zs" by (auto simp: tq_rep_def filter_id_conv)
  then have "filter (\<lambda>a. a \<noteq> x) xs = ys @ zs" by (simp add: xs)
  then show ?thesis using tq_remove [OF e] list_is_tailq(4) unfolding lst_rep_def by metis
qed

lemma tq_next:
  "tq_seg q s xs e \<Longrightarrow> read_slot q e = None \<Longrightarrow> distinct xs \<Longrightarrow> x \<in> set xs \<Longrightarrow>
   read_slot q (Next_slot x) = next_of id x xs"
proof (induction xs arbitrary: s)
  case (Cons y ys)
  then show ?case by (cases ys) auto
qed simp

lemma lst_next:
  assumes "lst_rep l xs" "x \<in> set xs"
  shows "DMR_LIST_NEXT l x = next_of id x xs"
proof -
  obtain e where "tq_seg (with_last e l) First_slot xs e" "read_slot (with_last e l) e = None" "distinct xs"
    using assms(1) by (auto simp: lst_rep_def tq_rep_def with_last_def)
  from tq_next [OF this assms(2)] show ?thesis by (simp add: DMR_LIST_NEXT_def)
qed

lemma lst_first: "lst_rep l xs \<Longrightarrow> DMR_LIST_FIRST l = first_of id xs"
  unfolding lst_rep_def using tq_first [of "with_last _ l" xs] by (cases xs) (auto simp: DMR_LIST_FIRST_def tailq_defs)

text \<open>
  The list macros implement the lists of the event loop's model: on a well-formed list that
  holds the elements \<open>xs\<close>, the first and the next pointers are those with which the model walks
  through \<open>xs\<close>, inserting at the head and removing change \<open>xs\<close> as linking and unlinking an entry
  do in the model, and the other insertions put the new element next to the given one.
\<close>

theorem list_macros_implement_io_lists:
  assumes "lst_rep l (ys @ y # zs)" and "x \<notin> set (ys @ y # zs)"
  shows "DMR_LIST_FIRST l = first_of id (ys @ y # zs) \<and>
    DMR_LIST_NEXT l y = next_of id y (ys @ y # zs) \<and>
    lst_rep (DMR_LIST_INSERT_HEAD x l) (x # ys @ y # zs) \<and>
    lst_rep (DMR_LIST_INSERT_AFTER y x l) (ys @ y # x # zs) \<and>
    lst_rep (DMR_LIST_INSERT_BEFORE y x l) (ys @ x # y # zs) \<and>
    lst_rep (DMR_LIST_REMOVE y l) (filter (\<lambda>a. a \<noteq> y) (ys @ y # zs))"
  using lst_first [OF assms(1)] lst_next [OF assms(1), of y] lst_insert_head [OF assms] lst_insert [OF assms]
    lst_remove [OF assms(1), of y] by simp

theorem list_macros_implement_io_lists_witness:
  "let l = DMR_LIST_INSERT_HEAD 5 (DMR_LIST_INSERT_HEAD 1 (DMR_LIST_INSERT_HEAD 2
       (DMR_LIST_INIT \<lparr>lh_first = Some 9, le_next = \<lambda>a. Some a, le_prev = \<lambda>a. First_slot\<rparr>)))
   in DMR_LIST_FIRST l = Some 5 \<and> DMR_LIST_NEXT l 1 = Some 2 \<and> lst_rep (DMR_LIST_REMOVE 1 l) [5, 2]"
proof -
  let ?l = "DMR_LIST_INSERT_HEAD 5 (DMR_LIST_INSERT_HEAD 1 (DMR_LIST_INSERT_HEAD 2
       (DMR_LIST_INIT \<lparr>lh_first = Some 9, le_next = \<lambda>a. Some a, le_prev = \<lambda>a. First_slot\<rparr>)))"
  have "lst_rep ?l ([5] @ 1 # [2])" by (simp add: lst_insert_head lst_init)
  from list_macros_implement_io_lists [OF this, of 7] show ?thesis by simp
qed

end
