(* ===== verification/Dmr_IoProtocols.thy ===== *)
theory Dmr_IoProtocols
  imports Dmr_Io Dmr_Homebrew Dmr_Mmdvm
begin

text \<open>
  The protocols in the event loop: the parts of \<open>src/dmr/protocol/homebrew_io.c\<close> and
  \<open>mmdvm_io.c\<close> that register and unregister callbacks, and the callbacks of \<open>Dmr_Homebrew\<close> and
  \<open>Dmr_Mmdvm\<close> as callbacks of the loop of \<open>Dmr_Io\<close>.
\<close>

section \<open>Connections by address\<close>

text \<open>
  The connections that have not been freed, the descriptors of their sockets and serial ports, the
  frames that were sent, the packets that were freed, and the number of callbacks so far.
\<close>

record proto_world =
  pw_hb :: "nat \<Rightarrow> dmr_homebrew option"
  pw_mm :: "nat \<Rightarrow> dmr_mmdvm option"
  pw_sock :: "nat \<Rightarrow> int"
  pw_serial :: "nat \<Rightarrow> int"
  pw_sent :: "u8 list list"
  pw_freed :: "dmr_parsed_packet list"
  pw_calls :: nat

text \<open>What the system answers to one callback.\<close>

record proto_env =
  pe_hb :: hb_env
  pe_hb_mems :: "bool \<times> bool \<times> bool"
  pe_recv :: "u8 list option"
  pe_common :: common_ops
  pe_mm_mems :: "bool \<times> bool \<times> bool \<times> bool"
  pe_behind :: "u8 list"
  pe_read :: "read_result list"

type_synonym psys = "proto_world io_sys"
type_synonym presult = "(int \<times> proto_world io_sys) option"

text \<open>The function pointers.\<close>

definition HB_PING_TIMER :: nat where "HB_PING_TIMER = 1"
definition HB_READABLE :: nat where "HB_READABLE = 2"
definition HB_ERROR :: nat where "HB_ERROR = 3"
definition MM_READABLE :: nat where "MM_READABLE = 4"
definition MM_ERROR :: nat where "MM_ERROR = 5"

lemmas proto_ptrs = HB_PING_TIMER_def HB_READABLE_def HB_ERROR_def MM_READABLE_def MM_ERROR_def

definition in_world :: "(proto_world \<Rightarrow> proto_world) \<Rightarrow> psys \<Rightarrow> psys" where
  "in_world f s = s\<lparr>sys_world := f (sys_world s)\<rparr>"

section \<open>Homebrew\<close>

definition homebrew_io_stop :: "nat option \<Rightarrow> int \<Rightarrow> psys \<Rightarrow> presult" where
  "homebrew_io_stop p fd s = do {
     (r1, s) \<leftarrow> dmr_io_del_timer p HB_PING_TIMER s;
     (r2, s) \<leftarrow> dmr_io_del_read p fd HB_READABLE s;
     (r3, s) \<leftarrow> dmr_io_del_error p fd HB_ERROR s;
     Some (0, s) }"

text \<open>\<open>mems\<close>: whether the allocations of the timer and the two entries succeed.\<close>

definition homebrew_io_register :: "bool \<times> bool \<times> bool \<Rightarrow> nat option \<Rightarrow> nat option \<Rightarrow> psys \<Rightarrow> presult" where
  "homebrew_io_register mems p homebrewptr s =
     (case (p, homebrewptr) of
        (Some q, Some h) \<Rightarrow> do {
          hb \<leftarrow> pw_hb (sys_world s) h;
          if \<not> hb_sock hb then None
          else do {
            let fd = pw_sock (sys_world s) h;
            (r1, s) \<leftarrow> dmr_io_reg_timer (fst mems) p \<lparr>tv_sec = 5, tv_usec = 0\<rparr> HB_PING_TIMER h False s;
            (r2, s) \<leftarrow> dmr_io_reg_read (fst (snd mems)) p fd HB_READABLE h False s;
            (r3, s) \<leftarrow> dmr_io_reg_error (snd (snd mems)) p fd HB_ERROR h False s;
            Some (0, s) } }
      | _ \<Rightarrow> Some (-1, s))"

definition hb_protocol_init :: "bool list \<Rightarrow> nat \<Rightarrow> nat \<Rightarrow> psys \<Rightarrow> presult" where
  "hb_protocol_init mems q h s = do {
     hb \<leftarrow> pw_hb (sys_world s) h;
     let (ret, hb') = homebrew_io_init mems (Some hb);
     Some (ret, in_world (\<lambda>w. w\<lparr>pw_hb := (pw_hb w)(h := hb')\<rparr>) s) }"

definition dmr_homebrew_protocol :: "bool list \<Rightarrow> bool \<times> bool \<times> bool \<Rightarrow> proto_world dmr_protocol" where
  "dmr_homebrew_protocol imems rmems =
     \<lparr>init_io = Some (hb_protocol_init imems),
      register_io = Some (\<lambda>q h. homebrew_io_register rmems (Some q) (Some h))\<rparr>"

text \<open>The connection is freed before the callbacks are unregistered.\<close>

definition homebrew_io_error :: "nat option \<Rightarrow> nat option \<Rightarrow> int \<Rightarrow> psys \<Rightarrow> presult" where
  "homebrew_io_error p homebrewptr fd s =
     (case (p, homebrewptr) of
        (Some q, Some h) \<Rightarrow> do {
          hb \<leftarrow> pw_hb (sys_world s) h;
          homebrew_io_stop p fd (in_world (\<lambda>w. w\<lparr>pw_hb := (pw_hb w)(h := None)\<rparr>) s) }
      | _ \<Rightarrow> Some (-1, s))"

section \<open>MMDVM\<close>

definition mmdvm_io_stop :: "nat option \<Rightarrow> int \<Rightarrow> psys \<Rightarrow> presult" where
  "mmdvm_io_stop p fd s = do {
     (r1, s) \<leftarrow> dmr_io_del_read p fd MM_READABLE s;
     (r2, s) \<leftarrow> dmr_io_del_error p fd MM_ERROR s;
     Some (0, s) }"

definition mmdvm_io_register :: "bool \<times> bool \<Rightarrow> nat option \<Rightarrow> nat option \<Rightarrow> psys \<Rightarrow> presult" where
  "mmdvm_io_register mems p mmdvmptr s =
     (case (p, mmdvmptr) of
        (Some q, Some h) \<Rightarrow> do {
          mm \<leftarrow> pw_mm (sys_world s) h;
          let fd = pw_serial (sys_world s) h;
          (r1, s) \<leftarrow> dmr_io_reg_read (fst mems) p fd MM_READABLE h False s;
          (r2, s) \<leftarrow> dmr_io_reg_error (snd mems) p fd MM_ERROR h False s;
          Some (0, s) }
      | _ \<Rightarrow> Some (-1, s))"

definition mm_protocol_init ::
  "mm_env \<Rightarrow> bool \<times> bool \<Rightarrow> bool list \<Rightarrow> write_result list \<Rightarrow> nat \<Rightarrow> nat \<Rightarrow> psys \<Rightarrow> presult" where
  "mm_protocol_init env mems serial ws q h s = do {
     mm \<leftarrow> pw_mm (sys_world s) h;
     (ret, mm', out, ws) \<leftarrow> mmdvm_io_init env mems serial (Some mm) ws;
     Some (ret, in_world (\<lambda>w. w\<lparr>pw_mm := (pw_mm w)(h := mm'), pw_sent := pw_sent w @ out\<rparr>) s) }"

definition dmr_mmdvm_protocol ::
  "mm_env \<Rightarrow> bool \<times> bool \<Rightarrow> bool list \<Rightarrow> write_result list \<Rightarrow> bool \<times> bool \<Rightarrow> proto_world dmr_protocol" where
  "dmr_mmdvm_protocol env mems serial ws rmems =
     \<lparr>init_io = Some (mm_protocol_init env mems serial ws),
      register_io = Some (\<lambda>q h. mmdvm_io_register rmems (Some q) (Some h))\<rparr>"

text \<open>
  \<open>mems\<close>: the pointer cell, the two allocations of \<open>dmr_mmdvm_read\<close>, the queue entry.  The result
  has the packet that is freed at the end: it is the one that was given to the queue.
\<close>

definition mm_readable ::
  "common_ops \<Rightarrow> bool \<times> bool \<times> bool \<times> bool \<Rightarrow> u8 list \<Rightarrow> dmr_mmdvm \<Rightarrow> read_result list \<Rightarrow>
   (int \<times> dmr_mmdvm \<times> dmr_parsed_packet list) option" where
  "mm_readable c mems behind mm rs =
     (case mems of (m_cell, m1, m2, m_entry) \<Rightarrow>
        if \<not> m_cell then Some (-1, mm, [])
        else do {
          (ret, mm, parsed, rs) \<leftarrow> dmr_mmdvm_read c (m1, m2) behind mm rs;
          Some (case parsed of
                  Some pkt \<Rightarrow>
                    if ret = 0
                    then (case dmr_packetq_add m_entry (mm_rxq mm) parsed of
                            Inl e \<Rightarrow> (-1, mm, [pkt])
                          | Inr q \<Rightarrow> (0, mm\<lparr>mm_rxq := Some q\<rparr>, [pkt]))
                    else (ret, mm, [])
                | None \<Rightarrow> (ret, mm, [])) })"

definition mmdvm_io_error :: "nat option \<Rightarrow> nat option \<Rightarrow> int \<Rightarrow> psys \<Rightarrow> presult" where
  "mmdvm_io_error p mmdvmptr fd s =
     (case (p, mmdvmptr) of
        (Some q, Some h) \<Rightarrow> do {
          mm \<leftarrow> pw_mm (sys_world s) h;
          let (r, mm') = dmr_mmdvm_close (Some mm);
          mmdvm_io_stop p fd (in_world (\<lambda>w. w\<lparr>pw_mm := (pw_mm w)(h := mm')\<rparr>) s) }
      | _ \<Rightarrow> Some (-1, s))"

section \<open>The callbacks of the loop\<close>

definition call_ping :: "proto_env \<Rightarrow> nat \<Rightarrow> psys \<Rightarrow> presult" where
  "call_ping e h s = do {
     hb \<leftarrow> pw_hb (sys_world s) h;
     (ret, hb, fs) \<leftarrow> hb_ping_timer (pe_hb e) hb;
     Some (ret, in_world (\<lambda>w. w\<lparr>pw_hb := (pw_hb w)(h \<mapsto> hb), pw_sent := pw_sent w @ fs\<rparr>) s) }"

definition call_hb_readable :: "proto_env \<Rightarrow> nat \<Rightarrow> psys \<Rightarrow> presult" where
  "call_hb_readable e h s = do {
     hb \<leftarrow> pw_hb (sys_world s) h;
     (ret, hb, fs) \<leftarrow> hb_readable (pe_hb e) (pe_hb_mems e) hb (pe_recv e);
     Some (ret, in_world (\<lambda>w. w\<lparr>pw_hb := (pw_hb w)(h \<mapsto> hb), pw_sent := pw_sent w @ fs\<rparr>) s) }"

definition call_mm_readable :: "proto_env \<Rightarrow> nat \<Rightarrow> psys \<Rightarrow> presult" where
  "call_mm_readable e h s = do {
     mm \<leftarrow> pw_mm (sys_world s) h;
     (ret, mm, freed) \<leftarrow> mm_readable (pe_common e) (pe_mm_mems e) (pe_behind e) mm (pe_read e);
     Some (ret, in_world (\<lambda>w. w\<lparr>pw_mm := (pw_mm w)(h \<mapsto> mm), pw_freed := pw_freed w @ freed\<rparr>) s) }"

text \<open>
  Dispatch on the function pointer; \<open>env k\<close> is what the system answers to the \<open>k\<close>-th callback.
\<close>

definition proto_cbs :: "(nat \<Rightarrow> proto_env) \<Rightarrow> proto_world io_cbs" where
  "proto_cbs env =
     \<lparr>cb_fd = (\<lambda>cb q h fd s.
        let e = env (pw_calls (sys_world s)); s = in_world (\<lambda>w. w\<lparr>pw_calls := Suc (pw_calls w)\<rparr>) s
        in if cb = HB_READABLE then call_hb_readable e h s
           else if cb = HB_ERROR then homebrew_io_error (Some q) (Some h) fd s
           else if cb = MM_READABLE then call_mm_readable e h s
           else if cb = MM_ERROR then mmdvm_io_error (Some q) (Some h) fd s
           else None),
      cb_plain = (\<lambda>cb q h s.
        let e = env (pw_calls (sys_world s)); s = in_world (\<lambda>w. w\<lparr>pw_calls := Suc (pw_calls w)\<rparr>) s
        in if cb = HB_PING_TIMER then call_ping e h s else None)\<rparr>"

section \<open>The protocols keep the contract of the loop\<close>

lemma keeps_bind:
  assumes "io_keeps f" and "\<And>r. io_keeps (g r)"
  shows "io_keeps (\<lambda>s. f s \<bind> (\<lambda>(r, s). g r s))"
  unfolding io_keeps_def
proof (intro allI impI)
  fix s r s'
  assume inv: "sys_inv s" and "f s \<bind> (\<lambda>(r, s). g r s) = Some (r, s')"
  then obtain r1 s1 where 1: "f s = Some (r1, s1)" and 2: "g r1 s1 = Some (r, s')"
    by (auto simp: bind_eq_Some_conv)
  note a = io_keepsD [OF assms(1) inv 1]
  note b = io_keepsD [OF assms(2) a(1) 2]
  show "sys_inv s' \<and> io_evolves s s'" using a b io_evolves_trans by blast
qed

lemma keeps_return: "io_keeps (\<lambda>s. Some (r, s))"
  by (simp add: io_keeps_def io_evolves_refl)

lemma in_world_keeps [simp]: "sys_inv (in_world f s) = sys_inv s"
  by (simp add: in_world_def io_keeps_world)

lemma in_world_evolves: "io_evolves s (in_world f s)"
  by (simp add: in_world_def io_keeps_world)

lemma stop_keeps: "io_keeps (homebrew_io_stop p fd)" "io_keeps (mmdvm_io_stop p fd)"
  unfolding homebrew_io_stop_def mmdvm_io_stop_def
  by (intro keeps_bind keeps_return del_fd_keeps del_timer_keeps)+

lemma keeps_after_world:
  assumes "io_keeps f" "sys_inv s" "f (in_world w s) = Some (r, s')"
  shows "sys_inv s' \<and> io_evolves s s'"
  using io_keepsD [OF assms(1) _ assms(3)] assms(2) io_evolves_trans [OF in_world_evolves] by auto

lemma keeps_only_world:
  assumes "\<And>s r s'. f s = Some (r, s') \<Longrightarrow> \<exists>w. s' = in_world w s"
  shows "io_keeps f"
  unfolding io_keeps_def using assms in_world_keeps in_world_evolves by metis

lemma calls_keep: "io_keeps (call_ping e h)" "io_keeps (call_hb_readable e h)" "io_keeps (call_mm_readable e h)"
  by (rule keeps_only_world, auto simp: call_ping_def call_hb_readable_def call_mm_readable_def bind_eq_Some_conv)+

lemma error_keeps: "io_keeps (homebrew_io_error p h fd)" "io_keeps (mmdvm_io_error p h fd)"
  unfolding io_keeps_def homebrew_io_error_def mmdvm_io_error_def
  by (auto simp: io_evolves_refl bind_eq_Some_conv dmr_mmdvm_close_def split: option.splits dest: keeps_after_world [OF stop_keeps(1)]
      keeps_after_world [OF stop_keeps(2)])

interpretation protocols: io_callbacks "proto_cbs env" for env
proof
  show "io_keeps (cb_fd (proto_cbs env) c q u fd)" for c q u fd
    unfolding io_keeps_def proto_cbs_def Let_def
    by (auto split: if_splits dest: keeps_after_world [OF calls_keep(2)] keeps_after_world [OF calls_keep(3)]
        keeps_after_world [OF error_keeps(1)] keeps_after_world [OF error_keeps(2)])
  show "io_keeps (cb_plain (proto_cbs env) c q u)" for c q u
    unfolding io_keeps_def proto_cbs_def Let_def
    by (auto split: if_splits dest: keeps_after_world [OF calls_keep(1)])
qed

section \<open>Error callbacks free their own entry\<close>

lemma proto_cb_fd_error:
  "cb_fd (proto_cbs env) HB_ERROR q h fd s =
     homebrew_io_error (Some q) (Some h) fd (in_world (\<lambda>w. w\<lparr>pw_calls := Suc (pw_calls w)\<rparr>) s)"
  "cb_fd (proto_cbs env) MM_ERROR q h fd s =
     mmdvm_io_error (Some q) (Some h) fd (in_world (\<lambda>w. w\<lparr>pw_calls := Suc (pw_calls w)\<rparr>) s)"
  by (simp_all add: proto_cbs_def proto_ptrs Let_def)

text \<open>After \<open>dmr_io_del_error\<close> the first entry with the descriptor and the callback is gone.\<close>

lemma del_error_gone:
  assumes "dmr_io_del_error (Some q) fd cb s = Some (r, s')" "sys_io s q = Some io"
    and "find (\<lambda>e. ent_fd e = fd) (io_entry io DMR_REQUEST_ERROR) = Some e" "ent_cb e = cb"
  shows "\<exists>io'. sys_io s' q = Some io' \<and> entry_at ent_addr (ent_addr e) (io_entry io' DMR_REQUEST_ERROR) = None"
proof -
  have "find_cb DMR_REQUEST_ERROR fd cb io = Some e"
    using assms(3,4) unfolding find_cb_def by (induction "io_entry io DMR_REQUEST_ERROR" arbitrary: io) (auto simp: find_Some_iff)
  then obtain io' where io': "clr_errors fd (io_count_down (io_unlink DMR_REQUEST_ERROR (ent_addr e) io)) = Some io'"
    and s': "s' = put_io q io' s"
    using assms(1,2) by (auto simp: dmr_io_del_error_def io_api_def bind_eq_Some_conv)
  have "entry_at ent_addr (ent_addr e) (io_entry io' DMR_REQUEST_ERROR) = None"
    using clr_Some(3) [OF io'] by (simp add: io_count_down_def io_unlink_def entry_at_def find_None_iff)
  then show ?thesis by (simp add: s' put_io_def)
qed

lemma del_keeps_errors:
  "dmr_io_del_timer (Some q) cb s = Some (r, s') \<Longrightarrow> sys_io s q = Some io \<Longrightarrow>
     \<exists>io'. sys_io s' q = Some io' \<and> io_entry io' DMR_REQUEST_ERROR = io_entry io DMR_REQUEST_ERROR"
  "dmr_io_del_read (Some q) fd cb s = Some (r, s') \<Longrightarrow> sys_io s q = Some io \<Longrightarrow>
     \<exists>io'. sys_io s' q = Some io' \<and> io_entry io' DMR_REQUEST_ERROR = io_entry io DMR_REQUEST_ERROR"
  by (auto simp: dmr_io_del_timer_def dmr_io_del_read_def io_api_def put_io_def io_count_down_def tim_unlink_def
      io_unlink_def bind_eq_Some_conv dest!: clr_Some split: option.splits)

lemma stop_frees_error:
  assumes "homebrew_io_stop (Some q) fd s = Some (r, s') \<and> ent_cb e = HB_ERROR \<or>
      mmdvm_io_stop (Some q) fd s = Some (r, s') \<and> ent_cb e = MM_ERROR"
    and "sys_io s q = Some io" "find (\<lambda>e. ent_fd e = fd) (io_entry io DMR_REQUEST_ERROR) = Some e"
  shows "\<exists>io'. sys_io s' q = Some io' \<and> entry_at ent_addr (ent_addr e) (io_entry io' DMR_REQUEST_ERROR) = None"
  using assms(1)
proof
  assume hb: "homebrew_io_stop (Some q) fd s = Some (r, s') \<and> ent_cb e = HB_ERROR"
  then obtain r1 s1 r2 s2 r3 where steps: "dmr_io_del_timer (Some q) HB_PING_TIMER s = Some (r1, s1)"
    "dmr_io_del_read (Some q) fd HB_READABLE s1 = Some (r2, s2)" "dmr_io_del_error (Some q) fd HB_ERROR s2 = Some (r3, s')"
    by (auto simp: homebrew_io_stop_def bind_eq_Some_conv)
  from del_keeps_errors(1) [OF steps(1) assms(2)] obtain io1 where
    io1: "sys_io s1 q = Some io1" "io_entry io1 DMR_REQUEST_ERROR = io_entry io DMR_REQUEST_ERROR" by blast
  from del_keeps_errors(2) [OF steps(2) io1(1)] obtain io2 where
    io2: "sys_io s2 q = Some io2" "io_entry io2 DMR_REQUEST_ERROR = io_entry io1 DMR_REQUEST_ERROR" by blast
  show ?thesis using del_error_gone [OF steps(3) io2(1)] assms(3) hb io1(2) io2(2) by simp
next
  assume mm: "mmdvm_io_stop (Some q) fd s = Some (r, s') \<and> ent_cb e = MM_ERROR"
  then obtain r2 s2 r3 where steps:
    "dmr_io_del_read (Some q) fd MM_READABLE s = Some (r2, s2)" "dmr_io_del_error (Some q) fd MM_ERROR s2 = Some (r3, s')"
    by (auto simp: mmdvm_io_stop_def bind_eq_Some_conv)
  from del_keeps_errors(2) [OF steps(1) assms(2)] obtain io2 where
    io2: "sys_io s2 q = Some io2" "io_entry io2 DMR_REQUEST_ERROR = io_entry io DMR_REQUEST_ERROR" by blast
  show ?thesis using del_error_gone [OF steps(2) io2(1)] assms(3) mm io2(2) by simp
qed

lemma in_world_io [simp]: "sys_io (in_world w s) = sys_io s"
  by (simp add: in_world_def)

lemma error_is_stop:
  "homebrew_io_error (Some q) (Some h) fd s = Some (r, s') \<Longrightarrow>
     homebrew_io_stop (Some q) fd (in_world (\<lambda>w. w\<lparr>pw_hb := (pw_hb w)(h := None)\<rparr>) s) = Some (r, s')"
  "mmdvm_io_error (Some q) (Some h) fd s = Some (r, s') \<Longrightarrow>
     mmdvm_io_stop (Some q) fd (in_world (\<lambda>w. w\<lparr>pw_mm := (pw_mm w)(h := None)\<rparr>) s) = Some (r, s')"
  by (auto simp: homebrew_io_error_def mmdvm_io_error_def bind_eq_Some_conv dmr_mmdvm_close_def)

lemma error_callback_stops:
  assumes "cb_fd (proto_cbs env) cb q h fd s = Some (r, s')" "cb = HB_ERROR \<or> cb = MM_ERROR"
  shows "\<exists>s1. sys_io s1 = sys_io s \<and>
    (homebrew_io_stop (Some q) fd s1 = Some (r, s') \<and> cb = HB_ERROR \<or>
     mmdvm_io_stop (Some q) fd s1 = Some (r, s') \<and> cb = MM_ERROR)"
  using assms(2)
proof
  assume cb: "cb = HB_ERROR"
  show ?thesis using error_is_stop(1) [OF assms(1) [unfolded cb proto_cb_fd_error]] cb
    by (intro exI conjI disjI1; (assumption | simp))
next
  assume cb: "cb = MM_ERROR"
  show ?thesis using error_is_stop(2) [OF assms(1) [unfolded cb proto_cb_fd_error]] cb
    by (intro exI conjI disjI2; (assumption | simp))
qed

text \<open>
  C16. The error callbacks of both protocols unregister themselves.  The loop reads the entry of the
  callback again when the callback returns, so an error on the socket of a Homebrew connection, or
  on the serial port of a modem, always ends in a read of freed memory.
\<close>

theorem protocol_error_reads_freed_entry:
  assumes "sys_io s q = Some io" and "find (\<lambda>e. ent_fd e = fd) (io_entry io DMR_REQUEST_ERROR) = Some e"
    and "ent_cb e \<in> {HB_ERROR, MM_ERROR}"
  shows "io_handle_error (proto_cbs env) q fd s = None"
proof (cases "cb_fd (proto_cbs env) (ent_cb e) q (ent_userdata e) fd s")
  case (Some a)
  obtain r s1 where call: "cb_fd (proto_cbs env) (ent_cb e) q (ent_userdata e) fd s = Some (r, s1)"
    using Some by (cases a) simp
  obtain s0 where s0: "sys_io s0 = sys_io s" and "homebrew_io_stop (Some q) fd s0 = Some (r, s1) \<and> ent_cb e = HB_ERROR \<or>
      mmdvm_io_stop (Some q) fd s0 = Some (r, s1) \<and> ent_cb e = MM_ERROR"
    using error_callback_stops [OF call] assms(3) by blast
  from stop_frees_error [OF this(2) _ assms(2)] s0 assms(1) obtain io1 where
    "sys_io s1 q = Some io1" "entry_at ent_addr (ent_addr e) (io_entry io1 DMR_REQUEST_ERROR) = None"
    by auto
  then show ?thesis using assms(1,2) call
    by (simp add: io_handle_error_def io_handle_first_def entries_of_def io_run_entry_def)
qed (use assms in \<open>simp add: io_handle_error_def io_handle_first_def entries_of_def io_run_entry_def\<close>)

section \<open>Registering a Homebrew connection\<close>

text \<open>A loop and a Homebrew connection on socket 4.\<close>

definition demo_loop :: dmr_io where
  "demo_loop = \<lparr>io_entry = (\<lambda>_. []), io_timer = [], io_default = \<lparr>tv_sec = 1, tv_usec = 0\<rparr>, io_entries = 0, io_maxfd = 0,
     io_wallclock = \<lparr>tv_sec = 100, tv_usec = 0\<rparr>, io_readers = {}, io_writers = {}, io_errors = {}, io_closed = False\<rparr>"

definition demo_sys :: psys where
  "demo_sys = \<lparr>sys_io = [0 \<mapsto> demo_loop], sys_sigs = [], sys_installed = {}, sys_brk = 1,
     sys_world = \<lparr>pw_hb = [7 \<mapsto> demo_homebrew\<lparr>hb_state := DMR_HOMEBREW_AUTH_DONE\<rparr>], pw_mm = (\<lambda>_. None), pw_sock = (\<lambda>_. 4),
       pw_serial = (\<lambda>_. 5), pw_sent = [], pw_freed = [], pw_calls = 0\<rparr>\<rparr>"

lemma demo_sock: "hb_sock demo_homebrew"
  by (simp add: demo_homebrew_def dmr_homebrew_new_def std_common_def Cons_replicate_eq)

text \<open>
  Adding an initialised Homebrew connection to a loop registers the ping timer, five seconds
  ahead, and the callbacks for its socket, each of them only when its allocation succeeds; the
  value is 0 in any case, even when nothing was registered.
\<close>

theorem homebrew_protocol_registers:
  assumes "sys_io s q = Some io" and "pw_hb (sys_world s) h = Some hb" and "hb_sock hb"
    and "fd = pw_sock (sys_world s) h" and "0 \<le> fd" and "fd < FD_SETSIZE"
    and "imems ! 0" and "imems ! 1" and "imems ! 2" and "imems ! 3"
  shows "\<exists>s' io' a b c.
    dmr_io_add_protocol (Some q) (dmr_homebrew_protocol imems (m_timer, m_read, m_error)) h s = Some (0, s') \<and>
    sys_io s' q = Some io' \<and>
    io_timer io' = (if m_timer then [\<lparr>tim_addr = a, tim_timeout = \<lparr>tv_sec = 5, tv_usec = 0\<rparr>,
        tim_wallclock = timeradd (io_wallclock io) \<lparr>tv_sec = 5, tv_usec = 0\<rparr>, tim_cb = HB_PING_TIMER, tim_userdata = h,
        tim_once = False\<rparr>] else []) @ io_timer io \<and>
    io_entry io' DMR_REQUEST_READ = (if m_read then [\<lparr>ent_addr = b, ent_handle = DMR_HANDLE_UNKNOWN, ent_fd = fd,
        ent_cb = HB_READABLE, ent_userdata = h, ent_once = False\<rparr>] else []) @ io_entry io DMR_REQUEST_READ \<and>
    io_entry io' DMR_REQUEST_ERROR = (if m_error then [\<lparr>ent_addr = c, ent_handle = DMR_HANDLE_UNKNOWN, ent_fd = fd,
        ent_cb = HB_ERROR, ent_userdata = h, ent_once = False\<rparr>] else []) @ io_entry io DMR_REQUEST_ERROR \<and>
    io_entries io' = io_entries io + of_bool m_timer + of_bool m_read + of_bool m_error"
proof -
  obtain hb' where init: "homebrew_io_init imems (Some hb) = (0, Some hb')" and sock: "hb_sock hb'"
    using assms(3,7-10) by (auto simp: homebrew_io_init_def dmr_packetq_new_def dmr_rawq_new_def Let_def)
  show ?thesis
    using assms(1,2,4-6) init sock
    by (cases m_timer; cases m_read; cases m_error; simp add: dmr_io_add_protocol_def dmr_homebrew_protocol_def
        hb_protocol_init_def homebrew_io_register_def in_world_def dmr_io_reg_timer_def dmr_io_reg_read_def
        dmr_io_reg_error_def io_api_def FD_SET_def io_count_up_def io_insert_def new_entry_def put_io_def io_alloc_def Let_def)
qed

theorem homebrew_protocol_registers_witness:
  "\<exists>s' io'. dmr_io_add_protocol (Some 0) (dmr_homebrew_protocol [True, True, True, True] (True, True, True)) 7 demo_sys = Some (0, s') \<and>
    sys_io s' 0 = Some io' \<and> io_entries io' = 3 \<and> length (io_timer io') = 1"
proof -
  have "\<exists>s' io' a b c.
    dmr_io_add_protocol (Some 0) (dmr_homebrew_protocol [True, True, True, True] (True, True, True)) 7 demo_sys = Some (0, s') \<and>
    sys_io s' 0 = Some io' \<and>
    io_timer io' = (if True then [\<lparr>tim_addr = a, tim_timeout = \<lparr>tv_sec = 5, tv_usec = 0\<rparr>,
        tim_wallclock = timeradd (io_wallclock demo_loop) \<lparr>tv_sec = 5, tv_usec = 0\<rparr>, tim_cb = HB_PING_TIMER, tim_userdata = 7,
        tim_once = False\<rparr>] else []) @ io_timer demo_loop \<and>
    io_entry io' DMR_REQUEST_READ = (if True then [\<lparr>ent_addr = b, ent_handle = DMR_HANDLE_UNKNOWN, ent_fd = 4,
        ent_cb = HB_READABLE, ent_userdata = 7, ent_once = False\<rparr>] else []) @ io_entry demo_loop DMR_REQUEST_READ \<and>
    io_entry io' DMR_REQUEST_ERROR = (if True then [\<lparr>ent_addr = c, ent_handle = DMR_HANDLE_UNKNOWN, ent_fd = 4,
        ent_cb = HB_ERROR, ent_userdata = 7, ent_once = False\<rparr>] else []) @ io_entry demo_loop DMR_REQUEST_ERROR \<and>
    io_entries io' = io_entries demo_loop + of_bool True + of_bool True + of_bool True"
    by (rule homebrew_protocol_registers [where hb = "demo_homebrew\<lparr>hb_state := DMR_HOMEBREW_AUTH_DONE\<rparr>"])
      (simp_all add: demo_sys_def demo_sock FD_SETSIZE_def)
  then show ?thesis by (auto simp: demo_loop_def)
qed

text \<open>The connection after that, and an error on its socket.\<close>

theorem protocol_error_reads_freed_entry_witness:
  "\<exists>s' io' e. homebrew_io_register (True, True, True) (Some 0) (Some 7) demo_sys = Some (0, s') \<and>
     sys_io s' 0 = Some io' \<and> e \<in> set (io_entry io' DMR_REQUEST_ERROR) \<and> ent_fd e = 4 \<and>
     (\<forall>env. io_handle_error (proto_cbs env) 0 4 s' = None)"
proof -
  obtain s' io' e where reg: "homebrew_io_register (True, True, True) (Some 0) (Some 7) demo_sys = Some (0, s')"
    "sys_io s' 0 = Some io'" "io_entry io' DMR_REQUEST_ERROR = [e]" "ent_fd e = 4" "ent_cb e = HB_ERROR"
    by (simp add: demo_sys_def demo_sock demo_loop_def homebrew_io_register_def dmr_io_reg_timer_def dmr_io_reg_read_def
        dmr_io_reg_error_def io_api_def FD_SET_def FD_SETSIZE_def io_count_up_def io_insert_def new_entry_def put_io_def
        io_alloc_def Let_def)
  have "io_handle_error (proto_cbs env) 0 4 s' = None" for env
    by (rule protocol_error_reads_freed_entry [OF reg(2), where e = e]) (use reg in simp_all)
  with reg show ?thesis by auto
qed

section \<open>A master that stops answering\<close>

text \<open>
  When no reply to the pings has come for more than ten seconds, the ping timer of a logged in
  connection returns -1, "request closing from the I/O loop".  The loop ignores the value: it stays
  open, the timer is set again, nothing is sent and the connection still counts as logged in.
\<close>

theorem homebrew_ping_timeout_ignored:
  assumes "sys_io s q = Some io" and "entry_at tim_addr (tim_addr t) (io_timer io) = Some t"
    and "tim_cb t = HB_PING_TIMER" and "\<not> tim_once t" and "timer_less (tim_wallclock t) (io_wallclock io)"
    and "pw_hb (sys_world s) (tim_userdata t) = Some hb" and "hb_state hb = DMR_HOMEBREW_AUTH_DONE"
    and "dmr_time_since (env_now (pe_hb (env (pw_calls (sys_world s))))) (hb_last_pong hb) > 10"
  shows "hb_ping_timer (pe_hb (env (pw_calls (sys_world s)))) hb = Some (-1, hb, []) \<and>
    io_run_timer (proto_cbs env) q t s =
      Some (put_io q (tim_update (tim_addr t) (timeradd (io_wallclock io) (tim_timeout t)) io)
        (in_world (\<lambda>w. w\<lparr>pw_calls := Suc (pw_calls w)\<rparr>) s))"
proof
  show ping: "hb_ping_timer (pe_hb (env (pw_calls (sys_world s)))) hb = Some (-1, hb, [])"
    using assms(7,8) by (simp add: hb_ping_timer_def)
  have same: "(pw_hb (sys_world s))(tim_userdata t \<mapsto> hb) = pw_hb (sys_world s)"
    using assms(6) by (simp add: fun_upd_idem)
  show "io_run_timer (proto_cbs env) q t s =
      Some (put_io q (tim_update (tim_addr t) (timeradd (io_wallclock io) (tim_timeout t)) io)
        (in_world (\<lambda>w. w\<lparr>pw_calls := Suc (pw_calls w)\<rparr>) s))"
    using assms ping same
    by (simp add: io_run_timer_def proto_cbs_def call_ping_def in_world_def Let_def)
qed

definition demo_ping :: dmr_io_timer where
  "demo_ping = \<lparr>tim_addr = 3, tim_timeout = \<lparr>tv_sec = 5, tv_usec = 0\<rparr>, tim_wallclock = \<lparr>tv_sec = 99, tv_usec = 0\<rparr>,
     tim_cb = HB_PING_TIMER, tim_userdata = 7, tim_once = False\<rparr>"

definition demo_penv :: proto_env where
  "demo_penv = \<lparr>pe_hb = demo_env\<lparr>env_now := \<lparr>tv_sec = 100, tv_usec = 0\<rparr>\<rparr>, pe_hb_mems = (True, True, True), pe_recv = None,
     pe_common = std_common, pe_mm_mems = (True, True, True, True), pe_behind = [0], pe_read = []\<rparr>"

theorem homebrew_ping_timeout_ignored_witness:
  "\<exists>s'. io_run_timer (proto_cbs (\<lambda>_. demo_penv)) 0 demo_ping
      (put_io 0 (demo_loop\<lparr>io_timer := [demo_ping], io_entries := 1\<rparr>) demo_sys) = Some s' \<and>
    (\<exists>io'. sys_io s' 0 = Some io' \<and> \<not> io_closed io' \<and>
      io_timer io' = [demo_ping\<lparr>tim_wallclock := \<lparr>tv_sec = 105, tv_usec = 0\<rparr>\<rparr>]) \<and> pw_sent (sys_world s') = []"
proof -
  let ?io = "demo_loop\<lparr>io_timer := [demo_ping], io_entries := 1\<rparr>"
  let ?hb = "demo_homebrew\<lparr>hb_state := DMR_HOMEBREW_AUTH_DONE\<rparr>"
  have "hb_last_pong ?hb = \<lparr>tv_sec = 0, tv_usec = 0\<rparr>"
    by (simp add: demo_homebrew_def dmr_homebrew_new_def std_common_def Cons_replicate_eq)
  then have "io_run_timer (proto_cbs (\<lambda>_. demo_penv)) 0 demo_ping (put_io 0 ?io demo_sys) =
      Some (put_io 0 (tim_update (tim_addr demo_ping) (timeradd (io_wallclock ?io) (tim_timeout demo_ping)) ?io)
        (in_world (\<lambda>w. w\<lparr>pw_calls := Suc (pw_calls w)\<rparr>) (put_io 0 ?io demo_sys)))"
    by (intro homebrew_ping_timeout_ignored [where hb = ?hb, THEN conjunct2])
      (simp_all add: put_io_def demo_sys_def demo_ping_def demo_loop_def demo_penv_def entry_at_def timer_less_def
        dmr_time_since_def timersub_def Let_def)
  then show ?thesis
    by (simp add: put_io_def in_world_def tim_update_def demo_ping_def demo_loop_def demo_sys_def timeradd_def)
qed

end
