(* ===== verification/Dmr_Repeater.thy ===== *)
theory Dmr_Repeater
  imports Dmr_IoProtocols
begin

text \<open>
  \<open>src/cmd/noisebridge/repeater.c\<close> and the packet functions of \<open>script.c\<close>: the repeater of the
  noisebridge application on top of the library.  It keeps a call for each time slot and relays
  the packets of one protocol to the others, as a Lua script decides.

  Lua is not part of the repository: what the script does with a packet is an argument, and the
  stack of the interpreter, which the code works on, is a list, the bottom first.  An error outside
  of a protected call ends the program, which is a call without result.  The records hold the fields that
  this code uses.  A packet of a modem has been freed when it is taken off the queue; it is read as it was.
\<close>

section \<open>State\<close>

datatype dmr_protocol_type = DMR_PROTOCOL_UNKNOWN | DMR_PROTOCOL_HOMEBREW | DMR_PROTOCOL_MMDVM | DMR_PROTOCOL_MBE

datatype route_policy = ROUTE_REJECT | ROUTE_PERMIT | ROUTE_PERMIT_UNMODIFIED

datatype slot_state = STATE_IDLE | STATE_DATA_CALL | STATE_VOICE_CALL

record repeater_slot =
  slot_data_type :: dmr_data_type
  slot_src_id :: dmr_id
  slot_dst_id :: dmr_id
  slot_state :: slot_state
  slot_stream_id :: u32
  slot_last_frame_received :: timeval

record proto =
  proto_type :: dmr_protocol_type
  proto_name :: string
  proto_instance :: "nat option"
  proto_fd :: int

text \<open>
  The values that the code looks at: the fields of a table are those that \<open>luaL_checkinteger\<close>
  accepts.
\<close>

datatype lua_value =
    Lua_nil
  | Lua_boolean bool
  | Lua_integer int
  | Lua_string string
  | Lua_table "string \<Rightarrow> int option"

datatype lua_outcome = Lua_error lua_value | Lua_returns lua_value

type_synonym lua_script = "proto \<Rightarrow> proto \<Rightarrow> dmr_parsed_packet \<Rightarrow> lua_outcome"

text \<open>The repeater, with the timeout and the protocols of its configuration and the stack of Lua.\<close>

record repeater =
  rep_ts :: "repeater_slot list"
  rep_io :: nat
  rep_timeout :: u16
  rep_protos :: "proto list"
  rep_lua :: "lua_value list"

definition SLOT_TIMER :: nat where "SLOT_TIMER = 6"

section \<open>The script\<close>

text \<open>\<open>lua_toboolean\<close>: everything but nil and false is true; so is no value.\<close>

fun lua_true :: "lua_value \<Rightarrow> bool" where
  "lua_true Lua_nil = False"
| "lua_true (Lua_boolean b) = b"
| "lua_true _ = True"

text \<open>
  \<open>lua_modify_packet\<close> looks at the bottom of the stack and leaves the seven fields on the top.
\<close>

definition lua_fields :: "string list" where
  "lua_fields = [''ts'', ''flco'', ''src_id'', ''dst_id'', ''repeater_id'', ''data_type'', ''color_code'']"

definition lua_modify_packet ::
  "lua_value list \<Rightarrow> dmr_parsed_packet \<Rightarrow> (lua_value list \<times> dmr_parsed_packet) option" where
  "lua_modify_packet st packet =
     (case st of
        Lua_table tbl # _ \<Rightarrow>
          (case map tbl lua_fields of
             [Some ts, Some flco, Some src_id, Some dst_id, Some repeater_id, Some data_type, Some color_code] \<Rightarrow>
               Some (st @ map (\<lambda>k. Lua_integer (the (tbl k))) lua_fields,
                 packet\<lparr>pp_ts := of_int ts, pp_flco := of_int flco, pp_repeater_id := of_int repeater_id,
                   pp_color_code := of_int color_code\<rparr>)
           | _ \<Rightarrow> None)
      | _ \<Rightarrow> None)"

definition route ::
  "lua_script \<Rightarrow> proto \<Rightarrow> proto \<Rightarrow> dmr_parsed_packet \<Rightarrow> lua_value list \<Rightarrow>
   (route_policy \<times> dmr_parsed_packet \<times> lua_value list) option" where
  "route script src dst parsed st =
     (case script src dst parsed of
        Lua_error msg \<Rightarrow> Some (ROUTE_REJECT, parsed, st @ [msg])
      | Lua_returns v \<Rightarrow>
          let st = st @ [v];
              policy = (case v of
                  Lua_nil \<Rightarrow> ROUTE_PERMIT_UNMODIFIED
                | Lua_boolean b \<Rightarrow> if lua_true (hd st) then ROUTE_PERMIT_UNMODIFIED else ROUTE_REJECT
                | Lua_table tbl \<Rightarrow> ROUTE_PERMIT
                | _ \<Rightarrow> ROUTE_REJECT)
          in if policy = ROUTE_PERMIT
             then map_option (\<lambda>(st, parsed). (policy, parsed, butlast st)) (lua_modify_packet st parsed)
             else Some (policy, parsed, butlast st))"

section \<open>Calls\<close>

text \<open>\<open>slot_timer\<close>: \<open>now\<close> is the clock when it looks at a slot.\<close>

definition slot_check :: "timeval \<Rightarrow> u16 \<Rightarrow> timeval \<Rightarrow> repeater_slot \<Rightarrow> repeater_slot" where
  "slot_check now timeout wallclock rts =
     (if slot_state rts = STATE_IDLE then rts
      else let delta = timersub wallclock (slot_last_frame_received rts);
               ms = dmr_time_ms_since now delta
           in if ms > ucast timeout then rts\<lparr>slot_state := STATE_IDLE\<rparr> else rts)"

definition slot_timer :: "timeval \<Rightarrow> repeater \<Rightarrow> psys \<Rightarrow> (int \<times> repeater) option" where
  "slot_timer now rep s = do {
     io \<leftarrow> sys_io s (rep_io rep);
     Some (0, rep\<lparr>rep_ts := map (slot_check now (rep_timeout rep) (io_wallclock io)) (rep_ts rep)\<rparr>) }"

definition end_io_timer :: "repeater \<Rightarrow> psys \<Rightarrow> psys option" where
  "end_io_timer rep s = map_option snd (dmr_io_del_timer (Some (rep_io rep)) SLOT_TIMER s)"

definition new_io_timer :: "bool \<Rightarrow> repeater \<Rightarrow> psys \<Rightarrow> psys option" where
  "new_io_timer mem rep s = map_option snd (dmr_io_reg_timer mem (Some (rep_io rep))
     \<lparr>tv_sec = uint (rep_timeout rep) div 1000, tv_usec = (uint (rep_timeout rep) mod 1000) * 1000\<rparr> SLOT_TIMER 0 False s)"

definition set_state :: "nat \<Rightarrow> slot_state \<Rightarrow> repeater \<Rightarrow> repeater" where
  "set_state ts st rep = rep\<lparr>rep_ts := (rep_ts rep)[ts := (rep_ts rep ! ts)\<lparr>slot_state := st\<rparr>]\<rparr>"

definition end_data_call :: "dmr_parsed_packet \<Rightarrow> bool \<Rightarrow> repeater \<Rightarrow> psys \<Rightarrow> (repeater \<times> psys) option" where
  "end_data_call parsed kill_timer rep s = do {
     rts \<leftarrow> c_read (rep_ts rep) (unat (pp_ts parsed));
     let rep = set_state (unat (pp_ts parsed)) STATE_IDLE rep;
     s \<leftarrow> (if kill_timer then end_io_timer rep s else Some s);
     Some (rep, s) }"

definition end_voice_call :: "dmr_parsed_packet \<Rightarrow> bool \<Rightarrow> repeater \<Rightarrow> psys \<Rightarrow> (repeater \<times> psys) option" where
  "end_voice_call parsed kill_timer rep s = do {
     rts \<leftarrow> c_read (rep_ts rep) (unat (pp_ts parsed));
     let rep = set_state (unat (pp_ts parsed)) STATE_IDLE rep;
     s \<leftarrow> (if kill_timer then end_io_timer rep s else Some s);
     Some (rep, s) }"

definition new_data_call :: "bool \<Rightarrow> dmr_parsed_packet \<Rightarrow> repeater \<Rightarrow> psys \<Rightarrow> (repeater \<times> psys) option" where
  "new_data_call mem parsed rep s = do {
     rts \<leftarrow> c_read (rep_ts rep) (unat (pp_ts parsed));
     (rep, s) \<leftarrow> (if slot_state rts = STATE_VOICE_CALL then end_voice_call parsed False rep s
        else map_option (\<lambda>s. (rep, s)) (new_io_timer mem rep s));
     Some (set_state (unat (pp_ts parsed)) STATE_DATA_CALL rep, s) }"

definition new_voice_call :: "bool \<Rightarrow> dmr_parsed_packet \<Rightarrow> repeater \<Rightarrow> psys \<Rightarrow> (repeater \<times> psys) option" where
  "new_voice_call mem parsed rep s = do {
     rts \<leftarrow> c_read (rep_ts rep) (unat (pp_ts parsed));
     (rep, s) \<leftarrow> (if slot_state rts = STATE_DATA_CALL then end_data_call parsed False rep s
        else map_option (\<lambda>s. (rep, s)) (new_io_timer mem rep s));
     Some (set_state (unat (pp_ts parsed)) STATE_VOICE_CALL rep, s) }"

text \<open>A call is entered in its slot before it is announced.\<close>

definition slot_enter :: "slot_state \<Rightarrow> dmr_parsed_packet \<Rightarrow> repeater \<Rightarrow> repeater" where
  "slot_enter st parsed rep =
     (let ts = unat (pp_ts parsed)
      in rep\<lparr>rep_ts := (rep_ts rep)[ts := (rep_ts rep ! ts)\<lparr>slot_state := st, slot_src_id := pp_src_id parsed,
           slot_dst_id := pp_dst_id parsed, slot_stream_id := pp_stream_id parsed\<rparr>]\<rparr>)"

text \<open>The \<open>switch\<close> at the start of \<open>push_proto\<close>; the boolean is whether the packet is relayed.\<close>

definition push_switch :: "bool \<Rightarrow> dmr_parsed_packet \<Rightarrow> repeater \<Rightarrow> psys \<Rightarrow> (bool \<times> repeater \<times> psys) option" where
  "push_switch mem parsed rep s = do {
     rts \<leftarrow> c_read (rep_ts rep) (unat (pp_ts parsed));
     let dt = pp_data_type parsed;
     (case slot_state rts of
        STATE_IDLE \<Rightarrow>
          if dt \<in> {DMR_DATA_TYPE_VOICE_LC, DMR_DATA_TYPE_VOICE_SYNC, DMR_DATA_TYPE_VOICE}
          then map_option (Pair True) (new_voice_call mem parsed (slot_enter STATE_VOICE_CALL parsed rep) s)
          else if dt \<in> {DMR_DATA_TYPE_CSBK, DMR_DATA_TYPE_MBC_HEADER, DMR_DATA_TYPE_DATA_HEADER}
          then map_option (Pair True) (new_data_call mem parsed (slot_enter STATE_DATA_CALL parsed rep) s)
          else Some (True, rep, s)
      | STATE_DATA_CALL \<Rightarrow>
          if pp_stream_id parsed \<noteq> slot_stream_id rts then Some (False, rep, s)
          else if dt \<in> {DMR_DATA_TYPE_VOICE_PI, DMR_DATA_TYPE_VOICE_LC, DMR_DATA_TYPE_TERMINATOR_WITH_LC}
          then map_option (Pair True) (end_data_call parsed True rep s)
          else Some (True, rep, s)
      | STATE_VOICE_CALL \<Rightarrow>
          if pp_stream_id parsed \<noteq> slot_stream_id rts then Some (False, rep, s)
          else if dt = DMR_DATA_TYPE_TERMINATOR_WITH_LC
          then map_option (Pair True) (end_voice_call parsed True rep s)
          else Some (True, rep, s)) }"

section \<open>Relaying\<close>

text \<open>What the system and the script answer while a packet is relayed to one protocol.\<close>

record relay_env =
  re_mem :: bool
  re_script :: lua_script
  re_hb :: hb_env
  re_mm :: mm_env
  re_write :: "write_result list"

definition send_homebrew :: "relay_env \<Rightarrow> nat option \<Rightarrow> dmr_parsed_packet \<Rightarrow> psys \<Rightarrow> presult" where
  "send_homebrew e inst cloned s =
     (case inst of
        None \<Rightarrow> map_option (\<lambda>(ret, hb, fs). (ret, s)) (dmr_homebrew_send (re_hb e) None (Some cloned))
      | Some h \<Rightarrow> do {
          hb \<leftarrow> pw_hb (sys_world s) h;
          (ret, hb, fs) \<leftarrow> dmr_homebrew_send (re_hb e) (Some hb) (Some cloned);
          Some (ret, in_world (\<lambda>w. w\<lparr>pw_hb := (pw_hb w)(h := hb), pw_sent := pw_sent w @ fs\<rparr>) s) })"

definition send_mmdvm :: "relay_env \<Rightarrow> nat option \<Rightarrow> dmr_parsed_packet \<Rightarrow> psys \<Rightarrow> presult" where
  "send_mmdvm e inst cloned s =
     (case inst of
        None \<Rightarrow> map_option (\<lambda>(ret, mm, out, pkt). (ret, s)) (dmr_mmdvm_send (re_mm e) None (Some cloned) (re_write e))
      | Some h \<Rightarrow> do {
          mm \<leftarrow> pw_mm (sys_world s) h;
          (ret, mm, (fs, ws), pkt) \<leftarrow> dmr_mmdvm_send (re_mm e) (Some mm) (Some cloned) (re_write e);
          Some (ret, in_world (\<lambda>w. w\<lparr>pw_mm := (pw_mm w)(h := mm), pw_sent := pw_sent w @ fs\<rparr>) s) })"

definition send_proto :: "relay_env \<Rightarrow> proto \<Rightarrow> dmr_parsed_packet \<Rightarrow> psys \<Rightarrow> presult" where
  "send_proto e dst cloned s =
     (case proto_type dst of
        DMR_PROTOCOL_HOMEBREW \<Rightarrow> send_homebrew e (proto_instance dst) cloned s
      | DMR_PROTOCOL_MMDVM \<Rightarrow> send_mmdvm e (proto_instance dst) cloned s
      | _ \<Rightarrow> Some (0, s))"

text \<open>
  The loop over the protocols from number \<open>i\<close> on; \<open>src\<close> is the number of the source.  The values
  of the send functions are only logged.
\<close>

fun relay_from ::
  "(nat \<Rightarrow> relay_env) \<Rightarrow> nat \<Rightarrow> dmr_parsed_packet \<Rightarrow> nat \<Rightarrow> proto list \<Rightarrow> repeater \<Rightarrow> psys \<Rightarrow>
   (int \<times> repeater \<times> psys) option" where
  "relay_from env src parsed i [] rep s = Some (0, rep, s)"
| "relay_from env src parsed i (dst # dsts) rep s =
     (if i = src then relay_from env src parsed (Suc i) dsts rep s
      else if \<not> re_mem (env i) then Some (-1, rep, s)
      else case route (re_script (env i)) (rep_protos rep ! src) dst parsed (rep_lua rep) of
             None \<Rightarrow> None
           | Some (policy, cloned, st) \<Rightarrow>
               (case (if policy = ROUTE_REJECT then Some (0, s) else send_proto (env i) dst cloned s) of
                  None \<Rightarrow> None
                | Some (ret, s) \<Rightarrow> relay_from env src parsed (Suc i) dsts (rep\<lparr>rep_lua := st\<rparr>) s))"

text \<open>\<open>mem\<close>: whether the allocation of a timer succeeds.\<close>

definition push_proto ::
  "bool \<Rightarrow> (nat \<Rightarrow> relay_env) \<Rightarrow> nat option \<Rightarrow> dmr_parsed_packet option \<Rightarrow> repeater \<Rightarrow> psys \<Rightarrow>
   (int \<times> repeater \<times> psys) option" where
  "push_proto mem env src parsed rep s =
     (case (src, parsed) of
        (Some src, Some parsed) \<Rightarrow> do {
          (relay, rep, s) \<leftarrow> push_switch mem parsed rep s;
          if relay then relay_from env src parsed 0 (rep_protos rep) rep s else Some (0, rep, s) }
      | _ \<Rightarrow> Some (-1, rep, s))"

section \<open>Polling the receive queues\<close>

text \<open>
  The loop that takes packets off a receive queue until none is left; the \<open>n\<close>-th packet is relayed
  with the answers \<open>env n\<close>.  \<open>rxq\<close> reads the queue of the connection and \<open>put\<close> writes it back; the
  value of \<open>push_proto\<close> is ignored.
\<close>

type_synonym poll_env = "nat \<Rightarrow> bool \<times> (nat \<Rightarrow> relay_env)"

partial_function (option) poll_queue ::
  "poll_env \<Rightarrow> (psys \<Rightarrow> dmr_packetq option option) \<Rightarrow> (dmr_packetq \<Rightarrow> psys \<Rightarrow> psys) \<Rightarrow> nat \<Rightarrow>
   nat \<Rightarrow> repeater \<Rightarrow> psys \<Rightarrow> (nat \<times> repeater \<times> psys) option" where
  "poll_queue env rxq put src n rep s =
     (case rxq s of
        None \<Rightarrow> None
      | Some q \<Rightarrow>
          (case dmr_packetq_shift q of
             Inl _ \<Rightarrow> Some (n, rep, s)
           | Inr (parsed, q) \<Rightarrow>
               (case push_proto (fst (env n)) (snd (env n)) (Some src) (Some parsed) rep (put q s) of
                  None \<Rightarrow> None
                | Some (ret, rep, s) \<Rightarrow> poll_queue env rxq put src (Suc n) rep s)))"

definition hb_queue :: "nat \<Rightarrow> psys \<Rightarrow> dmr_packetq option option" where
  "hb_queue h s = map_option hb_rxq (pw_hb (sys_world s) h)"

definition hb_queue_put :: "nat \<Rightarrow> dmr_packetq \<Rightarrow> psys \<Rightarrow> psys" where
  "hb_queue_put h q = in_world (\<lambda>w. w\<lparr>pw_hb := (pw_hb w)(h := map_option (\<lambda>hb. hb\<lparr>hb_rxq := Some q\<rparr>) (pw_hb w h))\<rparr>)"

definition mm_queue :: "nat \<Rightarrow> psys \<Rightarrow> dmr_packetq option option" where
  "mm_queue h s = map_option mm_rxq (pw_mm (sys_world s) h)"

definition mm_queue_put :: "nat \<Rightarrow> dmr_packetq \<Rightarrow> psys \<Rightarrow> psys" where
  "mm_queue_put h q = in_world (\<lambda>w. w\<lparr>pw_mm := (pw_mm w)(h := map_option (\<lambda>mm. mm\<lparr>mm_rxq := Some q\<rparr>) (pw_mm w h))\<rparr>)"

text \<open>Every protocol with the descriptor polls, in the order of the configuration.\<close>

fun poll_homebrew_protos ::
  "poll_env \<Rightarrow> nat \<Rightarrow> int \<Rightarrow> nat \<Rightarrow> proto list \<Rightarrow> nat \<Rightarrow> repeater \<Rightarrow> psys \<Rightarrow> (int \<times> repeater \<times> psys) option"
  where
  "poll_homebrew_protos env h fd i [] n rep s = Some (0, rep, s)"
| "poll_homebrew_protos env h fd i (proto # protos) n rep s =
     (if proto_fd proto = fd
      then do {
        (n, rep, s) \<leftarrow> poll_queue env (hb_queue h) (hb_queue_put h) i n rep s;
        poll_homebrew_protos env h fd (Suc i) protos n rep s }
      else poll_homebrew_protos env h fd (Suc i) protos n rep s)"

definition poll_proto_homebrew ::
  "poll_env \<Rightarrow> nat option \<Rightarrow> nat option \<Rightarrow> int \<Rightarrow> repeater \<Rightarrow> psys \<Rightarrow> (int \<times> repeater \<times> psys) option" where
  "poll_proto_homebrew env io homebrewptr fd rep s =
     (case (io, homebrewptr) of
        (Some q, Some h) \<Rightarrow> do {
          hb \<leftarrow> pw_hb (sys_world s) h;
          if pw_sock (sys_world s) h \<noteq> fd then Some (0, rep, s)
          else poll_homebrew_protos env h fd 0 (rep_protos rep) 0 rep s }
      | _ \<Rightarrow> Some (-1, rep, s))"

text \<open>The first protocol with the descriptor.\<close>

fun proto_of_fd :: "int \<Rightarrow> nat \<Rightarrow> proto list \<Rightarrow> nat option" where
  "proto_of_fd fd i [] = None"
| "proto_of_fd fd i (proto # protos) = (if proto_fd proto = fd then Some i else proto_of_fd fd (Suc i) protos)"

definition poll_proto_mmdvm ::
  "poll_env \<Rightarrow> nat option \<Rightarrow> nat option \<Rightarrow> int \<Rightarrow> repeater \<Rightarrow> psys \<Rightarrow> (int \<times> repeater \<times> psys) option" where
  "poll_proto_mmdvm env io mmdvmptr fd rep s =
     (case (io, mmdvmptr) of
        (Some q, Some h) \<Rightarrow> do {
          mm \<leftarrow> pw_mm (sys_world s) h;
          if pw_serial (sys_world s) h \<noteq> fd then Some (0, rep, s)
          else (case proto_of_fd fd 0 (rep_protos rep) of
                  None \<Rightarrow> Some (1, rep, s)
                | Some src \<Rightarrow> map_option (\<lambda>(n, rep, s). (0, rep, s))
                    (poll_queue env (mm_queue h) (mm_queue_put h) src 0 rep s)) }
      | _ \<Rightarrow> Some (-1, rep, s))"

definition stop_repeater :: "nat option \<Rightarrow> nat \<Rightarrow> int \<Rightarrow> psys \<Rightarrow> presult" where
  "stop_repeater io unused sig s = dmr_io_close io s"

section \<open>Lemmas on routing\<close>

text \<open>What a table changes in a packet.\<close>

definition set_fields :: "(string \<Rightarrow> int option) \<Rightarrow> dmr_parsed_packet \<Rightarrow> dmr_parsed_packet" where
  "set_fields tbl p = p\<lparr>pp_ts := of_int (the (tbl ''ts'')), pp_flco := of_int (the (tbl ''flco'')),
     pp_repeater_id := of_int (the (tbl ''repeater_id'')), pp_color_code := of_int (the (tbl ''color_code''))\<rparr>"

lemma lua_modify_fields:
  assumes "\<forall>k \<in> set lua_fields. tbl k \<noteq> None"
  shows "lua_modify_packet (Lua_table tbl # rest) packet =
     Some (Lua_table tbl # rest @ map (\<lambda>k. Lua_integer (the (tbl k))) lua_fields, set_fields tbl packet)"
  using assms by (auto simp: lua_modify_packet_def lua_fields_def set_fields_def)

lemma route_table:
  assumes "\<forall>k \<in> set lua_fields. tbl k \<noteq> None"
  shows "route (\<lambda>_ _ _. Lua_returns (Lua_table tbl')) src dst q (Lua_table tbl # st) =
      Some (ROUTE_PERMIT, set_fields tbl q, butlast (Lua_table tbl # st @ Lua_table tbl' # map (\<lambda>k. Lua_integer (the (tbl k))) lua_fields))"
    "route (\<lambda>_ _ _. Lua_returns (Lua_table tbl)) src dst q [] =
      Some (ROUTE_PERMIT, set_fields tbl q, butlast (Lua_table tbl # map (\<lambda>k. Lua_integer (the (tbl k))) lua_fields))"
  by (simp_all add: route_def Let_def lua_modify_fields [OF assms] lua_modify_fields [OF assms, of "[]", simplified])

lemma route_false:
  "route (\<lambda>_ _ _. Lua_returns (Lua_boolean False)) src dst q st =
     Some (if st \<noteq> [] \<and> lua_true (hd st) then ROUTE_PERMIT_UNMODIFIED else ROUTE_REJECT, q, st)"
  by (cases st) (simp_all add: route_def)

lemma route_string: "route (\<lambda>_ _ _. Lua_returns (Lua_table tbl)) src dst q (Lua_string msg # st) = None"
  by (simp add: route_def lua_modify_packet_def)

lemma route_error: "route (\<lambda>_ _ _. Lua_error msg) src dst q st = Some (ROUTE_REJECT, q, st @ [msg])"
  by (simp add: route_def)

section \<open>Lemmas on relaying\<close>

text \<open>Sending changes the world only, and no receive queue in it.\<close>

definition same_loops :: "psys \<Rightarrow> psys \<Rightarrow> bool" where
  "same_loops s s' \<longleftrightarrow> sys_io s' = sys_io s \<and> sys_brk s' = sys_brk s \<and> sys_sigs s' = sys_sigs s \<and>
     sys_installed s' = sys_installed s \<and> (\<forall>h. hb_queue h s' = hb_queue h s \<and> mm_queue h s' = mm_queue h s)"

lemma same_loops_refl [simp]: "same_loops s s"
  by (simp add: same_loops_def)

lemma same_loops_trans: "same_loops s s' \<Longrightarrow> same_loops s' s'' \<Longrightarrow> same_loops s s''"
  by (simp add: same_loops_def)

lemma hb_send_same: "hb_send env hb parsed = Some (ret, hb', fs) \<Longrightarrow> hb' = hb"
  by (auto simp: hb_send_def bind_eq_Some_conv dest: send_raw_same split: option.splits)

lemma mm_send_rxq: "mm_send_raw d env mm raw ws = Some (ret, mm', out, ws') \<Longrightarrow> mm_rxq mm' = mm_rxq mm"
  by (induction d arbitrary: mm raw ws ret mm' out ws')
    (auto simp: mm_command_def Let_def bind_eq_Some_conv split: if_splits option.splits prod.splits)

lemma mm_send_packet_rxq: "mm_send_packet env parsed ws mm = Some (ret, mm', out) \<Longrightarrow> mm_rxq mm' = mm_rxq mm"
  by (auto simp: mm_send_packet_def mm_command_def Let_def bind_eq_Some_conv dest: mm_send_rxq split: option.splits)

lemma send_homebrew_same: "send_homebrew e inst p s = Some (ret, s') \<Longrightarrow> same_loops s s'"
  by (auto simp: send_homebrew_def dmr_homebrew_send_def null_check_def same_loops_def in_world_def hb_queue_def mm_queue_def
      bind_eq_Some_conv dest!: hb_send_same split: option.splits)

lemma send_mmdvm_same: "send_mmdvm e inst p s = Some (ret, s') \<Longrightarrow> same_loops s s'"
  by (auto simp: send_mmdvm_def dmr_mmdvm_send_def same_loops_def in_world_def hb_queue_def mm_queue_def
      bind_eq_Some_conv dest!: mm_send_packet_rxq split: option.splits)

lemma send_proto_same: "send_proto e dst p s = Some (ret, s') \<Longrightarrow> same_loops s s'"
  by (auto simp: send_proto_def dest: send_homebrew_same send_mmdvm_same split: dmr_protocol_type.splits)

lemma relay_from_same:
  "relay_from env src p i dsts rep s = Some (r, rep', s') \<Longrightarrow>
   same_loops s s' \<and> rep' = rep\<lparr>rep_lua := rep_lua rep'\<rparr>"
proof (induction dsts arbitrary: i rep s)
  case (Cons dst dsts)
  show ?case
  proof (cases "i = src \<or> \<not> re_mem (env i)")
    case True
    then show ?thesis using Cons by (auto split: if_splits)
  next
    case False
    then obtain policy cloned st ret s1 where
      sent: "(if policy = ROUTE_REJECT then Some (0, s) else send_proto (env i) dst cloned s) = Some (ret, s1)" and
      run: "relay_from env src p (Suc i) dsts (rep\<lparr>rep_lua := st\<rparr>) s1 = Some (r, rep', s')"
      using Cons.prems by (auto split: option.splits)
    have "same_loops s s1" using sent by (auto split: if_splits dest: send_proto_same)
    with Cons.IH [OF run] show ?thesis by (auto intro: same_loops_trans)
  qed
qed simp

text \<open>The functions that begin and end a call, where \<open>push_proto\<close> calls them.\<close>

lemma bind_map_option: "Option.bind (map_option f x) g = Option.bind x (\<lambda>y. g (f y))"
  by (cases x) simp_all

lemma bind_then_Some: "Option.bind x (\<lambda>y. Some (f y)) = map_option f x"
  by (cases x) simp_all

lemma state_first [simp]:
  "r\<lparr>slot_src_id := a, slot_dst_id := b, slot_stream_id := c, slot_state := st\<rparr> =
   r\<lparr>slot_state := st, slot_src_id := a, slot_dst_id := b, slot_stream_id := c\<rparr>"
  by (cases r) simp

lemma enter_call:
  assumes "unat (pp_ts p) < length (rep_ts rep)"
  shows "new_voice_call mem p (slot_enter STATE_VOICE_CALL p rep) s =
      map_option (Pair (slot_enter STATE_VOICE_CALL p rep)) (new_io_timer mem rep s)"
    "new_data_call mem p (slot_enter STATE_DATA_CALL p rep) s =
      map_option (Pair (slot_enter STATE_DATA_CALL p rep)) (new_io_timer mem rep s)"
  using assms
  by (simp_all add: new_voice_call_def new_data_call_def slot_enter_def set_state_def new_io_timer_def Let_def
      bind_map_option bind_then_Some option.map_comp o_def)

lemma leave_call:
  assumes "unat (pp_ts p) < length (rep_ts rep)"
  shows "end_voice_call p True rep s =
      map_option (Pair (set_state (unat (pp_ts p)) STATE_IDLE rep)) (end_io_timer rep s)"
    "end_data_call p True rep s =
      map_option (Pair (set_state (unat (pp_ts p)) STATE_IDLE rep)) (end_io_timer rep s)"
  using assms
  by (simp_all add: end_voice_call_def end_data_call_def end_io_timer_def set_state_def Let_def bind_then_Some)

text \<open>The switch changes at most one slot; what a call enters there does not include a time.\<close>

definition opens :: "dmr_parsed_packet \<Rightarrow> slot_state option" where
  "opens p =
     (if pp_data_type p \<in> {DMR_DATA_TYPE_VOICE_LC, DMR_DATA_TYPE_VOICE_SYNC, DMR_DATA_TYPE_VOICE} then Some STATE_VOICE_CALL
      else if pp_data_type p \<in> {DMR_DATA_TYPE_CSBK, DMR_DATA_TYPE_MBC_HEADER, DMR_DATA_TYPE_DATA_HEADER}
      then Some STATE_DATA_CALL else None)"

definition closes :: "slot_state \<Rightarrow> dmr_parsed_packet \<Rightarrow> bool" where
  "closes st p \<longleftrightarrow>
     (st = STATE_DATA_CALL \<and>
        pp_data_type p \<in> {DMR_DATA_TYPE_VOICE_PI, DMR_DATA_TYPE_VOICE_LC, DMR_DATA_TYPE_TERMINATOR_WITH_LC}) \<or>
     (st = STATE_VOICE_CALL \<and> pp_data_type p = DMR_DATA_TYPE_TERMINATOR_WITH_LC)"

lemma push_switch_alt:
  "push_switch mem p rep s =
     (let ts = unat (pp_ts p); slot = rep_ts rep ! ts
      in if ts \<ge> length (rep_ts rep) then None
         else if slot_state slot = STATE_IDLE
         then (case opens p of
                 None \<Rightarrow> Some (True, rep, s)
               | Some st \<Rightarrow> map_option (\<lambda>s. (True, slot_enter st p rep, s)) (new_io_timer mem rep s))
         else if pp_stream_id p \<noteq> slot_stream_id slot then Some (False, rep, s)
         else if closes (slot_state slot) p
         then map_option (\<lambda>s. (True, set_state ts STATE_IDLE rep, s)) (end_io_timer rep s)
         else Some (True, rep, s))"
  by (auto simp: push_switch_def c_read_def opens_def closes_def enter_call leave_call
      option.map_comp o_def Let_def split: slot_state.splits)

lemma push_switch_cases:
  assumes "push_switch mem p rep s = Some (relay, rep', s')"
  defines "ts \<equiv> unat (pp_ts p)" and "slot \<equiv> rep_ts rep ! unat (pp_ts p)"
  shows "ts < length (rep_ts rep) \<and>
     ((\<exists>st. opens p = Some st \<and> slot_state slot = STATE_IDLE \<and> new_io_timer mem rep s = Some s' \<and>
         rep' = slot_enter st p rep \<and> relay) \<or>
      (slot_state slot \<noteq> STATE_IDLE \<and> pp_stream_id p = slot_stream_id slot \<and> closes (slot_state slot) p \<and>
         end_io_timer rep s = Some s' \<and> rep' = set_state ts STATE_IDLE rep \<and> relay) \<or>
      (rep' = rep \<and> s' = s \<and> (relay \<longleftrightarrow> slot_state slot = STATE_IDLE \<or> pp_stream_id p = slot_stream_id slot)))"
  using assms(1) unfolding push_switch_alt ts_def slot_def Let_def
  by (simp split: if_splits option.splits)

lemma push_switch_rest:
  "push_switch mem p rep s = Some (relay, rep', s') \<Longrightarrow>
   rep_protos rep' = rep_protos rep \<and> rep_lua rep' = rep_lua rep \<and> rep_io rep' = rep_io rep \<and>
   rep_timeout rep' = rep_timeout rep \<and> length (rep_ts rep') = length (rep_ts rep)"
  by (auto simp: push_switch_alt slot_enter_def set_state_def Let_def split: if_splits option.splits)

lemma push_switch_world: "push_switch mem p rep s = Some (relay, rep', s') \<Longrightarrow> sys_world s' = sys_world s"
  by (drule push_switch_cases)
    (auto simp: new_io_timer_def end_io_timer_def dmr_io_reg_timer_def dmr_io_del_timer_def io_api_def io_alloc_def put_io_def
      Let_def split: option.splits if_splits)

lemma push_proto_unfold:
  "push_proto mem env (Some src) (Some p) rep s = Some (r, rep', s') \<longleftrightarrow>
   (\<exists>rep1 s1. push_switch mem p rep s = Some (True, rep1, s1) \<and>
      relay_from env src p 0 (rep_protos rep1) rep1 s1 = Some (r, rep', s')) \<or>
   (push_switch mem p rep s = Some (False, rep', s') \<and> r = 0)"
  by (auto simp: push_proto_def bind_eq_Some_conv split: if_splits)

lemma push_proto_rest:
  assumes "push_proto mem env (Some src) (Some p) rep s = Some (r, rep', s')"
  shows "\<exists>relay rep1 s1. push_switch mem p rep s = Some (relay, rep1, s1) \<and>
    rep' = rep1\<lparr>rep_lua := rep_lua rep'\<rparr> \<and> same_loops s1 s'"
proof -
  have "rep' = rep'\<lparr>rep_lua := rep_lua rep'\<rparr>" by (cases rep') simp
  then show ?thesis
    using assms [unfolded push_proto_unfold] relay_from_same same_loops_refl by blast
qed

text \<open>The timers for slots in a loop, and the slots with a call.\<close>

definition slot_timers :: "dmr_io \<Rightarrow> nat" where
  "slot_timers io = length (filter (\<lambda>t. tim_cb t = SLOT_TIMER) (io_timer io))"

definition active_slots :: "repeater \<Rightarrow> nat" where
  "active_slots rep = length (filter (\<lambda>r. slot_state r \<noteq> STATE_IDLE) (rep_ts rep))"

lemma length_filter_update:
  "i < length xs \<Longrightarrow>
   length (filter P (xs[i := y])) + of_bool (P (xs ! i)) = length (filter P xs) + of_bool (P y)"
proof (induction xs arbitrary: i)
  case (Cons x xs)
  then show ?case by (cases i) fastforce+
qed simp

lemma new_timer_counts:
  assumes "new_io_timer True rep s = Some s'" "sys_io s (rep_io rep) = Some io"
  shows "\<exists>io'. sys_io s' (rep_io rep) = Some io' \<and> slot_timers io' = Suc (slot_timers io)"
  using assms
  by (auto simp: new_io_timer_def dmr_io_reg_timer_def io_api_def io_alloc_def put_io_def io_count_up_def slot_timers_def Let_def)

lemma end_timer_counts:
  assumes "end_io_timer rep s = Some s'" "sys_io s (rep_io rep) = Some io" "sys_inv s" "0 < slot_timers io"
  shows "\<exists>io'. sys_io s' (rep_io rep) = Some io' \<and> Suc (slot_timers io') = slot_timers io"
proof -
  let ?ts = "filter (\<lambda>t. tim_cb t = SLOT_TIMER) (io_timer io)"
  have "\<exists>t \<in> set (io_timer io). tim_cb t = SLOT_TIMER" using assms(4) by (auto simp: slot_timers_def filter_empty_conv)
  then obtain t where t: "find (\<lambda>t. tim_cb t = SLOT_TIMER) (io_timer io) = Some t"
    by (metis (mono_tags, lifting) find_None_iff not_Some_eq)
  then have "t \<in> set ?ts" by (auto simp: find_Some_iff)
  moreover have "newest_first (map tim_addr ?ts) (sys_brk s)"
    using sys_invD(2) [OF assms(3,2)] by (auto simp: io_inv_def intro: newest_first_filter)
  ultimately have "Suc (length (filter (\<lambda>u. tim_addr u \<noteq> tim_addr t) ?ts)) = length ?ts" by (intro length_unlink) auto
  moreover have "filter (\<lambda>u. tim_addr u \<noteq> tim_addr t) ?ts =
      filter (\<lambda>t. tim_cb t = SLOT_TIMER) (filter (\<lambda>u. tim_addr u \<noteq> tim_addr t) (io_timer io))"
    by (simp add: conj_commute)
  ultimately show ?thesis
    using assms(1,2) t
    by (simp add: end_io_timer_def dmr_io_del_timer_def io_api_def put_io_def io_count_down_def tim_unlink_def slot_timers_def
        del: filter_filter) (auto simp del: filter_filter)
qed

lemma timer_calls_keep: "new_io_timer mem rep s = Some s' \<Longrightarrow> sys_inv s \<Longrightarrow> sys_inv s'"
  "end_io_timer rep s = Some s' \<Longrightarrow> sys_inv s \<Longrightarrow> sys_inv s'"
  by (auto simp: new_io_timer_def end_io_timer_def dest: io_keepsD(1) [OF reg_timer_keeps] io_keepsD(1) [OF del_timer_keeps])

lemma switch_counts:
  assumes "push_switch True p rep s = Some (relay, rep', s')" "sys_io s (rep_io rep) = Some io" "sys_inv s"
    and "slot_timers io = active_slots rep"
  shows "sys_inv s' \<and> (\<exists>io'. sys_io s' (rep_io rep) = Some io' \<and> slot_timers io' = active_slots rep')"
proof -
  let ?ts = "unat (pp_ts p)"
  let ?slot = "rep_ts rep ! ?ts"
  have len: "?ts < length (rep_ts rep)" using push_switch_cases [OF assms(1)] by simp
  note upd = length_filter_update [OF len, of "\<lambda>r. slot_state r \<noteq> STATE_IDLE"]
  consider (opened) st where "opens p = Some st" "slot_state ?slot = STATE_IDLE" "new_io_timer True rep s = Some s'"
      "rep' = slot_enter st p rep"
    | (closed) "slot_state ?slot \<noteq> STATE_IDLE" "end_io_timer rep s = Some s'" "rep' = set_state ?ts STATE_IDLE rep"
    | (same) "rep' = rep" "s' = s"
    using push_switch_cases [OF assms(1)] by blast
  then show ?thesis
  proof cases
    case opened
    have "st \<noteq> STATE_IDLE" using opened(1) by (auto simp: opens_def split: if_splits)
    then have "active_slots rep' = Suc (active_slots rep)"
      using upd [of "?slot\<lparr>slot_state := st, slot_src_id := pp_src_id p, slot_dst_id := pp_dst_id p,
        slot_stream_id := pp_stream_id p\<rparr>"] opened by (simp add: active_slots_def slot_enter_def Let_def)
    then show ?thesis
      using new_timer_counts [OF opened(3) assms(2)] timer_calls_keep(1) [OF opened(3) assms(3)] assms(4) by auto
  next
    case closed
    have act: "Suc (active_slots rep') = active_slots rep"
      using upd [of "?slot\<lparr>slot_state := STATE_IDLE\<rparr>"] closed by (simp add: active_slots_def set_state_def)
    then show ?thesis
      using end_timer_counts [OF closed(2) assms(2,3)] timer_calls_keep(2) [OF closed(2) assms(3)] assms(4) by auto
  qed (use assms in auto)
qed

text \<open>Lost time: a slot that has never been given a time is not older than the loop is late.\<close>

lemma ms_since_bound:
  fixes timeout :: u16
  assumes "tv_wf now" "tv_wf wall" "tv_us wall \<le> tv_us now" "tv_us now \<le> tv_us wall + uint timeout * 1000"
  shows "\<not> ucast timeout < dmr_time_ms_since now wall"
proof -
  let ?d = "timersub now wall"
  define v where "v = tv_sec ?d * 1000 + (tv_usec ?d + 500) div 1000"
  have "tv_wf ?d" and us: "tv_us ?d = tv_us now - tv_us wall" using assms(1,2) by simp_all
  have v: "v = (tv_us ?d + 500) div 1000" by (simp add: v_def tv_us_def)
  have t: "uint timeout < 2 ^ 16" using uint_bounded [of timeout] by simp
  have "0 \<le> v" "v \<le> uint timeout" using us assms(3,4) by (auto simp: v)
  then have "uint (of_int v :: u32) = v" using t by (simp add: unsigned_of_int take_bit_int_eq_self)
  moreover have "uint (ucast timeout :: u32) = uint timeout" using t by (simp add: unsigned_ucast_eq, simp add: take_bit_int_eq_self)
  moreover have "dmr_time_ms_since now wall = of_int v" by (simp only: dmr_time_ms_since_def Let_def v_def)
  ultimately show ?thesis
    using \<open>v \<le> uint timeout\<close> by (simp add: word_less_def)
qed

definition time_zero :: timeval where
  "time_zero = \<lparr>tv_sec = 0, tv_usec = 0\<rparr>"

lemma slot_check_keeps:
  assumes "slot_last_frame_received rts = time_zero" "tv_wf now" "tv_wf wall" "tv_us wall \<le> tv_us now"
    "tv_us now \<le> tv_us wall + uint timeout * 1000"
  shows "slot_check now timeout wall rts = rts"
proof -
  have "timersub wall time_zero = wall" using assms(3) by (simp add: timersub_def time_zero_def tv_wf_def)
  with ms_since_bound [OF assms(2-)] assms(1) show ?thesis by (simp add: slot_check_def Let_def)
qed

text \<open>
  What happens to the slots: a packet of the protocol \<open>src\<close>, or the timer.  The loop and the protocols
  change the rest of the system in between, so every event has its own.
\<close>

datatype rep_event =
    Pushed nat dmr_parsed_packet bool "nat \<Rightarrow> relay_env" psys
  | Timed timeval psys

fun rep_step :: "rep_event \<Rightarrow> repeater \<Rightarrow> repeater option" where
  "rep_step (Pushed src p mem env s) rep =
     map_option (\<lambda>(_, rep, _). rep) (push_proto mem env (Some src) (Some p) rep s)"
| "rep_step (Timed now s) rep = map_option snd (slot_timer now rep s)"

primrec rep_run :: "rep_event list \<Rightarrow> repeater \<Rightarrow> repeater option" where
  "rep_run [] rep = Some rep"
| "rep_run (ev # evs) rep = Option.bind (rep_step ev rep) (rep_run evs)"

text \<open>
  The timer runs no later after the loop has read the clock than the timeout, and a packet for the
  slot either has another stream or does not end a call of the kind that is in the slot.
\<close>

fun no_end :: "nat \<Rightarrow> repeater_slot \<Rightarrow> nat \<Rightarrow> u16 \<Rightarrow> rep_event \<Rightarrow> bool" where
  "no_end ts slot q timeout (Pushed src p mem env s) \<longleftrightarrow>
     unat (pp_ts p) \<noteq> ts \<or> pp_stream_id p \<noteq> slot_stream_id slot \<or> \<not> closes (slot_state slot) p"
| "no_end ts slot q timeout (Timed now s) \<longleftrightarrow>
     (case sys_io s q of
        None \<Rightarrow> False
      | Some io \<Rightarrow> tv_wf now \<and> tv_wf (io_wallclock io) \<and> tv_us (io_wallclock io) \<le> tv_us now \<and>
          tv_us now \<le> tv_us (io_wallclock io) + uint timeout * 1000)"

lemma push_keeps_slot:
  assumes "push_switch mem p rep s = Some (relay, rep', s')" "ts < length (rep_ts rep)"
    and "slot_state (rep_ts rep ! ts) \<noteq> STATE_IDLE"
    and "unat (pp_ts p) \<noteq> ts \<or> pp_stream_id p \<noteq> slot_stream_id (rep_ts rep ! ts) \<or> \<not> closes (slot_state (rep_ts rep ! ts)) p"
  shows "rep_ts rep' ! ts = rep_ts rep ! ts"
  using push_switch_cases [OF assms(1)] assms(2-) by (auto simp: slot_enter_def set_state_def Let_def nth_list_update split: if_splits)

lemma rep_step_keeps_slot:
  assumes "rep_step ev rep = Some rep'" "ts < length (rep_ts rep)" "rep_ts rep ! ts = slot"
    "slot_state slot \<noteq> STATE_IDLE" "slot_last_frame_received slot = time_zero"
    "no_end ts slot (rep_io rep) (rep_timeout rep) ev"
  shows "rep_ts rep' ! ts = slot \<and> length (rep_ts rep') = length (rep_ts rep) \<and> rep_io rep' = rep_io rep \<and>
    rep_timeout rep' = rep_timeout rep"
proof (cases ev)
  case (Pushed src p mem env s)
  with assms(1) obtain r s' where run: "push_proto mem env (Some src) (Some p) rep s = Some (r, rep', s')" by auto
  then obtain relay rep1 s1 where sw: "push_switch mem p rep s = Some (relay, rep1, s1)" and
    same: "rep' = rep1\<lparr>rep_lua := rep_lua rep'\<rparr>"
    using push_proto_rest by blast
  have "rep_ts rep1 ! ts = slot" using push_keeps_slot [OF sw assms(2)] assms(3,4,6) Pushed by simp
  then show ?thesis using push_switch_rest [OF sw] by (subst (1 2 3 4) same) simp
next
  case (Timed now s)
  with assms show ?thesis
    by (auto simp: slot_timer_def bind_eq_Some_conv slot_check_keeps split: option.splits)
qed

lemma rep_run_keeps_slot:
  assumes "rep_run evs rep = Some rep'" "ts < length (rep_ts rep)" "rep_ts rep ! ts = slot"
    "slot_state slot \<noteq> STATE_IDLE" "slot_last_frame_received slot = time_zero"
    "list_all (no_end ts slot (rep_io rep) (rep_timeout rep)) evs"
  shows "rep_ts rep' ! ts = slot \<and> length (rep_ts rep') = length (rep_ts rep)"
  using assms
proof (induction evs arbitrary: rep)
  case (Cons ev evs)
  then obtain rep1 where step: "rep_step ev rep = Some rep1" and run: "rep_run evs rep1 = Some rep'"
    by (auto simp: bind_eq_Some_conv)
  from rep_step_keeps_slot [OF step] Cons.prems Cons.IH [OF run] show ?case by simp
qed simp

text \<open>The packets of a list, sent to the protocols of a list; and the packets of a queue, pushed in order.\<close>

primrec send_all :: "(nat \<Rightarrow> relay_env) \<Rightarrow> dmr_parsed_packet \<Rightarrow> (nat \<times> proto) list \<Rightarrow> psys \<Rightarrow> psys option" where
  "send_all env p [] s = Some s"
| "send_all env p (d # ds) s = Option.bind (send_proto (env (fst d)) (snd d) p s) (\<lambda>(_, s). send_all env p ds s)"

definition permits :: "lua_script \<Rightarrow> proto \<Rightarrow> dmr_parsed_packet \<Rightarrow> proto \<Rightarrow> bool" where
  "permits script src p dst \<longleftrightarrow> script src dst p \<noteq> Lua_returns (Lua_boolean False)"

definition plain_answer :: "lua_script \<Rightarrow> proto \<Rightarrow> dmr_parsed_packet \<Rightarrow> proto \<Rightarrow> bool" where
  "plain_answer script src p dst \<longleftrightarrow>
     (case script src dst p of Lua_returns Lua_nil \<Rightarrow> True | Lua_returns (Lua_boolean _) \<Rightarrow> True | _ \<Rightarrow> False)"

lemma route_plain:
  assumes "plain_answer script src p dst"
  shows "route script src dst p [] =
    Some (if permits script src p dst then ROUTE_PERMIT_UNMODIFIED else ROUTE_REJECT, p, [])"
  using assms by (auto simp: plain_answer_def permits_def route_def split: lua_outcome.splits lua_value.splits)

lemma relay_plain:
  assumes "rep_lua rep = []" "\<And>i. re_mem (env i)"
    "\<And>j. j < length dsts \<Longrightarrow> i + j \<noteq> src \<Longrightarrow> plain_answer (re_script (env (i + j))) (rep_protos rep ! src) p (dsts ! j)"
  shows "relay_from env src p i dsts rep s =
    map_option (\<lambda>s. (0, rep, s))
      (send_all env p (filter (\<lambda>(j, dst). j \<noteq> src \<and> permits (re_script (env j)) (rep_protos rep ! src) p dst) (enumerate i dsts)) s)"
  using assms(1,3)
proof (induction dsts arbitrary: i s)
  case (Cons dst dsts)
  have rep: "rep\<lparr>rep_lua := []\<rparr> = rep" using Cons.prems(1) by (cases rep) simp
  have "relay_from env src p (Suc i) dsts rep s = map_option (\<lambda>s. (0, rep, s))
      (send_all env p (filter (\<lambda>(j, dst). j \<noteq> src \<and> permits (re_script (env j)) (rep_protos rep ! src) p dst)
        (enumerate (Suc i) dsts)) s)" for s
    using Cons.prems(2) [of "Suc j" for j] by (intro Cons.IH [OF Cons.prems(1)]) simp
  then show ?case
    using route_plain [OF Cons.prems(2) [of 0, simplified]] Cons.prems(1) assms(2)
    by (cases "i = src") (auto simp: rep split: option.splits)
qed simp

text \<open>
  The receive queue of a connection, as the polling loop uses it: it is read back as it was written,
  and neither the timers nor sending touch it.  The loop then pushes exactly the packets of the queue.
\<close>

primrec push_all ::
  "poll_env \<Rightarrow> (dmr_packetq \<Rightarrow> psys \<Rightarrow> psys) \<Rightarrow> nat \<Rightarrow> nat \<Rightarrow> dmr_parsed_packet list \<Rightarrow> repeater \<Rightarrow> psys \<Rightarrow>
   (nat \<times> repeater \<times> psys) option" where
  "push_all env put src n [] rep s = Some (n, rep, s)"
| "push_all env put src n (p # ps) rep s =
     (case push_proto (fst (env n)) (snd (env n)) (Some src) (Some p) rep (put \<lparr>pq_head = ps\<rparr> s) of
        None \<Rightarrow> None
      | Some (ret, rep, s) \<Rightarrow> push_all env put src (Suc n) ps rep s)"

locale receive_queue =
  fixes rxq :: "psys \<Rightarrow> dmr_packetq option option" and put :: "dmr_packetq \<Rightarrow> psys \<Rightarrow> psys"
  assumes put_get: "rxq s \<noteq> None \<Longrightarrow> rxq (put q s) = Some (Some q)"
    and world_keeps: "sys_world s' = sys_world s \<Longrightarrow> rxq s' = rxq s"
    and relay_keeps: "same_loops s s' \<Longrightarrow> rxq s' = rxq s"
begin

lemma push_keeps_queue:
  assumes "push_proto mem env (Some src) (Some p) rep s = Some (r, rep', s')"
  shows "rxq s' = rxq s"
proof -
  obtain relay rep1 s1 where "push_switch mem p rep s = Some (relay, rep1, s1)" and same: "same_loops s1 s'"
    using push_proto_rest [OF assms] by blast
  from push_switch_world [OF this(1)] have "rxq s1 = rxq s" by (rule world_keeps)
  with relay_keeps [OF same] show ?thesis by simp
qed

lemma poll_is_push_all:
  assumes "rxq s = Some (Some \<lparr>pq_head = ps\<rparr>)"
  shows "poll_queue env rxq put src n rep s = push_all env put src n ps rep s"
  using assms
proof (induction ps arbitrary: n rep s)
  case Nil
  then show ?case by (simp add: poll_queue.simps dmr_packetq_shift_def)
next
  case (Cons p ps)
  have "rxq s1 = Some (Some \<lparr>pq_head = ps\<rparr>)"
    if "push_proto mem e (Some src) (Some p) rep (put \<lparr>pq_head = ps\<rparr> s) = Some (r, rep1, s1)" for mem e r rep1 s1
    using push_keeps_queue [OF that] put_get [of s] Cons.prems by simp
  with Cons show ?case
    by (subst poll_queue.simps) (auto simp: dmr_packetq_shift_def split: option.splits)
qed

lemma poll_empties:
  assumes "rxq s = Some (Some \<lparr>pq_head = ps\<rparr>)" "push_all env put src n ps rep s = Some (m, rep', s')"
  shows "rxq s' = Some (Some \<lparr>pq_head = []\<rparr>) \<and> m = n + length ps"
  using assms
proof (induction ps arbitrary: n rep s)
  case (Cons p ps)
  then obtain r rep1 s1 where
    push: "push_proto (fst (env n)) (snd (env n)) (Some src) (Some p) rep (put \<lparr>pq_head = ps\<rparr> s) = Some (r, rep1, s1)"
    and run: "push_all env put src (Suc n) ps rep1 s1 = Some (m, rep', s')"
    by (auto split: option.splits)
  have "rxq s1 = Some (Some \<lparr>pq_head = ps\<rparr>)" using push_keeps_queue [OF push] put_get [of s] Cons.prems(1) by simp
  from Cons.IH [OF this run] show ?case by simp
qed simp

end

interpretation hbq: receive_queue "hb_queue h" "hb_queue_put h" for h
  by unfold_locales (auto simp: hb_queue_def hb_queue_put_def in_world_def same_loops_def)

interpretation mmq: receive_queue "mm_queue h" "mm_queue_put h" for h
  by unfold_locales (auto simp: mm_queue_def mm_queue_put_def in_world_def same_loops_def)

text \<open>A second protocol with the descriptor finds the queue empty.\<close>

lemma poll_rest_empty:
  "hb_queue h s = Some (Some \<lparr>pq_head = []\<rparr>) \<Longrightarrow> poll_homebrew_protos env h fd i protos n rep s = Some (0, rep, s)"
  by (induction env h fd i protos n rep s rule: poll_homebrew_protos.induct)
    (auto simp: hbq.poll_is_push_all bind_eq_Some_conv)

lemma poll_protos:
  assumes "hb_queue h s = Some (Some \<lparr>pq_head = ps\<rparr>)" "proto_of_fd fd i protos = Some src"
  shows "poll_homebrew_protos env h fd i protos n rep s =
    map_option (\<lambda>(n, rep, s). (0, rep, s)) (push_all env (hb_queue_put h) src n ps rep s)"
  using assms
proof (induction protos arbitrary: i)
  case (Cons proto protos)
  show ?case
  proof (cases "proto_fd proto = fd")
    case True
    then have "src = i" using Cons.prems(2) by simp
    with True show ?thesis
      using hbq.poll_is_push_all [OF Cons.prems(1), of env i n rep]
        hbq.poll_empties [OF Cons.prems(1), of env i n rep]
      by (cases "push_all env (hb_queue_put h) i n ps rep s") (auto simp: poll_rest_empty)
  qed (use Cons in simp)
qed simp

section \<open>Properties\<close>

text \<open>
  C32. An error of the script spoils the later decisions.  The error message stays on the Lua stack, and the
  next calls look at the bottom of the stack for the answer: false then relays the packet, and a table ends
  the program.  After a table, too, the stack is not empty: the next table changes the packet as the first
  one said, and false relays the packet.  Only with an empty stack is the answer the one of the script.
\<close>

theorem route_answers_with_stack_bottom:
  assumes "\<forall>k \<in> set lua_fields. tbl k \<noteq> None"
  shows "(\<exists>st. route (\<lambda>_ _ _. Lua_returns (Lua_table tbl)) src dst p [] = Some (ROUTE_PERMIT, set_fields tbl p, Lua_table tbl # st) \<and>
      (\<forall>src' dst' q. route (\<lambda>_ _ _. Lua_returns (Lua_boolean False)) src' dst' q (Lua_table tbl # st) =
         Some (ROUTE_PERMIT_UNMODIFIED, q, Lua_table tbl # st)) \<and>
      (\<forall>tbl' src' dst' q. \<exists>st'. route (\<lambda>_ _ _. Lua_returns (Lua_table tbl')) src' dst' q (Lua_table tbl # st) =
         Some (ROUTE_PERMIT, set_fields tbl q, st'))) \<and>
    route (\<lambda>_ _ _. Lua_error (Lua_string msg)) src dst p [] = Some (ROUTE_REJECT, p, [Lua_string msg]) \<and>
    (\<forall>src' dst' q. route (\<lambda>_ _ _. Lua_returns (Lua_boolean False)) src' dst' q [Lua_string msg] =
       Some (ROUTE_PERMIT_UNMODIFIED, q, [Lua_string msg])) \<and>
    (\<forall>tbl' src' dst' q. route (\<lambda>_ _ _. Lua_returns (Lua_table tbl')) src' dst' q [Lua_string msg] = None) \<and>
    route (\<lambda>_ _ _. Lua_returns (Lua_boolean False)) src dst p [] = Some (ROUTE_REJECT, p, [])"
proof (intro conjI allI)
  have "butlast (Lua_table tbl # map (\<lambda>k. Lua_integer (the (tbl k))) lua_fields) =
      Lua_table tbl # butlast (map (\<lambda>k. Lua_integer (the (tbl k))) lua_fields)"
    by (simp add: lua_fields_def)
  with route_table [OF assms] show "\<exists>st. route (\<lambda>_ _ _. Lua_returns (Lua_table tbl)) src dst p [] =
        Some (ROUTE_PERMIT, set_fields tbl p, Lua_table tbl # st) \<and>
      (\<forall>src' dst' q. route (\<lambda>_ _ _. Lua_returns (Lua_boolean False)) src' dst' q (Lua_table tbl # st) =
         Some (ROUTE_PERMIT_UNMODIFIED, q, Lua_table tbl # st)) \<and>
      (\<forall>tbl' src' dst' q. \<exists>st'. route (\<lambda>_ _ _. Lua_returns (Lua_table tbl')) src' dst' q (Lua_table tbl # st) =
         Some (ROUTE_PERMIT, set_fields tbl q, st'))"
    by (simp add: route_false)
qed (simp_all add: route_false route_error route_string)

definition demo_table :: "string \<Rightarrow> int option" where
  "demo_table k = (if k \<in> set lua_fields then Some 1 else None)"

theorem route_answers_with_stack_bottom_witness:
  "\<forall>src dst. \<exists>st st'. route (\<lambda>_ _ _. Lua_returns (Lua_table demo_table)) src dst zero_parsed_packet [] =
       Some (ROUTE_PERMIT, set_fields demo_table zero_parsed_packet, Lua_table demo_table # st) \<and>
     route (\<lambda>_ _ _. Lua_returns (Lua_table (\<lambda>_. Some 2))) src dst zero_parsed_packet (Lua_table demo_table # st) =
       Some (ROUTE_PERMIT, set_fields demo_table zero_parsed_packet, st') \<and>
     pp_ts (set_fields demo_table zero_parsed_packet) = 1"
proof (intro allI)
  fix src dst
  have "\<forall>k \<in> set lua_fields. demo_table k \<noteq> None" by (simp add: demo_table_def)
  from route_answers_with_stack_bottom [OF this, of src dst zero_parsed_packet "''error''"]
  have "\<exists>st st'. route (\<lambda>_ _ _. Lua_returns (Lua_table demo_table)) src dst zero_parsed_packet [] =
       Some (ROUTE_PERMIT, set_fields demo_table zero_parsed_packet, Lua_table demo_table # st) \<and>
     route (\<lambda>_ _ _. Lua_returns (Lua_table (\<lambda>_. Some 2))) src dst zero_parsed_packet (Lua_table demo_table # st) =
       Some (ROUTE_PERMIT, set_fields demo_table zero_parsed_packet, st')" by blast
  moreover have "pp_ts (set_fields demo_table zero_parsed_packet) = 1"
    by (simp add: set_fields_def demo_table_def lua_fields_def)
  ultimately show "\<exists>st st'. route (\<lambda>_ _ _. Lua_returns (Lua_table demo_table)) src dst zero_parsed_packet [] =
       Some (ROUTE_PERMIT, set_fields demo_table zero_parsed_packet, Lua_table demo_table # st) \<and>
     route (\<lambda>_ _ _. Lua_returns (Lua_table (\<lambda>_. Some 2))) src dst zero_parsed_packet (Lua_table demo_table # st) =
       Some (ROUTE_PERMIT, set_fields demo_table zero_parsed_packet, st') \<and>
     pp_ts (set_fields demo_table zero_parsed_packet) = 1" by blast
qed

text \<open>
  C29. A lost terminator blocks its slot.  The time of the last frame is never stored and the timer
  compares a duration with the clock, so as long as the timer runs within the timeout after the loop
  has read the clock, no call times out: whatever packets follow, the slot keeps its call until a
  packet of the same stream ends it, and a packet of any other stream for the slot is dropped.
\<close>

theorem lost_terminator_blocks_slot:
  assumes "ts < length (rep_ts rep)" and "rep_ts rep ! ts = slot" and "slot_state slot \<noteq> STATE_IDLE"
    and "slot_last_frame_received slot = time_zero"
    and "list_all (no_end ts slot (rep_io rep) (rep_timeout rep)) evs"
    and "rep_run evs rep = Some rep'"
  shows "rep_ts rep' ! ts = slot \<and>
    (\<forall>p src mem env s. unat (pp_ts p) = ts \<longrightarrow> pp_stream_id p \<noteq> slot_stream_id slot \<longrightarrow>
       push_proto mem env (Some src) (Some p) rep' s = Some (0, rep', s))"
proof -
  have keep: "rep_ts rep' ! ts = slot \<and> length (rep_ts rep') = length (rep_ts rep)"
    using assms by (intro rep_run_keeps_slot) auto
  then show ?thesis using assms(1,3) by (auto simp: push_proto_def push_switch_alt Let_def)
qed

definition demo_slot :: repeater_slot where
  "demo_slot = \<lparr>slot_data_type = 0, slot_src_id = 0, slot_dst_id = 0, slot_state = STATE_IDLE, slot_stream_id = 0,
     slot_last_frame_received = time_zero\<rparr>"

definition demo_protos :: "proto list" where
  "demo_protos = [\<lparr>proto_type = DMR_PROTOCOL_MMDVM, proto_name = ''modem'', proto_instance = Some 9, proto_fd = 5\<rparr>,
     \<lparr>proto_type = DMR_PROTOCOL_HOMEBREW, proto_name = ''master'', proto_instance = Some 7, proto_fd = 4\<rparr>,
     \<lparr>proto_type = DMR_PROTOCOL_HOMEBREW, proto_name = ''other'', proto_instance = Some 8, proto_fd = 6\<rparr>]"

definition demo_repeater :: repeater where
  "demo_repeater = \<lparr>rep_ts = [demo_slot, demo_slot], rep_io = 0, rep_timeout = 180, rep_protos = demo_protos, rep_lua = []\<rparr>"

text \<open>A script that refuses the last protocol.\<close>

definition demo_relay :: relay_env where
  "demo_relay = \<lparr>re_mem = True, re_script = (\<lambda>src dst p. Lua_returns (if proto_name dst = ''other'' then Lua_boolean False else Lua_nil)),
     re_hb = demo_env, re_mm = demo_mm_env, re_write = []\<rparr>"

definition demo_voice :: dmr_parsed_packet where
  "demo_voice = zero_parsed_packet\<lparr>pp_data_type := DMR_DATA_TYPE_VOICE_LC, pp_stream_id := 1\<rparr>"

theorem lost_terminator_blocks_slot_witness:
  "\<exists>rep'. rep_run [Timed \<lparr>tv_sec = 100, tv_usec = 2000\<rparr> demo_sys,
       Pushed 0 (demo_voice\<lparr>pp_stream_id := 2\<rparr>) True (\<lambda>_. demo_relay) demo_sys]
     (demo_repeater\<lparr>rep_ts := [demo_slot\<lparr>slot_state := STATE_VOICE_CALL\<rparr>, demo_slot]\<rparr>) = Some rep' \<and>
     slot_state (rep_ts rep' ! 0) = STATE_VOICE_CALL \<and>
     push_proto True (\<lambda>_. demo_relay) (Some 0) (Some demo_voice) rep' demo_sys = Some (0, rep', demo_sys)"
proof -
  let ?slot = "demo_slot\<lparr>slot_state := STATE_VOICE_CALL\<rparr>"
  let ?rep = "demo_repeater\<lparr>rep_ts := [?slot, demo_slot]\<rparr>"
  let ?evs = "[Timed \<lparr>tv_sec = 100, tv_usec = 2000\<rparr> demo_sys, Pushed 0 (demo_voice\<lparr>pp_stream_id := 2\<rparr>) True (\<lambda>_. demo_relay) demo_sys]"
  have "\<exists>rep'. rep_run ?evs ?rep = Some rep'"
    by (simp add: slot_timer_def demo_sys_def demo_loop_def demo_repeater_def demo_voice_def zero_parsed_packet_def demo_slot_def
        slot_check_def push_proto_def push_switch_alt timersub_def time_zero_def dmr_time_ms_since_def Let_def)
  then obtain rep' where run: "rep_run ?evs ?rep = Some rep'" by blast
  show ?thesis
    using lost_terminator_blocks_slot [of 0 ?rep ?slot ?evs rep'] run
    by (simp add: demo_repeater_def demo_sys_def demo_loop_def demo_slot_def demo_voice_def zero_parsed_packet_def tv_wf_def tv_us_def)
qed



text \<open>
  C31. As long as allocation succeeds and no call times out, the loop has one slot timer for every call:
  a packet that opens a call registers a timer, one that ends a call removes one, and nothing that is done
  with a packet touches the timers otherwise or breaks the invariant of the loops.
\<close>

theorem push_keeps_timer_per_call:
  assumes "sys_inv s" and "sys_io s (rep_io rep) = Some io" and "slot_timers io = active_slots rep"
    and "push_proto True env (Some src) (Some p) rep s = Some (r, rep', s')"
  shows "sys_inv s' \<and> (\<exists>io'. sys_io s' (rep_io rep') = Some io' \<and> slot_timers io' = active_slots rep')"
proof -
  obtain relay rep1 s1 where sw: "push_switch True p rep s = Some (relay, rep1, s1)" and
    rep': "rep' = rep1\<lparr>rep_lua := rep_lua rep'\<rparr>" and same: "same_loops s1 s'"
    using push_proto_rest [OF assms(4)] by blast
  have "sys_inv s'" if "sys_inv s1" using that same by (simp add: same_loops_def sys_inv_def sig_listed_def)
  moreover have "rep_io rep' = rep_io rep" "active_slots rep' = active_slots rep1"
    using push_switch_rest [OF sw] by (subst rep', simp add: active_slots_def)+
  ultimately show ?thesis using switch_counts [OF sw assms(2,1,3)] same by (auto simp: same_loops_def)
qed

theorem push_keeps_timer_per_call_witness:
  "\<exists>rep' s' io'. push_proto True (\<lambda>_. demo_relay\<lparr>re_script := (\<lambda>_ _ _. Lua_returns (Lua_boolean False))\<rparr>) (Some 0) (Some demo_voice)
      demo_repeater demo_sys = Some (0, rep', s') \<and>
    sys_io s' 0 = Some io' \<and> slot_timers io' = 1"
proof -
  let ?e = "\<lambda>_. demo_relay\<lparr>re_script := (\<lambda>_ _ _. Lua_returns (Lua_boolean False))\<rparr>"
  have "\<exists>rep' s'. push_proto True ?e (Some 0) (Some demo_voice) demo_repeater demo_sys = Some (0, rep', s') \<and> active_slots rep' = 1
      \<and> rep_io rep' = 0"
    by (simp add: push_proto_def push_switch_alt new_io_timer_def dmr_io_reg_timer_def io_api_def demo_repeater_def demo_sys_def
        demo_loop_def demo_slot_def demo_voice_def zero_parsed_packet_def opens_def slot_enter_def demo_protos_def demo_relay_def
        route_def active_slots_def Let_def)
  then obtain rep' s' where run: "push_proto True ?e (Some 0) (Some demo_voice) demo_repeater demo_sys = Some (0, rep', s')"
    and act: "active_slots rep' = 1" "rep_io rep' = 0" by blast
  have "sys_inv demo_sys" by (simp add: sys_inv_def demo_sys_def demo_loop_def io_inv_def io_fds_def io_count_def fds_in_def FD_SETSIZE_def)
  from push_keeps_timer_per_call [OF this _ _ run, of demo_loop] act run show ?thesis
    by (auto simp: demo_sys_def demo_repeater_def demo_loop_def slot_timers_def active_slots_def demo_slot_def)
qed



end
