(* ===== verification/Dmr_Tree.thy ===== *)
theory Dmr_Tree
  imports Dmr_Packet "HOL-Library.Multiset"
begin

text \<open>
  The red-black tree macros of \<open>include/dmr/tree.h\<close>, as \<open>src/dmr/id.c\<close> generates them for its nodes:
  finding, inserting, the minimum and the successor, on an explicit store of nodes with left, right
  and parent pointers.  The functions come in mirrored pairs or have mirrored halves; they are
  written once, with a Boolean for the side (\<open>True\<close> is the left one).  Reading through a null
  pointer is a run without result.
\<close>

section \<open>Nodes\<close>

datatype rb_color = DMR_RB_BLACK | DMR_RB_RED

record dmr_idnode =
  idn_id :: dmr_id
  idn_name :: string
  rbe_left :: "nat option"
  rbe_right :: "nat option"
  rbe_parent :: "nat option"
  rbe_color :: rb_color

text \<open>A map: the root, and the nodes that were allocated for it; \<open>rb_brk\<close> is the next address.\<close>

record dmr_idmap =
  rbh_root :: "nat option"
  rb_nodes :: "nat \<Rightarrow> dmr_idnode option"
  rb_brk :: nat

definition idcmp :: "dmr_id \<Rightarrow> dmr_id \<Rightarrow> int" where
  "idcmp a b = (if a > b then -1 else if a < b then 1 else 0)"

definition rb_set :: "nat \<Rightarrow> (dmr_idnode \<Rightarrow> dmr_idnode) \<Rightarrow> dmr_idmap \<Rightarrow> dmr_idmap option" where
  "rb_set a f head =
     (case rb_nodes head a of
        None \<Rightarrow> None
      | Some n \<Rightarrow> Some (head\<lparr>rb_nodes := (rb_nodes head)(a \<mapsto> f n)\<rparr>))"

definition rb_child :: "bool \<Rightarrow> dmr_idnode \<Rightarrow> nat option" where
  "rb_child d n = (if d then rbe_left n else rbe_right n)"

definition rb_put_child :: "bool \<Rightarrow> nat option \<Rightarrow> dmr_idnode \<Rightarrow> dmr_idnode" where
  "rb_put_child d p n = (if d then n\<lparr>rbe_left := p\<rparr> else n\<lparr>rbe_right := p\<rparr>)"

definition rb_put_parent :: "nat option \<Rightarrow> dmr_idnode \<Rightarrow> dmr_idnode" where
  "rb_put_parent p n = n\<lparr>rbe_parent := p\<rparr>"

definition rb_put_color :: "rb_color \<Rightarrow> dmr_idnode \<Rightarrow> dmr_idnode" where
  "rb_put_color c n = n\<lparr>rbe_color := c\<rparr>"

section \<open>Rotation\<close>

text \<open>The pointer to \<open>elm\<close>, in its parent or at the root, is changed to \<open>tmp\<close>.\<close>

definition rb_replace :: "nat option \<Rightarrow> nat \<Rightarrow> nat \<Rightarrow> dmr_idmap \<Rightarrow> dmr_idmap option" where
  "rb_replace parent elm tmp head =
     (case parent of
        None \<Rightarrow> Some (head\<lparr>rbh_root := Some tmp\<rparr>)
      | Some p \<Rightarrow> do {
          n \<leftarrow> rb_nodes head p;
          rb_set p (rb_put_child (rbe_left n = Some elm) (Some tmp)) head })"

definition rb_adopt :: "nat option \<Rightarrow> nat option \<Rightarrow> dmr_idmap \<Rightarrow> dmr_idmap option" where
  "rb_adopt child parent head =
     (case child of None \<Rightarrow> Some head | Some b \<Rightarrow> rb_set b (rb_put_parent parent) head)"

text \<open>\<open>DMR_RB_ROTATE_LEFT\<close> for \<open>d\<close>, \<open>DMR_RB_ROTATE_RIGHT\<close> otherwise.\<close>

definition rb_rotate :: "bool \<Rightarrow> nat \<Rightarrow> dmr_idmap \<Rightarrow> dmr_idmap option" where
  "rb_rotate d elm head = do {
     e \<leftarrow> rb_nodes head elm;
     tmp \<leftarrow> rb_child (\<not> d) e;
     t \<leftarrow> rb_nodes head tmp;
     head \<leftarrow> rb_set elm (rb_put_child (\<not> d) (rb_child d t)) head;
     head \<leftarrow> rb_adopt (rb_child d t) (Some elm) head;
     head \<leftarrow> rb_set tmp (rb_put_parent (rbe_parent e)) head;
     head \<leftarrow> rb_replace (rbe_parent e) elm tmp head;
     head \<leftarrow> rb_set tmp (rb_put_child d (Some elm)) head;
     rb_set elm (rb_put_parent (Some tmp)) head }"

definition DMR_RB_SET_BLACKRED :: "nat \<Rightarrow> nat \<Rightarrow> dmr_idmap \<Rightarrow> dmr_idmap option" where
  "DMR_RB_SET_BLACKRED black red head = do {
     head \<leftarrow> rb_set black (rb_put_color DMR_RB_BLACK) head;
     rb_set red (rb_put_color DMR_RB_RED) head }"

section \<open>Insertion\<close>

text \<open>The node, when there is one and it is red.\<close>

definition rb_red :: "nat option \<Rightarrow> dmr_idmap \<Rightarrow> nat option option" where
  "rb_red tmp head =
     (case tmp of
        None \<Rightarrow> Some None
      | Some u \<Rightarrow> map_option (\<lambda>n. if rbe_color n = DMR_RB_RED then Some u else None) (rb_nodes head u))"

text \<open>
  One turn of the loop of \<open>DMR_RB_INSERT_COLOR\<close>, with \<open>parent\<close> red: the next \<open>elm\<close>.
\<close>

definition rb_insert_turn :: "nat \<Rightarrow> nat \<Rightarrow> dmr_idmap \<Rightarrow> (nat \<times> dmr_idmap) option" where
  "rb_insert_turn elm parent head = do {
     p \<leftarrow> rb_nodes head parent;
     gparent \<leftarrow> rbe_parent p;
     g \<leftarrow> rb_nodes head gparent;
     let d = (rbe_left g = Some parent);
     red \<leftarrow> rb_red (rb_child (\<not> d) g) head;
     (case red of
        Some u \<Rightarrow> do {
          head \<leftarrow> rb_set u (rb_put_color DMR_RB_BLACK) head;
          head \<leftarrow> DMR_RB_SET_BLACKRED parent gparent head;
          Some (gparent, head) }
      | None \<Rightarrow> do {
          (elm, parent, head) \<leftarrow>
            (if rb_child (\<not> d) p = Some elm
             then do { head \<leftarrow> rb_rotate d parent head; Some (parent, elm, head) }
             else Some (elm, parent, head));
          head \<leftarrow> DMR_RB_SET_BLACKRED parent gparent head;
          head \<leftarrow> rb_rotate (\<not> d) gparent head;
          Some (elm, head) }) }"

partial_function (option) rb_insert_loop :: "nat \<Rightarrow> dmr_idmap \<Rightarrow> dmr_idmap option" where
  "rb_insert_loop elm head =
     (case rb_nodes head elm of
        None \<Rightarrow> None
      | Some e \<Rightarrow>
          (case rbe_parent e of
             None \<Rightarrow> Some head
           | Some parent \<Rightarrow>
               (case rb_nodes head parent of
                  None \<Rightarrow> None
                | Some p \<Rightarrow>
                    if rbe_color p = DMR_RB_RED
                    then do { (elm, head) \<leftarrow> rb_insert_turn elm parent head; rb_insert_loop elm head }
                    else Some head)))"

definition DMR_RB_INSERT_COLOR :: "nat \<Rightarrow> dmr_idmap \<Rightarrow> dmr_idmap option" where
  "DMR_RB_INSERT_COLOR elm head = do {
     head \<leftarrow> rb_insert_loop elm head;
     root \<leftarrow> rbh_root head;
     rb_set root (rb_put_color DMR_RB_BLACK) head }"

text \<open>The way down: the node with the same key, or the last node and the last comparison.\<close>

partial_function (option) rb_descend ::
  "dmr_idmap \<Rightarrow> dmr_id \<Rightarrow> nat option \<Rightarrow> nat option \<Rightarrow> int \<Rightarrow> (nat + nat option \<times> int) option" where
  "rb_descend head i tmp parent cmp =
     (case tmp of
        None \<Rightarrow> Some (Inr (parent, cmp))
      | Some a \<Rightarrow>
          (case rb_nodes head a of
             None \<Rightarrow> None
           | Some n \<Rightarrow>
               let cmp = idcmp i (idn_id n)
               in if cmp < 0 then rb_descend head i (rbe_left n) (Some a) cmp
                  else if cmp > 0 then rb_descend head i (rbe_right n) (Some a) cmp
                  else Some (Inl a)))"

text \<open>\<open>DMR_RB_INSERT\<close>: the node that was there already, or the null pointer.\<close>

definition DMR_RB_INSERT :: "nat \<Rightarrow> dmr_idmap \<Rightarrow> (nat option \<times> dmr_idmap) option" where
  "DMR_RB_INSERT elm head = do {
     e \<leftarrow> rb_nodes head elm;
     found \<leftarrow> rb_descend head (idn_id e) (rbh_root head) None 0;
     (case found of
        Inl tmp \<Rightarrow> Some (Some tmp, head)
      | Inr (parent, cmp) \<Rightarrow> do {
          head \<leftarrow> rb_set elm (\<lambda>n. n\<lparr>rbe_parent := parent, rbe_left := None, rbe_right := None, rbe_color := DMR_RB_RED\<rparr>) head;
          head \<leftarrow> (case parent of
                     None \<Rightarrow> Some (head\<lparr>rbh_root := Some elm\<rparr>)
                   | Some p \<Rightarrow> rb_set p (rb_put_child (cmp < 0) (Some elm)) head);
          head \<leftarrow> DMR_RB_INSERT_COLOR elm head;
          Some (None, head) }) }"

section \<open>Finding and walking\<close>

partial_function (option) rb_find_from :: "dmr_idmap \<Rightarrow> dmr_id \<Rightarrow> nat option \<Rightarrow> nat option option" where
  "rb_find_from head i tmp =
     (case tmp of
        None \<Rightarrow> Some None
      | Some a \<Rightarrow>
          (case rb_nodes head a of
             None \<Rightarrow> None
           | Some n \<Rightarrow>
               let cmp = idcmp i (idn_id n)
               in if cmp < 0 then rb_find_from head i (rbe_left n)
                  else if cmp > 0 then rb_find_from head i (rbe_right n)
                  else Some (Some a)))"

definition DMR_RB_FIND :: "dmr_idmap \<Rightarrow> dmr_id \<Rightarrow> nat option option" where
  "DMR_RB_FIND head i = rb_find_from head i (rbh_root head)"

text \<open>The outermost node on one side below \<open>tmp\<close>.\<close>

partial_function (option) rb_outermost :: "bool \<Rightarrow> dmr_idmap \<Rightarrow> nat option \<Rightarrow> nat option \<Rightarrow> nat option option" where
  "rb_outermost d head tmp parent =
     (case tmp of
        None \<Rightarrow> Some parent
      | Some a \<Rightarrow>
          (case rb_nodes head a of
             None \<Rightarrow> None
           | Some n \<Rightarrow> rb_outermost d head (rb_child d n) (Some a)))"

definition DMR_RB_MINMAX :: "dmr_idmap \<Rightarrow> int \<Rightarrow> nat option option" where
  "DMR_RB_MINMAX head val = rb_outermost (val < 0) head (rbh_root head) None"

text \<open>
  Up to the first node that is not a right child, and its parent.  \<open>DMR_RB_NEXT\<close> tests the case of
  a left child before the loop, which then does not run.
\<close>

partial_function (option) rb_climb :: "dmr_idmap \<Rightarrow> nat \<Rightarrow> nat option option" where
  "rb_climb head elm =
     (case rb_nodes head elm of
        None \<Rightarrow> None
      | Some e \<Rightarrow>
          (case rbe_parent e of
             None \<Rightarrow> Some None
           | Some p \<Rightarrow>
               (case rb_nodes head p of
                  None \<Rightarrow> None
                | Some n \<Rightarrow> if rbe_right n = Some elm then rb_climb head p else Some (Some p))))"

definition DMR_RB_NEXT :: "dmr_idmap \<Rightarrow> nat \<Rightarrow> nat option option" where
  "DMR_RB_NEXT head elm = do {
     e \<leftarrow> rb_nodes head elm;
     (case rbe_right e of
        Some r \<Rightarrow> rb_outermost True head (Some r) None
      | None \<Rightarrow>
          (case rbe_parent e of
             None \<Rightarrow> Some None
           | Some p \<Rightarrow> do {
               n \<leftarrow> rb_nodes head p;
               if rbe_left n = Some elm then Some (Some p) else rb_climb head elm })) }"

section \<open>Trees in the store\<close>

text \<open>
  What the store holds is described by a tree with addresses; a place in it by the tree below and the
  way up, the innermost node first.  \<open>Fr d\<close> is a node that was left to the side \<open>d\<close>.
\<close>

datatype id_tree = Tip | Br id_tree nat rb_color dmr_id string id_tree

datatype id_frame = Fr bool nat rb_color dmr_id string id_tree

definition mk :: "bool \<Rightarrow> id_tree \<Rightarrow> nat \<Rightarrow> rb_color \<Rightarrow> dmr_id \<Rightarrow> string \<Rightarrow> id_tree \<Rightarrow> id_tree" where
  "mk d s a c i n t = (if d then Br s a c i n t else Br t a c i n s)"

definition mk_node ::
  "bool \<Rightarrow> nat option \<Rightarrow> nat option \<Rightarrow> nat option \<Rightarrow> rb_color \<Rightarrow> dmr_id \<Rightarrow> string \<Rightarrow> dmr_idnode" where
  "mk_node d p q par c i n =
     \<lparr>idn_id = i, idn_name = n, rbe_left = (if d then p else q), rbe_right = (if d then q else p), rbe_parent = par,
      rbe_color = c\<rparr>"

fun ptr :: "id_tree \<Rightarrow> nat option" where
  "ptr Tip = None"
| "ptr (Br l a c i n r) = Some a"

fun addrs :: "id_tree \<Rightarrow> nat list" where
  "addrs Tip = []"
| "addrs (Br l a c i n r) = addrs l @ a # addrs r"

fun up :: "id_frame list \<Rightarrow> nat option" where
  "up [] = None"
| "up (Fr d a c i n s # cs) = Some a"

fun up_addrs :: "id_frame list \<Rightarrow> nat list" where
  "up_addrs [] = []"
| "up_addrs (Fr d a c i n s # cs) = a # addrs s @ up_addrs cs"

fun plug :: "id_frame list \<Rightarrow> id_tree \<Rightarrow> id_tree" where
  "plug [] t = t"
| "plug (Fr d a c i n s # cs) t = plug cs (mk d t a c i n s)"

fun rep :: "(nat \<Rightarrow> dmr_idnode option) \<Rightarrow> nat option \<Rightarrow> id_tree \<Rightarrow> bool" where
  "rep m par Tip \<longleftrightarrow> True"
| "rep m par (Br l a c i n r) \<longleftrightarrow>
     m a = Some (mk_node True (ptr l) (ptr r) par c i n) \<and> rep m (Some a) l \<and> rep m (Some a) r"

fun rep_up :: "(nat \<Rightarrow> dmr_idnode option) \<Rightarrow> nat option \<Rightarrow> nat option \<Rightarrow> id_frame list \<Rightarrow> bool" where
  "rep_up m root q [] \<longleftrightarrow> root = q"
| "rep_up m root q (Fr d a c i n s # cs) \<longleftrightarrow>
     m a = Some (mk_node d q (ptr s) (up cs) c i n) \<and> rep m (Some a) s \<and> rep_up m root (Some a) cs"

definition rep_at :: "dmr_idmap \<Rightarrow> id_frame list \<Rightarrow> id_tree \<Rightarrow> bool" where
  "rep_at head cs t \<longleftrightarrow>
     rep_up (rb_nodes head) (rbh_root head) (ptr t) cs \<and> rep (rb_nodes head) (up cs) t \<and> distinct (up_addrs cs @ addrs t)"

lemma mk_simps [simp]:
  "ptr (mk d s a c i n t) = Some a"
  "set (addrs (mk d s a c i n t)) = insert a (set (addrs s) \<union> set (addrs t))"
  "distinct (addrs (mk d s a c i n t)) \<longleftrightarrow>
     distinct (addrs s) \<and> distinct (addrs t) \<and> a \<notin> set (addrs s) \<and> a \<notin> set (addrs t) \<and> set (addrs s) \<inter> set (addrs t) = {}"
  "rep m par (mk d s a c i n t) \<longleftrightarrow>
     m a = Some (mk_node d (ptr s) (ptr t) par c i n) \<and> rep m (Some a) s \<and> rep m (Some a) t"
  by (auto simp: mk_def mk_node_def)

lemma node_simps [simp]:
  "rb_child d (mk_node d p q par c i n) = p" "rb_child (\<not> d) (mk_node d p q par c i n) = q"
  "rb_child d (mk_node (\<not> d) p q par c i n) = q"
  "rb_put_child d p' (mk_node d p q par c i n) = mk_node d p' q par c i n"
  "rb_put_child (\<not> d) q' (mk_node d p q par c i n) = mk_node d p q' par c i n"
  "rb_put_child d q' (mk_node (\<not> d) p q par c i n) = mk_node (\<not> d) p q' par c i n"
  "rb_put_parent par' (mk_node d p q par c i n) = mk_node d p q par' c i n"
  "rb_put_color c' (mk_node d p q par c i n) = mk_node d p q par c' i n"
  "idn_id (mk_node d p q par c i n) = i" "idn_name (mk_node d p q par c i n) = n"
  "rbe_parent (mk_node d p q par c i n) = par" "rbe_color (mk_node d p q par c i n) = c"
  by (auto simp: rb_child_def rb_put_child_def rb_put_parent_def rb_put_color_def mk_node_def)

lemma node_left: "rbe_left (mk_node d p q par c i n) = (if d then p else q)"
  "rbe_right (mk_node d p q par c i n) = (if d then q else p)"
  by (simp_all add: mk_node_def)

lemma node_flip: "mk_node (\<not> d) p q par c i n = mk_node d q p par c i n"
  by (simp add: mk_node_def)

lemma mk_flip: "mk (\<not> d) s a c i n t = mk d t a c i n s"
  by (simp add: mk_def)

lemma ptr_in: "ptr t = Some a \<Longrightarrow> a \<in> set (addrs t)"
  by (cases t) auto

lemma up_in: "up cs = Some a \<Longrightarrow> a \<in> set (up_addrs cs)"
  by (cases cs rule: up.cases) auto

lemma rep_upd [simp]: "a \<notin> set (addrs t) \<Longrightarrow> rep (m(a := x)) par t = rep m par t"
  by (induction t arbitrary: par) auto

lemma rep_up_upd [simp]: "a \<notin> set (up_addrs cs) \<Longrightarrow> rep_up (m(a := x)) root q cs = rep_up m root q cs"
  by (induction cs arbitrary: q rule: up_addrs.induct) auto

lemma rep_plug: "rep_up m root (ptr t) cs \<and> rep m (up cs) t \<longleftrightarrow> root = ptr (plug cs t) \<and> rep m None (plug cs t)"
proof (induction cs t rule: plug.induct)
  case (2 d a c i n s cs t)
  then show ?case by auto
qed simp

lemma addrs_plug: "mset (addrs (plug cs t)) = mset (up_addrs cs @ addrs t)"
  by (induction cs t rule: plug.induct) (auto simp: mk_def)

lemma rep_at_plug: "rep_at head cs t \<longleftrightarrow> rep_at head [] (plug cs t)"
  using rep_plug [of "rb_nodes head" "rbh_root head" t cs] addrs_plug [of cs t]
  by (metis append_Nil mset_eq_imp_distinct_iff rep_at_def rep_up.simps(1) up.simps(1) up_addrs.simps(1))

lemma rep_at_up: "rep_at head (Fr d a c i n s # cs) t \<longleftrightarrow> rep_at head cs (mk d t a c i n s)"
  by (metis plug.simps(2) rep_at_plug)

text \<open>What a step does to the store: it ends, and allocates nothing.\<close>

definition to_store :: "dmr_idmap \<Rightarrow> dmr_idmap option \<Rightarrow> id_frame list \<Rightarrow> id_tree \<Rightarrow> bool" where
  "to_store head r cs t \<longleftrightarrow> (\<exists>head'. r = Some head' \<and> rep_at head' cs t \<and> rb_brk head' = rb_brk head)"

lemma set_simps [simp]:
  "rb_nodes head a = Some n \<Longrightarrow> rb_set a f head = Some (head\<lparr>rb_nodes := (rb_nodes head)(a \<mapsto> f n)\<rparr>)"
  by (simp add: rb_set_def)

text \<open>The pointers to a subtree from above and to its parent from below.\<close>

lemma replace_rep:
  assumes "rep_up (rb_nodes head) (rbh_root head) (Some e) cs" "e \<notin> set (up_addrs cs)" "distinct (up_addrs cs)"
  shows "\<exists>m root. rb_replace (up cs) e t head = Some (head\<lparr>rbh_root := root, rb_nodes := m\<rparr>) \<and>
    rep_up m root (Some t) cs \<and> (\<forall>a. a \<notin> set (up_addrs cs) \<longrightarrow> m a = rb_nodes head a)"
proof (cases cs rule: up.cases)
  case 1
  then show ?thesis by (intro exI [of _ "rb_nodes head"]) (simp add: rb_replace_def)
next
  case (2 d a c i n s cs')
  have "ptr s \<noteq> Some e" using assms(2) 2 ptr_in by fastforce
  then have "(rbe_left (mk_node d (Some e) (ptr s) (up cs') c i n) = Some e) = d" by (simp add: node_left)
  with 2 assms show ?thesis
    by (intro exI [of _ "(rb_nodes head)(a \<mapsto> mk_node d (Some t) (ptr s) (up cs') c i n)"] exI [of _ "rbh_root head"])
      (auto simp: rb_replace_def)
qed

lemma reparent_rep:
  assumes "rep (rb_nodes head) p t" "distinct (addrs t)"
  shows "\<exists>m. rb_adopt (ptr t) p' head = Some (head\<lparr>rb_nodes := m\<rparr>) \<and>
    rep m p' t \<and> (\<forall>a. a \<notin> set (addrs t) \<longrightarrow> m a = rb_nodes head a)"
proof (cases t)
  case Tip
  then show ?thesis by (intro exI [of _ "rb_nodes head"]) (simp add: rb_adopt_def)
next
  case (Br l a c i n r)
  with assms show ?thesis
    by (intro exI [of _ "(rb_nodes head)(a \<mapsto> mk_node True (ptr l) (ptr r) p' c i n)"]) (auto simp: rb_adopt_def)
qed

lemma rep_cong: "\<forall>a \<in> set (addrs t). m' a = m a \<Longrightarrow> rep m' p t = rep m p t"
  by (induction t arbitrary: p) auto

lemma rep_up_cong: "\<forall>a \<in> set (up_addrs cs). m' a = m a \<Longrightarrow> rep_up m' root q cs = rep_up m root q cs"
proof (induction cs arbitrary: q rule: up_addrs.induct)
  case (2 d a c i n s cs)
  then have "rep m' (Some a) s = rep m (Some a) s" by (intro rep_cong) simp
  with 2 show ?case by simp
qed simp

lemma rotate_rep:
  assumes "rep_at head cs (mk d ta e ce ie ne (mk d tb t ct it nt tc))"
  shows "to_store head (rb_rotate d e head) cs (mk d (mk d ta e ce ie ne tb) t ct it nt tc)"
proof -
  let ?m0 = "rb_nodes head"
  have m0: "?m0 e = Some (mk_node d (ptr ta) (Some t) (up cs) ce ie ne)" "?m0 t = Some (mk_node d (ptr tb) (ptr tc) (Some e) ct it nt)"
    and rep0: "rep_up ?m0 (rbh_root head) (Some e) cs" "rep ?m0 (Some e) ta" "rep ?m0 (Some t) tb" "rep ?m0 (Some t) tc"
    and dist: "distinct (up_addrs cs)" "distinct (addrs ta)" "distinct (addrs tb)" "distinct (addrs tc)" "e \<noteq> t"
      "e \<notin> set (up_addrs cs)" "t \<notin> set (up_addrs cs)" "e \<notin> set (addrs ta) \<union> set (addrs tb) \<union> set (addrs tc)"
      "t \<notin> set (addrs ta) \<union> set (addrs tb) \<union> set (addrs tc)" "set (up_addrs cs) \<inter> (set (addrs ta) \<union> set (addrs tb) \<union> set (addrs tc)) = {}"
      "set (addrs ta) \<inter> set (addrs tb) = {}" "set (addrs ta) \<inter> set (addrs tc) = {}" "set (addrs tb) \<inter> set (addrs tc) = {}"
    using assms by (auto simp: rep_at_def)
  have apart: "\<forall>a \<in> set (addrs ta). a \<notin> set (up_addrs cs) \<and> a \<notin> set (addrs tb)" "\<forall>a \<in> set (addrs tb). a \<notin> set (up_addrs cs)"
    "\<forall>a \<in> set (addrs tc). a \<notin> set (up_addrs cs) \<and> a \<notin> set (addrs tb)"
    using dist(10-) by blast+
  let ?h1 = "head\<lparr>rb_nodes := ?m0(e \<mapsto> mk_node d (ptr ta) (ptr tb) (up cs) ce ie ne)\<rparr>"
  obtain m2 where m2: "rb_adopt (ptr tb) (Some e) ?h1 = Some (?h1\<lparr>rb_nodes := m2\<rparr>)"
    "rep m2 (Some e) tb" "\<forall>a. a \<notin> set (addrs tb) \<longrightarrow> m2 a = rb_nodes ?h1 a"
    using reparent_rep [of ?h1 "Some t" tb "Some e"] rep0(3) dist by auto
  let ?h3 = "head\<lparr>rb_nodes := m2(t \<mapsto> mk_node d (ptr tb) (ptr tc) (up cs) ct it nt)\<rparr>"
  have "rep_up (rb_nodes ?h3) (rbh_root head) (Some e) cs"
    using rep0(1) m2(3) dist by (subst rep_up_cong [of _ _ ?m0]) auto
  then obtain m4 root where m4: "rb_replace (up cs) e t ?h3 = Some (?h3\<lparr>rbh_root := root, rb_nodes := m4\<rparr>)"
    "rep_up m4 root (Some t) cs" "\<forall>a. a \<notin> set (up_addrs cs) \<longrightarrow> m4 a = rb_nodes ?h3 a"
    using replace_rep [of ?h3 e cs t] dist by auto
  let ?m6 = "m4(t \<mapsto> mk_node d (Some e) (ptr tc) (up cs) ct it nt, e \<mapsto> mk_node d (ptr ta) (ptr tb) (Some t) ce ie ne)"
  let ?h6 = "head\<lparr>rbh_root := root, rb_nodes := ?m6\<rparr>"
  have "rb_rotate d e head = Some ?h6"
    using m0 m2(1,3) m4(1,3) dist by (auto simp: rb_rotate_def node_flip)
  moreover have "\<forall>a \<in> set (addrs ta). ?m6 a = ?m0 a" "\<forall>a \<in> set (addrs tb). ?m6 a = m2 a" "\<forall>a \<in> set (addrs tc). ?m6 a = ?m0 a"
    using m2(3) m4(3) dist apart by auto
  then have "rep ?m6 (Some e) ta" "rep ?m6 (Some e) tb" "rep ?m6 (Some t) tc"
    using rep0 m2(2) by (simp_all only: rep_cong)
  ultimately show ?thesis
    using m4(2) dist by (auto simp: to_store_def rep_at_def)
qed

fun paint :: "rb_color \<Rightarrow> id_tree \<Rightarrow> id_tree" where
  "paint c' Tip = Tip"
| "paint c' (Br l a c i n r) = Br l a c' i n r"

fun color :: "id_tree \<Rightarrow> rb_color" where
  "color Tip = DMR_RB_BLACK"
| "color (Br l a c i n r) = c"

lemma ptr_paint [simp]: "ptr (paint c t) = ptr t"
  by (cases t) auto

lemma paint_mk [simp]: "paint c' (mk d s a c i n t) = mk d s a c' i n t" "color (mk d s a c i n t) = c"
  by (simp_all add: mk_def)

lemma color_rep:
  assumes "rep_at head cs t" "ptr t = Some a"
  shows "to_store head (rb_set a (rb_put_color c) head) cs (paint c t)"
  using assms by (cases t) (auto simp: to_store_def rep_at_def)

lemma to_storeE:
  assumes "to_store head r cs t"
  obtains head' where "r = Some head'" "rep_at head' cs t" "rb_brk head' = rb_brk head"
  using assms by (auto simp: to_store_def)

lemma rep_at_side: "rep_at head (Fr d a c i n s # cs) t \<longleftrightarrow> rep_at head (Fr (\<not> d) a c i n t # cs) s"
  by (simp add: rep_at_up mk_flip)

lemma black_red_rep:
  assumes "rep_at head cs (mk d (mk d' ta p cp ip np tb) g cg ig ng u)"
  shows "to_store head (DMR_RB_SET_BLACKRED p g head) cs (mk d (mk d' ta p DMR_RB_BLACK ip np tb) g DMR_RB_RED ig ng u)"
proof -
  have "rep_at head (Fr d g cg ig ng u # cs) (mk d' ta p cp ip np tb)" using assms by (simp add: rep_at_up)
  from color_rep [OF this, of p DMR_RB_BLACK] obtain h1 where h1: "rb_set p (rb_put_color DMR_RB_BLACK) head = Some h1"
    "rep_at h1 cs (mk d (mk d' ta p DMR_RB_BLACK ip np tb) g cg ig ng u)" "rb_brk h1 = rb_brk head"
    by (auto simp: to_store_def rep_at_up)
  from color_rep [OF h1(2), of g DMR_RB_RED] h1 show ?thesis
    by (auto simp: DMR_RB_SET_BLACKRED_def to_store_def)
qed

text \<open>What the loop after an insertion makes of the tree \<open>t\<close> at a place.\<close>

fun halves :: "bool \<Rightarrow> id_tree \<Rightarrow> id_tree \<times> id_tree" where
  "halves d Tip = (Tip, Tip)"
| "halves d (Br l a c i n r) = (if d then (l, r) else (r, l))"

fun fix_up :: "id_frame list \<Rightarrow> id_tree \<Rightarrow> id_tree" where
  "fix_up (Fr d1 p DMR_RB_RED ip np s # Fr d g cg ig ng u # cs) t =
     (if color u = DMR_RB_RED
      then fix_up cs (mk d (mk d1 t p DMR_RB_BLACK ip np s) g DMR_RB_RED ig ng (paint DMR_RB_BLACK u))
      else if d1 = d then plug cs (mk d t p DMR_RB_BLACK ip np (mk d s g DMR_RB_RED ig ng u))
      else (case t of
              Tip \<Rightarrow> Tip
            | Br _ x c i n _ \<Rightarrow>
                plug cs (mk d (mk d s p DMR_RB_RED ip np (fst (halves d t))) x DMR_RB_BLACK i n
                  (mk d (snd (halves d t)) g DMR_RB_RED ig ng u))))"
| "fix_up cs t = plug cs t"

text \<open>The nodes around a place below two others.\<close>

lemma around:
  assumes "rep_at head (Fr d1 p c1 ip np s # Fr d g cg ig ng u # cs) t" "ptr t = Some x"
  shows "rb_nodes head p = Some (mk_node d1 (Some x) (ptr s) (Some g) c1 ip np)"
    "rb_nodes head g = Some (mk_node d (Some p) (ptr u) (up cs) cg ig ng)"
    "(rbe_left (mk_node d (Some p) (ptr u) (up cs) cg ig ng) = Some p) = d"
    "(rb_child (\<not> d) (mk_node d1 (Some x) (ptr s) (Some g) c1 ip np) = Some x) = (d1 \<noteq> d)"
    "rb_red (ptr u) head = Some (if color u = DMR_RB_RED then ptr u else None)"
proof -
  have "ptr u \<noteq> Some p" "ptr s \<noteq> Some x"
    using assms ptr_in [of u p] ptr_in [of s x] ptr_in [of t x] by (auto simp: rep_at_def)
  then show "(rbe_left (mk_node d (Some p) (ptr u) (up cs) cg ig ng) = Some p) = d"
    "(rb_child (\<not> d) (mk_node d1 (Some x) (ptr s) (Some g) c1 ip np) = Some x) = (d1 \<noteq> d)"
    by (auto simp: mk_node_def rb_child_def)
  show "rb_nodes head p = Some (mk_node d1 (Some x) (ptr s) (Some g) c1 ip np)"
    "rb_nodes head g = Some (mk_node d (Some p) (ptr u) (up cs) cg ig ng)"
    using assms by (auto simp: rep_at_def)
  have "rep (rb_nodes head) (Some g) u" using assms(1) by (simp add: rep_at_def)
  then show "rb_red (ptr u) head = Some (if color u = DMR_RB_RED then ptr u else None)"
    by (cases u) (auto simp: rb_red_def)
qed

lemma turn_red:
  assumes at: "rep_at head (Fr d1 p c1 ip np s # Fr d g cg ig ng u # cs) t" and x: "ptr t = Some x" and "color u = DMR_RB_RED"
  shows "\<exists>head'. rb_insert_turn x p head = Some (g, head') \<and> rb_brk head' = rb_brk head \<and>
    rep_at head' cs (mk d (mk d1 t p DMR_RB_BLACK ip np s) g DMR_RB_RED ig ng (paint DMR_RB_BLACK u))"
proof -
  obtain ua where ua: "ptr u = Some ua" using assms(3) by (cases u) auto
  have "rep_at head (Fr (\<not> d) g cg ig ng (mk d1 t p c1 ip np s) # cs) u"
    using at by (simp add: rep_at_up mk_flip)
  from color_rep [OF this ua, of DMR_RB_BLACK] obtain h1 where h1: "rb_set ua (rb_put_color DMR_RB_BLACK) head = Some h1"
    "rep_at h1 cs (mk d (mk d1 t p c1 ip np s) g cg ig ng (paint DMR_RB_BLACK u))" "rb_brk h1 = rb_brk head"
    by (auto simp: to_store_def rep_at_up mk_flip)
  from black_red_rep [OF h1(2)] around [OF at x] ua assms(3) h1 show ?thesis
    by (auto simp: rb_insert_turn_def to_store_def Let_def)
qed

lemma turn_outer:
  assumes at: "rep_at head (Fr d p c1 ip np s # Fr d g cg ig ng u # cs) t" and x: "ptr t = Some x" and "color u \<noteq> DMR_RB_RED"
  shows "\<exists>head'. rb_insert_turn x p head = Some (x, head') \<and> rb_brk head' = rb_brk head \<and>
    rep_at head' (Fr d p DMR_RB_BLACK ip np (mk d s g DMR_RB_RED ig ng u) # cs) t"
proof -
  have "rep_at head cs (mk d (mk d t p c1 ip np s) g cg ig ng u)" using at by (simp add: rep_at_up)
  from black_red_rep [OF this] obtain h1 where h1: "DMR_RB_SET_BLACKRED p g head = Some h1" "rb_brk h1 = rb_brk head"
    "rep_at h1 cs (mk (\<not> d) u g DMR_RB_RED ig ng (mk (\<not> d) s p DMR_RB_BLACK ip np t))"
    by (auto simp: to_store_def mk_flip)
  from rotate_rep [OF h1(3)] around [OF at x] assms(3) h1 show ?thesis
    by (auto simp: rb_insert_turn_def to_store_def Let_def rep_at_up mk_flip)
qed

lemma turn_inner:
  assumes at: "rep_at head (Fr (\<not> d) p c1 ip np s # Fr d g cg ig ng u # cs) (mk d ta x c i n tb)" and "color u \<noteq> DMR_RB_RED"
  shows "\<exists>head'. rb_insert_turn x p head = Some (p, head') \<and> rb_brk head' = rb_brk head \<and>
    rep_at head' (Fr d x DMR_RB_BLACK i n (mk d tb g DMR_RB_RED ig ng u) # cs) (mk d s p c1 ip np ta)"
proof -
  have "rep_at head (Fr d g cg ig ng u # cs) (mk d s p c1 ip np (mk d ta x c i n tb))"
    using at by (simp add: rep_at_up mk_flip)
  from rotate_rep [OF this] obtain h1 where h1: "rb_rotate d p head = Some h1" "rb_brk h1 = rb_brk head"
    "rep_at h1 cs (mk d (mk d (mk d s p c1 ip np ta) x c i n tb) g cg ig ng u)"
    by (auto simp: to_store_def rep_at_up)
  from black_red_rep [OF h1(3)] obtain h2 where h2: "DMR_RB_SET_BLACKRED x g h1 = Some h2" "rb_brk h2 = rb_brk head"
    "rep_at h2 cs (mk (\<not> d) u g DMR_RB_RED ig ng (mk (\<not> d) tb x DMR_RB_BLACK i n (mk d s p c1 ip np ta)))"
    using h1 by (auto simp: to_store_def mk_flip)
  from rotate_rep [OF h2(3)] around [OF at] assms(2) h1 h2 show ?thesis
    by (auto simp: rb_insert_turn_def to_store_def Let_def rep_at_up mk_flip)
qed

text \<open>Nothing is lost; the order, from left to right, stays.\<close>

fun entries :: "id_tree \<Rightarrow> (nat \<times> dmr_id \<times> string) list" where
  "entries Tip = []"
| "entries (Br l a c i n r) = entries l @ (a, i, n) # entries r"

fun before :: "id_frame list \<Rightarrow> (nat \<times> dmr_id \<times> string) list" where
  "before [] = []"
| "before (Fr d a c i n s # cs) = before cs @ (if d then [] else entries s @ [(a, i, n)])"

fun after :: "id_frame list \<Rightarrow> (nat \<times> dmr_id \<times> string) list" where
  "after [] = []"
| "after (Fr d a c i n s # cs) = (if d then (a, i, n) # entries s else []) @ after cs"

lemma entries_plug: "entries (plug cs t) = before cs @ entries t @ after cs"
  by (induction cs t rule: plug.induct) (auto simp: mk_def)

lemma entries_paint [simp]: "entries (paint c t) = entries t"
  by (cases t) auto

lemma entries_mk: "entries (mk d s a c i n t) = (if d then entries s @ (a, i, n) # entries t else entries t @ (a, i, n) # entries s)"
  by (simp add: mk_def)

lemma addrs_entries: "addrs t = map fst (entries t)"
  by (induction t) auto

lemma entries_fix_up: "t \<noteq> Tip \<Longrightarrow> entries (fix_up cs t) = before cs @ entries t @ after cs"
proof (induction cs t rule: fix_up.induct)
  case (1 d1 p ip np s d g cg ig ng u cs t)
  show ?case
  proof (cases "color u = DMR_RB_RED")
    case True
    then show ?thesis using "1.IH" by (auto simp: entries_mk mk_def)
  next
    case False
    then show ?thesis using "1.prems" by (cases t) (auto simp: entries_plug entries_mk)
  qed
qed (auto simp: entries_plug entries_mk)

text \<open>No red node at the root above a place.\<close>

fun grand :: "id_frame list \<Rightarrow> bool" where
  "grand [] \<longleftrightarrow> True"
| "grand (Fr d a c i n s # cs) \<longleftrightarrow> (c = DMR_RB_RED \<longrightarrow> cs \<noteq> []) \<and> grand cs"

lemma node_at:
  assumes "rep_at head cs t" "ptr t = Some x"
  shows "\<exists>n. rb_nodes head x = Some n \<and> rbe_parent n = up cs"
  using assms by (cases t) (auto simp: rep_at_def)

lemma loop_stop:
  assumes "rep_at head cs t" "ptr t = Some x" "cs = [] \<or> (\<exists>d p i n s cs'. cs = Fr d p DMR_RB_BLACK i n s # cs')"
  shows "to_store head (rb_insert_loop x head) [] (plug cs t)"
proof -
  obtain n where n: "rb_nodes head x = Some n" "rbe_parent n = up cs" using node_at [OF assms(1,2)] by blast
  have "rb_insert_loop x head = Some head"
    using assms(1,3) n by (subst rb_insert_loop.simps) (auto simp: rep_at_def)
  then show ?thesis using assms(1) rep_at_plug by (simp add: to_store_def)
qed

lemma loop_turn:
  assumes "rep_at head (Fr d1 p DMR_RB_RED ip np s # cs) t" "ptr t = Some x" "rb_insert_turn x p head = Some (y, head')"
  shows "rb_insert_loop x head = rb_insert_loop y head'"
proof -
  obtain n where n: "rb_nodes head x = Some n" "rbe_parent n = Some p" using node_at [OF assms(1,2)] by auto
  show ?thesis using assms(1,3) n by (subst rb_insert_loop.simps) (auto simp: rep_at_def)
qed

lemma mk_halves: "Br l x c i n r = mk d (fst (halves d (Br l x c i n r))) x c i n (snd (halves d (Br l x c i n r)))"
  by (simp add: mk_def)

lemma loop_rep:
  "rep_at head cs t \<Longrightarrow> ptr t = Some x \<Longrightarrow> grand cs \<Longrightarrow> to_store head (rb_insert_loop x head) [] (fix_up cs t)"
proof (induction cs t arbitrary: head x rule: fix_up.induct [case_names turn none black one])
  case (turn d1 p ip np s d g cg ig ng u cs t)
  note at = turn.prems(1) and x = turn.prems(2)
  show ?case
  proof (cases "color u = DMR_RB_RED")
    case True
    from turn_red [OF at x True] obtain h1 where h1: "rb_insert_turn x p head = Some (g, h1)" "rb_brk h1 = rb_brk head"
      "rep_at h1 cs (mk d (mk d1 t p DMR_RB_BLACK ip np s) g DMR_RB_RED ig ng (paint DMR_RB_BLACK u))" by blast
    from turn.IH [OF True h1(3)] turn.prems(3) loop_turn [OF at x h1(1)] h1(2) True show ?thesis
      by (auto simp: to_store_def)
  next
    case False
    show ?thesis
    proof (cases "d1 = d")
      case True
      from at have "rep_at head (Fr d p DMR_RB_RED ip np s # Fr d g cg ig ng u # cs) t" using True by simp
      from turn_outer [OF this x False] obtain h1 where h1: "rb_insert_turn x p head = Some (x, h1)" "rb_brk h1 = rb_brk head"
        "rep_at h1 (Fr d p DMR_RB_BLACK ip np (mk d s g DMR_RB_RED ig ng u) # cs) t" by blast
      from loop_stop [OF h1(3) x] loop_turn [OF at x h1(1)] h1(2) False True show ?thesis
        by (auto simp: to_store_def)
    next
      case d1: False
      obtain l c i n r where t: "t = Br l x c i n r" using x by (cases t) auto
      let ?ta = "fst (halves d t)" and ?tb = "snd (halves d t)"
      have t': "mk d ?ta x c i n ?tb = t" using mk_halves [of l x c i n r d, folded t] ..
      have "rep_at head (Fr (\<not> d) p DMR_RB_RED ip np s # Fr d g cg ig ng u # cs) (mk d ?ta x c i n ?tb)"
        unfolding t' using at d1 by (cases d; cases d1) simp_all
      from turn_inner [OF this False] obtain h1 where h1: "rb_insert_turn x p head = Some (p, h1)" "rb_brk h1 = rb_brk head"
        "rep_at h1 (Fr d x DMR_RB_BLACK i n (mk d ?tb g DMR_RB_RED ig ng u) # cs) (mk d s p DMR_RB_RED ip np ?ta)" by blast
      from loop_stop [OF h1(3), of p] loop_turn [OF at x h1(1)] h1(2) False d1 t show ?thesis
        by (auto simp: to_store_def)
    qed
  qed
next
  case (none t)
  then show ?case using loop_stop [of head "[]" t x] by simp
next
  case (black d p i n s cs t)
  then show ?case using loop_stop [of head "Fr d p DMR_RB_BLACK i n s # cs" t x] by simp
next
  case (one f t)
  obtain d a c i n s where f: "f = Fr d a c i n s" by (cases f)
  with one.prems have "c = DMR_RB_BLACK" by (cases c) auto
  then show ?case using loop_stop [of head "[f]" t x] one.prems f by simp
qed

lemma insert_color_rep:
  assumes "rep_at head cs t" "ptr t = Some x" "grand cs"
  shows "to_store head (DMR_RB_INSERT_COLOR x head) [] (paint DMR_RB_BLACK (fix_up cs t))"
proof -
  obtain h1 where h1: "rb_insert_loop x head = Some h1" "rep_at h1 [] (fix_up cs t)" "rb_brk h1 = rb_brk head"
    using loop_rep [OF assms] by (rule to_storeE)
  have "t \<noteq> Tip" "entries t \<noteq> []" using assms(2) by (cases t; simp)+
  then have "fix_up cs t \<noteq> Tip" using entries_fix_up [of t cs] by auto
  then obtain r where "ptr (fix_up cs t) = Some r" by (cases "fix_up cs t") auto
  with color_rep [OF h1(2), of r DMR_RB_BLACK] h1 show ?thesis
    by (auto simp: DMR_RB_INSERT_COLOR_def to_store_def rep_at_def)
qed

section \<open>Balance\<close>

fun invc :: "id_tree \<Rightarrow> bool" where
  "invc Tip \<longleftrightarrow> True"
| "invc (Br l a c i n r) \<longleftrightarrow>
     (c = DMR_RB_RED \<longrightarrow> color l = DMR_RB_BLACK \<and> color r = DMR_RB_BLACK) \<and> invc l \<and> invc r"

fun bheight :: "id_tree \<Rightarrow> nat" where
  "bheight Tip = 0"
| "bheight (Br l a c i n r) = bheight l + (if c = DMR_RB_BLACK then 1 else 0)"

fun invh :: "id_tree \<Rightarrow> bool" where
  "invh Tip \<longleftrightarrow> True"
| "invh (Br l a c i n r) \<longleftrightarrow> bheight l = bheight r \<and> invh l \<and> invh r"

fun up_color :: "id_frame list \<Rightarrow> rb_color" where
  "up_color [] = DMR_RB_BLACK"
| "up_color (Fr d a c i n s # cs) = c"

fun upc :: "id_frame list \<Rightarrow> bool" where
  "upc [] \<longleftrightarrow> True"
| "upc (Fr d a c i n s # cs) \<longleftrightarrow>
     (c = DMR_RB_RED \<longrightarrow> color s = DMR_RB_BLACK \<and> up_color cs = DMR_RB_BLACK) \<and> invc s \<and> upc cs"

fun uph :: "nat \<Rightarrow> id_frame list \<Rightarrow> bool" where
  "uph k [] \<longleftrightarrow> True"
| "uph k (Fr d a c i n s # cs) \<longleftrightarrow> invh s \<and> bheight s = k \<and> uph (k + (if c = DMR_RB_BLACK then 1 else 0)) cs"

definition rbt :: "id_tree \<Rightarrow> bool" where
  "rbt t \<longleftrightarrow> invc t \<and> invh t \<and> color t = DMR_RB_BLACK"

lemma not_red [simp]: "c \<noteq> DMR_RB_RED \<longleftrightarrow> c = DMR_RB_BLACK"
  by (cases c) auto

lemma mk_inv [simp]:
  "invc (mk d s a c i n t) \<longleftrightarrow> (c = DMR_RB_RED \<longrightarrow> color s = DMR_RB_BLACK \<and> color t = DMR_RB_BLACK) \<and> invc s \<and> invc t"
  "invh (mk d s a c i n t) \<longleftrightarrow> bheight s = bheight t \<and> invh s \<and> invh t"
  "bheight s = bheight t \<Longrightarrow> bheight (mk d s a c i n t) = bheight s + (if c = DMR_RB_BLACK then 1 else 0)"
  by (auto simp: mk_def)

lemma invc_plug: "invc (plug cs t) \<longleftrightarrow> invc t \<and> upc cs \<and> (color t = DMR_RB_RED \<longrightarrow> up_color cs = DMR_RB_BLACK)"
  by (induction cs t rule: plug.induct) auto

lemma invh_plug: "invh (plug cs t) \<longleftrightarrow> invh t \<and> uph (bheight t) cs"
  by (induction cs t rule: plug.induct) auto

lemma grand_plug: "color (plug cs t) = DMR_RB_BLACK \<Longrightarrow> grand cs \<and> (cs = [] \<longrightarrow> color t = DMR_RB_BLACK)"
  by (induction cs t rule: plug.induct) auto

lemma paint_inv:
  assumes "color u = DMR_RB_RED" "invc u" "invh u"
  shows "invc (paint DMR_RB_BLACK u) \<and> invh (paint DMR_RB_BLACK u) \<and> bheight (paint DMR_RB_BLACK u) = Suc (bheight u) \<and>
    color (paint DMR_RB_BLACK u) = DMR_RB_BLACK"
  using assms by (cases u) auto

lemma rbt_paint: "invc t \<Longrightarrow> invh t \<Longrightarrow> rbt (paint DMR_RB_BLACK t)"
  by (cases t) (auto simp: rbt_def)

lemma halves_inv:
  assumes "invc t" "invh t" "color t = DMR_RB_RED"
  shows "invc (fst (halves d t)) \<and> invc (snd (halves d t)) \<and> invh (fst (halves d t)) \<and> invh (snd (halves d t)) \<and>
    bheight (fst (halves d t)) = bheight t \<and> bheight (snd (halves d t)) = bheight t \<and>
    color (fst (halves d t)) = DMR_RB_BLACK \<and> color (snd (halves d t)) = DMR_RB_BLACK"
  using assms by (cases t) auto

lemma grand_one: "grand [f] \<longleftrightarrow> up_color [f] = DMR_RB_BLACK"
  by (cases f) auto

lemma fix_up_inv:
  assumes "invc t" "invh t" "color t = DMR_RB_RED" "upc cs" "uph (bheight t) cs" "grand cs"
  shows "invc (fix_up cs t) \<and> invh (fix_up cs t)"
  using assms
proof (induction cs t rule: fix_up.induct)
  case (1 d1 p ip np s d g cg ig ng u cs t)
  show ?case
  proof (cases "color u = DMR_RB_RED")
    case True
    then show ?thesis using "1.IH" "1.prems" paint_inv [OF True] by (cases cg) auto
  next
    case False
    then obtain l x c i n r where t: "t = Br l x c i n r" using "1.prems"(3) by (cases t) auto
    show ?thesis
      using False "1.prems" halves_inv [OF "1.prems"(1-3), of d] t
      by (auto simp: invc_plug invh_plug simp del: halves.simps)
  qed
qed (auto simp: invc_plug invh_plug grand_one)

section \<open>Keys\<close>

text \<open>\<open>idcmp\<close> puts the greater identifiers to the left.\<close>

definition key :: "nat \<times> dmr_id \<times> string \<Rightarrow> dmr_id" where
  "key e = fst (snd e)"

definition descending :: "(nat \<times> dmr_id \<times> string) list \<Rightarrow> bool" where
  "descending es \<longleftrightarrow> sorted_wrt (>) (map key es)"

definition rb_map :: "dmr_idmap \<Rightarrow> id_tree \<Rightarrow> bool" where
  "rb_map head t \<longleftrightarrow> rep_at head [] t \<and> rbt t \<and> descending (entries t) \<and> (\<forall>a \<in> set (addrs t). a < rb_brk head)"

lemma key_simps [simp]: "key (a, i, n) = i"
  by (simp add: key_def)

lemma descending_append [simp]:
  "descending (xs @ ys) \<longleftrightarrow> descending xs \<and> descending ys \<and> (\<forall>x \<in> set xs. \<forall>y \<in> set ys. key x > key y)"
  by (auto simp: descending_def sorted_wrt_append)

lemma descending_Cons [simp]: "descending (x # xs) \<longleftrightarrow> descending xs \<and> (\<forall>y \<in> set xs. key x > key y)"
  by (auto simp: descending_def)

lemma descending_Nil [simp]: "descending []"
  by (simp add: descending_def)

lemma idcmp_simps [simp]: "idcmp i j < 0 \<longleftrightarrow> i > j" "0 < idcmp i j \<longleftrightarrow> i < j"
  by (auto simp: idcmp_def)

text \<open>The entry of an identifier, and the place where a new one belongs.\<close>

fun look :: "id_tree \<Rightarrow> dmr_id \<Rightarrow> (nat \<times> string) option" where
  "look Tip i = None"
| "look (Br l a c j n r) i = (if i > j then look l i else if i < j then look r i else Some (a, n))"

fun down :: "dmr_id \<Rightarrow> id_tree \<Rightarrow> id_frame list \<Rightarrow> id_frame list" where
  "down i Tip cs = cs"
| "down i (Br l a c j n r) cs =
     (if i > j then down i l (Fr True a c j n r # cs) else down i r (Fr False a c j n l # cs))"

lemma look_entries: "descending (entries t) \<Longrightarrow> look t i = map_of (map (\<lambda>(a, j, n). (j, a, n)) (entries t)) i"
proof (induction t)
  case (Br l a c j n r)
  have "map_of (map (\<lambda>(a, j, n). (j, a, n)) (entries l)) i = None" if "i \<le> j"
    using that Br.prems by (fastforce simp: map_of_eq_None_iff)
  moreover have "map_of (map (\<lambda>(a, j, n). (j, a, n)) (entries r)) i = None" if "i \<ge> j"
    using that Br.prems by (fastforce simp: map_of_eq_None_iff)
  ultimately show ?case using Br by (auto simp: map_add_def split: option.splits)
qed simp

lemma find_rep:
  "rep (rb_nodes head) p t \<Longrightarrow> rb_find_from head i (ptr t) = Some (map_option fst (look t i))"
proof (induction t arbitrary: p)
  case Tip
  then show ?case by (simp add: rb_find_from.simps)
next
  case (Br l a c j n r)
  then show ?case by (subst rb_find_from.simps) (auto simp: Let_def node_left)
qed

lemma look_node: "rep m p t \<Longrightarrow> look t i = Some (a, n) \<Longrightarrow>
   \<exists>node. m a = Some node \<and> idn_id node = i \<and> idn_name node = n"
  by (induction t arbitrary: p) (auto split: if_splits)

lemma descend_rep:
  assumes "rep (rb_nodes head) (up cs) t" "cs = [] \<or> (\<exists>d a c j n s cs'. cs = Fr d a c j n s # cs' \<and> (cmp < 0) = d)"
  shows "\<exists>cmp'. rb_descend head i (ptr t) (up cs) cmp =
     Some (case look t i of None \<Rightarrow> Inr (up (down i t cs), cmp') | Some (a, n) \<Rightarrow> Inl a) \<and>
     (look t i = None \<longrightarrow> down i t cs = [] \<or> (\<exists>d a c j n s cs'. down i t cs = Fr d a c j n s # cs' \<and> (cmp' < 0) = d))"
  using assms
proof (induction t arbitrary: cs cmp)
  case Tip
  then show ?case by (intro exI [of _ cmp]) (simp add: rb_descend.simps)
next
  case (Br l a c j n r)
  consider "i > j" | "i < j" | "i = j" by (meson less_linear)
  then show ?case
  proof cases
    case 1
    then have "rb_descend head i (ptr (Br l a c j n r)) (up cs) cmp = rb_descend head i (ptr l) (Some a) (idcmp i j)"
      using Br.prems(1) by (subst rb_descend.simps) (auto simp: Let_def node_left)
    moreover have "down i (Br l a c j n r) cs = down i l (Fr True a c j n r # cs)" "look (Br l a c j n r) i = look l i"
      using 1 by auto
    moreover have "rep (rb_nodes head) (up (Fr True a c j n r # cs)) l" "(idcmp i j < 0) = True" using 1 Br.prems(1) by auto
    ultimately show ?thesis using Br.IH(1) [of "Fr True a c j n r # cs" "idcmp i j"] by (simp only: up.simps) blast
  next
    case 2
    then have "rb_descend head i (ptr (Br l a c j n r)) (up cs) cmp = rb_descend head i (ptr r) (Some a) (idcmp i j)"
      using Br.prems(1) by (subst rb_descend.simps) (auto simp: Let_def node_left)
    moreover have "down i (Br l a c j n r) cs = down i r (Fr False a c j n l # cs)" "look (Br l a c j n r) i = look r i"
      using 2 by auto
    moreover have "rep (rb_nodes head) (up (Fr False a c j n l # cs)) r" "(idcmp i j < 0) = False" using 2 Br.prems(1) by auto
    ultimately show ?thesis using Br.IH(2) [of "Fr False a c j n l # cs" "idcmp i j"] by (simp only: up.simps) blast
  next
    case 3
    then show ?thesis using Br.prems(1) by (subst rb_descend.simps) (auto simp: Let_def node_left)
  qed
qed

lemma plug_down: "look t i = None \<Longrightarrow> plug (down i t cs) Tip = plug cs t"
proof (induction t arbitrary: cs)
  case (Br l a c j n r)
  then show ?case by (auto simp: mk_def split: if_splits)
qed simp

lemma down_order:
  assumes "descending (entries t)" "look t i = None" "\<forall>e \<in> set (before cs). key e > i" "\<forall>e \<in> set (after cs). key e < i"
  shows "(\<forall>e \<in> set (before (down i t cs)). key e > i) \<and> (\<forall>e \<in> set (after (down i t cs)). key e < i)"
  using assms
proof (induction t arbitrary: cs)
  case (Br l a c j n r)
  show ?case
  proof (cases "i > j")
    case True
    moreover have "\<forall>e \<in> set (entries r). key e < i" using True Br.prems(1) by (fastforce intro: less_trans)
    ultimately show ?thesis using Br.IH(1) [of "Fr True a c j n r # cs"] Br.prems by (simp add: ball_Un split: if_splits)
  next
    case False
    then have "i < j" using Br.prems(2) by (auto split: if_splits)
    moreover have "\<forall>e \<in> set (entries l). i < key e" using \<open>i < j\<close> Br.prems(1) by (fastforce intro: less_trans)
    ultimately show ?thesis using Br.IH(2) [of "Fr False a c j n l # cs"] Br.prems by (simp add: ball_Un split: if_splits)
  qed
qed simp

lemma before_after_plug: "before cs @ after cs = entries (plug cs Tip)"
  by (simp add: entries_plug)

lemma link_rep:
  assumes "rep_at head cs Tip" "a \<notin> set (up_addrs cs)" "rb_nodes head a = Some e" "idn_id e = i" "idn_name e = n"
    and "cs = [] \<or> (\<exists>d b c j m s cs'. cs = Fr d b c j m s # cs' \<and> (cmp < 0) = d)"
  shows "\<exists>head'. (do {
      head \<leftarrow> rb_set a (\<lambda>n. n\<lparr>rbe_parent := up cs, rbe_left := None, rbe_right := None, rbe_color := DMR_RB_RED\<rparr>) head;
      (case up cs of
         None \<Rightarrow> Some (head\<lparr>rbh_root := Some a\<rparr>)
       | Some p \<Rightarrow> rb_set p (rb_put_child (cmp < 0) (Some a)) head) }) = Some head' \<and>
    rep_at head' cs (Br Tip a DMR_RB_RED i n Tip) \<and> rb_brk head' = rb_brk head"
proof -
  have e: "e\<lparr>rbe_parent := up cs, rbe_left := None, rbe_right := None, rbe_color := DMR_RB_RED\<rparr> =
      mk_node True None None (up cs) DMR_RB_RED i n"
    using assms(4,5) by (cases e) (simp add: mk_node_def)
  let ?h = "head\<lparr>rb_nodes := (rb_nodes head)(a \<mapsto> mk_node True None None (up cs) DMR_RB_RED i n)\<rparr>"
  show ?thesis
  proof (cases cs rule: up.cases)
    case 1
    with assms e show ?thesis by (auto simp: rep_at_def)
  next
    case (2 d b c j m s cs')
    with assms(6) have cmp: "(cmp < 0) = d" by auto
    have "rb_nodes ?h b = Some (mk_node d None (ptr s) (up cs') c j m)" using assms(1,2) 2 by (auto simp: rep_at_def)
    with assms(1-3) e 2 cmp show ?thesis by (auto simp: rep_at_def)
  qed
qed

lemma insert_rep:
  assumes at: "rep_at head [] t" and "rbt t" and "descending (entries t)" and fresh: "a \<notin> set (addrs t)"
    and e: "rb_nodes head a = Some e" "idn_id e = i" "idn_name e = n" and new: "look t i = None"
  shows "\<exists>head' t' xs ys. DMR_RB_INSERT a head = Some (None, head') \<and> rep_at head' [] t' \<and> rb_brk head' = rb_brk head \<and>
    rbt t' \<and> descending (entries t') \<and> entries t = xs @ ys \<and> entries t' = xs @ (a, i, n) # ys"
proof -
  let ?cs = "down i t []" and ?x = "Br Tip a DMR_RB_RED i n Tip"
  have plug: "plug ?cs Tip = t" using plug_down [OF new, of "[]"] by simp
  obtain cmp where d: "rb_descend head i (ptr t) None 0 = Some (Inr (up ?cs, cmp))"
    and cmp: "?cs = [] \<or> (\<exists>d a c j n s cs'. ?cs = Fr d a c j n s # cs' \<and> (cmp < 0) = d)"
    using descend_rep [of head "[]" t 0 i] at new by (auto simp: rep_at_def)
  have cs: "rep_at head ?cs Tip" using at rep_at_plug [of head ?cs Tip] plug by simp
  have "a \<notin> set (up_addrs ?cs)" using fresh addrs_plug [of ?cs Tip] plug by (auto dest: arg_cong [where f = set_mset])
  from link_rep [OF cs this e cmp] obtain h1 where h1: "(do {
      head \<leftarrow> rb_set a (\<lambda>n. n\<lparr>rbe_parent := up ?cs, rbe_left := None, rbe_right := None, rbe_color := DMR_RB_RED\<rparr>) head;
      (case up ?cs of
         None \<Rightarrow> Some (head\<lparr>rbh_root := Some a\<rparr>)
       | Some p \<Rightarrow> rb_set p (rb_put_child (cmp < 0) (Some a)) head) }) = Some h1"
    "rep_at h1 ?cs ?x" "rb_brk h1 = rb_brk head" by blast
  have inv: "invc t" "invh t" "color t = DMR_RB_BLACK" using assms(2) by (simp_all add: rbt_def)
  then have up: "upc ?cs" "uph 0 ?cs" "grand ?cs"
    using invc_plug [of ?cs Tip] invh_plug [of ?cs Tip] grand_plug [of ?cs Tip] plug by auto
  let ?t' = "paint DMR_RB_BLACK (fix_up ?cs ?x)"
  obtain h2 where h2: "DMR_RB_INSERT_COLOR a h1 = Some h2" "rep_at h2 [] ?t'" "rb_brk h2 = rb_brk h1"
    using insert_color_rep [OF h1(2) _ up(3)] by (auto simp: to_store_def)
  have "rbt ?t'" using fix_up_inv [of ?x ?cs] up by (intro rbt_paint) auto
  moreover have ents: "entries ?t' = before ?cs @ (a, i, n) # after ?cs" by (simp add: entries_fix_up)
  moreover have old: "entries t = before ?cs @ after ?cs" using before_after_plug [of ?cs] plug by simp
  moreover have "descending (entries ?t')"
    using down_order [OF assms(3) new, of "[]"] assms(3) unfolding ents old by auto
  moreover have "DMR_RB_INSERT a head = Some (None, h2)"
    using at d e(1,2) h1(1) h2(1) by (auto simp: DMR_RB_INSERT_def rep_at_def bind_eq_Some_conv)
  ultimately show ?thesis using h1(3) h2 by metis
qed

section \<open>Walking in order\<close>

fun first_addr :: "(nat \<times> dmr_id \<times> string) list \<Rightarrow> nat option" where
  "first_addr [] = None"
| "first_addr (e # es) = Some (fst e)"

lemma first_addr_append: "first_addr (xs @ ys) = (if xs = [] then first_addr ys else first_addr xs)"
  by (cases xs) auto

lemma outermost_rep:
  "rep (rb_nodes head) par t \<Longrightarrow> rb_outermost True head (ptr t) p = Some (if t = Tip then p else first_addr (entries t))"
proof (induction t arbitrary: par p)
  case Tip
  then show ?case by (simp add: rb_outermost.simps)
next
  case (Br l a c i n r)
  have "entries l = [] \<longleftrightarrow> l = Tip" by (cases l) auto
  then show ?case using Br by (subst rb_outermost.simps) (auto simp: first_addr_append)
qed

lemma right_of_parent:
  assumes "rep_at head (Fr d p c i n s # cs) t" "ptr t = Some x"
  shows "\<exists>node. rb_nodes head p = Some node \<and> (rbe_left node = Some x \<longleftrightarrow> d) \<and> (rbe_right node = Some x \<longleftrightarrow> \<not> d)"
proof -
  have "ptr s \<noteq> Some x" using assms ptr_in [of s x] ptr_in [of t x] by (auto simp: rep_at_def)
  then show ?thesis using assms by (auto simp: rep_at_def node_left)
qed

lemma climb_rep: "rep_at head cs t \<Longrightarrow> ptr t = Some x \<Longrightarrow> rb_climb head x = Some (first_addr (after cs))"
proof (induction cs arbitrary: t x)
  case Nil
  obtain n where "rb_nodes head x = Some n" "rbe_parent n = None" using node_at [OF Nil] by auto
  then show ?case by (subst rb_climb.simps) simp
next
  case (Cons f cs)
  obtain d p c i m s where f: "f = Fr d p c i m s" by (cases f)
  obtain n where n: "rb_nodes head x = Some n" "rbe_parent n = Some p" using node_at [OF Cons.prems] f by auto
  obtain node where p: "rb_nodes head p = Some node" "rbe_right node = Some x \<longleftrightarrow> \<not> d"
    using right_of_parent Cons.prems f by blast
  have "rep_at head cs (mk d t p c i m s)" using Cons.prems(1) f by (simp add: rep_at_up)
  from Cons.IH [OF this, of p] n p f show ?case by (subst rb_climb.simps) auto
qed

lemma next_rep:
  assumes "rep_at head cs (Br l a c i n r)"
  shows "DMR_RB_NEXT head a = Some (first_addr (entries r @ after cs))"
proof -
  have a: "rb_nodes head a = Some (mk_node True (ptr l) (ptr r) (up cs) c i n)" and r: "rep (rb_nodes head) (Some a) r"
    using assms by (auto simp: rep_at_def)
  show ?thesis
  proof (cases r)
    case Tip
    show ?thesis
    proof (cases cs rule: up.cases)
      case 1
      then show ?thesis using a Tip by (simp add: DMR_RB_NEXT_def node_left)
    next
      case (2 d p cp ip np s cs')
      obtain node where "rb_nodes head p = Some node" "rbe_left node = Some a \<longleftrightarrow> d"
        using right_of_parent assms 2 by fastforce
      then show ?thesis using a Tip 2 climb_rep [OF assms] by (auto simp: DMR_RB_NEXT_def node_left)
    qed
  next
    case (Br rl b cb ib nb rr)
    then show ?thesis using a outermost_rep [OF r, of None]
      by (auto simp: DMR_RB_NEXT_def node_left first_addr_append)
  qed
qed

lemma split_at:
  assumes "us @ b # vs = xs @ e # ys"
  shows "(\<exists>k. us = xs @ e # k \<and> ys = k @ b # vs) \<or> (us = xs \<and> b = e \<and> vs = ys) \<or> (\<exists>k. xs = us @ b # k \<and> vs = k @ e # ys)"
  using assms by (auto simp: append_eq_append_conv2 append_eq_Cons_conv Cons_eq_append_conv)

lemma place_of:
  "entries t = xs @ (a, i, n) # ys \<Longrightarrow>
   \<exists>cs' l c r. plug cs t = plug (cs' @ cs) (Br l a c i n r) \<and> entries r @ after cs' = ys"
proof (induction t arbitrary: xs ys cs)
  case (Br l b c j m r)
  from split_at [OF Br.prems [simplified entries.simps]] consider
    (left) k where "entries l = xs @ (a, i, n) # k" "ys = k @ (b, j, m) # entries r"
    | (here) "(b, j, m) = (a, i, n)" "entries r = ys"
    | (right) k where "entries r = k @ (a, i, n) # ys" by blast
  then show ?case
  proof cases
    case left
    from Br.IH(1) [OF left(1), of "Fr True b c j m r # cs"] obtain cs' l' c' r' where
      "plug (Fr True b c j m r # cs) l = plug (cs' @ Fr True b c j m r # cs) (Br l' a c' i n r')" "entries r' @ after cs' = k" by blast
    moreover have "after (cs' @ [Fr True b c j m r]) = after cs' @ (b, j, m) # entries r"
      by (induction cs' rule: after.induct) auto
    ultimately show ?thesis using left(2)
      by (intro exI [of _ "cs' @ [Fr True b c j m r]"] exI) (auto simp: mk_def)
  next
    case here
    then show ?thesis by (intro exI [of _ "[]"] exI) auto
  next
    case right
    from Br.IH(2) [OF right, of "Fr False b c j m l # cs"] obtain cs' l' c' r' where
      "plug (Fr False b c j m l # cs) r = plug (cs' @ Fr False b c j m l # cs) (Br l' a c' i n r')" "entries r' @ after cs' = ys" by blast
    moreover have "after (cs' @ [Fr False b c j m l]) = after cs'"
      by (induction cs' rule: after.induct) auto
    ultimately show ?thesis
      by (intro exI [of _ "cs' @ [Fr False b c j m l]"] exI) (auto simp: mk_def)
  qed
qed simp

lemma next_entry:
  assumes "rep_at head [] t" "entries t = xs @ e # ys"
  shows "DMR_RB_NEXT head (fst e) = Some (first_addr ys)"
proof -
  obtain a i n where e: "e = (a, i, n)" by (cases e)
  obtain cs l c r where "plug [] t = plug cs (Br l a c i n r)" "entries r @ after cs = ys"
    using place_of [of t xs a i n ys "[]"] assms(2) e by auto
  then show ?thesis using assms(1) next_rep [of head cs l a c i n r] rep_at_plug [of head cs] e by simp
qed

lemma min_rep: "rep_at head [] t \<Longrightarrow> DMR_RB_MINMAX head (-1) = Some (first_addr (entries t))"
  using outermost_rep [of head None t None] by (cases t) (auto simp: DMR_RB_MINMAX_def rep_at_def)

section \<open>Height\<close>

fun height :: "id_tree \<Rightarrow> nat" where
  "height Tip = 0"
| "height (Br l a c i n r) = Suc (max (height l) (height r))"

lemma height_bheight: "invc t \<Longrightarrow> invh t \<Longrightarrow> height t \<le> 2 * bheight t + (if color t = DMR_RB_RED then 1 else 0)"
  by (induction t) (auto split: if_splits)

lemma bheight_size: "invh t \<Longrightarrow> 2 ^ bheight t \<le> length (entries t) + 1"
proof (induction t)
  case (Br l a c i n r)
  then show ?case by (cases "c = DMR_RB_BLACK") auto
qed simp

lemma descending_distinct: "descending es \<Longrightarrow> distinct (map key es)"
  by (induction es) auto

lemma descending_length: "descending es \<Longrightarrow> length es \<le> 2 ^ 32"
proof -
  assume "descending es"
  then have "distinct (map key es)" by (rule descending_distinct)
  then have "length es = card (set (map key es))" by (metis distinct_card length_map)
  also have "\<dots> \<le> card (UNIV :: dmr_id set)" by (rule card_mono) auto
  finally show ?thesis by (simp add: card_word)
qed

lemma height_bound:
  assumes "rbt t" "descending (entries t)"
  shows "height t \<le> 64"
proof -
  have "2 ^ bheight t \<le> (2 ^ 32 + 1 :: nat)"
    using bheight_size [of t] descending_length [OF assms(2)] assms(1) by (simp add: rbt_def)
  then have "2 ^ bheight t < (2 ^ 33 :: nat)" by simp
  then have "bheight t < 33" by (simp only: power_strict_increasing_iff one_less_numeral_iff semiring_norm)
  then show ?thesis using height_bheight [of t] assms(1) by (auto simp: rbt_def)
qed

text \<open>The node at the end of a way down.\<close>

fun rb_path :: "dmr_idmap \<Rightarrow> bool list \<Rightarrow> nat option \<Rightarrow> nat option" where
  "rb_path head [] p = p"
| "rb_path head (d # ds) p =
     (case p of
        None \<Rightarrow> None
      | Some a \<Rightarrow> (case rb_nodes head a of None \<Rightarrow> None | Some n \<Rightarrow> rb_path head ds (rb_child d n)))"

lemma rb_path_None [simp]: "rb_path head ds None = None"
  by (cases ds) auto

lemma path_height: "rep (rb_nodes head) par t \<Longrightarrow> rb_path head ds (ptr t) \<noteq> None \<Longrightarrow> length ds < height t"
proof (induction t arbitrary: par ds)
  case (Br l a c i n r)
  then show ?case by (cases ds) (fastforce simp: rb_child_def mk_node_def split: if_splits)+
qed simp

end
