(* ===== verification/Dmr_Id.thy ===== *)
theory Dmr_Id
  imports Dmr_Tree
begin

text \<open>
  \<open>src/dmr/id.c\<close>: maps from DMR identifiers to names, and the shared one.  Whether an allocation
  succeeds is an argument.  A node is zeroed when it is allocated; freeing a map, with all of its
  nodes, only forgets it.
\<close>

section \<open>Maps\<close>

definition dmr_idmap_new :: "bool \<Rightarrow> dmr_idmap option" where
  "dmr_idmap_new mem = (if mem then Some \<lparr>rbh_root = None, rb_nodes = (\<lambda>_. None), rb_brk = 0\<rparr> else None)"

definition id_alloc :: "dmr_id \<Rightarrow> string \<Rightarrow> dmr_idmap \<Rightarrow> dmr_idmap" where
  "id_alloc i name head = head\<lparr>rb_brk := Suc (rb_brk head), rb_nodes := (rb_nodes head)(rb_brk head \<mapsto>
     \<lparr>idn_id = i, idn_name = name, rbe_left = None, rbe_right = None, rbe_parent = None, rbe_color = DMR_RB_BLACK\<rparr>)\<rparr>"

text \<open>\<open>mems\<close>: the allocations of the node and of its name.\<close>

definition dmr_idmap_add ::
  "bool \<times> bool \<Rightarrow> dmr_idmap option \<Rightarrow> dmr_id \<Rightarrow> string option \<Rightarrow> (int \<times> dmr_idmap option) option" where
  "dmr_idmap_add mems idmap i name =
     (case (idmap, name) of
        (Some head, Some name) \<Rightarrow> do {
          np \<leftarrow> DMR_RB_FIND head i;
          (case np of
             Some n \<Rightarrow> Some (0, Some head)
           | None \<Rightarrow>
               if \<not> fst mems then Some (-1, Some head)
               else if \<not> snd mems then Some (-1, Some (id_alloc i [] head))
               else do {
                 (old, head') \<leftarrow> DMR_RB_INSERT (rb_brk head) (id_alloc i name head);
                 Some (0, Some head') }) }
      | _ \<Rightarrow> Some (-1, idmap))"

definition dmr_idmap_get :: "dmr_idmap option \<Rightarrow> dmr_id \<Rightarrow> string option option" where
  "dmr_idmap_get idmap i =
     (case idmap of
        None \<Rightarrow> Some None
      | Some head \<Rightarrow> do {
          np \<leftarrow> DMR_RB_FIND head i;
          (case np of
             None \<Rightarrow> Some None
           | Some a \<Rightarrow> map_option (\<lambda>n. Some (idn_name n)) (rb_nodes head a)) })"

section \<open>The shared map\<close>

definition dmr_id_init :: "bool \<Rightarrow> dmr_idmap option \<Rightarrow> int \<times> dmr_idmap option" where
  "dmr_id_init mem shared =
     (case shared of
        Some m \<Rightarrow> (0, shared)
      | None \<Rightarrow> let shared = dmr_idmap_new mem in (if shared = None then -1 else 0, shared))"

definition dmr_id_free :: "dmr_idmap option \<Rightarrow> dmr_idmap option" where
  "dmr_id_free shared = None"

definition dmr_id_add ::
  "bool \<Rightarrow> bool \<times> bool \<Rightarrow> dmr_id \<Rightarrow> string option \<Rightarrow> dmr_idmap option \<Rightarrow> (int \<times> dmr_idmap option) option" where
  "dmr_id_add mem mems i name shared =
     (case dmr_id_init mem shared of
        (r, shared) \<Rightarrow> if r \<noteq> 0 then Some (-1, shared) else dmr_idmap_add mems shared i name)"

definition dmr_id_name :: "dmr_id \<Rightarrow> dmr_idmap option \<Rightarrow> string option option" where
  "dmr_id_name i shared = (case shared of None \<Rightarrow> Some None | Some m \<Rightarrow> dmr_idmap_get shared i)"

text \<open>The loop over the nodes.\<close>

partial_function (option) id_count :: "dmr_idmap \<Rightarrow> nat option \<Rightarrow> u64 \<Rightarrow> u64 option" where
  "id_count head n len =
     (case n of
        None \<Rightarrow> Some len
      | Some a \<Rightarrow> (case DMR_RB_NEXT head a of None \<Rightarrow> None | Some n \<Rightarrow> id_count head n (len + 1)))"

definition dmr_id_size :: "dmr_idmap option \<Rightarrow> u64 option" where
  "dmr_id_size shared =
     (case shared of
        None \<Rightarrow> Some 0
      | Some head \<Rightarrow> do { n \<leftarrow> DMR_RB_MINMAX head (-1); id_count head n 0 })"

section \<open>Lemmas\<close>

definition names :: "id_tree \<Rightarrow> dmr_id \<Rightarrow> string option" where
  "names t i = map_option snd (look t i)"

lemma empty_rep: "rb_map \<lparr>rbh_root = None, rb_nodes = (\<lambda>_. None), rb_brk = 0\<rparr> Tip"
  by (simp add: rb_map_def rep_at_def rbt_def)

lemma find_map: "rb_map head t \<Longrightarrow> DMR_RB_FIND head i = Some (map_option fst (look t i))"
  using find_rep [of head None t i] by (simp add: DMR_RB_FIND_def rb_map_def rep_at_def)

lemma get_map: "rb_map head t \<Longrightarrow> dmr_idmap_get (Some head) i = Some (names t i)"
proof -
  assume m: "rb_map head t"
  then have "rep (rb_nodes head) None t" by (simp add: rb_map_def rep_at_def)
  from look_node [OF this, of i] show ?thesis
    using find_map [OF m, of i] by (cases "look t i") (auto simp: dmr_idmap_get_def names_def)
qed

lemma alloc_map: "rb_map head t \<Longrightarrow> rb_map (id_alloc i n head) t"
proof -
  assume m: "rb_map head t"
  then have "rb_brk head \<notin> set (addrs t)" by (auto simp: rb_map_def)
  then show ?thesis using m by (auto simp: rb_map_def rep_at_def id_alloc_def intro: less_SucI)
qed

lemma names_insert:
  assumes "descending (entries t)" "descending (entries t')" "entries t = xs @ ys" "entries t' = xs @ (a, i, n) # ys"
  shows "names t' = (names t)(i \<mapsto> n)"
proof
  fix j
  let ?f = "\<lambda>(a, j, n). (j, a, n :: string)"
  have "map_of (map ?f xs) i = None" using assms(2,4) by (fastforce simp: map_of_eq_None_iff)
  then show "names t' j = ((names t)(i \<mapsto> n)) j"
    using look_entries [OF assms(1), of j] look_entries [OF assms(2), of j] assms(3,4)
    by (auto simp: names_def map_add_def split: option.splits)
qed

lemma add_map:
  assumes "rb_map head t"
  shows "\<exists>r head' t'. dmr_idmap_add mems (Some head) i (Some n) = Some (r, Some head') \<and> rb_map head' t' \<and>
    names t' = (if names t i \<noteq> None \<or> mems \<noteq> (True, True) then names t else (names t)(i \<mapsto> n)) \<and>
    (r = 0 \<longleftrightarrow> names t i \<noteq> None \<or> mems = (True, True))"
proof (cases "names t i \<noteq> None \<or> mems \<noteq> (True, True)")
  case True
  then show ?thesis
    using assms find_map [OF assms, of i] alloc_map [OF assms, of i "[]"]
    by (cases mems; cases "look t i") (auto simp: dmr_idmap_add_def names_def)
next
  case False
  then have new: "look t i = None" and mems: "mems = (True, True)" by (cases "look t i"; auto simp: names_def)+
  let ?h = "id_alloc i n head"
  have fresh: "rb_brk head \<notin> set (addrs t)" using assms by (auto simp: rb_map_def)
  have "rep_at ?h [] t" "rbt t" "descending (entries t)" using alloc_map [OF assms] by (auto simp: rb_map_def)
  moreover have "\<exists>e. rb_nodes ?h (rb_brk head) = Some e \<and> idn_id e = i \<and> idn_name e = n" by (simp add: id_alloc_def)
  ultimately obtain h' t' xs ys where ins: "DMR_RB_INSERT (rb_brk head) ?h = Some (None, h')" "rep_at h' [] t'"
    "rb_brk h' = rb_brk ?h" "rbt t'" "descending (entries t')" "entries t = xs @ ys" "entries t' = xs @ (rb_brk head, i, n) # ys"
    using insert_rep [of ?h t "rb_brk head" _ i n] fresh new by metis
  have "rb_map h' t'"
    using ins assms by (auto simp: rb_map_def addrs_entries id_alloc_def intro: less_SucI)
  moreover have "names t' = (names t)(i \<mapsto> n)"
    using names_insert [OF _ ins(5-7)] assms by (simp add: rb_map_def)
  ultimately show ?thesis using find_map [OF assms, of i] new mems ins(1) by (auto simp: dmr_idmap_add_def names_def)
qed

lemma count_suffix:
  assumes "rep_at head [] t" "entries t = xs @ ys"
  shows "id_count head (first_addr ys) len = Some (len + of_nat (length ys))"
  using assms(2)
proof (induction ys arbitrary: xs len)
  case Nil
  then show ?case by (simp add: id_count.simps)
next
  case (Cons e ys)
  have "id_count head (first_addr ys) (len + 1) = Some (len + 1 + of_nat (length ys))"
    using Cons.prems by (intro Cons.IH [of "xs @ [e]"]) simp
  then show ?case using next_entry [OF assms(1) Cons.prems] by (subst id_count.simps) (simp add: algebra_simps)
qed

lemma size_map: "rb_map head t \<Longrightarrow> dmr_id_size (Some head) = Some (of_nat (card (dom (names t))))"
proof -
  assume m: "rb_map head t"
  then have d: "descending (entries t)" by (simp add: rb_map_def)
  have "dom (names t) = key ` set (entries t)"
    using look_entries [OF d] by (force simp: dom_def names_def map_of_eq_None_iff key_def)
  moreover have "distinct (map key (entries t))" using d by (rule descending_distinct)
  ultimately have "card (dom (names t)) = length (entries t)" by (metis distinct_card length_map set_map)
  with m show ?thesis
    using min_rep [of head t] count_suffix [of head t "[]" "entries t" 0] by (auto simp: dmr_id_size_def rb_map_def)
qed

text \<open>
  A sequence of additions to the shared map, each with the success of its two allocations; and the map that it
  stands for, in which the first name that could be stored stays.
\<close>

fun id_adds :: "(dmr_id \<times> string \<times> bool \<times> bool) list \<Rightarrow> dmr_idmap option \<Rightarrow> dmr_idmap option option" where
  "id_adds [] shared = Some shared"
| "id_adds ((i, n, mems) # cmds) shared =
     Option.bind (dmr_id_add True mems i (Some n) shared) (\<lambda>(r, shared). id_adds cmds shared)"

fun first_names :: "(dmr_id \<times> string \<times> bool \<times> bool) list \<Rightarrow> (dmr_id \<Rightarrow> string option) \<Rightarrow> dmr_id \<Rightarrow> string option" where
  "first_names [] m = m"
| "first_names ((i, n, mems) # cmds) m =
     first_names cmds (if m i \<noteq> None \<or> mems \<noteq> (True, True) then m else m(i \<mapsto> n))"

lemma adds_map:
  "rb_map head t \<Longrightarrow> \<exists>head' t'. id_adds cmds (Some head) = Some (Some head') \<and> rb_map head' t' \<and>
     names t' = first_names cmds (names t)"
proof (induction cmds arbitrary: head t)
  case (Cons cmd cmds)
  obtain i n mems where cmd: "cmd = (i, n, mems)" by (cases cmd)
  obtain r h1 t1 where "dmr_idmap_add mems (Some head) i (Some n) = Some (r, Some h1)" "rb_map h1 t1"
    "names t1 = (if names t i \<noteq> None \<or> mems \<noteq> (True, True) then names t else (names t)(i \<mapsto> n))"
    using add_map [OF Cons.prems] by blast
  with Cons.IH [OF this(2)] cmd show ?case by (auto simp: dmr_id_add_def dmr_id_init_def)
qed auto

lemma adds_from_init:
  "\<exists>head t. id_adds cmds (snd (dmr_id_init True None)) = Some (Some head) \<and> rb_map head t \<and>
     names t = first_names cmds (\<lambda>_. None)"
proof -
  have "names Tip = (\<lambda>_. None)" by (simp add: names_def fun_eq_iff)
  then show ?thesis using adds_map [OF empty_rep, of cmds] by (simp add: dmr_id_init_def dmr_idmap_new_def)
qed

section \<open>Properties\<close>

text \<open>
  C34. The shared map is a map.  After any additions, with any failures of the allocator, every lookup returns
  the first name that was stored for the identifier or the null pointer, and the size is the number of
  identifiers with a name; no operation reads through a null pointer or runs for ever.
\<close>

theorem id_map_keeps_first_names:
  "\<exists>shared. id_adds cmds (snd (dmr_id_init True None)) = Some shared \<and>
     (\<forall>i. dmr_id_name i shared = Some (first_names cmds (\<lambda>_. None) i)) \<and>
     dmr_id_size shared = Some (of_nat (card (dom (first_names cmds (\<lambda>_. None)))))"
proof -
  obtain head t where "id_adds cmds (snd (dmr_id_init True None)) = Some (Some head)" and m: "rb_map head t"
    and "names t = first_names cmds (\<lambda>_. None)" using adds_from_init by blast
  then show ?thesis using get_map [OF m] size_map [OF m] by (auto simp: dmr_id_name_def)
qed

definition DMR_IDMAP_HEIGHT :: nat where "DMR_IDMAP_HEIGHT = 64"

text \<open>
  C35. The tree stays balanced: after any additions no way down from the root passes more than
  \<open>DMR_IDMAP_HEIGHT\<close> nodes, whatever the identifiers and their order.
\<close>

theorem id_tree_height_bounded:
  "\<exists>head. id_adds cmds (snd (dmr_id_init True None)) = Some (Some head) \<and>
     (\<forall>ds. rb_path head ds (rbh_root head) = None \<or> length ds < DMR_IDMAP_HEIGHT)"
proof -
  obtain head t where adds: "id_adds cmds (snd (dmr_id_init True None)) = Some (Some head)" and m: "rb_map head t"
    using adds_from_init by blast
  have "rep (rb_nodes head) None t" "rbh_root head = ptr t" using m by (auto simp: rb_map_def rep_at_def)
  moreover have "height t \<le> DMR_IDMAP_HEIGHT" using m height_bound by (auto simp: rb_map_def DMR_IDMAP_HEIGHT_def)
  ultimately show ?thesis using adds path_height [of head None t] by (metis less_le_trans)
qed

end
