(* ===== verification/Dmr_Text.thy ===== *)
theory Dmr_Text
  imports Dmr_Prelude
begin

text \<open>
  The text functions of the noisebridge configuration: trimming and splitting of
  \<open>src/cmd/noisebridge/config.c\<close>, and the replacements for \<open>strtok_r\<close> and \<open>getline\<close> on systems without
  them.  A C string is the list of its characters, without the terminating zero; the character types are those
  of the C locale.
\<close>

section \<open>Trimming\<close>

definition c_isspace :: "char \<Rightarrow> bool" where
  "c_isspace c \<longleftrightarrow> c \<in> {CHR '' '', CHR 0x09, CHR 0x0A, CHR 0x0B, CHR 0x0C, CHR 0x0D}"

fun rtrim_loop :: "string \<Rightarrow> nat \<Rightarrow> nat" where
  "rtrim_loop str 0 = 0"
| "rtrim_loop str (Suc n) = (if c_isspace (str ! n) then rtrim_loop str n else Suc n)"

definition rtrim :: "string \<Rightarrow> string" where
  "rtrim str = take (rtrim_loop str (length str)) str"

fun ltrim :: "string \<Rightarrow> string" where
  "ltrim [] = []"
| "ltrim (c # str) = (if c_isspace c then ltrim str else c # str)"

definition trim :: "string \<Rightarrow> string" where
  "trim str = ltrim (rtrim str)"

section \<open>Splitting\<close>

definition strspn :: "string \<Rightarrow> string \<Rightarrow> nat" where
  "strspn str accept = length (takeWhile (\<lambda>c. c \<in> set accept) str)"

definition strcspn :: "string \<Rightarrow> string \<Rightarrow> nat" where
  "strcspn str reject = length (takeWhile (\<lambda>c. c \<notin> set reject) str)"

text \<open>
  A pointer to a string that may be the null pointer is a \<open>string option\<close>.  The pointer behind \<open>nextp\<close> may be
  uninitialised, too, which is the outer \<open>None\<close>.
\<close>

definition strtok_r ::
  "string option \<Rightarrow> string \<Rightarrow> string option option \<Rightarrow> (string option \<times> string option option) option" where
  "strtok_r str delim nextp =
     (case (if str = None then nextp else Some str) of
        Some (Some str) \<Rightarrow>
          (let str = drop (strspn str delim) str in
           if str = [] then Some (None, nextp)
           else Some (Some (take (strcspn str delim) str), Some (Some (drop (strcspn str delim + 1) str))))
      | _ \<Rightarrow> None)"

definition split_line ::
  "string \<Rightarrow> string \<Rightarrow> string option option \<Rightarrow> (bool \<times> string option \<times> string option) option" where
  "split_line line sep v = do {
     (k, v) \<leftarrow> strtok_r (Some line) sep v;
     let k = map_option trim k;
     v \<leftarrow> v;
     let v = map_option trim v;
     Some (k \<noteq> None \<and> v \<noteq> None \<and> v \<noteq> Some [], k, v) }"

section \<open>Numbers\<close>

text \<open>\<open>atoi\<close> of the standard library; its result is undefined outside of the range of \<open>int\<close>.\<close>

definition c_isdigit :: "char \<Rightarrow> bool" where
  "c_isdigit c \<longleftrightarrow> 48 \<le> (of_char c :: nat) \<and> (of_char c :: nat) \<le> 57"

definition c_digits :: "string \<Rightarrow> int" where
  "c_digits s = foldl (\<lambda>n c. 10 * n + (of_char c - 48)) 0 (takeWhile c_isdigit s)"

definition atoi :: "string \<Rightarrow> int option" where
  "atoi s =
     (let s = ltrim s;
          n = (case s of
                 [] \<Rightarrow> 0
               | c # cs \<Rightarrow> if c = CHR ''-'' then - c_digits cs else if c = CHR ''+'' then c_digits cs else c_digits s)
      in if - (2 ^ 31) \<le> n \<and> n < 2 ^ 31 then Some n else None)"

section \<open>Lines\<close>

text \<open>
  The buffer is \<open>None\<close> or the size of the block behind \<open>lineptr\<close>.  \<open>re\<close> answers \<open>realloc\<close> for the new size: no
  memory, or whether the block was moved, which leaves the write position in the freed block.  The result is \<open>-1\<close>
  as \<open>Some None\<close>, or the line, the size of its buffer and the rest of the stream.
\<close>

type_synonym getline_result = "(string \<times> nat \<times> string) option option"

definition getline_end :: "string \<Rightarrow> nat \<Rightarrow> string \<Rightarrow> getline_result" where
  "getline_end acc cap stream = (if length acc < cap then Some (Some (acc, cap, stream)) else None)"

fun getline_loop :: "(nat \<Rightarrow> bool option) \<Rightarrow> string \<Rightarrow> nat \<Rightarrow> string \<Rightarrow> getline_result" where
  "getline_loop re acc cap [] = getline_end acc cap []"
| "getline_loop re acc cap (c # stream) =
     (let grow = 0 < cap \<and> length acc > cap - 1; cap' = if grow then cap + 128 else cap in
      if grow \<and> re cap' = None then Some None
      else if grow \<and> re cap' = Some True then None
      else if cap' \<le> length acc then None
      else if c = CHR 0x0A then getline_end (acc @ [c]) cap' stream
      else getline_loop re (acc @ [c]) cap' stream)"

definition getline :: "bool \<Rightarrow> (nat \<Rightarrow> bool option) \<Rightarrow> nat option \<Rightarrow> string \<Rightarrow> getline_result" where
  "getline mem re buf stream =
     (if stream = [] then Some None
      else case buf of
             None \<Rightarrow> if mem then getline_loop re [] 128 stream else Some None
           | Some cap \<Rightarrow> getline_loop re [] cap stream)"

section \<open>Lemmas\<close>

lemma ltrim_dropWhile: "ltrim s = dropWhile c_isspace s"
  by (induction s) auto

lemma rtrim_loop_append: "n \<le> length xs \<Longrightarrow> rtrim_loop (xs @ ys) n = rtrim_loop xs n"
  by (induction n) (auto simp: nth_append)

lemma rtrim_snoc: "rtrim (s @ [c]) = (if c_isspace c then rtrim s else s @ [c])"
proof -
  have "rtrim_loop s (length s) \<le> length s" for s
  proof -
    have "rtrim_loop s n \<le> n" for n by (induction n) auto
    then show ?thesis .
  qed
  then show ?thesis by (simp add: rtrim_def rtrim_loop_append)
qed

lemma rtrim_nil [simp]: "rtrim [] = []"
  by (simp add: rtrim_def)

lemma rtrim_dropWhile: "rtrim s = rev (dropWhile c_isspace (rev s))"
  by (induction s rule: rev_induct) (auto simp: rtrim_snoc)

definition trimmed :: "string \<Rightarrow> bool" where
  "trimmed s \<longleftrightarrow> s = [] \<or> \<not> c_isspace (hd s) \<and> \<not> c_isspace (last s)"

lemma trim_trimmed [simp]: "trimmed s \<Longrightarrow> trim s = s"
proof -
  assume t: "trimmed s"
  then have "rtrim s = s" by (cases s rule: rev_cases) (auto simp: trimmed_def rtrim_snoc)
  with t show ?thesis by (cases s) (auto simp: trimmed_def trim_def)
qed

lemma trim_snoc_space [simp]: "c_isspace c \<Longrightarrow> trim (s @ [c]) = trim s"
  by (simp add: trim_def rtrim_snoc)

lemma trim_nil [simp]: "trim [] = []"
  by (simp add: trim_def)

lemma trimmed_trim: "trimmed (trim s)"
proof -
  have *: "dropWhile c_isspace t = [] \<or> \<not> c_isspace (hd (dropWhile c_isspace t))" for t
    by (cases "dropWhile c_isspace t = []") (auto simp: hd_dropWhile)
  have "\<not> c_isspace (last t) \<Longrightarrow> dropWhile c_isspace t = [] \<or> \<not> c_isspace (last (dropWhile c_isspace t))" for t
    by (induction t) (auto split: if_splits)
  moreover have "rtrim s = [] \<or> \<not> c_isspace (last (rtrim s))"
    using * [of "rev s"] by (auto simp: rtrim_dropWhile last_rev)
  ultimately show ?thesis using * [of "rtrim s"] by (auto simp: trimmed_def trim_def ltrim_dropWhile)
qed

text \<open>Splitting at a single character.\<close>

lemma strtok_field:
  assumes "a \<noteq> []" "c \<notin> set a"
  shows "strtok_r (Some (a @ c # b)) [c] v = Some (Some a, Some (Some b))"
    and "strtok_r (Some a) [c] v = Some (Some a, Some (Some []))"
proof -
  have "takeWhile (\<lambda>x. x = c) (a @ y) = []" "takeWhile (\<lambda>x. x = c) a = []" for y using assms by (cases a; auto)+
  moreover have "takeWhile (\<lambda>x. x \<noteq> c) (a @ c # b) = a" using assms(2) by (induction a) auto
  moreover have "length (takeWhile (\<lambda>x. x \<noteq> c) a) = length a" using assms(2) by (induction a) auto
  ultimately show "strtok_r (Some (a @ c # b)) [c] v = Some (Some a, Some (Some b))"
    "strtok_r (Some a) [c] v = Some (Some a, Some (Some []))"
    using assms(1) by (simp_all add: strtok_r_def strspn_def strcspn_def Let_def)
qed

lemma split_field:
  assumes "a \<noteq> []" "c \<notin> set a"
  shows "split_line (a @ c # b) [c] v = Some (trim b \<noteq> [], Some (trim a), Some (trim b))"
    and "split_line a [c] v = Some (False, Some (trim a), Some [])"
  using strtok_field [OF assms] by (simp_all add: split_line_def Let_def)

lemma split_value: "split_line l sep v = Some (True, k, w) \<Longrightarrow> \<exists>k' w'. k = Some k' \<and> w = Some w' \<and> w' \<noteq> []"
  by (auto simp: split_line_def Let_def bind_eq_Some_conv)

lemma getline_fill:
  "length acc + length l \<le> cap \<Longrightarrow> CHR 0x0A \<notin> set l \<Longrightarrow>
   getline_loop re acc cap (l @ stream) = getline_loop re (acc @ l) cap stream"
proof (induction l arbitrary: acc)
  case (Cons c l)
  then show ?case using Cons.IH [of "acc @ [c]"] by (auto simp: Let_def)
qed simp

section \<open>Properties\<close>

text \<open>
  The replacement for \<open>getline\<close> delivers a line of up to 126 characters with its line feed and leaves the rest in the
  stream.  For a line of 127 characters it writes the terminating zero behind its buffer of 128, and a longer line
  needs an allocator that grows the block in place: when the block is moved it goes on writing into the old one.
\<close>

theorem getline_delivers_short_lines:
  assumes "CHR 0x0A \<notin> set l"
  shows "getline True re (if fresh then None else Some 128) (l @ CHR 0x0A # rest) =
    (if length l < 127 then Some (Some (l @ [CHR 0x0A], 128, rest))
     else if length l = 127 \<or> re 256 = Some True then None
     else if re 256 = None then Some None
     else getline_loop re (take 128 l) 256 (drop 128 l @ CHR 0x0A # rest))"
proof -
  have *: "getline True re (if fresh then None else Some 128) (l @ CHR 0x0A # rest) = getline_loop re [] 128 (l @ CHR 0x0A # rest)"
    by (simp add: getline_def)
  show ?thesis
  proof (cases "length l \<le> 127")
    case True
    then show ?thesis using getline_fill [of "[]" l 128 re "CHR 0x0A # rest"] assms by (auto simp: * getline_end_def Let_def)
  next
    case False
    have "CHR 0x0A \<notin> set (take 128 l)" using assms by (auto dest: in_set_takeD)
    then have "getline_loop re [] 128 (l @ CHR 0x0A # rest) = getline_loop re (take 128 l) 128 (drop 128 l @ CHR 0x0A # rest)"
      using getline_fill [of "[]" "take 128 l" 128 re "drop 128 l @ CHR 0x0A # rest"] False
      by (simp flip: append_assoc)
    moreover obtain c cs where "drop 128 l @ CHR 0x0A # rest = c # cs" by (cases "drop 128 l @ CHR 0x0A # rest") auto
    ultimately show ?thesis using False by (auto simp: * Let_def min_def)
  qed
qed

theorem getline_delivers_short_lines_witness:
  "getline True (\<lambda>_. Some True) None (''a = b'' @ CHR 0x0A # ''}'') = Some (Some (''a = b'' @ [CHR 0x0A], 128, ''}'')) \<and>
   getline True (\<lambda>_. Some True) (Some 128) (replicate 127 CHR ''x'' @ CHR 0x0A # []) = None"
  using getline_delivers_short_lines [of "''a = b''" "\<lambda>_. Some True" True "''}''"]
    getline_delivers_short_lines [of "replicate 127 CHR ''x''" "\<lambda>_. Some True" False "[]"] by simp

end
