(* ===== verification/Dmr_Config.thy ===== *)
theory Dmr_Config
  imports Dmr_Text Dmr_Id Dmr_Repeater
begin

text \<open>
  \<open>src/cmd/noisebridge/config.c\<close>: the configuration of noisebridge, read line by line with a function for the
  section that the lines are in, and the list of identifiers that it may name.

  The system and the libraries are a record: which allocations succeed (by line), the lines that \<open>getline\<close> delivers
  of a file as C strings, the functions of the \<open>common\<close> submodule, and \<open>atof\<close> as the bits of a \<open>float\<close>.  A field
  that \<open>talloc_zero\<close> left zero is 0 or \<open>None\<close>.
\<close>

section \<open>State\<close>

record homebrew_settings =
  hs_peer_ip :: "u8 list"
  hs_peer_port :: u16
  hs_bind_ip :: "u8 list"
  hs_bind_port :: u16
  hs_auth :: "string option"
  hs_call :: "string option"
  hs_repeater_id :: dmr_id
  hs_color_code :: u8
  hs_rx_freq :: u32
  hs_tx_freq :: u32
  hs_tx_power :: u8
  hs_height :: int
  hs_latitude :: u32
  hs_longitude :: u32

record mmdvm_settings =
  ms_port :: "string option"
  ms_baud :: int
  ms_model :: dmr_mmdvm_model
  ms_color_code :: u8
  ms_rx_freq :: u32
  ms_tx_freq :: u32

datatype proto_settings =
    Homebrew_settings homebrew_settings
  | Mbe_settings int
  | Mmdvm_settings mmdvm_settings

record proto_t =
  pt_type :: dmr_protocol_type
  pt_name :: "string option"
  pt_settings :: proto_settings

datatype parse_section_t =
    Read_config
  | Read_config_repeater
  | Read_config_dmrid
  | Read_config_httpd
  | Read_config_homebrew
  | Read_config_mbe
  | Read_config_mmdvm

record config_t =
  cf_filename :: "string option"
  cf_proto :: "proto_t list"
  cf_section :: parse_section_t
  cf_httpd_enabled :: bool
  cf_httpd_bind :: "u8 list"
  cf_httpd_port :: u16
  cf_httpd_root :: string
  cf_script :: "string option"
  cf_timeout :: u16

text \<open>The entries of \<open>config->proto\<close> in use; \<open>config->protos\<close> is their number.\<close>

definition NOISEBRIDGE_MAX_PROTOS :: nat where "NOISEBRIDGE_MAX_PROTOS = 16"

record config_env =
  ce_common :: common_ops
  ce_mem :: "bool \<times> bool"
  ce_strdup :: "nat \<Rightarrow> bool"
  ce_talloc :: "nat \<Rightarrow> bool"
  ce_idmap :: bool
  ce_id :: "dmr_id \<Rightarrow> bool \<times> bool"
  ce_file :: "string \<Rightarrow> string list option"
  ce_scan_ip6 :: "string \<Rightarrow> nat \<times> u8 list"
  ce_ip6resolve :: "string \<Rightarrow> int \<times> u8 list"
  ce_path_canonical :: "string \<Rightarrow> string"
  ce_serial_find :: "string \<Rightarrow> int \<times> string option"
  ce_atof :: "string \<Rightarrow> u32"
  ce_ip6any :: "u8 list"
  ce_ip6mappedv4prefix :: "u8 list"
  ce_ip4loopback :: "u8 list"
  ce_mbelib :: bool
  ce_portaudio :: bool

section \<open>Keys\<close>

text \<open>
  The macros for a key: \<open>None\<close> is undefined, \<open>Some None\<close> the error for a duplicate key, and otherwise the new value
  of the field.
\<close>

definition CONFIG_STR :: "bool \<Rightarrow> string option \<Rightarrow> string \<Rightarrow> string option option option" where
  "CONFIG_STR mem old v = (if old \<noteq> None then Some None else Some (Some (if mem then Some v else None)))"

definition CONFIG_INT :: "'a::{ring_1} \<Rightarrow> string \<Rightarrow> 'a option option" where
  "CONFIG_INT old v = (if old \<noteq> 0 then Some None else map_option (\<lambda>n. Some (of_int n)) (atoi v))"

definition CONFIG_FLOAT :: "u32 \<Rightarrow> u32 \<Rightarrow> u32 option option" where
  "CONFIG_FLOAT old v = (if old \<noteq> 0 \<and> old \<noteq> 0x80000000 then Some None else Some (Some v))"

definition set_field :: "'a option option \<Rightarrow> ('a \<Rightarrow> 's) \<Rightarrow> 's \<Rightarrow> (int \<times> 's) option" where
  "set_field x f s = map_option (\<lambda>r. case r of None \<Rightarrow> (-1, s) | Some a \<Rightarrow> (0, f a)) x"

section \<open>Sections\<close>

definition ignored :: "string \<Rightarrow> bool" where
  "ignored line \<longleftrightarrow> line = [] \<or> hd line = CHR ''#'' \<or> hd line = CHR '';''"

text \<open>What the functions of all sections do, with the end of the section and a key with its value as arguments.\<close>

definition read_section ::
  "('s \<Rightarrow> (int \<times> 's) option) \<Rightarrow> (string \<Rightarrow> string \<Rightarrow> 's \<Rightarrow> (int \<times> 's) option) \<Rightarrow> string \<Rightarrow> 's \<Rightarrow> (int \<times> 's) option" where
  "read_section close on_key line s =
     (if ignored line then Some (0, s)
      else if line = ''}'' then close s
      else do {
        kv \<leftarrow> split_line line ''='' (Some None);
        (case kv of
           (True, Some k, Some v) \<Rightarrow> on_key k v s
         | _ \<Rightarrow> Some (-1, s)) })"

definition close_section :: "config_t \<Rightarrow> (int \<times> config_t) option" where
  "close_section cfg = Some (0, cfg\<lparr>cf_section := Read_config\<rparr>)"

definition repeater_key :: "config_env \<Rightarrow> nat \<Rightarrow> string \<Rightarrow> string \<Rightarrow> config_t \<Rightarrow> (int \<times> config_t) option" where
  "repeater_key env lineno k v cfg =
     (if k = ''script'' then set_field (CONFIG_STR (ce_strdup env lineno) (cf_script cfg) v) (\<lambda>x. cfg\<lparr>cf_script := x\<rparr>) cfg
      else if k = ''timeout'' then map_option (\<lambda>n. (0, cfg\<lparr>cf_timeout := of_int n\<rparr>)) (atoi v)
      else Some (-1, cfg))"

definition read_config_repeater :: "config_env \<Rightarrow> string \<Rightarrow> nat \<Rightarrow> config_t \<Rightarrow> (int \<times> config_t) option" where
  "read_config_repeater env line lineno = read_section close_section (repeater_key env lineno) line"

definition close_httpd :: "config_t \<Rightarrow> (int \<times> config_t) option" where
  "close_httpd cfg = close_section (if cf_httpd_port cfg = 0 then cfg\<lparr>cf_httpd_port := 8042\<rparr> else cfg)"

definition httpd_key :: "config_env \<Rightarrow> string \<Rightarrow> string \<Rightarrow> config_t \<Rightarrow> (int \<times> config_t) option" where
  "httpd_key env k v cfg =
     (if k = ''bind''
      then (case ce_scan_ip6 env v of (n, ip) \<Rightarrow> Some (if n = 0 then -1 else 0, cfg\<lparr>cf_httpd_bind := ip\<rparr>))
      else if k = ''port'' then map_option (\<lambda>n. (0, cfg\<lparr>cf_httpd_port := of_int n\<rparr>)) (atoi v)
      else if k = ''root''
      then (let root = ce_path_canonical env v in Some (if root = [] then -1 else 0, cfg\<lparr>cf_httpd_root := root\<rparr>))
      else Some (-1, cfg))"

definition read_config_httpd :: "config_env \<Rightarrow> string \<Rightarrow> config_t \<Rightarrow> (int \<times> config_t) option" where
  "read_config_httpd env line = read_section close_httpd (httpd_key env) line"

text \<open>The sections of the protocols work on the last protocol.\<close>

definition with_proto :: "(proto_t \<Rightarrow> (int \<times> proto_t) option) \<Rightarrow> config_t \<Rightarrow> (int \<times> config_t) option" where
  "with_proto f cfg =
     (if cf_proto cfg = [] then None
      else map_option (\<lambda>(r, p). (r, cfg\<lparr>cf_proto := butlast (cf_proto cfg) @ [p]\<rparr>)) (f (last (cf_proto cfg))))"

definition homebrew_of :: "proto_t \<Rightarrow> homebrew_settings option" where
  "homebrew_of p = (case pt_settings p of Homebrew_settings h \<Rightarrow> Some h | _ \<Rightarrow> None)"

definition mbe_of :: "proto_t \<Rightarrow> int option" where
  "mbe_of p = (case pt_settings p of Mbe_settings q \<Rightarrow> Some q | _ \<Rightarrow> None)"

definition mmdvm_of :: "proto_t \<Rightarrow> mmdvm_settings option" where
  "mmdvm_of p = (case pt_settings p of Mmdvm_settings m \<Rightarrow> Some m | _ \<Rightarrow> None)"

definition close_homebrew :: "config_env \<Rightarrow> config_t \<Rightarrow> (int \<times> config_t) option" where
  "close_homebrew env cfg = do {
     h \<leftarrow> homebrew_of (last (cf_proto cfg));
     if byte_equal (ce_common env) (hs_peer_ip h) (ce_ip6any env) 16 then Some (-1, cfg) else close_section cfg }"

definition homebrew_settings_key ::
  "config_env \<Rightarrow> nat \<Rightarrow> string \<Rightarrow> string \<Rightarrow> homebrew_settings \<Rightarrow> (int \<times> homebrew_settings) option" where
  "homebrew_settings_key env lineno k v h =
     (if k = ''auth'' then set_field (CONFIG_STR (ce_strdup env lineno) (hs_auth h) v) (\<lambda>x. h\<lparr>hs_auth := x\<rparr>) h
      else if k = ''call'' then set_field (CONFIG_STR (ce_strdup env lineno) (hs_call h) v) (\<lambda>x. h\<lparr>hs_call := x\<rparr>) h
      else if k = ''repeater_id'' then set_field (CONFIG_INT (hs_repeater_id h) v) (\<lambda>x. h\<lparr>hs_repeater_id := x\<rparr>) h
      else if k = ''color_code'' then set_field (CONFIG_INT (hs_color_code h) v) (\<lambda>x. h\<lparr>hs_color_code := x\<rparr>) h
      else if k = ''rx_freq'' then set_field (CONFIG_INT (hs_rx_freq h) v) (\<lambda>x. h\<lparr>hs_rx_freq := x\<rparr>) h
      else if k = ''tx_freq'' then set_field (CONFIG_INT (hs_tx_freq h) v) (\<lambda>x. h\<lparr>hs_tx_freq := x\<rparr>) h
      else if k = ''tx_power'' then set_field (CONFIG_INT (hs_tx_power h) v) (\<lambda>x. h\<lparr>hs_tx_power := x\<rparr>) h
      else if k = ''height'' then set_field (CONFIG_INT (hs_height h) v) (\<lambda>x. h\<lparr>hs_height := x\<rparr>) h
      else if k = ''latitude'' then set_field (CONFIG_FLOAT (hs_latitude h) (ce_atof env v)) (\<lambda>x. h\<lparr>hs_latitude := x\<rparr>) h
      else if k = ''longitude'' then set_field (CONFIG_FLOAT (hs_longitude h) (ce_atof env v)) (\<lambda>x. h\<lparr>hs_longitude := x\<rparr>) h
      else if k = ''port'' then set_field (CONFIG_INT (hs_peer_port h) v) (\<lambda>x. h\<lparr>hs_peer_port := x\<rparr>) h
      else if k = ''bind_port'' then set_field (CONFIG_INT (hs_bind_port h) v) (\<lambda>x. h\<lparr>hs_bind_port := x\<rparr>) h
      else if k = ''host'' then (case ce_ip6resolve env v of (r, ip) \<Rightarrow> Some (r, h\<lparr>hs_peer_ip := ip\<rparr>))
      else if k = ''bind_host'' then (case ce_ip6resolve env v of (r, ip) \<Rightarrow> Some (r, h\<lparr>hs_bind_ip := ip\<rparr>))
      else Some (-1, h))"

definition name_key :: "config_env \<Rightarrow> nat \<Rightarrow> string \<Rightarrow> proto_t \<Rightarrow> (int \<times> proto_t) option" where
  "name_key env lineno v p = set_field (CONFIG_STR (ce_strdup env lineno) (pt_name p) v) (\<lambda>x. p\<lparr>pt_name := x\<rparr>) p"

definition homebrew_key :: "config_env \<Rightarrow> nat \<Rightarrow> string \<Rightarrow> string \<Rightarrow> proto_t \<Rightarrow> (int \<times> proto_t) option" where
  "homebrew_key env lineno k v p =
     (if k = ''name'' then name_key env lineno v p
      else do {
        h \<leftarrow> homebrew_of p;
        (r, h) \<leftarrow> homebrew_settings_key env lineno k v h;
        Some (r, p\<lparr>pt_settings := Homebrew_settings h\<rparr>) })"

text \<open>\<open>config->proto[config->protos - 1]\<close> is read before anything else.\<close>

definition proto_section ::
  "(config_t \<Rightarrow> (int \<times> config_t) option) \<Rightarrow> (string \<Rightarrow> string \<Rightarrow> proto_t \<Rightarrow> (int \<times> proto_t) option) \<Rightarrow>
   string \<Rightarrow> config_t \<Rightarrow> (int \<times> config_t) option" where
  "proto_section close on_key line cfg =
     (if cf_proto cfg = [] then None else read_section close (\<lambda>k v. with_proto (on_key k v)) line cfg)"

definition read_config_homebrew :: "config_env \<Rightarrow> string \<Rightarrow> nat \<Rightarrow> config_t \<Rightarrow> (int \<times> config_t) option" where
  "read_config_homebrew env line lineno = proto_section (close_homebrew env) (homebrew_key env lineno) line"

definition mbe_key :: "config_env \<Rightarrow> nat \<Rightarrow> string \<Rightarrow> string \<Rightarrow> proto_t \<Rightarrow> (int \<times> proto_t) option" where
  "mbe_key env lineno k v p =
     (if k = ''name'' then name_key env lineno v p
      else if k = ''quality''
      then do { q \<leftarrow> mbe_of p; set_field (CONFIG_INT q v) (\<lambda>q. p\<lparr>pt_settings := Mbe_settings q\<rparr>) p }
      else Some (-1, p))"

definition read_config_mbe :: "config_env \<Rightarrow> string \<Rightarrow> nat \<Rightarrow> config_t \<Rightarrow> (int \<times> config_t) option" where
  "read_config_mbe env line lineno = proto_section close_section (mbe_key env lineno) line"

definition mmdvm_settings_key ::
  "config_env \<Rightarrow> nat \<Rightarrow> string \<Rightarrow> string \<Rightarrow> mmdvm_settings \<Rightarrow> (int \<times> mmdvm_settings) option" where
  "mmdvm_settings_key env lineno k v m =
     (if k = ''color_code'' then set_field (CONFIG_INT (ms_color_code m) v) (\<lambda>x. m\<lparr>ms_color_code := x\<rparr>) m
      else if k = ''rx_freq'' then set_field (CONFIG_INT (ms_rx_freq m) v) (\<lambda>x. m\<lparr>ms_rx_freq := x\<rparr>) m
      else if k = ''tx_freq'' then set_field (CONFIG_INT (ms_tx_freq m) v) (\<lambda>x. m\<lparr>ms_tx_freq := x\<rparr>) m
      else if k = ''port''
      then (if hd v = CHR ''/'' \<or> v = ''COM''
            then Some (0, m\<lparr>ms_port := if ce_strdup env lineno then Some v else None\<rparr>)
            else case ce_serial_find env v of (r, port) \<Rightarrow> Some (if r = 0 then 0 else -1, m\<lparr>ms_port := port\<rparr>))
      else if k = ''model''
      then (if v = ''generic'' \<or> v = ''g4klx'' then Some (0, m\<lparr>ms_model := DMR_MMDVM_MODEL_G4KLX\<rparr>)
            else if v = ''dvmega'' then Some (0, m\<lparr>ms_model := DMR_MMDVM_MODEL_DVMEGA\<rparr>)
            else Some (-1, m))
      else Some (-1, m))"

definition mmdvm_key :: "config_env \<Rightarrow> nat \<Rightarrow> string \<Rightarrow> string \<Rightarrow> proto_t \<Rightarrow> (int \<times> proto_t) option" where
  "mmdvm_key env lineno k v p =
     (if k = ''name'' then name_key env lineno v p
      else do {
        m \<leftarrow> mmdvm_of p;
        (r, m) \<leftarrow> mmdvm_settings_key env lineno k v m;
        Some (r, p\<lparr>pt_settings := Mmdvm_settings m\<rparr>) })"

definition read_config_mmdvm :: "config_env \<Rightarrow> string \<Rightarrow> nat \<Rightarrow> config_t \<Rightarrow> (int \<times> config_t) option" where
  "read_config_mmdvm env line lineno = proto_section close_section (mmdvm_key env lineno) line"

section \<open>Identifiers\<close>

type_synonym dmr_ids = "dmr_idmap option"

definition dmrid_key ::
  "config_env \<Rightarrow> string \<Rightarrow> string \<Rightarrow> config_t \<times> dmr_ids \<Rightarrow> (int \<times> config_t \<times> dmr_ids) option" where
  "dmrid_key env k v s = do {
     n \<leftarrow> atoi k;
     let i = of_int n;
     if i = 0 then Some (-1, s)
     else map_option (\<lambda>(r, ids). (r, fst s, ids)) (dmr_id_add (ce_idmap env) (ce_id env i) i (Some v) (snd s)) }"

definition read_config_dmrid ::
  "config_env \<Rightarrow> string \<Rightarrow> config_t \<times> dmr_ids \<Rightarrow> (int \<times> config_t \<times> dmr_ids) option" where
  "read_config_dmrid env line =
     read_section (\<lambda>(cfg, ids). map_option (\<lambda>(r, cfg). (r, cfg, ids)) (close_section cfg)) (dmrid_key env) line"

text \<open>
  A line of the list of identifiers: no entry, or an identifier with the text of the buffer, which \<open>snprintf\<close> cuts off.
  The pointers that the line before left behind are taken as null; nothing is read through them.
\<close>

definition dmrids_name :: "string \<Rightarrow> bool \<times> string option \<times> string option \<Rightarrow> string" where
  "dmrids_name call kv =
     take 62 (case kv of
       (True, Some name, _) \<Rightarrow> if name \<noteq> [] then call @ '' ('' @ name @ '')'' else call
     | _ \<Rightarrow> call)"

definition dmrids_call :: "string \<Rightarrow> string option option" where
  "dmrids_call v = do {
     kv \<leftarrow> split_line v '','' (Some (Some v));
     (case kv of
        (True, Some call, Some v) \<Rightarrow> do {
          kv \<leftarrow> split_line v '','' (Some (Some v));
          Some (Some (dmrids_name call kv)) }
      | _ \<Rightarrow> Some None) }"

definition dmrids_line :: "string \<Rightarrow> (dmr_id \<times> string) option option" where
  "dmrids_line line = do {
     kv \<leftarrow> split_line line '','' (Some None);
     (case kv of
        (True, Some k, Some v) \<Rightarrow> do {
          n \<leftarrow> atoi k;
          let i = of_int n;
          if i = 0 then Some None else map_option (map_option (Pair i)) (dmrids_call v) }
      | _ \<Rightarrow> Some None) }"

fun dmrids_loop :: "config_env \<Rightarrow> string list \<Rightarrow> dmr_ids \<Rightarrow> dmr_ids option" where
  "dmrids_loop env [] ids = Some ids"
| "dmrids_loop env (line # lines) ids =
     (case dmrids_line line of
        None \<Rightarrow> None
      | Some None \<Rightarrow> dmrids_loop env lines ids
      | Some (Some (i, name)) \<Rightarrow>
          (case dmr_id_add (ce_idmap env) (ce_id env i) i (Some name) ids of
             None \<Rightarrow> None
           | Some (r, ids) \<Rightarrow> if r \<noteq> 0 then Some ids else dmrids_loop env lines ids))"

text \<open>The value 2 is \<open>DMR_EINVAL\<close>.\<close>

definition read_dmrids :: "config_env \<Rightarrow> string \<Rightarrow> dmr_ids \<Rightarrow> (int \<times> dmr_ids) option" where
  "read_dmrids env filename ids =
     (case ce_file env filename of
        None \<Rightarrow> Some (2, ids)
      | Some lines \<Rightarrow> do {
          ids \<leftarrow> dmrids_loop env lines ids;
          loaded \<leftarrow> dmr_id_size ids;
          Some (0, ids) })"

section \<open>The file\<close>

definition zero_ip :: "u8 list" where "zero_ip = replicate 16 0"

definition homebrew_defaults :: "config_env \<Rightarrow> proto_t" where
  "homebrew_defaults env = \<lparr>pt_type = DMR_PROTOCOL_HOMEBREW, pt_name = None, pt_settings = Homebrew_settings
     \<lparr>hs_peer_ip = byte_zero (ce_common env) zero_ip 16, hs_peer_port = 62030,
      hs_bind_ip = byte_copy (ce_common env) zero_ip (ce_ip6any env) 16, hs_bind_port = 0,
      hs_auth = None, hs_call = None, hs_repeater_id = 0, hs_color_code = 0, hs_rx_freq = 0, hs_tx_freq = 0,
      hs_tx_power = 0, hs_height = 0, hs_latitude = 0, hs_longitude = 0\<rparr>\<rparr>"

definition mbe_defaults :: proto_t where
  "mbe_defaults = \<lparr>pt_type = DMR_PROTOCOL_MBE, pt_name = None, pt_settings = Mbe_settings 3\<rparr>"

definition mmdvm_defaults :: proto_t where
  "mmdvm_defaults = \<lparr>pt_type = DMR_PROTOCOL_MMDVM, pt_name = None, pt_settings = Mmdvm_settings
     \<lparr>ms_port = None, ms_baud = 115200, ms_model = DMR_MMDVM_MODEL_G4KLX, ms_color_code = 1, ms_rx_freq = 0, ms_tx_freq = 0\<rparr>\<rparr>"

text \<open>A write behind the array, or through the null pointer when there is no memory, is undefined.\<close>

definition add_proto :: "bool \<Rightarrow> parse_section_t \<Rightarrow> proto_t \<Rightarrow> config_t \<Rightarrow> (int \<times> config_t) option" where
  "add_proto mem sect p cfg =
     (if \<not> mem \<or> NOISEBRIDGE_MAX_PROTOS \<le> length (cf_proto cfg) then None
      else Some (0, cfg\<lparr>cf_section := sect, cf_proto := cf_proto cfg @ [p]\<rparr>))"

definition switch_section :: "config_env \<Rightarrow> nat \<Rightarrow> string \<Rightarrow> config_t \<Rightarrow> (int \<times> config_t) option" where
  "switch_section env lineno k cfg =
     (if k = ''repeater'' then Some (0, cfg\<lparr>cf_section := Read_config_repeater\<rparr>)
      else if k = ''dmrid'' then Some (0, cfg\<lparr>cf_section := Read_config_dmrid\<rparr>)
      else if k = ''httpd''
      then (if cf_httpd_enabled cfg then Some (-1, cfg)
            else Some (0, cfg\<lparr>cf_section := Read_config_httpd, cf_httpd_enabled := True\<rparr>))
      else if k = ''homebrew'' then add_proto (ce_talloc env lineno) Read_config_homebrew (homebrew_defaults env) cfg
      else if k = ''mbe''
      then (if \<not> ce_mbelib env \<or> \<not> ce_portaudio env then Some (-1, cfg)
            else add_proto (ce_talloc env lineno) Read_config_mbe mbe_defaults cfg)
      else if k = ''mmdvm'' then add_proto (ce_talloc env lineno) Read_config_mmdvm mmdvm_defaults cfg
      else Some (-1, cfg))"

definition top_key ::
  "config_env \<Rightarrow> string \<Rightarrow> string \<Rightarrow> config_t \<times> dmr_ids \<Rightarrow> (int \<times> config_t \<times> dmr_ids) option" where
  "top_key env k v s =
     (if k = ''dmrids''
      then map_option (\<lambda>(r, ids). (if r \<noteq> 0 then -1 else 0, fst s, ids)) (read_dmrids env v (snd s))
      else Some (-1, s))"

definition read_config ::
  "config_env \<Rightarrow> string \<Rightarrow> nat \<Rightarrow> config_t \<times> dmr_ids \<Rightarrow> (int \<times> config_t \<times> dmr_ids) option" where
  "read_config env line lineno s =
     (if ignored line then Some (0, s)
      else
        let cfg = (fst s)\<lparr>cf_timeout := 180\<rparr>; s = (cfg, snd s) in
        if last line = CHR ''{'' then do {
          (k, v) \<leftarrow> strtok_r (Some line) ''{'' None;
          k \<leftarrow> k;
          if trim k = [] then Some (-1, s)
          else map_option (\<lambda>(r, cfg). (r, cfg, snd s)) (switch_section env lineno (trim k) cfg) }
        else do {
          kv \<leftarrow> split_line line ''='' None;
          (case kv of
             (True, Some k, Some v) \<Rightarrow> if k = [] then Some (-1, s) else top_key env k v s
           | _ \<Rightarrow> Some (-1, s)) })"

text \<open>The call \<open>config->section(line, filename, lineno)\<close>.\<close>

definition config_section ::
  "config_env \<Rightarrow> string \<Rightarrow> nat \<Rightarrow> config_t \<times> dmr_ids \<Rightarrow> (int \<times> config_t \<times> dmr_ids) option" where
  "config_section env line lineno s =
     (let keep = map_option (\<lambda>(r, cfg). (r, cfg, snd s)) in
      case cf_section (fst s) of
        Read_config \<Rightarrow> read_config env line lineno s
      | Read_config_repeater \<Rightarrow> keep (read_config_repeater env line lineno (fst s))
      | Read_config_dmrid \<Rightarrow> read_config_dmrid env line s
      | Read_config_httpd \<Rightarrow> keep (read_config_httpd env line (fst s))
      | Read_config_homebrew \<Rightarrow> keep (read_config_homebrew env line lineno (fst s))
      | Read_config_mbe \<Rightarrow> keep (read_config_mbe env line lineno (fst s))
      | Read_config_mmdvm \<Rightarrow> keep (read_config_mmdvm env line lineno (fst s)))"

fun config_lines ::
  "config_env \<Rightarrow> nat \<Rightarrow> string list \<Rightarrow> config_t \<times> dmr_ids \<Rightarrow> (int \<times> config_t \<times> dmr_ids) option" where
  "config_lines env lineno [] s = Some (0, s)"
| "config_lines env lineno (line # lines) s =
     (case config_section env (trim line) (Suc lineno) s of
        None \<Rightarrow> None
      | Some (r, s) \<Rightarrow> if r \<noteq> 0 then Some (r, s) else config_lines env (Suc lineno) lines s)"

text \<open>The global pointer: \<open>bail\<close> frees the configuration and leaves the pointer as it is.\<close>

datatype config_ptr = Config_null | Config_at config_t | Config_freed

definition config_defaults :: "config_env \<Rightarrow> config_t" where
  "config_defaults env =
     (let c = ce_common env; ip = byte_copy c (byte_zero c zero_ip 16) (ce_ip6mappedv4prefix env) 12 in
      \<lparr>cf_filename = None, cf_proto = [], cf_section = Read_config, cf_httpd_enabled = False,
       cf_httpd_bind = take 12 ip @ byte_copy c (drop 12 ip) (ce_ip4loopback env) 4, cf_httpd_port = 8042,
       cf_httpd_root = ''html'', cf_script = None, cf_timeout = 0\<rparr>)"

definition config_finish :: "int \<times> config_t \<times> dmr_ids \<Rightarrow> int \<times> config_ptr \<times> dmr_ids" where
  "config_finish res =
     (case res of (r, cfg, ids) \<Rightarrow>
        if r \<noteq> 0 then (r, Config_freed, ids)
        else if cf_script cfg = None \<or> cf_proto cfg = [] then (-1, Config_freed, ids)
        else (0, Config_at cfg, ids))"

definition config_load :: "config_env \<Rightarrow> string \<Rightarrow> config_t \<times> dmr_ids \<Rightarrow> (int \<times> config_ptr \<times> dmr_ids) option" where
  "config_load env filename s =
     (if \<not> ce_strdup env 0 then None
      else
        let s = ((fst s)\<lparr>cf_filename := Some filename\<rparr>, snd s) in
        case ce_file env filename of
          None \<Rightarrow> Some (-1, Config_freed, snd s)
        | Some lines \<Rightarrow> map_option config_finish (config_lines env 0 lines s))"

definition init_config ::
  "config_env \<Rightarrow> string option \<Rightarrow> config_ptr \<times> dmr_ids \<Rightarrow> (int \<times> config_ptr \<times> dmr_ids) option" where
  "init_config env filename s =
     (case filename of
        None \<Rightarrow> Some (-1, s)
      | Some filename \<Rightarrow>
          (case fst s of
             Config_freed \<Rightarrow> None
           | Config_at cfg \<Rightarrow> config_load env filename (cfg, snd s)
           | Config_null \<Rightarrow>
               if \<not> fst (ce_mem env) then Some (-1, Config_null, snd s)
               else if \<not> snd (ce_mem env) then Some (-1, Config_freed, snd s)
               else config_load env filename (config_defaults env, snd s)))"

definition load_config :: "config_ptr \<times> dmr_ids \<Rightarrow> config_ptr" where
  "load_config s = fst s"

section \<open>Boundaries\<close>

text \<open>After an error the pointer is left to the freed configuration; reading another file then uses it.\<close>

lemma init_config_failure_dangles:
  assumes "init_config env (Some file) (Config_null, ids) = Some (r, cp, ids')" "r \<noteq> 0" "fst (ce_mem env)"
  shows "cp = Config_freed \<and> init_config env (Some file') (cp, ids') = None"
  using assms by (auto simp: init_config_def config_load_def config_finish_def Let_def split: if_splits option.splits)

text \<open>The seventeenth protocol is written behind the array; a line of braces only is trimmed through the null pointer.\<close>

lemma config_section_boundaries:
  "cf_section (fst s) = Read_config \<Longrightarrow> length (cf_proto (fst s)) = 16 \<Longrightarrow> config_section env ''mmdvm {'' n s = None"
  "cf_section (fst s) = Read_config \<Longrightarrow> config_section env ''{{'' n s = None"
proof -
  have "strtok_r (Some ''mmdvm {'') ''{'' None = Some (Some ''mmdvm '', Some (Some []))" "trim ''mmdvm '' = ''mmdvm''"
    "strtok_r (Some ''{{'') ''{'' None = Some (None, None)" "\<not> ignored ''mmdvm {''" "\<not> ignored ''{{''"
    by code_simp+
  then show "cf_section (fst s) = Read_config \<Longrightarrow> length (cf_proto (fst s)) = 16 \<Longrightarrow> config_section env ''mmdvm {'' n s = None"
    "cf_section (fst s) = Read_config \<Longrightarrow> config_section env ''{{'' n s = None"
    by (simp_all add: config_section_def read_config_def Let_def switch_section_def add_proto_def NOISEBRIDGE_MAX_PROTOS_def)
qed

section \<open>What every line keeps\<close>

text \<open>A key whose field is not zero cannot be set.\<close>

definition keeps_defaults :: "proto_t \<Rightarrow> bool" where
  "keeps_defaults p =
     (case pt_settings p of
        Homebrew_settings h \<Rightarrow> pt_type p = DMR_PROTOCOL_HOMEBREW \<and> hs_peer_port h = 62030
      | Mbe_settings q \<Rightarrow> pt_type p = DMR_PROTOCOL_MBE \<and> q = 3
      | Mmdvm_settings m \<Rightarrow> pt_type p = DMR_PROTOCOL_MMDVM \<and> ms_baud m = 115200 \<and> ms_color_code m = 1)"

definition has_peer :: "config_env \<Rightarrow> proto_t \<Rightarrow> bool" where
  "has_peer env p =
     (case pt_settings p of
        Homebrew_settings h \<Rightarrow> \<not> byte_equal (ce_common env) (hs_peer_ip h) (ce_ip6any env) 16
      | _ \<Rightarrow> True)"

text \<open>The type of the protocol that a section works on.\<close>

definition section_type :: "parse_section_t \<Rightarrow> dmr_protocol_type option" where
  "section_type sect =
     (case sect of
        Read_config_homebrew \<Rightarrow> Some DMR_PROTOCOL_HOMEBREW
      | Read_config_mbe \<Rightarrow> Some DMR_PROTOCOL_MBE
      | Read_config_mmdvm \<Rightarrow> Some DMR_PROTOCOL_MMDVM
      | _ \<Rightarrow> None)"

definition config_ok :: "config_env \<Rightarrow> config_t \<Rightarrow> bool" where
  "config_ok env cfg \<longleftrightarrow>
     length (cf_proto cfg) \<le> NOISEBRIDGE_MAX_PROTOS \<and> (\<forall>p \<in> set (cf_proto cfg). keeps_defaults p) \<and>
     (\<forall>p \<in> set (butlast (cf_proto cfg)). has_peer env p) \<and>
     (case section_type (cf_section cfg) of
        None \<Rightarrow> \<forall>p \<in> set (cf_proto cfg). has_peer env p
      | Some t \<Rightarrow> cf_proto cfg \<noteq> [] \<and> pt_type (last (cf_proto cfg)) = t)"

lemma read_section_inv:
  assumes "read_section close on_key line s = Some (r, s')" "P s"
    and "\<And>r s'. close s = Some (r, s') \<Longrightarrow> P s'"
    and "\<And>k v r s'. on_key k v s = Some (r, s') \<Longrightarrow> P s'"
  shows "P s'"
  using assms by (auto simp: read_section_def bind_eq_Some_conv split: if_splits prod.splits bool.splits option.splits)

lemma CONFIG_INT_set [simp]: "old \<noteq> 0 \<Longrightarrow> CONFIG_INT old v = Some None"
  by (simp add: CONFIG_INT_def)

lemma set_field_None [simp]: "set_field (Some None) f s = Some (-1, s)"
  by (simp add: set_field_def)

lemma set_field_cases: "set_field x f s = Some (r, s') \<Longrightarrow> s' = s \<or> (\<exists>a. s' = f a)"
  by (auto simp: set_field_def split: option.splits)

lemma name_key_keeps:
  "name_key env n v p = Some (r, p') \<Longrightarrow> pt_type p' = pt_type p \<and> pt_settings p' = pt_settings p"
  unfolding name_key_def by (drule set_field_cases) auto

lemma homebrew_settings_key_keeps:
  assumes "homebrew_settings_key env n k v h = Some (r, h')" "hs_peer_port h \<noteq> 0"
  shows "hs_peer_port h' = hs_peer_port h"
  using assms unfolding homebrew_settings_key_def
  by (auto split: if_splits prod.splits dest!: set_field_cases)

lemma mmdvm_settings_key_keeps:
  assumes "mmdvm_settings_key env n k v m = Some (r, m')" "ms_color_code m \<noteq> 0"
  shows "ms_color_code m' = ms_color_code m \<and> ms_baud m' = ms_baud m"
  using assms unfolding mmdvm_settings_key_def
  by (auto split: if_splits prod.splits dest!: set_field_cases)

definition proto_kept :: "dmr_protocol_type \<Rightarrow> proto_t \<Rightarrow> bool" where
  "proto_kept t p \<longleftrightarrow> keeps_defaults p \<and> pt_type p = t"

lemma homebrew_key_keeps:
  assumes "homebrew_key env n k v p = Some (r, p')" "proto_kept t p"
  shows "proto_kept t p'"
  using assms homebrew_settings_key_keeps [of env n k v "case pt_settings p of Homebrew_settings h \<Rightarrow> h"]
  by (auto simp: homebrew_key_def homebrew_of_def proto_kept_def keeps_defaults_def bind_eq_Some_conv
    split: if_splits proto_settings.splits dest!: name_key_keeps)

lemma mbe_key_keeps:
  assumes "mbe_key env n k v p = Some (r, p')" "proto_kept t p"
  shows "proto_kept t p'"
  using assms
  by (auto simp: mbe_key_def mbe_of_def proto_kept_def keeps_defaults_def bind_eq_Some_conv
    split: if_splits proto_settings.splits dest!: name_key_keeps)

lemma mmdvm_key_keeps:
  assumes "mmdvm_key env n k v p = Some (r, p')" "proto_kept t p"
  shows "proto_kept t p'"
  using assms mmdvm_settings_key_keeps [of env n k v "case pt_settings p of Mmdvm_settings m \<Rightarrow> m"]
  by (auto simp: mmdvm_key_def mmdvm_of_def proto_kept_def keeps_defaults_def bind_eq_Some_conv
    split: if_splits proto_settings.splits dest!: name_key_keeps)

lemma with_proto_ok:
  assumes "with_proto f cfg = Some (r, cfg')" "config_ok env cfg" "section_type (cf_section cfg) = Some t"
    and "\<And>p r p'. f p = Some (r, p') \<Longrightarrow> proto_kept t p \<Longrightarrow> proto_kept t p'"
  shows "config_ok env cfg'"
proof -
  from assms(2,3) obtain ps p where ps: "cf_proto cfg = ps @ [p]" "proto_kept t p"
    by (cases "cf_proto cfg" rule: rev_cases) (auto simp: config_ok_def proto_kept_def)
  then obtain p' where "f p = Some (r, p')" "cfg' = cfg\<lparr>cf_proto := ps @ [p']\<rparr>"
    using assms(1) by (auto simp: with_proto_def)
  with assms ps show ?thesis by (auto simp: config_ok_def proto_kept_def)
qed

lemma proto_section_ok:
  assumes "proto_section close on_key line cfg = Some (r, cfg')" "config_ok env cfg" "section_type (cf_section cfg) = Some t"
    and "\<And>r cfg'. close cfg = Some (r, cfg') \<Longrightarrow> config_ok env cfg'"
    and "\<And>k v p r p'. on_key k v p = Some (r, p') \<Longrightarrow> proto_kept t p \<Longrightarrow> proto_kept t p'"
  shows "config_ok env cfg'"
proof -
  have "read_section close (\<lambda>k v. with_proto (on_key k v)) line cfg = Some (r, cfg')"
    using assms(1) by (simp add: proto_section_def split: if_splits)
  then show ?thesis
    by (rule read_section_inv) (use assms with_proto_ok in blast)+
qed

lemma close_section_ok:
  assumes "close_section cfg = Some (r, cfg')" "config_ok env cfg" "cf_proto cfg \<noteq> [] \<Longrightarrow> has_peer env (last (cf_proto cfg))"
  shows "config_ok env cfg'"
proof (cases "cf_proto cfg" rule: rev_cases)
  case (snoc ps p)
  then show ?thesis using assms by (auto simp: close_section_def config_ok_def section_type_def)
qed (use assms in \<open>auto simp: close_section_def config_ok_def section_type_def\<close>)

lemma close_plain_ok:
  assumes "close_section cfg = Some (r, cfg')" "config_ok env cfg" "section_type (cf_section cfg) = None"
  shows "config_ok env cfg'"
  using assms by (auto simp: close_section_def config_ok_def section_type_def)

lemma close_mbe_mmdvm_ok:
  assumes "close_section cfg = Some (r, cfg')" "config_ok env cfg" "section_type (cf_section cfg) = Some t" "t \<noteq> DMR_PROTOCOL_HOMEBREW"
  shows "config_ok env cfg'"
proof (rule close_section_ok [OF assms(1,2)])
  assume "cf_proto cfg \<noteq> []"
  then have "keeps_defaults (last (cf_proto cfg))" "pt_type (last (cf_proto cfg)) = t"
    using assms(2,3) by (auto simp: config_ok_def)
  with assms(4) show "has_peer env (last (cf_proto cfg))"
    by (auto simp: keeps_defaults_def has_peer_def split: proto_settings.splits)
qed

lemma close_homebrew_ok:
  assumes "close_homebrew env cfg = Some (r, cfg')" "config_ok env cfg"
  shows "config_ok env cfg'"
proof -
  obtain h where h: "pt_settings (last (cf_proto cfg)) = Homebrew_settings h"
    and "if byte_equal (ce_common env) (hs_peer_ip h) (ce_ip6any env) 16 then Some (-1, cfg) = Some (r, cfg') else close_section cfg = Some (r, cfg')"
    using assms(1) by (auto simp: close_homebrew_def homebrew_of_def bind_eq_Some_conv split: proto_settings.splits if_splits)
  then consider "cfg' = cfg" | "has_peer env (last (cf_proto cfg))" "close_section cfg = Some (r, cfg')"
    by (auto simp: has_peer_def split: if_splits)
  then show ?thesis using assms(2) close_section_ok by cases auto
qed

lemma config_ok_cong:
  "cf_proto cfg' = cf_proto cfg \<Longrightarrow> section_type (cf_section cfg') = section_type (cf_section cfg) \<Longrightarrow>
   config_ok env cfg' = config_ok env cfg"
  by (simp add: config_ok_def cong: option.case_cong)

lemma config_ok_timeout [simp]: "config_ok env (cfg\<lparr>cf_timeout := t\<rparr>) = config_ok env cfg"
  by (rule config_ok_cong) simp_all

lemma repeater_key_keeps:
  assumes "repeater_key env n k v cfg = Some (r, cfg')"
  shows "cf_proto cfg' = cf_proto cfg \<and> cf_section cfg' = cf_section cfg"
  using assms by (auto simp: repeater_key_def split: if_splits dest!: set_field_cases)

lemma httpd_key_keeps:
  assumes "httpd_key env k v cfg = Some (r, cfg')"
  shows "cf_proto cfg' = cf_proto cfg \<and> cf_section cfg' = cf_section cfg \<and> cf_timeout cfg' = cf_timeout cfg"
  using assms by (auto simp: httpd_key_def Let_def split: if_splits prod.splits)

lemma add_proto_ok:
  assumes "add_proto mem sect p cfg = Some (r, cfg')" "config_ok env cfg" "section_type (cf_section cfg) = None"
    and "keeps_defaults p" "section_type sect = Some (pt_type p)"
  shows "config_ok env cfg'"
  using assms by (auto simp: add_proto_def config_ok_def split: if_splits)

lemma defaults_keep [simp]:
  "keeps_defaults (homebrew_defaults env)" "keeps_defaults mbe_defaults" "keeps_defaults mmdvm_defaults"
  "pt_type (homebrew_defaults env) = DMR_PROTOCOL_HOMEBREW" "pt_type mbe_defaults = DMR_PROTOCOL_MBE"
  "pt_type mmdvm_defaults = DMR_PROTOCOL_MMDVM"
  by (simp_all add: keeps_defaults_def homebrew_defaults_def mbe_defaults_def mmdvm_defaults_def)

lemma switch_section_ok:
  assumes "switch_section env n k cfg = Some (r, cfg')" "config_ok env cfg" "section_type (cf_section cfg) = None"
  shows "config_ok env cfg'"
proof -
  have plain: "config_ok env (cfg\<lparr>cf_section := sect\<rparr>)" "config_ok env (cfg\<lparr>cf_section := sect, cf_httpd_enabled := b\<rparr>)"
    if "section_type sect = None" for sect b using assms(2,3) that by (simp_all add: config_ok_def)
  have [simp]: "section_type Read_config_homebrew = Some DMR_PROTOCOL_HOMEBREW"
    "section_type Read_config_mbe = Some DMR_PROTOCOL_MBE" "section_type Read_config_mmdvm = Some DMR_PROTOCOL_MMDVM"
    "section_type Read_config_repeater = None" "section_type Read_config_dmrid = None" "section_type Read_config_httpd = None"
    by (simp_all add: section_type_def)
  show ?thesis using assms plain
    by (auto simp: switch_section_def split: if_splits intro: add_proto_ok)
qed

lemma read_config_cases:
  assumes "read_config env line n (cfg, ids) = Some (r, cfg', ids')"
  obtains "ignored line" "cfg' = cfg"
    | k r' where "\<not> ignored line" "switch_section env n k (cfg\<lparr>cf_timeout := 180\<rparr>) = Some (r', cfg')"
        "last line = CHR ''{''" "\<exists>k' v. strtok_r (Some line) ''{'' None = Some (Some k', v) \<and> k = trim k'"
    | "\<not> ignored line" "cfg' = cfg\<lparr>cf_timeout := 180\<rparr>"
  using assms
  by (auto simp: read_config_def Let_def bind_eq_Some_conv top_key_def split: if_splits prod.splits bool.splits option.splits)

lemma read_config_ok:
  assumes "read_config env line n (cfg, ids) = Some (r, cfg', ids')" "config_ok env cfg" "section_type (cf_section cfg) = None"
  shows "config_ok env cfg'"
  using assms(1)
proof (cases rule: read_config_cases)
  case (2 k r')
  then show ?thesis using switch_section_ok assms(2,3) by simp
qed (use assms(2) in simp_all)

lemma repeater_ok:
  assumes "read_config_repeater env line n cfg = Some (r, cfg')" "config_ok env cfg" "section_type (cf_section cfg) = None"
  shows "config_ok env cfg'"
  using assms(1) unfolding read_config_repeater_def
proof (rule read_section_inv)
  show "config_ok env cfg'" if "repeater_key env n k v cfg = Some (r, cfg')" for k v r cfg'
    using repeater_key_keeps [OF that] config_ok_cong assms(2) by metis
qed (use assms(2,3) close_plain_ok in blast)+

lemma httpd_ok:
  assumes "read_config_httpd env line cfg = Some (r, cfg')" "config_ok env cfg" "section_type (cf_section cfg) = None"
  shows "config_ok env cfg'"
  using assms(1) unfolding read_config_httpd_def
proof (rule read_section_inv)
  show "config_ok env cfg'" if "close_httpd cfg = Some (r, cfg')" for r cfg'
    using that assms(2,3) by (auto simp: close_httpd_def close_section_def config_ok_def section_type_def split: if_splits)
  show "config_ok env cfg'" if "httpd_key env k v cfg = Some (r, cfg')" for k v r cfg'
    using httpd_key_keeps [OF that] config_ok_cong assms(2) by metis
qed fact

lemma dmrid_ok:
  assumes "read_config_dmrid env line (cfg, ids) = Some (r, cfg', ids')" "config_ok env cfg" "section_type (cf_section cfg) = None"
  shows "config_ok env cfg'"
proof -
  have "config_ok env (fst (cfg', ids'))"
    using assms(1) unfolding read_config_dmrid_def
    by (rule read_section_inv)
      (use assms(2,3) close_plain_ok in \<open>auto simp: dmrid_key_def bind_eq_Some_conv Let_def split: if_splits\<close>)
  then show ?thesis by simp
qed

lemma config_section_ok:
  assumes "config_section env line n (cfg, ids) = Some (r, cfg', ids')" "config_ok env cfg"
  shows "config_ok env cfg'"
proof (cases "cf_section cfg")
  case Read_config
  with assms read_config_ok show ?thesis by (simp add: config_section_def Let_def section_type_def)
next
  case Read_config_repeater
  with assms repeater_ok show ?thesis by (auto simp: config_section_def Let_def section_type_def)
next
  case Read_config_dmrid
  with assms dmrid_ok show ?thesis by (auto simp: config_section_def Let_def section_type_def)
next
  case Read_config_httpd
  with assms httpd_ok show ?thesis by (auto simp: config_section_def Let_def section_type_def)
next
  case Read_config_homebrew
  then have "read_config_homebrew env line n cfg = Some (r, cfg')" using assms(1) by (auto simp: config_section_def Let_def)
  then show ?thesis unfolding read_config_homebrew_def
    by (rule proto_section_ok [where t = DMR_PROTOCOL_HOMEBREW])
      (use assms(2) Read_config_homebrew close_homebrew_ok homebrew_key_keeps in \<open>auto simp: section_type_def\<close>)
next
  case Read_config_mbe
  then have "read_config_mbe env line n cfg = Some (r, cfg')" using assms(1) by (auto simp: config_section_def Let_def)
  then show ?thesis unfolding read_config_mbe_def
    by (rule proto_section_ok [where t = DMR_PROTOCOL_MBE])
      (use assms(2) Read_config_mbe close_mbe_mmdvm_ok mbe_key_keeps in \<open>auto simp: section_type_def\<close>)
next
  case Read_config_mmdvm
  then have "read_config_mmdvm env line n cfg = Some (r, cfg')" using assms(1) by (auto simp: config_section_def Let_def)
  then show ?thesis unfolding read_config_mmdvm_def
    by (rule proto_section_ok [where t = DMR_PROTOCOL_MMDVM])
      (use assms(2) Read_config_mmdvm close_mbe_mmdvm_ok mmdvm_key_keeps in \<open>auto simp: section_type_def\<close>)
qed

text \<open>An invariant of the sections is one of the whole file.\<close>

lemma config_lines_inv:
  assumes "config_lines env n lines s = Some (r, s')" "P (fst s)"
    and "\<And>line n cfg ids r cfg' ids'. line \<in> set lines \<Longrightarrow>
      config_section env (trim line) n (cfg, ids) = Some (r, cfg', ids') \<Longrightarrow> P cfg \<Longrightarrow> P cfg'"
  shows "P (fst s')"
  using assms
proof (induction lines arbitrary: n s)
  case (Cons line lines)
  obtain r1 s1 where s1: "config_section env (trim line) (Suc n) s = Some (r1, s1)"
    using Cons.prems(1) by (auto split: option.splits)
  then have "P (fst s1)"
    using Cons.prems(2) Cons.prems(3) [of line "Suc n" "fst s" "snd s" r1 "fst s1" "snd s1"] by simp
  moreover have "P (fst s')" if "config_lines env (Suc n) lines s1 = Some (r, s')" "P (fst s1)"
  proof (rule Cons.IH [OF that])
    show "P cfg'" if "line \<in> set lines" "config_section env (trim line) n (cfg, ids) = Some (r, cfg', ids')" "P cfg"
      for line n cfg ids r cfg' ids' using that Cons.prems(3) [of line n cfg ids r cfg' ids'] by simp
  qed
  ultimately show ?case using s1 Cons.prems(1) by (auto split: if_splits)
qed simp

section \<open>The timeout\<close>

definition opens_repeater :: "string \<Rightarrow> bool" where
  "opens_repeater line \<longleftrightarrow>
     line \<noteq> [] \<and> last line = CHR ''{'' \<and>
     (case strtok_r (Some line) ''{'' None of Some (Some k, v) \<Rightarrow> trim k = ''repeater'' | _ \<Rightarrow> False)"

definition timeout_default :: "config_t \<Rightarrow> bool" where
  "timeout_default cfg \<longleftrightarrow> cf_timeout cfg = 180 \<and> cf_section cfg \<noteq> Read_config_repeater"

lemma proto_section_timeout:
  assumes "proto_section close on_key line cfg = Some (r, cfg')" "timeout_default cfg"
    and "\<And>r cfg'. close cfg = Some (r, cfg') \<Longrightarrow> timeout_default cfg'"
  shows "timeout_default cfg'"
proof -
  have "read_section close (\<lambda>k v. with_proto (on_key k v)) line cfg = Some (r, cfg')"
    using assms(1) by (simp add: proto_section_def split: if_splits)
  then show ?thesis
    by (rule read_section_inv) (use assms in \<open>auto simp: with_proto_def timeout_default_def split: if_splits\<close>)
qed

lemma close_section_timeout: "close_section cfg = Some (r, cfg') \<Longrightarrow> timeout_default cfg \<Longrightarrow> timeout_default cfg'"
  by (auto simp: close_section_def timeout_default_def)

lemma switch_section_timeout:
  assumes "switch_section env n k cfg = Some (r, cfg')" "k \<noteq> ''repeater''" "timeout_default cfg"
  shows "timeout_default cfg'"
  using assms by (auto simp: switch_section_def add_proto_def timeout_default_def split: if_splits)

lemma read_config_timeout:
  assumes "read_config env line n (cfg, ids) = Some (r, cfg', ids')" "\<not> opens_repeater line"
    and "cf_section cfg = Read_config" "ignored line \<Longrightarrow> timeout_default cfg"
  shows "timeout_default cfg'"
  using assms(1)
proof (cases rule: read_config_cases)
  case (2 k r')
  then have "k \<noteq> ''repeater''" using assms(2) by (auto simp: opens_repeater_def ignored_def)
  then show ?thesis using 2 assms(3) switch_section_timeout by (auto simp: timeout_default_def)
qed (use assms in \<open>auto simp: timeout_default_def\<close>)

lemma config_section_timeout:
  assumes "config_section env line n (cfg, ids) = Some (r, cfg', ids')" "\<not> opens_repeater line" "timeout_default cfg"
  shows "timeout_default cfg'"
proof (cases "cf_section cfg")
  case Read_config
  with assms read_config_timeout show ?thesis by (simp add: config_section_def Let_def)
next
  case Read_config_repeater
  with assms(3) show ?thesis by (simp add: timeout_default_def)
next
  case Read_config_dmrid
  then have "read_config_dmrid env line (cfg, ids) = Some (r, cfg', ids')" using assms(1) by (simp add: config_section_def Let_def)
  then have "timeout_default (fst (cfg', ids'))" unfolding read_config_dmrid_def
    by (rule read_section_inv)
      (use assms(3) close_section_timeout in \<open>auto simp: dmrid_key_def bind_eq_Some_conv Let_def split: if_splits\<close>)
  then show ?thesis by simp
next
  case Read_config_httpd
  then have "read_config_httpd env line cfg = Some (r, cfg')" using assms(1) by (auto simp: config_section_def Let_def)
  then show ?thesis unfolding read_config_httpd_def
    by (rule read_section_inv)
      (use assms(3) httpd_key_keeps in \<open>auto simp: close_httpd_def close_section_def timeout_default_def\<close>)
next
  case Read_config_homebrew
  then have "read_config_homebrew env line n cfg = Some (r, cfg')" using assms(1) by (auto simp: config_section_def Let_def)
  then show ?thesis unfolding read_config_homebrew_def
    by (rule proto_section_timeout)
      (use assms(3) close_section_timeout in \<open>auto simp: close_homebrew_def bind_eq_Some_conv split: if_splits\<close>)
next
  case Read_config_mbe
  then have "read_config_mbe env line n cfg = Some (r, cfg')" using assms(1) by (auto simp: config_section_def Let_def)
  then show ?thesis unfolding read_config_mbe_def
    by (rule proto_section_timeout) (use assms(3) close_section_timeout in auto)
next
  case Read_config_mmdvm
  then have "read_config_mmdvm env line n cfg = Some (r, cfg')" using assms(1) by (auto simp: config_section_def Let_def)
  then show ?thesis unfolding read_config_mmdvm_def
    by (rule proto_section_timeout) (use assms(3) close_section_timeout in auto)
qed

section \<open>The list of identifiers\<close>

text \<open>
  A line of the list with its fields; and what the code makes of it: the identifier with the call, or with the call and
  the name in parentheses.
\<close>

fun csv_body :: "string list \<Rightarrow> string" where
  "csv_body [] = []"
| "csv_body [f] = f"
| "csv_body (f # g # fs) = f @ CHR '','' # csv_body (g # fs)"

definition csv_text :: "string list \<Rightarrow> string" where
  "csv_text fs = csv_body fs @ [CHR 0x0A]"

definition csv_field :: "string \<Rightarrow> bool" where
  "csv_field f \<longleftrightarrow> f \<noteq> [] \<and> trimmed f \<and> CHR '','' \<notin> set f"

definition csv_id :: "string \<Rightarrow> dmr_id" where
  "csv_id f = of_int (the (atoi f))"

definition csv_row :: "string list \<Rightarrow> bool" where
  "csv_row fs \<longleftrightarrow> fs \<noteq> [] \<and> list_all csv_field fs \<and> atoi (hd fs) \<noteq> None \<and> csv_id (hd fs) \<noteq> 0"

fun csv_entry :: "string list \<Rightarrow> (dmr_id \<times> string \<times> bool \<times> bool) list" where
  "csv_entry [i, call, name] = [(csv_id i, take 62 call, True, True)]"
| "csv_entry (i # call # name # f # fs) = [(csv_id i, take 62 (call @ '' ('' @ name @ '')''), True, True)]"
| "csv_entry _ = []"

lemma csv_body_hd: "csv_field f \<Longrightarrow> csv_body (f # fs) \<noteq> [] \<and> hd (csv_body (f # fs)) = hd f"
  by (cases fs) (auto simp: csv_field_def)

lemma csv_body_last: "fs \<noteq> [] \<Longrightarrow> list_all csv_field fs \<Longrightarrow> last (csv_body fs) = last (last fs)"
proof (induction fs rule: csv_body.induct)
  case (3 f g fs)
  then show ?case using csv_body_hd [of g fs] by simp
qed auto

lemma csv_body_trimmed: "fs \<noteq> [] \<Longrightarrow> list_all csv_field fs \<Longrightarrow> trim (csv_body fs) = csv_body fs"
proof (rule trim_trimmed)
  assume fs: "fs \<noteq> []" "list_all csv_field fs"
  then have "csv_field (hd fs)" "csv_field (last fs)" by (auto simp: list_all_iff)
  moreover have "hd (csv_body fs) = hd (hd fs)" using fs csv_body_hd [of "hd fs" "tl fs"] by (auto simp: list_all_iff)
  ultimately show "trimmed (csv_body fs)" using csv_body_last [OF fs] by (auto simp: trimmed_def csv_field_def)
qed

lemma csv_split:
  assumes "list_all csv_field (f # g # fs)"
  shows "split_line (csv_body (f # g # fs)) '','' v = Some (True, Some f, Some (csv_body (g # fs)))"
    and "split_line (csv_text (f # g # fs)) '','' v = Some (True, Some f, Some (csv_body (g # fs)))"
    and "split_line f '','' v = Some (False, Some f, Some [])"
proof -
  have f: "f \<noteq> []" "CHR '','' \<notin> set f" "trim f = f" using assms by (auto simp: csv_field_def)
  have t: "trim (csv_body (g # fs)) = csv_body (g # fs)" using assms by (simp add: csv_body_trimmed)
  moreover have "c_isspace (CHR 0x0A)" by (simp add: c_isspace_def)
  moreover have "csv_body (g # fs) \<noteq> []" using assms csv_body_hd [of g fs] by simp
  ultimately show "split_line (csv_body (f # g # fs)) '','' v = Some (True, Some f, Some (csv_body (g # fs)))"
    "split_line (csv_text (f # g # fs)) '','' v = Some (True, Some f, Some (csv_body (g # fs)))"
    "split_line f '','' v = Some (False, Some f, Some [])"
    using split_field(1) [OF f(1,2), of "csv_body (g # fs)" v]
      split_field(1) [OF f(1,2), of "csv_body (g # fs) @ [CHR 0x0A]" v] split_field(2) [OF f(1,2), of v] f(3)
    by (simp_all add: csv_text_def)
qed

lemma dmrids_line_row:
  assumes "csv_row fs"
  shows "dmrids_line (csv_text fs) = Some (case csv_entry fs of [] \<Rightarrow> None | (i, n, _) # _ \<Rightarrow> Some (i, n))"
proof -
  have last1: "split_line f '','' v = Some (False, Some f, Some [])" if "csv_field f" for f v
    using split_field(2) [of f "CHR '',''" v] that by (simp add: csv_field_def)
  obtain i fs' n where fs: "fs = i # fs'" "atoi i = Some n" "of_int n \<noteq> (0 :: dmr_id)" "csv_id i = of_int n"
    using assms by (cases fs) (auto simp: csv_row_def csv_id_def)
  have all: "list_all csv_field fs" using assms by (simp add: csv_row_def)
  consider "fs' = []" | call where "fs' = [call]" | call name where "fs' = [call, name]"
    | call name f rest where "fs' = call # name # f # rest"
    by (metis list.exhaust)
  then show ?thesis
  proof cases
    case 1
    have "CHR '','' \<notin> set (i @ [CHR 0x0A])" using all fs(1) 1 by (auto simp: csv_field_def)
    then show ?thesis using 1 fs split_field(2) [of "i @ [CHR 0x0A]" "CHR '',''" "Some None"]
      by (simp add: dmrids_line_def csv_text_def)
  next
    case 2
    then show ?thesis using fs all csv_split(2) [of i call "[]" "Some None"] last1
      by (simp add: dmrids_line_def dmrids_call_def)
  next
    case 3
    then show ?thesis using fs all csv_split(2) [of i call "[name]" "Some None"] csv_split(1) [of call name "[]"] last1
      by (simp add: dmrids_line_def dmrids_call_def dmrids_name_def del: csv_body.simps(3))
  next
    case 4
    moreover have "name \<noteq> []" using all 4 fs(1) by (simp add: csv_field_def)
    ultimately show ?thesis
      using fs all csv_split(2) [of i call "name # f # rest" "Some None"] csv_split(1) [of call name "f # rest"]
        csv_split(1) [of name f rest]
      by (simp add: dmrids_line_def dmrids_call_def dmrids_name_def del: csv_body.simps(3))
  qed
qed

lemma first_names_append: "first_names (xs @ ys) m = first_names ys (first_names xs m)"
  by (induction xs m rule: first_names.induct) auto

lemma csv_entry_cases: "csv_entry fs = [] \<or> (\<exists>i n. csv_entry fs = [(i, n, True, True)])"
  by (cases fs rule: csv_entry.cases) auto

lemma dmrids_loop_rows:
  assumes "rb_map head t" "\<forall>fs \<in> set rows. csv_row fs" "\<forall>i. ce_id env i = (True, True)"
  shows "\<exists>head' t'. dmrids_loop env (map csv_text rows) (Some head) = Some (Some head') \<and> rb_map head' t' \<and>
    names t' = first_names (concat (map csv_entry rows)) (names t)"
  using assms(1,2)
proof (induction rows arbitrary: head t)
  case (Cons fs rows)
  have line: "dmrids_line (csv_text fs) = Some (case csv_entry fs of [] \<Rightarrow> None | (i, n, _) # _ \<Rightarrow> Some (i, n))"
    using Cons.prems(2) dmrids_line_row by simp
  show ?case using csv_entry_cases [of fs]
  proof (elim disjE exE)
    assume "csv_entry fs = []"
    then show ?thesis using line Cons.IH [OF Cons.prems(1)] Cons.prems(2) by simp
  next
    fix i n assume e: "csv_entry fs = [(i, n, True, True)]"
    obtain r h1 t1 where "dmr_idmap_add (True, True) (Some head) i (Some n) = Some (r, Some h1)" "rb_map h1 t1" "r = 0"
      "names t1 = first_names (csv_entry fs) (names t)"
      using add_map [OF Cons.prems(1), of "(True, True)" i n] e by auto
    then show ?thesis using line e Cons.IH [of h1 t1] Cons.prems(2) assms(3)
      by (simp add: dmr_id_add_def dmr_id_init_def first_names_append)
  qed
qed auto

section \<open>Properties\<close>

text \<open>
  C36. An accepted configuration has a script and between one and sixteen protocols, which are of the type of their
  settings.  Every protocol has a peer, except perhaps one whose section was not closed at the end of the file.  No
  key has changed the port of a peer, the color code of a modem or the quality of the audio from its default:
  the key is refused as a duplicate because the default is not zero.
\<close>

theorem accepted_config_keeps_defaults:
  assumes "init_config env (Some file) (Config_null, ids) = Some (0, cp, ids')"
  shows "\<exists>cfg. cp = Config_at cfg \<and> cf_script cfg \<noteq> None \<and>
    1 \<le> length (cf_proto cfg) \<and> length (cf_proto cfg) \<le> NOISEBRIDGE_MAX_PROTOS \<and>
    (\<forall>p \<in> set (cf_proto cfg). keeps_defaults p) \<and> (\<forall>p \<in> set (butlast (cf_proto cfg)). has_peer env p) \<and>
    (cf_section cfg = Read_config_homebrew \<or> (\<forall>p \<in> set (cf_proto cfg). has_peer env p))"
proof -
  let ?c = "(config_defaults env)\<lparr>cf_filename := Some file\<rparr>"
  obtain lines r cfg where run: "config_lines env 0 lines (?c, ids) = Some (r, cfg, ids')"
    "config_finish (r, cfg, ids') = (0, cp, ids')"
    using assms by (auto simp: init_config_def config_load_def Let_def config_finish_def split: if_splits option.splits)
  have "config_ok env ?c" by (simp add: config_ok_def config_defaults_def Let_def section_type_def)
  then have "config_ok env (fst (cfg, ids'))" using run(1) config_section_ok by (rule_tac config_lines_inv) auto
  moreover have "cp = Config_at cfg" "cf_script cfg \<noteq> None" "cf_proto cfg \<noteq> []"
    using run(2) by (auto simp: config_finish_def split: if_splits)
  moreover have "has_peer env (last (cf_proto cfg))"
    if "config_ok env cfg" "section_type (cf_section cfg) = Some t" "t \<noteq> DMR_PROTOCOL_HOMEBREW" for t
  proof -
    have "keeps_defaults (last (cf_proto cfg))" "pt_type (last (cf_proto cfg)) = t"
      using that by (auto simp: config_ok_def)
    with that(3) show ?thesis by (auto simp: keeps_defaults_def has_peer_def split: proto_settings.splits)
  qed
  moreover have "set (cf_proto cfg) = set (butlast (cf_proto cfg)) \<union> {last (cf_proto cfg)}" if "cf_proto cfg \<noteq> []"
    using that by (cases "cf_proto cfg" rule: rev_cases) auto
  ultimately show ?thesis
    by (auto simp: config_ok_def Suc_le_eq section_type_def split: parse_section_t.splits)
qed

text \<open>The files of the witnesses.\<close>

definition demo_file :: "string \<Rightarrow> string list option" where
  "demo_file name =
     (if name = ''bridge.cfg'' then Some
        [''repeater {'', ''  script  = route.lua'', ''  timeout = 60'', ''}'', ''# the modem'',
         ''mmdvm {'', ''  name = modem'', ''  port = /dev/ttyACM0'', ''}'', ''homebrew {'', ''  host = master'', ''}'']
      else if name = ''ids.csv''
      then Some (map csv_text [[''204'', ''NL'', ''Netherlands'', ''EU''], [''9000'', ''echo'', ''test''], [''9'', ''local'']])
      else None)"

definition demo_cfg_env :: config_env where
  "demo_cfg_env = \<lparr>ce_common = std_common, ce_mem = (True, True), ce_strdup = (\<lambda>_. True), ce_talloc = (\<lambda>_. True),
     ce_idmap = True, ce_id = (\<lambda>_. (True, True)), ce_file = demo_file, ce_scan_ip6 = (\<lambda>_. (0, zero_ip)),
     ce_ip6resolve = (\<lambda>_. (0, replicate 16 1)), ce_path_canonical = (\<lambda>p. p), ce_serial_find = (\<lambda>_. (-1, None)),
     ce_atof = (\<lambda>_. 0), ce_ip6any = zero_ip, ce_ip6mappedv4prefix = replicate 12 0, ce_ip4loopback = [127, 0, 0, 1],
     ce_mbelib = False, ce_portaudio = False\<rparr>"

text \<open>What \<open>bridge.cfg\<close> configures.\<close>

definition demo_config :: config_t where
  "demo_config = (config_defaults demo_cfg_env)\<lparr>cf_filename := Some ''bridge.cfg'', cf_script := Some ''route.lua'',
     cf_timeout := 180,
     cf_proto := [mmdvm_defaults\<lparr>pt_name := Some ''modem'', pt_settings := Mmdvm_settings
         \<lparr>ms_port = Some ''/dev/ttyACM0'', ms_baud = 115200, ms_model = DMR_MMDVM_MODEL_G4KLX, ms_color_code = 1, ms_rx_freq = 0, ms_tx_freq = 0\<rparr>\<rparr>,
       (homebrew_defaults demo_cfg_env)\<lparr>pt_settings := Homebrew_settings
         \<lparr>hs_peer_ip = replicate 16 1, hs_peer_port = 62030, hs_bind_ip = zero_ip, hs_bind_port = 0,
          hs_auth = None, hs_call = None, hs_repeater_id = 0, hs_color_code = 0, hs_rx_freq = 0, hs_tx_freq = 0,
          hs_tx_power = 0, hs_height = 0, hs_latitude = 0, hs_longitude = 0\<rparr>\<rparr>]\<rparr>"

definition demo_start :: config_t where
  "demo_start = (config_defaults demo_cfg_env)\<lparr>cf_filename := Some ''bridge.cfg'', cf_script := Some ''route.lua'', cf_timeout := 60\<rparr>"

definition demo_reads :: "nat \<Rightarrow> string list \<Rightarrow> config_t \<Rightarrow> config_t \<Rightarrow> bool" where
  "demo_reads n lines cfg cfg' =
     (case config_lines demo_cfg_env n lines (cfg, None) of Some (r, c, None) \<Rightarrow> r = 0 \<and> c = cfg' | _ \<Rightarrow> False)"

lemma demo_reads: "demo_reads n lines cfg cfg' \<Longrightarrow> config_lines demo_cfg_env n lines (cfg, None) = Some (0, cfg', None)"
  by (auto simp: demo_reads_def split: option.splits)

lemma demo_init: "init_config demo_cfg_env (Some ''bridge.cfg'') (Config_null, None) = Some (0, Config_at demo_config, None)"
proof -
  have "demo_reads 0 (the (demo_file ''bridge.cfg'')) ((config_defaults demo_cfg_env)\<lparr>cf_filename := Some ''bridge.cfg''\<rparr>) demo_config"
    by code_simp
  from demo_reads [OF this] show ?thesis
    by (simp add: init_config_def config_load_def config_finish_def Let_def demo_cfg_env_def demo_file_def demo_config_def)
qed

theorem accepted_config_keeps_defaults_witness:
  "cf_proto demo_config \<noteq> [] \<and> list_all (\<lambda>p. keeps_defaults p \<and> has_peer demo_cfg_env p) (cf_proto demo_config)"
proof -
  have "cf_section demo_config = Read_config" by (simp add: demo_config_def config_defaults_def Let_def)
  then show ?thesis using accepted_config_keeps_defaults [OF demo_init] by (auto simp: list_all_iff)
qed

text \<open>A file may end within a section, so that a Homebrew protocol without a peer is accepted.\<close>

lemma unclosed_homebrew_accepted:
  "case config_lines demo_cfg_env 0 [''repeater {'', ''script = a.lua'', ''}'', ''homebrew {'', ''call = N0CALL''] (config_defaults demo_cfg_env, None) of
     Some (r, cfg, None) \<Rightarrow> r = 0 \<and> (case config_finish (r, cfg, None) of (r, Config_at c, None) \<Rightarrow> r = 0 \<and> \<not> has_peer demo_cfg_env (last (cf_proto c)) | _ \<Rightarrow> False)
   | _ \<Rightarrow> False"
  by code_simp

text \<open>
  C37. The timeout of the repeater only takes effect if no other section and no other key follows: each such line sets
  it back to 180, whatever the file said before.
\<close>

theorem timeout_lost_behind_other_lines:
  assumes "cf_section (fst s) = Read_config" "\<not> ignored (trim line)"
    and "\<forall>x \<in> set (line # lines). \<not> opens_repeater (trim x)"
    and "config_lines env n (line # lines) s = Some (r, s')"
  shows "cf_timeout (fst s') = 180"
proof -
  obtain r1 s1 where s1: "config_section env (trim line) (Suc n) s = Some (r1, s1)"
    using assms(4) by (auto split: option.splits)
  have "timeout_default (fst s1)"
    using read_config_timeout [of env "trim line" "Suc n" "fst s" "snd s" r1 "fst s1" "snd s1"] s1 assms(1-3)
    by (simp add: config_section_def)
  moreover have "timeout_default (fst s')" if "config_lines env (Suc n) lines s1 = Some (r, s')" "timeout_default (fst s1)"
    using that by (rule config_lines_inv) (use assms(3) config_section_timeout in auto)
  ultimately show ?thesis using s1 assms(4) by (auto simp: timeout_default_def split: if_splits)
qed

theorem timeout_lost_behind_other_lines_witness:
  "demo_reads 0 (take 5 (the (demo_file ''bridge.cfg''))) ((config_defaults demo_cfg_env)\<lparr>cf_filename := Some ''bridge.cfg''\<rparr>) demo_start \<and>
   cf_timeout demo_start = 60 \<and>
   (\<exists>cfg. config_lines demo_cfg_env 5 (drop 5 (the (demo_file ''bridge.cfg''))) (demo_start, None) = Some (0, cfg, None) \<and> cf_timeout cfg = 180)"
proof (intro conjI exI)
  let ?lines = "drop 5 (the (demo_file ''bridge.cfg''))"
  show "demo_reads 0 (take 5 (the (demo_file ''bridge.cfg''))) ((config_defaults demo_cfg_env)\<lparr>cf_filename := Some ''bridge.cfg''\<rparr>) demo_start"
    by code_simp
  show "cf_timeout demo_start = 60" by (simp add: demo_start_def)
  have "demo_reads 5 ?lines demo_start demo_config" by code_simp
  from demo_reads [OF this] show run: "config_lines demo_cfg_env 5 ?lines (demo_start, None) = Some (0, demo_config, None)" .
  have "?lines = hd ?lines # tl ?lines" by (simp add: demo_file_def)
  moreover have "list_all (\<lambda>x. \<not> opens_repeater (trim x)) ?lines" "\<not> ignored (trim (hd ?lines))" by code_simp+
  moreover have "cf_section demo_start = Read_config" by (simp add: demo_start_def config_defaults_def Let_def)
  ultimately show "cf_timeout demo_config = 180"
    using timeout_lost_behind_other_lines [of "(demo_start, None)" "hd ?lines" "tl ?lines" demo_cfg_env 5 0 "(demo_config, None)"] run
    by (simp add: list_all_iff)
qed

text \<open>
  C38. Reading the list of identifiers adds, to whatever the shared map holds, the call of every line with three fields
  and the call and the name of every line with more, cut off after 62 characters; the first entry of an identifier
  stays.  A line with an identifier and a call only is skipped, and a name counts only if a further field follows.
\<close>

theorem read_dmrids_needs_following_field:
  assumes "ce_file env file = Some (map csv_text rows)" "\<forall>fs \<in> set rows. csv_row fs"
    and "\<forall>i. ce_id env i = (True, True)" "id_adds cmds (snd (dmr_id_init True None)) = Some shared"
  shows "\<exists>shared'. read_dmrids env file shared = Some (0, shared') \<and>
    (\<forall>i. dmr_id_name i shared' = Some (first_names (cmds @ concat (map csv_entry rows)) (\<lambda>_. None) i))"
proof -
  obtain head t where h: "shared = Some head" "rb_map head t" "names t = first_names cmds (\<lambda>_. None)"
    using adds_from_init [of cmds] assms(4) by auto
  obtain head' t' where l: "dmrids_loop env (map csv_text rows) (Some head) = Some (Some head')" "rb_map head' t'"
    "names t' = first_names (concat (map csv_entry rows)) (names t)"
    using dmrids_loop_rows [OF h(2) assms(2,3)] by blast
  then have "read_dmrids env file shared = Some (0, Some head')"
    using assms(1) h(1) size_map [OF l(2)] by (simp add: read_dmrids_def)
  then show ?thesis using get_map [OF l(2)] l(3) h(3) by (simp add: dmr_id_name_def first_names_append)
qed

theorem read_dmrids_needs_following_field_witness:
  "\<exists>shared. read_dmrids demo_cfg_env ''ids.csv'' (snd (dmr_id_init True None)) = Some (0, shared) \<and>
     dmr_id_name 204 shared = Some (Some ''NL (Netherlands)'') \<and> dmr_id_name 9000 shared = Some (Some ''echo'') \<and>
     dmr_id_name 9 shared = Some None"
proof -
  let ?rows = "[[''204'', ''NL'', ''Netherlands'', ''EU''], [''9000'', ''echo'', ''test''], [''9'', ''local'']]"
  have names: "concat (map csv_entry ?rows) = [(204, ''NL (Netherlands)'', True, True), (9000, ''echo'', True, True)]"
    by code_simp
  have "ce_file demo_cfg_env ''ids.csv'' = Some (map csv_text ?rows)" by (simp add: demo_cfg_env_def demo_file_def)
  moreover have "\<forall>fs \<in> set ?rows. csv_row fs" by code_simp
  moreover have "\<forall>i. ce_id demo_cfg_env i = (True, True)" by (simp add: demo_cfg_env_def)
  moreover have "id_adds [] (snd (dmr_id_init True None)) = Some (snd (dmr_id_init True None))" by simp
  ultimately obtain shared where "read_dmrids demo_cfg_env ''ids.csv'' (snd (dmr_id_init True None)) = Some (0, shared)"
    "\<And>i. dmr_id_name i shared = Some (first_names (concat (map csv_entry ?rows)) (\<lambda>_. None) i)"
    using read_dmrids_needs_following_field [of demo_cfg_env "''ids.csv''" ?rows "[]"] by auto
  then show ?thesis unfolding names by auto
qed

end
