(* ===== verification/Dmr_Start.thy ===== *)
theory Dmr_Start
  imports Dmr_Config
begin

text \<open>
  Starting the repeater: \<open>init_proto_homebrew\<close>, \<open>init_proto_mmdvm\<close> and \<open>init_repeater\<close> of
  \<open>src/cmd/noisebridge/repeater.c\<close>, which make the connections that the configuration of \<open>Dmr_Config\<close> names, and
  put them into the event loop with the callbacks of \<open>Dmr_Repeater\<close>.  A connection is at a fresh address; one that is
  not reachable after an error is left out.
\<close>

section \<open>Connections\<close>

text \<open>
  What the system answers while one protocol is started: allocations, sockets, the descriptor of a serial line before
  and after it has been opened, the conversion of a \<open>float\<close> to a \<open>double\<close>, and the writes to the line.
\<close>

record start_env =
  se_common :: common_ops
  se_ip6any :: "u8 list"
  se_hb_mems :: "bool \<times> bool"
  se_sock :: bool
  se_bind_ok :: bool
  se_strdup_call :: bool
  se_strdup_secret :: bool
  se_hb :: hb_env
  se_fd :: int
  se_double :: "u32 \<Rightarrow> u64"
  se_hb_init :: "bool list"
  se_hb_reg :: "bool \<times> bool \<times> bool"
  se_poll :: bool
  se_mm_mems :: "bool list"
  se_found :: bool
  se_line_fd :: int
  se_open_fd :: int
  se_mm :: mm_env
  se_mm_init :: "bool \<times> bool"
  se_serial :: "bool list"
  se_write :: "write_result list"
  se_mm_reg :: "bool \<times> bool"

definition POLL_HOMEBREW :: nat where "POLL_HOMEBREW = 7"
definition POLL_MMDVM :: nat where "POLL_MMDVM = 8"
definition STOP_REPEATER :: nat where "STOP_REPEATER = 9"
definition SIGINT :: int where "SIGINT = 2"

definition homebrew_configured :: "start_env \<Rightarrow> homebrew_settings \<Rightarrow> string \<Rightarrow> homebrew_config \<Rightarrow> homebrew_config" where
  "homebrew_configured env h call cfg = cfg\<lparr>cfg_call := Some (bytes_of call), cfg_repeater_id := hs_repeater_id h,
     cfg_rx_freq := ucast (hs_rx_freq h), cfg_tx_freq := ucast (hs_tx_freq h), cfg_tx_power := hs_tx_power h,
     cfg_altitude := of_int (hs_height h), cfg_latitude := se_double env (hs_latitude h),
     cfg_longitude := se_double env (hs_longitude h)\<rparr>"

definition put_homebrew :: "nat \<Rightarrow> dmr_homebrew option \<Rightarrow> int \<Rightarrow> u8 list list \<Rightarrow> psys \<Rightarrow> psys" where
  "put_homebrew a hb fd frames = in_world (\<lambda>w. w\<lparr>pw_hb := (pw_hb w)(a := hb), pw_sock := (pw_sock w)(a := fd),
     pw_sent := pw_sent w @ frames\<rparr>)"

definition put_mmdvm :: "nat \<Rightarrow> dmr_mmdvm \<Rightarrow> int \<Rightarrow> psys \<Rightarrow> psys" where
  "put_mmdvm a mm fd = in_world (\<lambda>w. w\<lparr>pw_mm := (pw_mm w)(a \<mapsto> mm), pw_serial := (pw_serial w)(a := fd)\<rparr>)"

text \<open>The result has the instance and the descriptor that are stored in the protocol.\<close>

type_synonym start_result = "(int \<times> (nat \<times> int) option \<times> psys) option"

definition init_proto_homebrew :: "start_env \<Rightarrow> nat \<Rightarrow> homebrew_settings \<Rightarrow> psys \<Rightarrow> start_result" where
  "init_proto_homebrew env q h s =
     (case dmr_homebrew_new (se_common env) (se_ip6any env) (se_hb_mems env) (se_sock env) (se_bind_ok env)
             (hs_repeater_id h) (hs_peer_ip h) (hs_peer_port h) (hs_bind_ip h) (hs_bind_port h) of
        None \<Rightarrow> Some (-1, None, s)
      | Some hb \<Rightarrow>
          (case hs_call h of
             None \<Rightarrow> Some (-1, None, s)
           | Some call \<Rightarrow>
               if \<not> se_strdup_call env then Some (-1, None, s)
               else do {
                 let hb = hb\<lparr>hb_config := homebrew_configured env h call (hb_config hb)\<rparr>;
                 (ret, hb, frames) \<leftarrow> dmr_homebrew_auth (se_hb env) (se_strdup_secret env) (Some hb) (map_option bytes_of (hs_auth h));
                 let a = sys_brk s;
                 let s = io_alloc (put_homebrew a hb (se_fd env) frames s);
                 if ret \<noteq> 0 then Some (ret, None, s)
                 else do {
                   (r, s) \<leftarrow> dmr_io_reg_read (se_poll env) (Some q) (se_fd env) POLL_HOMEBREW a False s;
                   Some (0, Some (a, se_fd env), s) } }))"

text \<open>
  The frequencies are stored before the pointer to the modem is checked, and the descriptor is read before
  \<open>dmr_mmdvm_start\<close> opens the line.
\<close>

definition init_proto_mmdvm :: "start_env \<Rightarrow> nat \<Rightarrow> mmdvm_settings \<Rightarrow> psys \<Rightarrow> start_result" where
  "init_proto_mmdvm env q m s = do {
     port \<leftarrow> ms_port m;
     mmp \<leftarrow> dmr_mmdvm_new (se_mm_mems env) (se_found env) (bytes_of port) (ms_baud m) (ms_model m) (ms_color_code m);
     mm \<leftarrow> mmp;
     let a = sys_brk s;
     let s = io_alloc (put_mmdvm a (mm\<lparr>mm_rx_freq := ms_rx_freq m, mm_tx_freq := ms_tx_freq m\<rparr>) (se_line_fd env) s);
     (r, s) \<leftarrow> dmr_io_reg_read (se_poll env) (Some q) (se_line_fd env) POLL_MMDVM a False s;
     Some (0, Some (a, se_line_fd env), s) }"

text \<open>The protocol of the modem, whose initialisation opens the line.\<close>

definition opening_mmdvm :: "start_env \<Rightarrow> proto_world dmr_protocol" where
  "opening_mmdvm env =
     (dmr_mmdvm_protocol (se_mm env) (se_mm_init env) (se_serial env) (se_write env) (se_mm_reg env))
       \<lparr>init_io := Some (\<lambda>q a s. mm_protocol_init (se_mm env) (se_mm_init env) (se_serial env) (se_write env) q a
          (in_world (\<lambda>w. w\<lparr>pw_serial := (pw_serial w)(a := se_open_fd env)\<rparr>) s))\<rparr>"

section \<open>The repeater\<close>

definition init_proto :: "start_env \<Rightarrow> nat \<Rightarrow> proto_t \<Rightarrow> psys \<Rightarrow> start_result" where
  "init_proto env q p s =
     (case pt_type p of
        DMR_PROTOCOL_HOMEBREW \<Rightarrow> do { h \<leftarrow> homebrew_of p; init_proto_homebrew env q h s }
      | DMR_PROTOCOL_MBE \<Rightarrow> Some (0, None, s)
      | DMR_PROTOCOL_MMDVM \<Rightarrow> do { m \<leftarrow> mmdvm_of p; init_proto_mmdvm env q m s }
      | DMR_PROTOCOL_UNKNOWN \<Rightarrow> Some (-1, None, s))"

definition add_protocol :: "start_env \<Rightarrow> nat \<Rightarrow> proto_t \<Rightarrow> nat \<Rightarrow> psys \<Rightarrow> presult" where
  "add_protocol env q p a s =
     dmr_io_add_protocol (Some q)
       (if pt_type p = DMR_PROTOCOL_HOMEBREW then dmr_homebrew_protocol (se_hb_init env) (se_hb_reg env) else opening_mmdvm env) a s"

text \<open>A protocol without a name has an empty one here.\<close>

definition proto_of :: "proto_t \<Rightarrow> (nat \<times> int) option \<Rightarrow> proto" where
  "proto_of p inst = \<lparr>proto_type = pt_type p, proto_name = (case pt_name p of None \<Rightarrow> [] | Some n \<Rightarrow> n),
     proto_instance = map_option fst inst, proto_fd = (case inst of None \<Rightarrow> 0 | Some (a, fd) \<Rightarrow> fd)\<rparr>"

text \<open>The loop over the protocols from number \<open>i\<close> on.\<close>

fun init_protos :: "(nat \<Rightarrow> start_env) \<Rightarrow> nat \<Rightarrow> nat \<Rightarrow> proto_t list \<Rightarrow> psys \<Rightarrow> (int \<times> proto list \<times> psys) option" where
  "init_protos env q i [] s = Some (0, [], s)"
| "init_protos env q i (p # ps) s = do {
     (ret, inst, s) \<leftarrow> init_proto (env i) q p s;
     (if ret \<noteq> 0 then Some (ret, [proto_of p inst], s)
      else (case inst of
              None \<Rightarrow> Some (-1, [proto_of p inst], s)
            | Some (a, fd) \<Rightarrow> do {
                (ret, s) \<leftarrow> add_protocol (env i) q p a s;
                (if ret \<noteq> 0 then Some (ret, [proto_of p inst], s)
                 else map_option (\<lambda>(ret, protos, s). (ret, proto_of p inst # protos, s)) (init_protos env q (Suc i) ps s)) })) }"

definition idle_slot :: repeater_slot where
  "idle_slot = \<lparr>slot_data_type = 0, slot_src_id = 0, slot_dst_id = 0, slot_state = STATE_IDLE, slot_stream_id = 0,
     slot_last_frame_received = \<lparr>tv_sec = 0, tv_usec = 0\<rparr>\<rparr>"

text \<open>
  \<open>mem\<close>, \<open>io_mems\<close>, \<open>sig_mems\<close>: the allocations of the repeater, the loop and the signal entry; \<open>st\<close>: the stack of
  Lua.  After an error the repeater is freed; the loop and the connections stay.
\<close>

definition init_repeater ::
  "(nat \<Rightarrow> start_env) \<Rightarrow> bool \<Rightarrow> bool list \<Rightarrow> bool \<times> bool \<Rightarrow> timeval \<Rightarrow> lua_value list \<Rightarrow> config_t \<Rightarrow> psys \<Rightarrow>
   (int \<times> repeater option \<times> psys) option" where
  "init_repeater env mem io_mems sig_mems now st cfg s =
     (if \<not> mem then Some (-1, None, s)
      else case dmr_io_new io_mems now s of
             (None, s) \<Rightarrow> Some (-1, None, s)
           | (Some q, s) \<Rightarrow> do {
               (r, s) \<leftarrow> dmr_io_reg_signal sig_mems (Some q) SIGINT STOP_REPEATER 0 True s;
               io \<leftarrow> sys_io s q;
               let s = put_io q (io\<lparr>io_default := \<lparr>tv_sec = 1, tv_usec = 0\<rparr>\<rparr>) s;
               (ret, protos, s) \<leftarrow> init_protos env q 0 (cf_proto cfg) s;
               Some (if ret \<noteq> 0 then (ret, None, s)
                 else (0, Some \<lparr>rep_ts = [idle_slot, idle_slot], rep_io = q, rep_timeout = cf_timeout cfg, rep_protos = protos,
                    rep_lua = st\<rparr>, s)) })"

section \<open>What starting changes\<close>

text \<open>The callbacks that poll, the newest first.\<close>

definition poll_list :: "dmr_io \<Rightarrow> (nat \<times> nat \<times> int) list" where
  "poll_list io = map (\<lambda>e. (ent_cb e, ent_userdata e, ent_fd e))
     (filter (\<lambda>e. ent_cb e = POLL_HOMEBREW \<or> ent_cb e = POLL_MMDVM) (io_entry io DMR_REQUEST_READ))"

definition loop_polls :: "nat \<Rightarrow> psys \<Rightarrow> (nat \<times> nat \<times> int) list \<Rightarrow> bool" where
  "loop_polls q s ps \<longleftrightarrow> (\<exists>io. sys_io s q = Some io \<and> poll_list io = ps)"

text \<open>Connections below an address stay as they are.\<close>

definition same_below :: "nat \<Rightarrow> proto_world \<Rightarrow> proto_world \<Rightarrow> bool" where
  "same_below b w w' \<longleftrightarrow> (\<forall>a < b. pw_hb w' a = pw_hb w a \<and> pw_mm w' a = pw_mm w a \<and>
     pw_sock w' a = pw_sock w a \<and> pw_serial w' a = pw_serial w a)"

lemma same_below_trans: "same_below b w w' \<Longrightarrow> same_below b' w' w'' \<Longrightarrow> b \<le> b' \<Longrightarrow> same_below b w w''"
  by (auto simp: same_below_def)

lemmas poll_ptrs = POLL_HOMEBREW_def POLL_MMDVM_def STOP_REPEATER_def proto_ptrs

lemma reg_read_polls:
  assumes "dmr_io_reg_read mem (Some q) fd cb u once s = Some (r, s')" "loop_polls q s ps"
  shows "sys_world s' = sys_world s \<and> sys_brk s \<le> sys_brk s' \<and>
    loop_polls q s' (if mem \<and> (cb = POLL_HOMEBREW \<or> cb = POLL_MMDVM) then (cb, u, fd) # ps else ps)"
  using assms
  by (auto simp: dmr_io_reg_read_def io_api_def loop_polls_def poll_list_def put_io_def io_alloc_def io_insert_def io_count_up_def
      new_entry_def Let_def bind_eq_Some_conv split: if_splits)

lemma reg_other_polls:
  "dmr_io_reg_error mem (Some q) fd cb u once s = Some (r, s') \<Longrightarrow> loop_polls q s ps \<Longrightarrow>
     sys_world s' = sys_world s \<and> sys_brk s \<le> sys_brk s' \<and> loop_polls q s' ps"
  "dmr_io_reg_timer mem (Some q) tv cb u once s = Some (r, s') \<Longrightarrow> loop_polls q s ps \<Longrightarrow>
     sys_world s' = sys_world s \<and> sys_brk s \<le> sys_brk s' \<and> loop_polls q s' ps"
  by (auto simp: dmr_io_reg_error_def dmr_io_reg_timer_def io_api_def loop_polls_def poll_list_def put_io_def io_alloc_def io_insert_def
      io_count_up_def Let_def bind_eq_Some_conv split: if_splits)

lemma in_world_polls [simp]: "loop_polls q (in_world f s) ps = loop_polls q s ps"
  by (simp add: loop_polls_def in_world_def)

lemma io_alloc_polls [simp]: "loop_polls q (io_alloc s) ps = loop_polls q s ps" "sys_world (io_alloc s) = sys_world s"
  by (simp_all add: loop_polls_def io_alloc_def)

lemma register_polls:
  "homebrew_io_register mems (Some q) (Some a) s = Some (r, s') \<Longrightarrow> loop_polls q s ps \<Longrightarrow>
     r = 0 \<and> sys_world s' = sys_world s \<and> sys_brk s \<le> sys_brk s' \<and> loop_polls q s' ps"
  "mmdvm_io_register mems' (Some q) (Some a) s = Some (r, s') \<Longrightarrow> loop_polls q s ps \<Longrightarrow>
     r = 0 \<and> sys_world s' = sys_world s \<and> sys_brk s \<le> sys_brk s' \<and> loop_polls q s' ps"
proof -
  show "r = 0 \<and> sys_world s' = sys_world s \<and> sys_brk s \<le> sys_brk s' \<and> loop_polls q s' ps"
    if reg: "homebrew_io_register mems (Some q) (Some a) s = Some (r, s')" and ps: "loop_polls q s ps"
  proof -
    obtain fd s1 s2 r1 r2 r3 where "dmr_io_reg_timer (fst mems) (Some q) \<lparr>tv_sec = 5, tv_usec = 0\<rparr> HB_PING_TIMER a False s = Some (r1, s1)"
      "dmr_io_reg_read (fst (snd mems)) (Some q) fd HB_READABLE a False s1 = Some (r2, s2)"
      "dmr_io_reg_error (snd (snd mems)) (Some q) fd HB_ERROR a False s2 = Some (r3, s')" "r = 0"
      using reg by (auto simp: homebrew_io_register_def Let_def bind_eq_Some_conv split: if_splits)
    then show ?thesis using reg_other_polls(2) [OF _ ps] reg_read_polls [of _ q fd HB_READABLE a False s1 r2 s2 ps]
        reg_other_polls(1) [of _ q fd HB_ERROR a False s2 r3 s' ps] by (fastforce simp: poll_ptrs)
  qed
  show "r = 0 \<and> sys_world s' = sys_world s \<and> sys_brk s \<le> sys_brk s' \<and> loop_polls q s' ps"
    if reg: "mmdvm_io_register mems' (Some q) (Some a) s = Some (r, s')" and ps: "loop_polls q s ps"
  proof -
    obtain fd s2 r2 r3 where "dmr_io_reg_read (fst mems') (Some q) fd MM_READABLE a False s = Some (r2, s2)"
      "dmr_io_reg_error (snd mems') (Some q) fd MM_ERROR a False s2 = Some (r3, s')" "r = 0"
      using reg by (auto simp: mmdvm_io_register_def Let_def bind_eq_Some_conv split: if_splits)
    then show ?thesis using reg_read_polls [of _ q fd MM_READABLE a False s r2 s2 ps, OF _ ps]
        reg_other_polls(1) [of _ q fd MM_ERROR a False s2 r3 s' ps] by (fastforce simp: poll_ptrs)
  qed
qed

section \<open>A protocol that was started\<close>

text \<open>
  The state of a connection: the Homebrew connection has the settings of the configuration, with the frequencies and the
  height cut to 16 bits and no color code, and has sent the login; the modem has been started, and its descriptor
  is that of the opened line.
\<close>

definition connected :: "start_env \<Rightarrow> proto_t \<Rightarrow> proto \<Rightarrow> proto_world \<Rightarrow> bool" where
  "connected env p proto w =
     (case (proto_instance proto, pt_settings p) of
        (Some a, Homebrew_settings h) \<Rightarrow>
          proto_type proto = DMR_PROTOCOL_HOMEBREW \<and> proto_fd proto = se_fd env \<and> pw_sock w a = se_fd env \<and>
          (\<exists>hb call auth. pw_hb w a = Some hb \<and> hs_call h = Some call \<and> hs_auth h = Some auth \<and> hs_repeater_id h \<noteq> 0 \<and>
             hb_state hb = DMR_HOMEBREW_AUTH_NONE \<and> hb_secret hb = Some (bytes_of auth) \<and>
             cfg_call (hb_config hb) = Some (bytes_of call) \<and> cfg_repeater_id (hb_config hb) = hs_repeater_id h \<and>
             cfg_rx_freq (hb_config hb) = ucast (hs_rx_freq h) \<and> cfg_tx_freq (hb_config hb) = ucast (hs_tx_freq h) \<and>
             cfg_altitude (hb_config hb) = of_int (hs_height h) \<and> cfg_color_code (hb_config hb) = 0)
      | (Some a, Mmdvm_settings m) \<Rightarrow>
          proto_type proto = DMR_PROTOCOL_MMDVM \<and> proto_fd proto = se_line_fd env \<and> pw_serial w a = se_open_fd env \<and>
          (\<exists>mm. pw_mm w a = Some mm \<and> mm_started mm)
      | _ \<Rightarrow> False)"

lemma connected_below:
  "connected env p proto w \<Longrightarrow> same_below b w w' \<Longrightarrow> \<forall>a. proto_instance proto = Some a \<longrightarrow> a < b \<Longrightarrow> connected env p proto w'"
  by (auto simp: connected_def same_below_def split: option.splits proto_settings.splits)

lemma auth_started:
  assumes "dmr_homebrew_auth env strdup (Some hb) secret = Some (0, hb', fs)"
  shows "\<exists>sec. secret = Some sec \<and> cfg_repeater_id (hb_config hb) \<noteq> 0 \<and> hb' = Some (hb\<lparr>hb_secret := Some sec, hb_state := DMR_HOMEBREW_AUTH_NONE\<rparr>)"
  using assms by (auto simp: dmr_homebrew_auth_def null_check_def hb_auth_def bind_eq_Some_conv Let_def dest!: send_raw_same
    split: option.splits if_splits)

lemma new_homebrew_color:
  "dmr_homebrew_new c ip6any mems sock ok i pip pport bip bport = Some hb \<Longrightarrow> cfg_color_code (hb_config hb) = 0"
  by (auto simp: dmr_homebrew_new_def split: if_splits)

lemma init_io_keeps_config:
  "homebrew_io_init mems (Some hb) = (0, hb') \<Longrightarrow>
   \<exists>h. hb' = Some h \<and> hb_config h = hb_config hb \<and> hb_secret h = hb_secret hb \<and> hb_state h = hb_state hb"
  by (auto simp: homebrew_io_init_def Let_def split: if_splits)

lemma mm_init_started:
  assumes "mmdvm_io_init env mems serial (Some mm) ws = Some (0, mm', out, ws')" "\<not> mm_started mm"
  shows "\<exists>m. mm' = Some m \<and> mm_started m"
  using assms by (auto simp: mmdvm_io_init_def dmr_mmdvm_start_def mm_start_def Let_def bind_eq_Some_conv split: if_splits)

lemma new_mm_not_started:
  "dmr_mmdvm_new mems found port baud model cc = Some (Some mm) \<Longrightarrow> \<not> mm_started mm"
  by (auto simp: dmr_mmdvm_new_def Let_def bind_eq_Some_conv split: if_splits)

definition poll_of :: "proto \<Rightarrow> nat \<times> nat \<times> int" where
  "poll_of proto = (if proto_type proto = DMR_PROTOCOL_HOMEBREW then POLL_HOMEBREW else POLL_MMDVM,
     the (proto_instance proto), proto_fd proto)"

lemma homebrew_started:
  assumes p: "pt_type p = DMR_PROTOCOL_HOMEBREW" "pt_settings p = Homebrew_settings h"
    and i: "init_proto_homebrew env q h s = Some (0, Some (a, fd), s1)" and add: "add_protocol env q p a s1 = Some (0, s2)"
    and ps: "loop_polls q s ps" and poll: "se_poll env"
  shows "a = sys_brk s \<and> a < sys_brk s2 \<and> same_below a (sys_world s) (sys_world s2) \<and>
    loop_polls q s2 (poll_of (proto_of p (Some (a, fd))) # ps) \<and> connected env p (proto_of p (Some (a, fd))) (sys_world s2)"
proof -
  obtain hb0 call frames hb r where new: "cfg_color_code (hb_config hb0) = 0" and call: "hs_call h = Some call"
    and auth: "dmr_homebrew_auth (se_hb env) (se_strdup_secret env) (Some (hb0\<lparr>hb_config := homebrew_configured env h call (hb_config hb0)\<rparr>))
      (map_option bytes_of (hs_auth h)) = Some (0, hb, frames)"
    and a: "a = sys_brk s" "fd = se_fd env"
    and reg: "dmr_io_reg_read True (Some q) fd POLL_HOMEBREW a False (io_alloc (put_homebrew a hb fd frames s)) = Some (r, s1)"
    using i poll by (auto simp: init_proto_homebrew_def Let_def bind_eq_Some_conv dest: new_homebrew_color split: option.splits if_splits)
  from auth_started [OF auth] obtain sec where hb: "hs_auth h = Some sec" "hs_repeater_id h \<noteq> 0"
    "hb = Some (hb0\<lparr>hb_config := homebrew_configured env h call (hb_config hb0), hb_secret := Some (bytes_of sec), hb_state := DMR_HOMEBREW_AUTH_NONE\<rparr>)"
    by (auto simp: homebrew_configured_def)
  have s1: "sys_world s1 = sys_world (put_homebrew a hb fd frames s)" "Suc (sys_brk s) \<le> sys_brk s1" "loop_polls q s1 ((POLL_HOMEBREW, a, fd) # ps)"
    using reg_read_polls [OF reg, of ps] ps by (auto simp: put_homebrew_def io_alloc_def in_world_def loop_polls_def)
  obtain hb' hb2 where init: "homebrew_io_init (se_hb_init env) hb = (0, Some hb')"
    and reg2: "homebrew_io_register (se_hb_reg env) (Some q) (Some a) (in_world (\<lambda>w. w\<lparr>pw_hb := (pw_hb w)(a \<mapsto> hb')\<rparr>) s1) = Some (0, s2)"
    using add p s1(1) hb(3) init_io_keeps_config
    by (auto simp: add_protocol_def dmr_io_add_protocol_def dmr_homebrew_protocol_def hb_protocol_init_def put_homebrew_def in_world_def
      bind_eq_Some_conv Let_def split: if_splits prod.splits)
  from init_io_keeps_config [of "se_hb_init env" _ "Some hb'"] init hb(3)
  have hb': "hb_config hb' = homebrew_configured env h call (hb_config hb0)" "hb_secret hb' = Some (bytes_of sec)"
    "hb_state hb' = DMR_HOMEBREW_AUTH_NONE" by fastforce+
  have s2: "sys_world s2 = sys_world (in_world (\<lambda>w. w\<lparr>pw_hb := (pw_hb w)(a \<mapsto> hb')\<rparr>) s1)" "sys_brk s1 \<le> sys_brk s2"
    "loop_polls q s2 ((POLL_HOMEBREW, a, fd) # ps)"
    using register_polls(1) [OF reg2] s1(3) by (auto simp: in_world_def loop_polls_def)
  show ?thesis using a s1(1,2) s2 hb hb' call new p
    by (auto simp: same_below_def put_homebrew_def in_world_def poll_of_def proto_of_def connected_def homebrew_configured_def)
qed

lemma mmdvm_started:
  assumes p: "pt_type p = DMR_PROTOCOL_MMDVM" "pt_settings p = Mmdvm_settings m"
    and i: "init_proto_mmdvm env q m s = Some (0, Some (a, fd), s1)" and add: "add_protocol env q p a s1 = Some (0, s2)"
    and ps: "loop_polls q s ps" and poll: "se_poll env"
  shows "a = sys_brk s \<and> a < sys_brk s2 \<and> same_below a (sys_world s) (sys_world s2) \<and>
    loop_polls q s2 (poll_of (proto_of p (Some (a, fd))) # ps) \<and> connected env p (proto_of p (Some (a, fd))) (sys_world s2)"
proof -
  obtain mm0 mm r where mm0: "\<not> mm_started mm0" and a: "a = sys_brk s" "fd = se_line_fd env"
    and mm: "mm = mm0\<lparr>mm_rx_freq := ms_rx_freq m, mm_tx_freq := ms_tx_freq m\<rparr>"
    and reg: "dmr_io_reg_read True (Some q) fd POLL_MMDVM a False (io_alloc (put_mmdvm a mm fd s)) = Some (r, s1)"
    using i poll by (auto simp: init_proto_mmdvm_def Let_def bind_eq_Some_conv dest: new_mm_not_started)
  have s1: "sys_world s1 = sys_world (put_mmdvm a mm fd s)" "Suc (sys_brk s) \<le> sys_brk s1" "loop_polls q s1 ((POLL_MMDVM, a, fd) # ps)"
    using reg_read_polls [OF reg, of ps] ps by (auto simp: put_mmdvm_def io_alloc_def in_world_def loop_polls_def)
  define s1' where "s1' = in_world (\<lambda>w. w\<lparr>pw_serial := (pw_serial w)(a := se_open_fd env)\<rparr>) s1"
  obtain mm' out ws where init: "mmdvm_io_init (se_mm env) (se_mm_init env) (se_serial env) (Some mm) (se_write env) = Some (0, mm', out, ws)"
    and reg2: "mmdvm_io_register (se_mm_reg env) (Some q) (Some a)
      (in_world (\<lambda>w. w\<lparr>pw_mm := (pw_mm w)(a := mm'), pw_sent := pw_sent w @ out\<rparr>) s1') = Some (0, s2)"
    using add p s1(1)
    by (auto simp: add_protocol_def dmr_io_add_protocol_def opening_mmdvm_def dmr_mmdvm_protocol_def mm_protocol_init_def put_mmdvm_def
      in_world_def s1'_def bind_eq_Some_conv Let_def split: if_splits prod.splits)
  have "\<not> mm_started mm" using mm0 mm by simp
  then obtain m' where mm': "mm' = Some m'" "mm_started m'" using mm_init_started [OF init] by blast
  have s2: "sys_world s2 = sys_world (in_world (\<lambda>w. w\<lparr>pw_mm := (pw_mm w)(a := mm'), pw_sent := pw_sent w @ out\<rparr>) s1')"
    "sys_brk s1 \<le> sys_brk s2" "loop_polls q s2 ((POLL_MMDVM, a, fd) # ps)"
    using register_polls(2) [OF reg2] s1(3) by (auto simp: in_world_def loop_polls_def s1'_def)
  show ?thesis using a s1(1,2) s2 mm' p
    by (auto simp: same_below_def put_mmdvm_def in_world_def poll_of_def proto_of_def connected_def s1'_def)
qed

lemma proto_started:
  assumes i: "init_proto env q p s = Some (0, Some (a, fd), s1)" and add: "add_protocol env q p a s1 = Some (0, s2)"
    and ps: "loop_polls q s ps" and poll: "se_poll env"
  shows "a = sys_brk s \<and> a < sys_brk s2 \<and> same_below a (sys_world s) (sys_world s2) \<and>
    loop_polls q s2 (poll_of (proto_of p (Some (a, fd))) # ps) \<and> connected env p (proto_of p (Some (a, fd))) (sys_world s2)"
proof (cases "pt_type p")
  case DMR_PROTOCOL_HOMEBREW
  then obtain h where "pt_settings p = Homebrew_settings h" "init_proto_homebrew env q h s = Some (0, Some (a, fd), s1)"
    using i by (auto simp: init_proto_def homebrew_of_def bind_eq_Some_conv split: proto_settings.splits)
  with DMR_PROTOCOL_HOMEBREW show ?thesis using homebrew_started add ps poll by blast
next
  case DMR_PROTOCOL_MMDVM
  then obtain m where "pt_settings p = Mmdvm_settings m" "init_proto_mmdvm env q m s = Some (0, Some (a, fd), s1)"
    using i by (auto simp: init_proto_def mmdvm_of_def bind_eq_Some_conv split: proto_settings.splits)
  with DMR_PROTOCOL_MMDVM show ?thesis using mmdvm_started add ps poll by blast
qed (use i in \<open>auto simp: init_proto_def\<close>)

definition at_or_above :: "nat \<Rightarrow> proto \<Rightarrow> bool" where
  "at_or_above b proto \<longleftrightarrow> (\<exists>a. proto_instance proto = Some a \<and> b \<le> a)"

lemma protos_started:
  assumes "init_protos env q i ps s = Some (0, protos, s')" "loop_polls q s L" "\<forall>i. se_poll (env i)"
  shows "length protos = length ps \<and> sys_brk s \<le> sys_brk s' \<and> same_below (sys_brk s) (sys_world s) (sys_world s') \<and>
    loop_polls q s' (rev (map poll_of protos) @ L) \<and> distinct (map proto_instance protos) \<and> list_all (at_or_above (sys_brk s)) protos \<and>
    (\<forall>j < length ps. connected (env (i + j)) (ps ! j) (protos ! j) (sys_world s'))"
  using assms(1,2)
proof (induction ps arbitrary: i s protos L)
  case Nil
  then show ?case by (simp add: same_below_def)
next
  case (Cons p ps)
  obtain a fd s1 s2 protos' where p: "init_proto (env i) q p s = Some (0, Some (a, fd), s1)" "add_protocol (env i) q p a s1 = Some (0, s2)"
    and rest: "init_protos env q (Suc i) ps s2 = Some (0, protos', s')" and protos: "protos = proto_of p (Some (a, fd)) # protos'"
    using Cons.prems(1) by (auto simp: bind_eq_Some_conv split: if_splits option.splits)
  let ?p = "proto_of p (Some (a, fd))"
  note 1 = proto_started [OF p Cons.prems(2)]
  have st: "a = sys_brk s" "a < sys_brk s2" "same_below a (sys_world s) (sys_world s2)" "loop_polls q s2 (poll_of ?p # L)"
    "connected (env i) p ?p (sys_world s2)" using 1 assms(3) by auto
  note IH = Cons.IH [OF rest st(4)]
  have "connected (env i) p ?p (sys_world s')"
    using connected_below [OF st(5), of "sys_brk s2" "sys_world s'"] IH st(2) by (auto simp: proto_of_def)
  moreover have "list_all (at_or_above (sys_brk s)) protos'"
    using IH st(1,2) by (auto simp: list_all_iff at_or_above_def dest!: bspec)
  moreover have "proto_instance ?p \<notin> set (map proto_instance protos')"
    using IH st(2) by (auto simp: list_all_iff at_or_above_def proto_of_def dest!: bspec)
  moreover have "same_below (sys_brk s) (sys_world s) (sys_world s')"
    using same_below_trans [OF st(3), of "sys_brk s2" "sys_world s'"] IH st(1,2) by simp
  moreover have "at_or_above (sys_brk s) ?p" using st(1) by (simp add: at_or_above_def proto_of_def)
  ultimately show ?case using IH st(1,2) protos by (auto simp: nth_Cons' less_Suc_eq_0_disj)
qed

section \<open>The loop stays consistent\<close>

lemma register_keeps: "io_keeps (homebrew_io_register mems p h)" "io_keeps (mmdvm_io_register mems' p h)"
proof -
  have "io_keeps (\<lambda>s. do { (r1, s) \<leftarrow> dmr_io_reg_timer m1 p tv cb1 u False s; (r2, s) \<leftarrow> dmr_io_reg_read m2 p fd cb2 u False s;
      (r3, s) \<leftarrow> dmr_io_reg_error m3 p fd cb3 u False s; Some (0, s) })" for m1 m2 m3 tv cb1 cb2 cb3 u fd
    by (intro keeps_bind keeps_return reg_timer_keeps reg_read_keeps reg_error_keeps)
  then show "io_keeps (homebrew_io_register mems p h)"
    unfolding io_keeps_def homebrew_io_register_def
    by (fastforce simp: Let_def io_evolves_refl bind_eq_Some_conv split: option.splits if_splits)
  have "io_keeps (\<lambda>s. do { (r1, s) \<leftarrow> dmr_io_reg_read m1 p fd cb1 u False s;
      (r2, s) \<leftarrow> dmr_io_reg_error m2 p fd cb2 u False s; Some (0, s) })" for m1 m2 cb1 cb2 u fd
    by (intro keeps_bind keeps_return reg_read_keeps reg_error_keeps)
  then show "io_keeps (mmdvm_io_register mems' p h)"
    unfolding io_keeps_def mmdvm_io_register_def
    by (fastforce simp: Let_def io_evolves_refl bind_eq_Some_conv split: option.splits)
qed

lemma step_inv:
  "homebrew_io_register mems p h s = Some (r, s') \<Longrightarrow> sys_inv s \<Longrightarrow> sys_inv s'"
  "mmdvm_io_register mems' p h s = Some (r, s') \<Longrightarrow> sys_inv s \<Longrightarrow> sys_inv s'"
  "dmr_io_reg_read mem p fd cb u once s = Some (r, s') \<Longrightarrow> sys_inv s \<Longrightarrow> sys_inv s'"
  "dmr_io_reg_signal smems p sig cb u once s = Some (r, s') \<Longrightarrow> sys_inv s \<Longrightarrow> sys_inv s'"
  by (erule io_keepsD(1) [rotated 2]; (assumption | rule register_keeps reg_read_keeps reg_signal_keeps))+

lemma add_protocol_inv: "add_protocol env q p a s = Some (r, s') \<Longrightarrow> sys_inv s \<Longrightarrow> sys_inv s'"
  by (auto simp: add_protocol_def dmr_io_add_protocol_def dmr_homebrew_protocol_def opening_mmdvm_def dmr_mmdvm_protocol_def
      hb_protocol_init_def mm_protocol_init_def bind_eq_Some_conv Let_def dest!: step_inv split: if_splits prod.splits)

lemma put_inv:
  "sys_inv s \<Longrightarrow> sys_inv (io_alloc (put_homebrew a hb fd frames s))"
  "sys_inv s \<Longrightarrow> sys_inv (io_alloc (put_mmdvm a mm fd s))"
  by (simp_all add: put_homebrew_def put_mmdvm_def sys_inv_alloc)

lemma init_homebrew_inv: "init_proto_homebrew env q h s = Some (r, inst, s') \<Longrightarrow> sys_inv s \<Longrightarrow> sys_inv s'"
  by (auto simp: init_proto_homebrew_def bind_eq_Some_conv Let_def put_inv dest!: step_inv split: option.splits if_splits)

lemma init_mmdvm_inv: "init_proto_mmdvm env q m s = Some (r, inst, s') \<Longrightarrow> sys_inv s \<Longrightarrow> sys_inv s'"
  by (auto simp: init_proto_mmdvm_def bind_eq_Some_conv Let_def put_inv dest!: step_inv)

lemma init_proto_inv: "init_proto env q p s = Some (r, inst, s') \<Longrightarrow> sys_inv s \<Longrightarrow> sys_inv s'"
  by (auto simp: init_proto_def bind_eq_Some_conv dest: init_homebrew_inv init_mmdvm_inv split: dmr_protocol_type.splits)

lemma init_protos_inv: "init_protos env q i ps s = Some (r, protos, s') \<Longrightarrow> sys_inv s \<Longrightarrow> sys_inv s'"
proof (induction ps arbitrary: i s r protos)
  case (Cons p ps)
  then show ?case
    by (auto simp: bind_eq_Some_conv split: if_splits option.splits dest!: init_proto_inv add_protocol_inv)
qed simp

section \<open>Properties\<close>

lemma repeater_started:
  assumes "init_repeater env mem io_mems sig_mems now st cfg s = Some (0, rp, s')" "sys_inv s" "\<forall>i. se_poll (env i)"
  shows "\<exists>rep. rp = Some rep \<and> sys_inv s' \<and> rep_timeout rep = cf_timeout cfg \<and> length (rep_protos rep) = length (cf_proto cfg) \<and>
    (\<forall>i < length (cf_proto cfg). connected (env i) (cf_proto cfg ! i) (rep_protos rep ! i) (sys_world s')) \<and>
    loop_polls (rep_io rep) s' (rev (map poll_of (rep_protos rep))) \<and> distinct (map proto_instance (rep_protos rep))"
proof -
  obtain q s1 r1 s2 io protos where new: "dmr_io_new io_mems now s = (Some q, s1)"
    and sig: "dmr_io_reg_signal sig_mems (Some q) SIGINT STOP_REPEATER 0 True s1 = Some (r1, s2)" and io: "sys_io s2 q = Some io"
    and run: "init_protos env q 0 (cf_proto cfg) (put_io q (io\<lparr>io_default := \<lparr>tv_sec = 1, tv_usec = 0\<rparr>\<rparr>) s2) = Some (0, protos, s')"
    and rp: "rp = Some \<lparr>rep_ts = [idle_slot, idle_slot], rep_io = q, rep_timeout = cf_timeout cfg, rep_protos = protos, rep_lua = st\<rparr>"
    using assms(1) by (auto simp: init_repeater_def bind_eq_Some_conv Let_def split: if_splits prod.splits option.splits)
  have "loop_polls q s1 []" using new by (auto simp: dmr_io_new_def loop_polls_def poll_list_def put_io_def io_alloc_def split: if_splits)
  then have "poll_list io = []" using sig io
    by (auto simp: dmr_io_reg_signal_def io_api_def io_sig_add_def loop_polls_def poll_list_def put_io_def io_alloc_def io_insert_def
        io_count_up_def Let_def split: if_splits)
  then have "loop_polls q (put_io q (io\<lparr>io_default := \<lparr>tv_sec = 1, tv_usec = 0\<rparr>\<rparr>) s2) []"
    by (simp add: loop_polls_def poll_list_def put_io_def)
  note st = protos_started [OF run this assms(3)]
  have "sys_inv s2" using io_new_keeps [OF assms(2) new] step_inv(4) [OF sig] by blast
  then have "sys_inv (put_io q (io\<lparr>io_default := \<lparr>tv_sec = 1, tv_usec = 0\<rparr>\<rparr>) s2)"
    using io by (auto simp: sys_inv_def put_io_def sig_listed_def io_inv_def io_count_def io_fds_def)
  then have "sys_inv s'" using init_protos_inv [OF run] by blast
  with st rp show ?thesis by simp
qed

text \<open>
  C39. When the repeater starts, every protocol of the configuration is a Homebrew connection or a modem and is
  connected: the connection has the settings, its secret and the login under way, the modem is running.  The event loop
  is consistent and, when its entries could be allocated, has one callback for each protocol that polls it, and the timeout is that of the configuration.
  A configuration with an audio protocol never starts.  Frequencies and heights are cut to 16 bits, and the
  color code of a Homebrew section is not passed on.
\<close>

theorem started_repeater_is_connected:
  assumes "init_repeater env mem io_mems sig_mems now st cfg s = Some (0, rp, s')" "sys_inv s" "\<forall>i. se_poll (env i)"
  shows "\<exists>rep. rp = Some rep \<and> sys_inv s' \<and> rep_timeout rep = cf_timeout cfg \<and> length (rep_protos rep) = length (cf_proto cfg) \<and>
    (\<forall>i < length (cf_proto cfg). connected (env i) (cf_proto cfg ! i) (rep_protos rep ! i) (sys_world s')) \<and>
    loop_polls (rep_io rep) s' (rev (map poll_of (rep_protos rep)))"
  using repeater_started [OF assms] by blast

text \<open>
  C40. The callback that polls a modem watches the descriptor that its line had before it was opened.  If opening
  changes the descriptor, the callback is never called for the open one, and when it is called for the old one it
  returns without taking a packet off the queue, as long as the line stays open: nothing from the modem is relayed.
\<close>

theorem opened_modem_is_not_polled:
  assumes "init_repeater env mem io_mems sig_mems now st cfg s = Some (0, rp, s')" "sys_inv s" "\<forall>i. se_poll (env i)"
    and "i < length (cf_proto cfg)" "pt_settings (cf_proto cfg ! i) = Mmdvm_settings m" "se_line_fd (env i) \<noteq> se_open_fd (env i)"
  shows "\<exists>rep io a. rp = Some rep \<and> proto_instance (rep_protos rep ! i) = Some a \<and> sys_io s' (rep_io rep) = Some io \<and>
    (\<forall>fd. (POLL_MMDVM, a, fd) \<in> set (poll_list io) \<longleftrightarrow> fd = se_line_fd (env i)) \<and>
    (\<forall>penv rep' s''. pw_serial (sys_world s'') a = se_open_fd (env i) \<longrightarrow> pw_mm (sys_world s'') a \<noteq> None \<longrightarrow>
       poll_proto_mmdvm penv (Some (rep_io rep)) (Some a) (se_line_fd (env i)) rep' s'' = Some (0, rep', s''))"
proof -
  obtain rep where rep: "rp = Some rep" "length (rep_protos rep) = length (cf_proto cfg)"
    and con: "\<forall>i < length (cf_proto cfg). connected (env i) (cf_proto cfg ! i) (rep_protos rep ! i) (sys_world s')"
    and polls: "loop_polls (rep_io rep) s' (rev (map poll_of (rep_protos rep)))" and dist: "distinct (map proto_instance (rep_protos rep))"
    using repeater_started [OF assms(1-3)] by blast
  let ?ps = "rep_protos rep"
  obtain a where a: "proto_instance (?ps ! i) = Some a" "proto_type (?ps ! i) = DMR_PROTOCOL_MMDVM" "proto_fd (?ps ! i) = se_line_fd (env i)"
    using con [rule_format, OF assms(4)] assms(5) by (auto simp: connected_def split: option.splits)
  obtain io where io: "sys_io s' (rep_io rep) = Some io" "poll_list io = rev (map poll_of ?ps)" using polls by (auto simp: loop_polls_def)
  have "fd = se_line_fd (env i)" if "(POLL_MMDVM, a, fd) \<in> set (poll_list io)" for fd
  proof -
    obtain j where j: "j < length ?ps" "poll_of (?ps ! j) = (POLL_MMDVM, a, fd)"
      using \<open>(POLL_MMDVM, a, fd) \<in> set (poll_list io)\<close> io(2) by (auto simp: in_set_conv_nth)
    have "proto_instance (?ps ! j) \<noteq> None" using con j(1) rep(2) by (auto simp: connected_def split: option.splits)
    then have "map proto_instance ?ps ! j = map proto_instance ?ps ! i" using j a(1) rep(2) assms(4) by (auto simp: poll_of_def)
    then have "j = i" using nth_eq_iff_index_eq [OF dist, of j i] j(1) rep(2) assms(4) by simp
    then show ?thesis using j(2) a(3) by (simp add: poll_of_def)
  qed
  moreover have "(POLL_MMDVM, a, se_line_fd (env i)) \<in> set (poll_list io)"
    using io(2) a rep(2) assms(4) by (auto simp: poll_of_def in_set_conv_nth intro!: image_eqI [of _ _ "?ps ! i"])
  moreover have "poll_proto_mmdvm penv (Some (rep_io rep)) (Some a) (se_line_fd (env i)) rep' s'' = Some (0, rep', s'')"
    if "pw_serial (sys_world s'') a = se_open_fd (env i)" "pw_mm (sys_world s'') a \<noteq> None" for penv rep' s''
    using that assms(6) by (auto simp: poll_proto_mmdvm_def)
  ultimately show ?thesis using rep(1) a(1) io(1) by blast
qed

text \<open>A configuration with a modem and a master.\<close>

definition start_demo :: "nat \<Rightarrow> start_env" where
  "start_demo i = \<lparr>se_common = std_common, se_ip6any = replicate 16 0, se_hb_mems = (True, True), se_sock = True, se_bind_ok = True,
     se_strdup_call = True, se_strdup_secret = True, se_hb = demo_env, se_fd = 4, se_double = (\<lambda>_. 0),
     se_hb_init = replicate 4 True, se_hb_reg = (True, True, True), se_poll = True, se_mm_mems = replicate 5 True,
     se_found = True, se_line_fd = 0, se_open_fd = 5, se_mm = demo_mm_env, se_mm_init = (True, True),
     se_serial = replicate 7 True, se_write = replicate 200 (Wrote 10), se_mm_reg = (True, True)\<rparr>"

definition start_config :: config_t where
  "start_config = demo_config\<lparr>cf_proto := map (\<lambda>p. case pt_settings p of
       Homebrew_settings h \<Rightarrow> p\<lparr>pt_settings := Homebrew_settings (h\<lparr>hs_auth := Some ''secret'', hs_call := Some ''N0CALL'',
         hs_repeater_id := 9, hs_rx_freq := 433787500\<rparr>)\<rparr>
     | _ \<Rightarrow> p) (cf_proto demo_config)\<rparr>"

definition start_sys :: psys where
  "start_sys = sys_init \<lparr>pw_hb = (\<lambda>_. None), pw_mm = (\<lambda>_. None), pw_sock = (\<lambda>_. 0), pw_serial = (\<lambda>_. 0), pw_sent = [],
     pw_freed = [], pw_calls = 0\<rparr>"

definition start_ok :: "(int \<times> repeater option \<times> psys) option \<Rightarrow> bool" where
  "start_ok res = (case res of Some (r, Some rptr, s) \<Rightarrow> r = 0 | _ \<Rightarrow> False)"

text \<open>Its connections, step by step.\<close>

definition start_modem :: dmr_mmdvm where
  "start_modem = the (the (dmr_mmdvm_new (replicate 5 True) True (bytes_of ''/dev/ttyACM0'') 115200 DMR_MMDVM_MODEL_G4KLX 1))"

definition start_settings :: homebrew_settings where
  "start_settings = the (homebrew_of (cf_proto start_config ! 1))"

definition start_homebrew :: dmr_homebrew where
  "start_homebrew = the (dmr_homebrew_new std_common (replicate 16 0) (True, True) True True 9 (replicate 16 1) 62030 zero_ip 0)"

lemma start_new:
  "dmr_mmdvm_new (replicate 5 True) True (bytes_of ''/dev/ttyACM0'') 115200 DMR_MMDVM_MODEL_G4KLX 1 = Some (Some start_modem)"
  "dmr_homebrew_new std_common (replicate 16 0) (True, True) True True 9 (replicate 16 1) 62030 zero_ip 0 = Some start_homebrew"
  by code_simp (simp add: start_homebrew_def dmr_homebrew_new_def std_common_def zero_ip_def Cons_replicate_eq)

lemma start_modem_opens:
  "\<exists>mm out ws. mmdvm_io_init demo_mm_env (True, True) (replicate 7 True) (Some (start_modem\<lparr>mm_rx_freq := 0, mm_tx_freq := 0\<rparr>))
     (replicate 200 (Wrote 10)) = Some (0, Some mm, out, ws)"
proof -
  have "case mmdvm_io_init demo_mm_env (True, True) (replicate 7 True) (Some (start_modem\<lparr>mm_rx_freq := 0, mm_tx_freq := 0\<rparr>))
     (replicate 200 (Wrote 10)) of Some (r, Some mm, out, ws) \<Rightarrow> r = 0 | _ \<Rightarrow> False" by code_simp
  then show ?thesis by (auto split: option.splits)
qed

lemma start_homebrew_logs_in:
  "\<exists>hb frames. dmr_homebrew_auth demo_env True (Some (start_homebrew\<lparr>hb_config := homebrew_configured (start_demo 1) start_settings ''N0CALL'' (hb_config start_homebrew)\<rparr>))
     (Some (bytes_of ''secret'')) = Some (0, Some hb, frames) \<and> hb_sock hb"
proof -
  have "case dmr_homebrew_auth demo_env True (Some (start_homebrew\<lparr>hb_config := homebrew_configured (start_demo 1) start_settings ''N0CALL'' (hb_config start_homebrew)\<rparr>))
     (Some (bytes_of ''secret'')) of Some (r, Some hb, frames) \<Rightarrow> r = 0 \<and> hb_sock hb | _ \<Rightarrow> False" by code_simp
  then show ?thesis by (auto split: option.splits)
qed

lemma start_protocols:
  "cf_proto start_config = [mmdvm_defaults\<lparr>pt_name := Some ''modem'', pt_settings := Mmdvm_settings
       \<lparr>ms_port = Some ''/dev/ttyACM0'', ms_baud = 115200, ms_model = DMR_MMDVM_MODEL_G4KLX, ms_color_code = 1, ms_rx_freq = 0, ms_tx_freq = 0\<rparr>\<rparr>,
     (homebrew_defaults demo_cfg_env)\<lparr>pt_settings := Homebrew_settings start_settings\<rparr>]"
  "hs_repeater_id start_settings = 9" "hs_peer_ip start_settings = replicate 16 1" "hs_peer_port start_settings = 62030"
  "hs_bind_ip start_settings = zero_ip" "hs_bind_port start_settings = 0" "hs_call start_settings = Some ''N0CALL''"
  "hs_auth start_settings = Some ''secret''"
  by (simp_all add: start_config_def start_settings_def demo_config_def homebrew_of_def)

lemma start_init:
  assumes "dmr_homebrew_auth demo_env True (Some (start_homebrew\<lparr>hb_config := homebrew_configured (start_demo 1) start_settings ''N0CALL'' (hb_config start_homebrew)\<rparr>))
     (Some (bytes_of ''secret'')) = Some (0, Some hb, frames)"
  shows "init_proto_homebrew (start_demo 1) q start_settings s = do {
      (r, s') \<leftarrow> dmr_io_reg_read True (Some q) 4 POLL_HOMEBREW (sys_brk s) False (io_alloc (put_homebrew (sys_brk s) (Some hb) 4 frames s));
      Some (0, Some (sys_brk s, 4), s') }"
  using assms by (simp add: init_proto_homebrew_def start_protocols start_new start_demo_def Let_def)

lemma start_demo_runs:
  "\<exists>rep s'. init_repeater start_demo True (replicate 10 True) (True, True) \<lparr>tv_sec = 0, tv_usec = 0\<rparr> [] start_config start_sys = Some (0, Some rep, s')"
proof -
  obtain mm out ws where mm: "mmdvm_io_init demo_mm_env (True, True) (replicate 7 True) (Some (start_modem\<lparr>mm_rx_freq := 0, mm_tx_freq := 0\<rparr>))
     (replicate 200 (Wrote 10)) = Some (0, Some mm, out, ws)" using start_modem_opens by blast
  obtain hb frames where hb: "dmr_homebrew_auth demo_env True (Some (start_homebrew\<lparr>hb_config := homebrew_configured (start_demo 1) start_settings ''N0CALL'' (hb_config start_homebrew)\<rparr>))
     (Some (bytes_of ''secret'')) = Some (0, Some hb, frames)" "hb_sock hb" using start_homebrew_logs_in by blast
  obtain hb' where hb': "homebrew_io_init (replicate 4 True) (Some hb) = (0, Some hb')" "hb_sock hb'"
    using hb(2) by (auto simp: homebrew_io_init_def dmr_packetq_new_def dmr_rawq_new_def Let_def)
  have modem: "\<exists>s1 s2. init_proto (start_demo 0) q (cf_proto start_config ! 0) s = Some (0, Some (sys_brk s, 0), s1) \<and>
      add_protocol (start_demo 0) q (cf_proto start_config ! 0) (sys_brk s) s1 = Some (0, s2) \<and> sys_io s2 q \<noteq> None"
    if "sys_io s q = Some io" for q s io
    using that mm
    by (simp add: init_proto_def start_protocols mmdvm_of_def init_proto_mmdvm_def start_demo_def start_new Let_def dmr_io_reg_read_def
        dmr_io_reg_error_def io_api_def put_mmdvm_def io_alloc_def put_io_def in_world_def FD_SET_def FD_SETSIZE_def add_protocol_def
        dmr_io_add_protocol_def opening_mmdvm_def dmr_mmdvm_protocol_def mm_protocol_init_def mmdvm_io_register_def)
  have master: "\<exists>s1 s2. init_proto (start_demo 1) q (cf_proto start_config ! 1) s = Some (0, Some (sys_brk s, 4), s1) \<and>
      add_protocol (start_demo 1) q (cf_proto start_config ! 1) (sys_brk s) s1 = Some (0, s2) \<and> sys_io s2 q \<noteq> None"
    if "sys_io s q = Some io" for q s io
    using that hb' start_init [OF hb(1)]
    by (simp add: init_proto_def start_protocols homebrew_of_def start_demo_def Let_def dmr_io_reg_read_def dmr_io_reg_timer_def
        dmr_io_reg_error_def io_api_def put_homebrew_def io_alloc_def put_io_def in_world_def FD_SET_def FD_SETSIZE_def add_protocol_def
        dmr_io_add_protocol_def dmr_homebrew_protocol_def hb_protocol_init_def homebrew_io_register_def)
  let ?ps = "[cf_proto start_config ! 0, cf_proto start_config ! 1]"
  have protos: "\<exists>ps s'. init_protos start_demo q 0 ?ps s = Some (0, ps, s')" if s: "sys_io s q = Some io" for q s io
  proof -
    obtain s1 s2 io2 where 1: "init_proto (start_demo 0) q (?ps ! 0) s = Some (0, Some (sys_brk s, 0), s1)"
      "add_protocol (start_demo 0) q (?ps ! 0) (sys_brk s) s1 = Some (0, s2)" "sys_io s2 q = Some io2" using modem [OF s] by auto
    obtain s3 s4 where "init_proto (start_demo 1) q (?ps ! 1) s2 = Some (0, Some (sys_brk s2, 4), s3)"
      "add_protocol (start_demo 1) q (?ps ! 1) (sys_brk s2) s3 = Some (0, s4)" using master [OF 1(3)] by auto
    with 1 show ?thesis by simp
  qed
  have ps: "cf_proto start_config = ?ps" by (simp add: start_protocols)
  obtain q s1 where new: "dmr_io_new (replicate 10 True) \<lparr>tv_sec = 0, tv_usec = 0\<rparr> start_sys = (Some q, s1)" "sys_io s1 q \<noteq> None"
    by (auto simp: dmr_io_new_def nth_Cons' eval_nat_numeral put_io_def io_alloc_def)
  have "\<exists>s2. dmr_io_reg_signal (True, True) (Some q) SIGINT STOP_REPEATER 0 True s1 = Some (0, s2) \<and> sys_io s2 q \<noteq> None"
    using new(2) by (cases "\<exists>g \<in> set (sys_sigs s1). sig_io g = q \<and> sig_sig g = SIGINT")
      (auto simp: dmr_io_reg_signal_def io_api_def io_sig_add_def put_io_def io_alloc_def Let_def)
  then obtain s2 io where sig: "dmr_io_reg_signal (True, True) (Some q) SIGINT STOP_REPEATER 0 True s1 = Some (0, s2)" "sys_io s2 q = Some io"
    by blast
  obtain ps s' where "init_protos start_demo q 0 ?ps (put_io q (io\<lparr>io_default := \<lparr>tv_sec = 1, tv_usec = 0\<rparr>\<rparr>) s2) = Some (0, ps, s')"
    using protos [of "put_io q (io\<lparr>io_default := \<lparr>tv_sec = 1, tv_usec = 0\<rparr>\<rparr>) s2" q] by (auto simp: put_io_def)
  with new sig ps show ?thesis by (simp add: init_repeater_def Let_def)
qed

lemma start_demo_ok: "sys_inv start_sys" "\<forall>i. se_poll (start_demo i)"
  by (simp_all add: start_sys_def sys_init_def sys_inv_def start_demo_def)

theorem started_repeater_is_connected_witness:
  "\<exists>rep s'. init_repeater start_demo True (replicate 10 True) (True, True) \<lparr>tv_sec = 0, tv_usec = 0\<rparr> [] start_config start_sys = Some (0, Some rep, s') \<and>
     sys_inv s' \<and> length (rep_protos rep) = 2 \<and>
     (\<exists>a hb. proto_instance (rep_protos rep ! 1) = Some a \<and> pw_hb (sys_world s') a = Some hb \<and>
        cfg_rx_freq (hb_config hb) = 0x126c \<and> cfg_color_code (hb_config hb) = 0)"
proof -
  obtain rp s' where run: "init_repeater start_demo True (replicate 10 True) (True, True) \<lparr>tv_sec = 0, tv_usec = 0\<rparr> [] start_config start_sys = Some (0, Some rp, s')"
    using start_demo_runs by blast
  from started_repeater_is_connected [OF run start_demo_ok] have rp: "sys_inv s'" "length (rep_protos rp) = 2"
    and con: "\<forall>i < 2. connected (start_demo i) (cf_proto start_config ! i) (rep_protos rp ! i) (sys_world s')"
    by (auto simp: start_protocols(1))
  have "connected (start_demo 1) (cf_proto start_config ! 1) (rep_protos rp ! 1) (sys_world s')" using con by simp
  then have "\<exists>a hb. proto_instance (rep_protos rp ! 1) = Some a \<and> pw_hb (sys_world s') a = Some hb \<and>
      cfg_rx_freq (hb_config hb) = ucast (hs_rx_freq start_settings) \<and> cfg_color_code (hb_config hb) = 0"
    by (auto simp: connected_def start_protocols(1) split: option.splits)
  moreover have "(ucast (hs_rx_freq start_settings) :: u16) = 0x126c"
    by (simp add: start_settings_def start_config_def demo_config_def homebrew_of_def)
  ultimately show ?thesis using run rp by auto
qed

theorem opened_modem_is_not_polled_witness:
  "\<exists>rep s' io a. init_repeater start_demo True (replicate 10 True) (True, True) \<lparr>tv_sec = 0, tv_usec = 0\<rparr> [] start_config start_sys = Some (0, Some rep, s') \<and>
     proto_instance (rep_protos rep ! 0) = Some a \<and> sys_io s' (rep_io rep) = Some io \<and>
     (POLL_MMDVM, a, 0) \<in> set (poll_list io) \<and> (POLL_MMDVM, a, 5) \<notin> set (poll_list io)"
proof -
  obtain rp s' where run: "init_repeater start_demo True (replicate 10 True) (True, True) \<lparr>tv_sec = 0, tv_usec = 0\<rparr> [] start_config start_sys = Some (0, Some rp, s')"
    using start_demo_runs by blast
  have "0 < length (cf_proto start_config)" "pt_settings (cf_proto start_config ! 0) = Mmdvm_settings
       \<lparr>ms_port = Some ''/dev/ttyACM0'', ms_baud = 115200, ms_model = DMR_MMDVM_MODEL_G4KLX, ms_color_code = 1, ms_rx_freq = 0, ms_tx_freq = 0\<rparr>"
    "se_line_fd (start_demo 0) \<noteq> se_open_fd (start_demo 0)" "se_line_fd (start_demo 0) = 0" by (simp_all add: start_protocols(1) start_demo_def)
  from opened_modem_is_not_polled [OF run start_demo_ok this(1-3)] this(4) run show ?thesis by fastforce
qed

end
